(* ===== verification/Prelude.thy ===== *)
theory Prelude
  imports Main "HOL-Library.Word" "HOL-Library.Char_ord"
begin

text \<open>
  Shared vocabulary of the development: the machine integers of the Go code, results with
  errors as values, Go slices with their bounds check written out, big-endian integers on
  octet lists, and the conversion between Go strings and octet slices. Every component
  theory imports this one.
\<close>

unbundle bit_operations_syntax

subsection \<open>Machine integers\<close>

type_synonym byte = "8 word"
type_synonym u16 = "16 word"
type_synonym u32 = "32 word"
type_synonym u64 = "64 word"

text \<open>
  \<open>bits\<close> collects the facts about bytes and words that move between widths; \<open>wire\<close> the
  length and round-trip facts of the wire encodings.
\<close>

named_theorems wire "lengths and round trips of wire encodings"

subsection \<open>Results: a value or an error\<close>

definition and_then :: "'e + 'a \<Rightarrow> ('a \<Rightarrow> 'e + 'b) \<Rightarrow> 'e + 'b" where
  "and_then r k = (case r of Inl e \<Rightarrow> Inl e | Inr x \<Rightarrow> k x)"

lemma and_then_simps [simp]:
  "and_then (Inl e) k = Inl e"
  "and_then (Inr x) k = k x"
  by (simp_all add: and_then_def)

lemma and_then_Inr_iff:
  "and_then r k = Inr y \<longleftrightarrow> (\<exists>x. r = Inr x \<and> k x = Inr y)"
  by (cases r) auto

lemma and_then_Inl_iff:
  "and_then r k = Inl e \<longleftrightarrow> r = Inl e \<or> (\<exists>x. r = Inr x \<and> k x = Inl e)"
  by (cases r) auto

lemma and_then_if:
  "and_then (if b then r else s) k = (if b then and_then r k else and_then s k)"
  by simp

lemma and_then_cong [fundef_cong]:
  "r = s \<Longrightarrow> (\<And>x. s = Inr x \<Longrightarrow> k x = l x) \<Longrightarrow> and_then r k = and_then s l"
  by (cases s) auto

subsection \<open>Big-endian integers\<close>

text \<open>
  \<open>encoding/binary\<close>'s \<open>BigEndian\<close>: \<open>AppendUint16\<close>, \<open>AppendUint32\<close>, \<open>Uint16\<close> and
  \<open>Uint32\<close>, by shifts and ors as that package documents them.
\<close>

definition put16 :: "u16 \<Rightarrow> byte list" where
  "put16 v = [ucast (drop_bit 8 v), ucast v]"

definition put32 :: "u32 \<Rightarrow> byte list" where
  "put32 v = [ucast (drop_bit 24 v), ucast (drop_bit 16 v), ucast (drop_bit 8 v), ucast v]"

definition get16 :: "byte list \<Rightarrow> u16" where
  "get16 b = push_bit 8 (ucast (b ! 0)) OR ucast (b ! 1)"

definition get32 :: "byte list \<Rightarrow> u32" where
  "get32 b = push_bit 24 (ucast (b ! 0)) OR push_bit 16 (ucast (b ! 1))
           OR push_bit 8 (ucast (b ! 2)) OR ucast (b ! 3)"

lemma length_put16 [simp, wire]: "length (put16 v) = 2"
  by (simp add: put16_def)

lemma length_put32 [simp, wire]: "length (put32 v) = 4"
  by (simp add: put32_def)

lemma bit_byte_beyond: "8 \<le> n \<Longrightarrow> \<not> bit (b :: byte) n"
  by (auto dest: bit_imp_le_length)

lemma get16_put16 [simp, wire]: "get16 (put16 v) = v"
  unfolding get16_def put16_def
  by (rule bit_word_eqI) (auto simp: bit_simps)

lemma get32_put32 [simp, wire]: "get32 (put32 v) = v"
proof (rule bit_word_eqI)
  fix n assume "n < LENGTH(32)"
  then consider "n < 8" | "8 \<le> n" "n < 16" | "16 \<le> n" "n < 24" | "24 \<le> n" "n < 32"
    by fastforce
  then show "bit (get32 (put32 v)) n \<longleftrightarrow> bit v n"
    by cases (auto simp: get32_def put32_def bit_simps)
qed

lemma put16_get16: "length b = 2 \<Longrightarrow> put16 (get16 b) = b"
proof -
  have *: "put16 (get16 [x, y]) = [x, y]" for x y
    by (auto simp: get16_def put16_def bit_simps bit_byte_beyond intro!: bit_word_eqI)
  assume "length b = 2"
  then obtain x y where "b = [x, y]"
    by (auto simp: numeral_eq_Suc length_Suc_conv)
  with * show ?thesis by simp
qed

lemma list4_cases: "length b = 4 \<Longrightarrow> \<exists>x y z w. b = [x, y, z, w]"
  by (auto simp: numeral_eq_Suc length_Suc_conv)

lemma put32_get32: "length b = 4 \<Longrightarrow> put32 (get32 b) = b"
proof -
  have *: "put32 (get32 [x, y, z, w]) = [x, y, z, w]" for x y z w
    by (auto simp: get32_def put32_def bit_simps bit_byte_beyond intro!: bit_word_eqI)
  assume "length b = 4"
  with * show ?thesis using list4_cases by fastforce
qed

subsection \<open>Slices\<close>

text \<open>
  \<open>slice xs lo hi\<close> is Go's \<open>xs[lo:hi]\<close>: \<open>None\<close> where the bounds check panics. The capacity of
  a slice is taken to be its length, the strictest reading.
\<close>

definition slice :: "'a list \<Rightarrow> nat \<Rightarrow> nat \<Rightarrow> 'a list option" where
  "slice xs lo hi = (if lo \<le> hi \<and> hi \<le> length xs then Some (take (hi - lo) (drop lo xs)) else None)"

text \<open>\<open>at xs i\<close> is the indexing \<open>xs[i]\<close>, \<open>None\<close> where it panics.\<close>

definition at :: "'a list \<Rightarrow> nat \<Rightarrow> 'a option" where
  "at xs i = (if i < length xs then Some (xs ! i) else None)"

lemma slice_Some [simp]:
  "lo \<le> hi \<Longrightarrow> hi \<le> length xs \<Longrightarrow> slice xs lo hi = Some (take (hi - lo) (drop lo xs))"
  by (simp add: slice_def)

lemma slice_None [simp]: "length xs < hi \<Longrightarrow> slice xs lo hi = None"
  by (simp add: slice_def)

lemma slice_eq_SomeD: "slice xs lo hi = Some ys \<Longrightarrow>
    lo \<le> hi \<and> hi \<le> length xs \<and> ys = take (hi - lo) (drop lo xs) \<and> length ys = hi - lo"
  by (auto simp: slice_def split: if_splits)

lemma at_Some [simp]: "i < length xs \<Longrightarrow> at xs i = Some (xs ! i)"
  by (simp add: at_def)

lemma at_None [simp]: "length xs \<le> i \<Longrightarrow> at xs i = None"
  by (simp add: at_def)

subsection \<open>Go strings and octet slices\<close>

text \<open>
  A Go string is a sequence of octets, and so is a HOL \<open>string\<close> (a \<open>char\<close> has eight bits).
  \<open>bytes_of\<close> is the conversion \<open>[]byte(s)\<close>, \<open>string_of\<close> the conversion \<open>string(b)\<close>.
\<close>

definition byte_of_char :: "char \<Rightarrow> byte" where
  "byte_of_char c = word_of_nat (of_char c)"

definition char_of_byte :: "byte \<Rightarrow> char" where
  "char_of_byte b = char_of (unat b)"

definition bytes_of :: "string \<Rightarrow> byte list" where
  "bytes_of s = List.map byte_of_char s"

definition string_of :: "byte list \<Rightarrow> string" where
  "string_of b = List.map char_of_byte b"

lemma unat_byte_less: "unat (b :: byte) < 256"
  using unsigned_less [of b, where ?'a = nat] by simp

lemma char_of_byte_of_char [simp]: "char_of_byte (byte_of_char c) = c"
  by (simp add: char_of_byte_def byte_of_char_def unat_of_nat)

lemma byte_of_char_of_byte [simp]: "byte_of_char (char_of_byte b) = b"
proof -
  have "unat b mod 256 = unat b"
    using unat_byte_less [of b] by simp
  then show ?thesis
    by (simp add: char_of_byte_def byte_of_char_def)
qed

lemma string_of_bytes_of [simp]: "string_of (bytes_of s) = s"
  by (simp add: string_of_def bytes_of_def o_def)

lemma bytes_of_string_of [simp]: "bytes_of (string_of b) = b"
  by (simp add: string_of_def bytes_of_def o_def)

lemma length_bytes_of [simp]: "length (bytes_of s) = length s"
  by (simp add: bytes_of_def)

lemma length_string_of [simp]: "length (string_of b) = length b"
  by (simp add: string_of_def)

lemma bytes_of_inject [simp]: "bytes_of s = bytes_of t \<longleftrightarrow> s = t"
  by (metis string_of_bytes_of)

subsection \<open>Small facts about words and lists\<close>

lemma unat_word_of_nat_small:
  "n < 2 ^ LENGTH('a::len) \<Longrightarrow> unat (word_of_nat n :: 'a word) = n"
  by (simp add: unat_of_nat take_bit_nat_eq_self)

lemma unat_of_nat32 [simp]: "n < 4294967296 \<Longrightarrow> unat (word_of_nat n :: u32) = n"
  by (rule unat_word_of_nat_small) simp

lemma take_bit_word_self_iff: "take_bit n (w :: 'a::len word) = w \<longleftrightarrow> unat w < 2 ^ n"
  by (simp add: word_eq_iff_unsigned [where ?'a = nat] unsigned_take_bit_eq
      take_bit_nat_eq_self_iff)

lemma unat_ucast_byte32 [simp]: "unat (ucast (b :: byte) :: u32) = unat b"
proof -
  have "unat b < 4294967296" using unat_byte_less [of b] by linarith
  then show ?thesis by (simp add: unsigned_ucast_eq take_bit_nat_eq_self)
qed

lemma take_append_exact [simp]: "n = length xs \<Longrightarrow> take n (xs @ ys) = xs"
  by simp

lemma drop_append_exact [simp]: "n = length xs \<Longrightarrow> drop n (xs @ ys) = ys"
  by simp

text \<open>The top bit of an octet and the seven below it, which frames and HPACK both use.\<close>

lemma and_0x80_bit: "(b :: byte) AND 0x80 \<noteq> 0 \<longleftrightarrow> bit b 7"
  using and_exp_eq_0_iff_not_bit [of b 7] by simp

lemma bit_0x80: "bit (0x80 :: byte) n \<longleftrightarrow> n = 7"
  using bit_exp_iff [of 7 n, where ?'a = byte] by auto

lemma bit_or_0x80: "bit (y OR 0x80 :: byte) j \<longleftrightarrow> bit y j \<or> j = 7"
  by (simp only: bit_or_iff bit_0x80)

lemma bit_and_0x7f: "bit (y AND 0x7f :: byte) j \<longleftrightarrow> bit y j \<and> j < 7"
proof -
  have m: "(0x7f :: byte) = mask 7" by (simp add: mask_eq_exp_minus_1)
  show ?thesis unfolding m by (auto simp: bit_simps)
qed

end
