(* ===== verification/H2.thy ===== *)
theory H2
  imports Prelude
begin

text \<open>
  \<^verbatim>\<open>internal/h2/types.go\<close>: the header field, the error codes of RFC 9113 section 7, and the two
  scopes an error has. Go's \<open>error\<close> interface is the datatype \<open>error\<close>: a connection error, a
  stream error, a transport error, a package sentinel (\<open>errors.New\<close>) or a panic. The formatted
  reason of a \<open>ConnError\<close> or \<open>StreamError\<close> is diagnostics only and is left out.
\<close>

record field =
  Name :: string
  Value :: string
  Sensitive :: bool

type_synonym errcode = u32

definition NoError :: errcode where [simp]: "NoError = 0x0"
definition ProtocolError :: errcode where [simp]: "ProtocolError = 0x1"
definition InternalError :: errcode where [simp]: "InternalError = 0x2"
definition FlowControlError :: errcode where [simp]: "FlowControlError = 0x3"
definition SettingsTimeout :: errcode where [simp]: "SettingsTimeout = 0x4"
definition StreamClosed :: errcode where [simp]: "StreamClosed = 0x5"
definition FrameSizeError :: errcode where [simp]: "FrameSizeError = 0x6"
definition RefusedStream :: errcode where [simp]: "RefusedStream = 0x7"
definition Cancel :: errcode where [simp]: "Cancel = 0x8"
definition CompressionError :: errcode where [simp]: "CompressionError = 0x9"
definition ConnectError :: errcode where [simp]: "ConnectError = 0xa"
definition EnhanceYourCalm :: errcode where [simp]: "EnhanceYourCalm = 0xb"
definition InadequateSecurity :: errcode where [simp]: "InadequateSecurity = 0xc"
definition HTTP11Required :: errcode where [simp]: "HTTP11Required = 0xd"

definition errCodeNames :: "string list" where
  "errCodeNames =
     [''NO_ERROR'', ''PROTOCOL_ERROR'', ''INTERNAL_ERROR'', ''FLOW_CONTROL_ERROR'',
      ''SETTINGS_TIMEOUT'', ''STREAM_CLOSED'', ''FRAME_SIZE_ERROR'', ''REFUSED_STREAM'',
      ''CANCEL'', ''COMPRESSION_ERROR'', ''CONNECT_ERROR'', ''ENHANCE_YOUR_CALM'',
      ''INADEQUATE_SECURITY'', ''HTTP_1_1_REQUIRED'']"

text \<open>The lower-case hexadecimal digits that \<open>fmt\<close>'s \<open>%x\<close> prints.\<close>

fun hex :: "nat \<Rightarrow> string" where
  "hex n = (if n < 16 then [''0123456789abcdef'' ! n] else hex (n div 16) @ [''0123456789abcdef'' ! (n mod 16)])"

declare hex.simps [simp del]

definition ErrCode_String :: "errcode \<Rightarrow> string" where
  "ErrCode_String c =
     (if unat c < length errCodeNames then errCodeNames ! unat c
      else ''UNKNOWN_ERROR(0x'' @ hex (unat c) @ '')'')"

datatype io_error = EOF | UnexpectedEOF | ShortWrite | OtherIO nat

datatype error =
    ConnError errcode
  | StreamError u32 errcode
  | IoError io_error
  | Sentinel string
  | Panic

definition or_panic :: "'a option \<Rightarrow> error + 'a" where
  "or_panic r = (case r of None \<Rightarrow> Inl Panic | Some x \<Rightarrow> Inr x)"

lemma or_panic_simps [simp]:
  "or_panic None = Inl Panic"
  "or_panic (Some x) = Inr x"
  by (simp_all add: or_panic_def)

text \<open>An error of the connection or of one stream: what the protocol gives an answer to.\<close>

fun protocol_error :: "error \<Rightarrow> bool" where
  "protocol_error (ConnError _) = True"
| "protocol_error (StreamError _ _) = True"
| "protocol_error _ = False"

end
