(* ===== verification/FrameTypes.thy ===== *)
theory FrameTypes
  imports H2
begin

text \<open>
  \<^verbatim>\<open>internal/frame/types.go\<close>, \<^verbatim>\<open>header.go\<close> and \<^verbatim>\<open>padding.go\<close>: frame types, flags, the nine-octet
  frame header and the padding envelope.
\<close>

subsection \<open>Types, flags and protocol constants (types.go)\<close>

type_synonym frame_type = byte
type_synonym flags = byte

definition TypeData :: frame_type where [simp]: "TypeData = 0x0"
definition TypeHeaders :: frame_type where [simp]: "TypeHeaders = 0x1"
definition TypePriority :: frame_type where [simp]: "TypePriority = 0x2"
definition TypeRSTStream :: frame_type where [simp]: "TypeRSTStream = 0x3"
definition TypeSettings :: frame_type where [simp]: "TypeSettings = 0x4"
definition TypePushPromise :: frame_type where [simp]: "TypePushPromise = 0x5"
definition TypePing :: frame_type where [simp]: "TypePing = 0x6"
definition TypeGoAway :: frame_type where [simp]: "TypeGoAway = 0x7"
definition TypeWindowUpdate :: frame_type where [simp]: "TypeWindowUpdate = 0x8"
definition TypeContinuation :: frame_type where [simp]: "TypeContinuation = 0x9"
definition TypePriorityUpdate :: frame_type where [simp]: "TypePriorityUpdate = 0x10"

definition FlagEndStream :: flags where [simp]: "FlagEndStream = 0x1"
definition FlagAck :: flags where [simp]: "FlagAck = 0x1"
definition FlagEndHeaders :: flags where [simp]: "FlagEndHeaders = 0x4"
definition FlagPadded :: flags where [simp]: "FlagPadded = 0x8"
definition FlagPriority :: flags where [simp]: "FlagPriority = 0x20"

definition has :: "flags \<Rightarrow> flags \<Rightarrow> bool" where
  "has fl f \<longleftrightarrow> fl AND f = f"

definition set_flag :: "flags \<Rightarrow> flags \<Rightarrow> bool \<Rightarrow> flags" where
  "set_flag fl f cond = (if cond then fl OR f else fl)"

type_synonym setting_id = u16

definition SettingHeaderTableSize :: setting_id where [simp]: "SettingHeaderTableSize = 0x1"
definition SettingEnablePush :: setting_id where [simp]: "SettingEnablePush = 0x2"
definition SettingMaxConcurrentStreams :: setting_id where
  [simp]: "SettingMaxConcurrentStreams = 0x3"
definition SettingInitialWindowSize :: setting_id where [simp]: "SettingInitialWindowSize = 0x4"
definition SettingMaxFrameSize :: setting_id where [simp]: "SettingMaxFrameSize = 0x5"
definition SettingMaxHeaderListSize :: setting_id where [simp]: "SettingMaxHeaderListSize = 0x6"
definition SettingNoRFC7540Priorities :: setting_id where
  [simp]: "SettingNoRFC7540Priorities = 0x9"

definition HeaderLen :: nat where [simp]: "HeaderLen = 9"
definition MaxLength :: u32 where [simp]: "MaxLength = 0xffffff"
definition DefaultMaxFrameSize :: u32 where [simp]: "DefaultMaxFrameSize = 0x4000"
definition MaxWindowSize :: u32 where [simp]: "MaxWindowSize = 0x7fffffff"
definition streamIDMask :: u32 where "streamIDMask = 0x7fffffff"
definition priorityLen :: nat where [simp]: "priorityLen = 5"

text \<open>Masking with \<open>streamIDMask\<close> is truncation to 31 bits.\<close>

lemma streamIDMask_take_bit: "(v :: u32) AND streamIDMask = take_bit 31 v"
proof -
  have "(streamIDMask :: u32) = mask 31"
    by (simp add: streamIDMask_def mask_eq_exp_minus_1)
  then show ?thesis by (simp add: take_bit_eq_mask)
qed

lemma mask_le_iff: "(v :: u32) \<le> streamIDMask \<longleftrightarrow> v AND streamIDMask = v"
proof -
  have "v \<le> streamIDMask \<longleftrightarrow> unat v < 2 ^ 31"
    by (auto simp: word_le_nat_alt streamIDMask_def)
  also have "\<dots> \<longleftrightarrow> take_bit 31 v = v"
    by (simp only: take_bit_word_self_iff)
  finally show ?thesis
    by (simp add: streamIDMask_take_bit)
qed

lemma mask_of_le [simp]: "(v :: u32) \<le> streamIDMask \<Longrightarrow> v AND streamIDMask = v"
  by (simp add: mask_le_iff)

lemma mask_le [simp]: "(v :: u32) AND streamIDMask \<le> streamIDMask"
  by (simp add: mask_le_iff and.assoc)

lemma has_zero [simp]: "has 0 f \<longleftrightarrow> f = 0"
  by (auto simp: has_def)

subsection \<open>The frame header (header.go)\<close>

record header =
  h_Length :: u32
  h_Type :: frame_type
  h_Flags :: flags
  h_StreamID :: u32

text \<open>
  \<open>ParseHeader\<close> indexes the nine octets it is given and panics on fewer.
\<close>

definition ParseHeader :: "byte list \<Rightarrow> error + header" where
  "ParseHeader b =
     and_then (or_panic (at b 0)) (\<lambda>b0.
     and_then (or_panic (at b 1)) (\<lambda>b1.
     and_then (or_panic (at b 2)) (\<lambda>b2.
     and_then (or_panic (at b 3)) (\<lambda>b3.
     and_then (or_panic (at b 4)) (\<lambda>b4.
     and_then (or_panic (slice b 5 HeaderLen)) (\<lambda>id.
       Inr \<lparr>h_Length = push_bit 16 (ucast b0) OR push_bit 8 (ucast b1) OR ucast b2,
            h_Type = b3, h_Flags = b4,
            h_StreamID = get32 id AND streamIDMask\<rparr>))))))"

definition Header_AppendTo :: "header \<Rightarrow> byte list \<Rightarrow> byte list" where
  "Header_AppendTo h dst = dst @
     [ucast (drop_bit 16 (h_Length h)), ucast (drop_bit 8 (h_Length h)), ucast (h_Length h),
      h_Type h, h_Flags h,
      ucast (drop_bit 24 (h_StreamID h)) AND 0x7f, ucast (drop_bit 16 (h_StreamID h)),
      ucast (drop_bit 8 (h_StreamID h)), ucast (h_StreamID h)]"

lemma length_Header_AppendTo [simp, wire]:
  "length (Header_AppendTo h dst) = length dst + 9"
  by (simp add: Header_AppendTo_def)

lemma Header_AppendTo_dst: "Header_AppendTo h dst = dst @ Header_AppendTo h []"
  by (simp add: Header_AppendTo_def)

lemma length_field_roundtrip:
  assumes "n \<le> MaxLength"
  shows "push_bit 16 (ucast (ucast (drop_bit 16 n) :: byte)) OR
         push_bit 8 (ucast (ucast (drop_bit 8 n) :: byte)) OR ucast (ucast n :: byte) = (n :: u32)"
proof (rule bit_word_eqI)
  fix i assume "i < LENGTH(32)"
  have "take_bit 24 n = n"
    using assms by (simp add: take_bit_word_self_iff word_le_nat_alt)
  then have hi: "24 \<le> j \<Longrightarrow> \<not> bit n j" for j
    by (metis bit_take_bit_iff not_less)
  from \<open>i < LENGTH(32)\<close> consider "i < 8" | "8 \<le> i" "i < 16" | "16 \<le> i" "i < 24" | "24 \<le> i"
    by fastforce
  then show "bit (push_bit 16 (ucast (ucast (drop_bit 16 n) :: byte)) OR
         push_bit 8 (ucast (ucast (drop_bit 8 n) :: byte)) OR ucast (ucast n :: byte) :: u32) i
       \<longleftrightarrow> bit n i"
    using \<open>i < LENGTH(32)\<close> by cases (auto simp: bit_simps hi)
qed

lemma stream_field_roundtrip:
  "get32 [ucast (drop_bit 24 v) AND 0x7f, ucast (drop_bit 16 v), ucast (drop_bit 8 v), ucast v]
     AND streamIDMask = v AND streamIDMask"
proof -
  have m: "(0x7f :: byte) = mask 7" by (simp add: mask_eq_exp_minus_1)
  show ?thesis
  proof (rule bit_word_eqI)
    fix n assume "n < LENGTH(32)"
    then consider "n < 8" | "8 \<le> n" "n < 16" | "16 \<le> n" "n < 24" | "24 \<le> n" "n < 32"
      by fastforce
    then show "bit (get32 [ucast (drop_bit 24 v) AND 0x7f, ucast (drop_bit 16 v),
        ucast (drop_bit 8 v), ucast v] AND streamIDMask) n \<longleftrightarrow> bit (v AND streamIDMask) n"
      unfolding m streamIDMask_take_bit
      by cases (auto simp: get32_def bit_simps simp del: take_bit_eq_mask)
  qed
qed

lemma ParseHeader_AppendTo [wire]:
  assumes "h_Length h \<le> MaxLength" "h_StreamID h \<le> streamIDMask"
  shows "ParseHeader (Header_AppendTo h []) = Inr h"
  using assms length_field_roundtrip [OF assms(1)] stream_field_roundtrip [of "h_StreamID h"]
  by (simp add: ParseHeader_def Header_AppendTo_def)

lemma ParseHeader_total:
  "length b = 9 \<Longrightarrow> \<exists>h. ParseHeader b = Inr h \<and> h_StreamID h \<le> streamIDMask"
  by (simp add: ParseHeader_def)

lemma ParseHeader_length_le:
  assumes "ParseHeader b = Inr h"
  shows "h_Length h \<le> MaxLength"
proof -
  obtain x y z :: byte where
    h: "h_Length h = push_bit 16 (ucast x) OR push_bit 8 (ucast y) OR ucast z"
    using assms by (auto simp: ParseHeader_def and_then_Inr_iff)
  have "take_bit 24 (h_Length h) = h_Length h"
    unfolding h by (rule bit_word_eqI) (auto simp: bit_simps bit_byte_beyond)
  then show ?thesis
    by (simp add: take_bit_word_self_iff word_le_nat_alt)
qed

subsection \<open>The padding envelope (padding.go)\<close>

definition padOverhead :: u32 where [simp]: "padOverhead = 1"
definition maxPadLen :: nat where [simp]: "maxPadLen = 255"
definition zeroPad :: "byte list" where "zeroPad = replicate maxPadLen 0"

text \<open>
  The subtraction \<open>h.Length - uint32(padLen)\<close> is in 32 bits and would wrap; the check before it
  is what keeps it from doing so.
\<close>

definition splitPadding :: "header \<Rightarrow> byte list \<Rightarrow> error + (byte list \<times> byte)" where
  "splitPadding h payload =
     (if \<not> has (h_Flags h) FlagPadded then
        and_then (or_panic (slice payload 0 (unat (h_Length h)))) (\<lambda>c. Inr (c, 0))
      else if h_Length h < padOverhead then Inl (ConnError FrameSizeError)
      else and_then (or_panic (at payload 0)) (\<lambda>padLen.
        if ucast padLen \<ge> h_Length h then Inl (ConnError ProtocolError)
        else and_then (or_panic (slice payload (unat padOverhead)
                 (unat (h_Length h - ucast padLen)))) (\<lambda>c. Inr (c, padLen))))"

definition paddedLen :: "bool \<Rightarrow> byte \<Rightarrow> nat \<Rightarrow> u32" where
  "paddedLen padded padLen contentLen =
     (let n = word_of_nat contentLen
      in if padded then n + (padOverhead + ucast padLen) else n)"

definition appendPadded :: "byte list \<Rightarrow> bool \<Rightarrow> byte \<Rightarrow> byte list \<Rightarrow> byte list" where
  "appendPadded dst padded padLen content =
     (if \<not> padded then dst @ content
      else dst @ [padLen] @ content @ take (unat padLen) zeroPad)"

end
