(* ===== verification/FrameCodec.thy ===== *)
theory FrameCodec
  imports FrameTypes
begin

text \<open>
  The frame types of \<^verbatim>\<open>internal/frame\<close>, one section per source file: the struct as a record,
  the methods \<open>Flags\<close>, \<open>PayloadLen\<close> and \<open>appendPayload\<close>, and the payload parser. A \<open>nil\<close>
  slice and an empty one are the same list. The closed \<open>Frame\<close> interface is a datatype with
  one constructor per implementation.
\<close>

subsection \<open>The structs\<close>

record data_frame =
  df_StreamID :: u32
  df_EndStream :: bool
  df_Data :: "byte list"
  df_Padded :: bool
  df_PadLen :: byte

record headers_frame =
  hf_StreamID :: u32
  hf_EndStream :: bool
  hf_EndHeaders :: bool
  hf_Fragment :: "byte list"
  hf_Priority :: bool
  hf_Exclusive :: bool
  hf_StreamDependency :: u32
  hf_Weight :: byte
  hf_Padded :: bool
  hf_PadLen :: byte

record priority_frame =
  pf_StreamID :: u32
  pf_Exclusive :: bool
  pf_StreamDependency :: u32
  pf_Weight :: byte

record rst_frame =
  rf_StreamID :: u32
  rf_ErrCode :: errcode

record setting =
  ID :: setting_id
  SValue :: u32

record settings_frame =
  sf_Ack :: bool
  sf_Settings :: "setting list"

record push_promise_frame =
  pp_StreamID :: u32
  pp_PromisedID :: u32
  pp_EndHeaders :: bool
  pp_Fragment :: "byte list"
  pp_Padded :: bool
  pp_PadLen :: byte

record ping_frame =
  pg_Ack :: bool
  pg_Data :: "byte list"

record goaway_frame =
  gf_LastStreamID :: u32
  gf_ErrCode :: errcode
  gf_Debug :: "byte list"

record window_update_frame =
  wf_StreamID :: u32
  wf_Increment :: u32

record continuation_frame =
  cf_StreamID :: u32
  cf_EndHeaders :: bool
  cf_Fragment :: "byte list"

record priority_update_frame =
  pu_PrioritizedStreamID :: u32
  pu_Field :: string

datatype frame =
    DataFrame data_frame
  | HeadersFrame headers_frame
  | PriorityFrame priority_frame
  | RSTStreamFrame rst_frame
  | SettingsFrame settings_frame
  | PushPromiseFrame push_promise_frame
  | PingFrame ping_frame
  | GoAwayFrame goaway_frame
  | WindowUpdateFrame window_update_frame
  | ContinuationFrame continuation_frame
  | PriorityUpdateFrame priority_update_frame

subsection \<open>DATA (data.go)\<close>

definition Data_Flags :: "data_frame \<Rightarrow> flags" where
  "Data_Flags f = set_flag (set_flag 0 FlagEndStream (df_EndStream f)) FlagPadded (df_Padded f)"

definition Data_PayloadLen :: "data_frame \<Rightarrow> u32" where
  "Data_PayloadLen f = paddedLen (df_Padded f) (df_PadLen f) (length (df_Data f))"

definition Data_appendPayload :: "data_frame \<Rightarrow> byte list \<Rightarrow> byte list" where
  "Data_appendPayload f dst = appendPadded dst (df_Padded f) (df_PadLen f) (df_Data f)"

definition parseData :: "header \<Rightarrow> byte list \<Rightarrow> error + frame" where
  "parseData h payload =
     (if h_StreamID h = 0 then Inl (ConnError ProtocolError)
      else and_then (splitPadding h payload) (\<lambda>(content, padLen).
        Inr (DataFrame \<lparr>df_StreamID = h_StreamID h,
               df_EndStream = has (h_Flags h) FlagEndStream,
               df_Data = content,
               df_Padded = has (h_Flags h) FlagPadded,
               df_PadLen = padLen\<rparr>)))"

subsection \<open>PRIORITY and the priority block (priority.go)\<close>

definition parsePriorityBlock :: "byte list \<Rightarrow> error + (bool \<times> u32 \<times> byte)" where
  "parsePriorityBlock b =
     and_then (or_panic (at b 0)) (\<lambda>b0.
     and_then (or_panic (at b 1)) (\<lambda>b1.
     and_then (or_panic (at b 2)) (\<lambda>b2.
     and_then (or_panic (at b 3)) (\<lambda>b3.
     and_then (or_panic (at b 4)) (\<lambda>b4.
       Inr (b0 AND 0x80 \<noteq> 0,
            (push_bit 24 (ucast b0) OR push_bit 16 (ucast b1) OR push_bit 8 (ucast b2) OR ucast b3)
              AND streamIDMask,
            b4))))))"

definition appendPriorityBlock :: "byte list \<Rightarrow> bool \<Rightarrow> u32 \<Rightarrow> byte \<Rightarrow> byte list" where
  "appendPriorityBlock dst exclusive dep weight =
     (let hi = ucast (drop_bit 24 dep) AND 0x7f;
          hi = (if exclusive then hi OR 0x80 else hi)
      in dst @ [hi, ucast (drop_bit 16 dep), ucast (drop_bit 8 dep), ucast dep, weight])"

definition Priority_PayloadLen :: "priority_frame \<Rightarrow> u32" where
  "Priority_PayloadLen f = word_of_nat priorityLen"

definition Priority_appendPayload :: "priority_frame \<Rightarrow> byte list \<Rightarrow> byte list" where
  "Priority_appendPayload f dst =
     appendPriorityBlock dst (pf_Exclusive f) (pf_StreamDependency f) (pf_Weight f)"

definition parsePriority :: "header \<Rightarrow> byte list \<Rightarrow> error + frame" where
  "parsePriority h payload =
     (if h_StreamID h = 0 then Inl (ConnError ProtocolError)
      else if h_Length h \<noteq> word_of_nat priorityLen then
        Inl (StreamError (h_StreamID h) FrameSizeError)
      else and_then (parsePriorityBlock payload) (\<lambda>(exclusive, dep, weight).
        if dep = h_StreamID h then Inl (StreamError (h_StreamID h) ProtocolError)
        else Inr (PriorityFrame \<lparr>pf_StreamID = h_StreamID h, pf_Exclusive = exclusive,
                    pf_StreamDependency = dep, pf_Weight = weight\<rparr>)))"

subsection \<open>HEADERS (headers.go)\<close>

definition Headers_Flags :: "headers_frame \<Rightarrow> flags" where
  "Headers_Flags f =
     set_flag (set_flag (set_flag (set_flag 0 FlagEndStream (hf_EndStream f))
       FlagEndHeaders (hf_EndHeaders f)) FlagPadded (hf_Padded f)) FlagPriority (hf_Priority f)"

definition Headers_PayloadLen :: "headers_frame \<Rightarrow> u32" where
  "Headers_PayloadLen f =
     (let n = length (hf_Fragment f);
          n = (if hf_Priority f then n + priorityLen else n)
      in paddedLen (hf_Padded f) (hf_PadLen f) n)"

definition Headers_appendPayload :: "headers_frame \<Rightarrow> byte list \<Rightarrow> byte list" where
  "Headers_appendPayload f dst =
     (if \<not> hf_Priority f then appendPadded dst (hf_Padded f) (hf_PadLen f) (hf_Fragment f)
      else
        let content = appendPriorityBlock [] (hf_Exclusive f) (hf_StreamDependency f) (hf_Weight f);
            content = content @ hf_Fragment f
        in appendPadded dst (hf_Padded f) (hf_PadLen f) content)"

definition parseHeaders :: "header \<Rightarrow> byte list \<Rightarrow> error + frame" where
  "parseHeaders h payload =
     (if h_StreamID h = 0 then Inl (ConnError ProtocolError)
      else and_then (splitPadding h payload) (\<lambda>(content, padLen).
        let f = \<lparr>hf_StreamID = h_StreamID h,
                 hf_EndStream = has (h_Flags h) FlagEndStream,
                 hf_EndHeaders = has (h_Flags h) FlagEndHeaders,
                 hf_Fragment = [],
                 hf_Priority = has (h_Flags h) FlagPriority,
                 hf_Exclusive = False, hf_StreamDependency = 0, hf_Weight = 0,
                 hf_Padded = has (h_Flags h) FlagPadded,
                 hf_PadLen = padLen\<rparr>
        in if hf_Priority f then
             (if length content < priorityLen then Inl (ConnError FrameSizeError)
              else and_then (parsePriorityBlock (take priorityLen content))
                (\<lambda>(exclusive, dep, weight).
                   Inr (HeadersFrame (f\<lparr>hf_Exclusive := exclusive, hf_StreamDependency := dep,
                          hf_Weight := weight, hf_Fragment := drop priorityLen content\<rparr>))))
           else Inr (HeadersFrame (f\<lparr>hf_Fragment := content\<rparr>))))"

subsection \<open>RST_STREAM (rst.go)\<close>

definition rstStreamLen :: nat where [simp]: "rstStreamLen = 4"

definition RST_PayloadLen :: "rst_frame \<Rightarrow> u32" where
  "RST_PayloadLen f = word_of_nat rstStreamLen"

definition RST_appendPayload :: "rst_frame \<Rightarrow> byte list \<Rightarrow> byte list" where
  "RST_appendPayload f dst = dst @ put32 (rf_ErrCode f)"

definition parseRSTStream :: "header \<Rightarrow> byte list \<Rightarrow> error + frame" where
  "parseRSTStream h payload =
     (if h_StreamID h = 0 then Inl (ConnError ProtocolError)
      else if h_Length h \<noteq> word_of_nat rstStreamLen then Inl (ConnError FrameSizeError)
      else and_then (or_panic (slice payload 0 rstStreamLen)) (\<lambda>b.
        Inr (RSTStreamFrame \<lparr>rf_StreamID = h_StreamID h, rf_ErrCode = get32 b\<rparr>)))"

subsection \<open>SETTINGS (settings.go)\<close>

definition settingLen :: nat where [simp]: "settingLen = 6"

definition Settings_Flags :: "settings_frame \<Rightarrow> flags" where
  "Settings_Flags f = set_flag 0 FlagAck (sf_Ack f)"

definition Settings_PayloadLen :: "settings_frame \<Rightarrow> u32" where
  "Settings_PayloadLen f =
     (if sf_Ack f then 0 else word_of_nat (length (sf_Settings f)) * word_of_nat settingLen)"

fun append_settings :: "byte list \<Rightarrow> setting list \<Rightarrow> byte list" where
  "append_settings dst [] = dst"
| "append_settings dst (s # ss) = append_settings ((dst @ put16 (ID s)) @ put32 (SValue s)) ss"

definition Settings_appendPayload :: "settings_frame \<Rightarrow> byte list \<Rightarrow> byte list" where
  "Settings_appendPayload f dst = (if sf_Ack f then dst else append_settings dst (sf_Settings f))"

fun settings_get_loop :: "setting_id \<Rightarrow> setting list \<Rightarrow> u32 \<times> bool \<Rightarrow> u32 \<times> bool" where
  "settings_get_loop i [] acc = acc"
| "settings_get_loop i (s # ss) acc =
     settings_get_loop i ss (if ID s = i then (SValue s, True) else acc)"

definition Settings_Get :: "settings_frame \<Rightarrow> setting_id \<Rightarrow> u32 \<times> bool" where
  "Settings_Get f i = settings_get_loop i (sf_Settings f) (0, False)"

definition validateSetting :: "setting \<Rightarrow> error option" where
  "validateSetting s =
     (if ID s = SettingEnablePush then
        (if SValue s > 1 then Some (ConnError ProtocolError) else None)
      else if ID s = SettingInitialWindowSize then
        (if SValue s > MaxWindowSize then Some (ConnError FlowControlError) else None)
      else if ID s = SettingMaxFrameSize then
        (if SValue s < DefaultMaxFrameSize \<or> SValue s > MaxLength
         then Some (ConnError ProtocolError) else None)
      else if ID s = SettingNoRFC7540Priorities then
        (if SValue s > 1 then Some (ConnError ProtocolError) else None)
      else None)"

text \<open>The loop of \<open>parseSettings\<close> from pair \<open>i\<close> on, with \<open>k\<close> pairs to go.\<close>

fun parse_settings_loop :: "byte list \<Rightarrow> nat \<Rightarrow> nat \<Rightarrow> error + setting list" where
  "parse_settings_loop payload i 0 = Inr []"
| "parse_settings_loop payload i (Suc k) =
     and_then (or_panic (slice payload (i * settingLen) ((i + 1) * settingLen))) (\<lambda>b.
       let s = \<lparr>ID = get16 (take 2 b), SValue = get32 (drop 2 b)\<rparr>
       in case validateSetting s of
            Some e \<Rightarrow> Inl e
          | None \<Rightarrow> and_then (parse_settings_loop payload (i + 1) k) (\<lambda>ss. Inr (s # ss)))"

definition parseSettings :: "header \<Rightarrow> byte list \<Rightarrow> error + frame" where
  "parseSettings h payload =
     (if h_StreamID h \<noteq> 0 then Inl (ConnError ProtocolError)
      else if has (h_Flags h) FlagAck \<and> h_Length h \<noteq> 0 then Inl (ConnError FrameSizeError)
      else if h_Length h mod word_of_nat settingLen \<noteq> 0 then Inl (ConnError FrameSizeError)
      else
        let count = unat (h_Length h div word_of_nat settingLen)
        in and_then (parse_settings_loop payload 0 count) (\<lambda>ss.
             Inr (SettingsFrame \<lparr>sf_Ack = has (h_Flags h) FlagAck, sf_Settings = ss\<rparr>)))"

subsection \<open>PUSH_PROMISE (pushpromise.go)\<close>

definition promisedIDLen :: nat where [simp]: "promisedIDLen = 4"

definition PushPromise_Flags :: "push_promise_frame \<Rightarrow> flags" where
  "PushPromise_Flags f =
     set_flag (set_flag 0 FlagEndHeaders (pp_EndHeaders f)) FlagPadded (pp_Padded f)"

definition PushPromise_PayloadLen :: "push_promise_frame \<Rightarrow> u32" where
  "PushPromise_PayloadLen f =
     paddedLen (pp_Padded f) (pp_PadLen f) (promisedIDLen + length (pp_Fragment f))"

definition PushPromise_appendPayload :: "push_promise_frame \<Rightarrow> byte list \<Rightarrow> byte list" where
  "PushPromise_appendPayload f dst =
     (let content = put32 (pp_PromisedID f AND streamIDMask);
          content = content @ pp_Fragment f
      in appendPadded dst (pp_Padded f) (pp_PadLen f) content)"

definition parsePushPromise :: "header \<Rightarrow> byte list \<Rightarrow> error + frame" where
  "parsePushPromise h payload =
     (if h_StreamID h = 0 then Inl (ConnError ProtocolError)
      else and_then (splitPadding h payload) (\<lambda>(content, padLen).
        if length content < promisedIDLen then Inl (ConnError FrameSizeError)
        else
          let promised = get32 (take promisedIDLen content) AND streamIDMask
          in if promised = 0 then Inl (ConnError ProtocolError)
             else Inr (PushPromiseFrame \<lparr>pp_StreamID = h_StreamID h, pp_PromisedID = promised,
                    pp_EndHeaders = has (h_Flags h) FlagEndHeaders,
                    pp_Fragment = drop promisedIDLen content,
                    pp_Padded = has (h_Flags h) FlagPadded, pp_PadLen = padLen\<rparr>)))"

subsection \<open>PING (ping.go)\<close>

definition pingLen :: nat where [simp]: "pingLen = 8"

definition Ping_Flags :: "ping_frame \<Rightarrow> flags" where
  "Ping_Flags f = set_flag 0 FlagAck (pg_Ack f)"

definition Ping_PayloadLen :: "ping_frame \<Rightarrow> u32" where
  "Ping_PayloadLen f = word_of_nat pingLen"

definition Ping_appendPayload :: "ping_frame \<Rightarrow> byte list \<Rightarrow> byte list" where
  "Ping_appendPayload f dst = dst @ pg_Data f"

definition parsePing :: "header \<Rightarrow> byte list \<Rightarrow> error + frame" where
  "parsePing h payload =
     (if h_StreamID h \<noteq> 0 then Inl (ConnError ProtocolError)
      else if h_Length h \<noteq> word_of_nat pingLen then Inl (ConnError FrameSizeError)
      else and_then (or_panic (slice payload 0 pingLen)) (\<lambda>d.
        Inr (PingFrame \<lparr>pg_Ack = has (h_Flags h) FlagAck, pg_Data = d\<rparr>)))"

subsection \<open>GOAWAY (goaway.go)\<close>

definition goAwayMinLen :: nat where [simp]: "goAwayMinLen = 8"

definition GoAway_PayloadLen :: "goaway_frame \<Rightarrow> u32" where
  "GoAway_PayloadLen f = word_of_nat goAwayMinLen + word_of_nat (length (gf_Debug f))"

definition GoAway_appendPayload :: "goaway_frame \<Rightarrow> byte list \<Rightarrow> byte list" where
  "GoAway_appendPayload f dst =
     ((dst @ put32 (gf_LastStreamID f AND streamIDMask)) @ put32 (gf_ErrCode f)) @ gf_Debug f"

definition parseGoAway :: "header \<Rightarrow> byte list \<Rightarrow> error + frame" where
  "parseGoAway h payload =
     (if h_StreamID h \<noteq> 0 then Inl (ConnError ProtocolError)
      else if h_Length h < word_of_nat goAwayMinLen then Inl (ConnError FrameSizeError)
      else and_then (or_panic (slice payload 0 4)) (\<lambda>last.
        and_then (or_panic (slice payload 4 8)) (\<lambda>code.
          let f = \<lparr>gf_LastStreamID = get32 last AND streamIDMask, gf_ErrCode = get32 code,
                   gf_Debug = []\<rparr>
          in if h_Length h > word_of_nat goAwayMinLen then
               and_then (or_panic (slice payload goAwayMinLen (unat (h_Length h)))) (\<lambda>d.
                 Inr (GoAwayFrame (f\<lparr>gf_Debug := d\<rparr>)))
             else Inr (GoAwayFrame f))))"

subsection \<open>WINDOW_UPDATE (windowupdate.go)\<close>

definition windowUpdateLen :: nat where [simp]: "windowUpdateLen = 4"

definition WindowUpdate_PayloadLen :: "window_update_frame \<Rightarrow> u32" where
  "WindowUpdate_PayloadLen f = word_of_nat windowUpdateLen"

definition WindowUpdate_appendPayload :: "window_update_frame \<Rightarrow> byte list \<Rightarrow> byte list" where
  "WindowUpdate_appendPayload f dst = dst @ put32 (wf_Increment f AND streamIDMask)"

definition parseWindowUpdate :: "header \<Rightarrow> byte list \<Rightarrow> error + frame" where
  "parseWindowUpdate h payload =
     (if h_Length h \<noteq> word_of_nat windowUpdateLen then Inl (ConnError FrameSizeError)
      else and_then (or_panic (slice payload 0 windowUpdateLen)) (\<lambda>b.
        let inc = get32 b AND streamIDMask
        in if inc = 0 then
             (if h_StreamID h = 0 then Inl (ConnError ProtocolError)
              else Inl (StreamError (h_StreamID h) ProtocolError))
           else Inr (WindowUpdateFrame \<lparr>wf_StreamID = h_StreamID h, wf_Increment = inc\<rparr>)))"

subsection \<open>CONTINUATION (continuation.go)\<close>

definition Continuation_Flags :: "continuation_frame \<Rightarrow> flags" where
  "Continuation_Flags f = set_flag 0 FlagEndHeaders (cf_EndHeaders f)"

definition Continuation_PayloadLen :: "continuation_frame \<Rightarrow> u32" where
  "Continuation_PayloadLen f = word_of_nat (length (cf_Fragment f))"

definition Continuation_appendPayload :: "continuation_frame \<Rightarrow> byte list \<Rightarrow> byte list" where
  "Continuation_appendPayload f dst = dst @ cf_Fragment f"

definition parseContinuation :: "header \<Rightarrow> byte list \<Rightarrow> error + frame" where
  "parseContinuation h payload =
     (if h_StreamID h = 0 then Inl (ConnError ProtocolError)
      else
        let f = \<lparr>cf_StreamID = h_StreamID h, cf_EndHeaders = has (h_Flags h) FlagEndHeaders,
                 cf_Fragment = []\<rparr>
        in if h_Length h > 0 then
             and_then (or_panic (slice payload 0 (unat (h_Length h)))) (\<lambda>b.
               Inr (ContinuationFrame (f\<lparr>cf_Fragment := b\<rparr>)))
           else Inr (ContinuationFrame f))"

subsection \<open>PRIORITY_UPDATE (priorityupdate.go)\<close>

definition priorityUpdateFixedLen :: nat where [simp]: "priorityUpdateFixedLen = 4"

definition PriorityUpdate_PayloadLen :: "priority_update_frame \<Rightarrow> u32" where
  "PriorityUpdate_PayloadLen f =
     word_of_nat priorityUpdateFixedLen + word_of_nat (length (pu_Field f))"

definition PriorityUpdate_appendPayload :: "priority_update_frame \<Rightarrow> byte list \<Rightarrow> byte list" where
  "PriorityUpdate_appendPayload f dst =
     (dst @ put32 (pu_PrioritizedStreamID f AND streamIDMask)) @ bytes_of (pu_Field f)"

definition parsePriorityUpdate :: "header \<Rightarrow> byte list \<Rightarrow> error + frame" where
  "parsePriorityUpdate h payload =
     (if h_StreamID h \<noteq> 0 then Inl (ConnError ProtocolError)
      else if h_Length h < word_of_nat priorityUpdateFixedLen then Inl (ConnError FrameSizeError)
      else and_then (or_panic (slice payload 0 priorityUpdateFixedLen)) (\<lambda>b.
        let i = get32 b AND streamIDMask
        in if i = 0 then Inl (ConnError ProtocolError)
           else and_then (or_panic (slice payload priorityUpdateFixedLen (unat (h_Length h))))
             (\<lambda>v. Inr (PriorityUpdateFrame \<lparr>pu_PrioritizedStreamID = i,
                     pu_Field = string_of v\<rparr>))))"

end
