(* ===== verification/FrameWire.thy ===== *)
theory FrameWire
  imports FrameCodec
begin

text \<open>
  The closed \<open>Frame\<close> interface (types.go), \<open>HeaderOf\<close> (header.go) and the parser table
  (reader.go) over the frame types of \<open>FrameCodec\<close>, with the facts the reader and the writer
  rest on: a frame's declared length is the length of what it serialises to, parsing what a
  frame serialises to gives the frame back, and a parser handed a whole payload never panics
  and only returns frames that serialise to that payload's length.
\<close>

subsection \<open>The Frame interface\<close>

fun Frame_Type :: "frame \<Rightarrow> frame_type" where
  "Frame_Type (DataFrame f) = TypeData"
| "Frame_Type (HeadersFrame f) = TypeHeaders"
| "Frame_Type (PriorityFrame f) = TypePriority"
| "Frame_Type (RSTStreamFrame f) = TypeRSTStream"
| "Frame_Type (SettingsFrame f) = TypeSettings"
| "Frame_Type (PushPromiseFrame f) = TypePushPromise"
| "Frame_Type (PingFrame f) = TypePing"
| "Frame_Type (GoAwayFrame f) = TypeGoAway"
| "Frame_Type (WindowUpdateFrame f) = TypeWindowUpdate"
| "Frame_Type (ContinuationFrame f) = TypeContinuation"
| "Frame_Type (PriorityUpdateFrame f) = TypePriorityUpdate"

fun Frame_Flags :: "frame \<Rightarrow> flags" where
  "Frame_Flags (DataFrame f) = Data_Flags f"
| "Frame_Flags (HeadersFrame f) = Headers_Flags f"
| "Frame_Flags (PriorityFrame f) = 0"
| "Frame_Flags (RSTStreamFrame f) = 0"
| "Frame_Flags (SettingsFrame f) = Settings_Flags f"
| "Frame_Flags (PushPromiseFrame f) = PushPromise_Flags f"
| "Frame_Flags (PingFrame f) = Ping_Flags f"
| "Frame_Flags (GoAwayFrame f) = 0"
| "Frame_Flags (WindowUpdateFrame f) = 0"
| "Frame_Flags (ContinuationFrame f) = Continuation_Flags f"
| "Frame_Flags (PriorityUpdateFrame f) = 0"

fun Frame_Stream :: "frame \<Rightarrow> u32" where
  "Frame_Stream (DataFrame f) = df_StreamID f"
| "Frame_Stream (HeadersFrame f) = hf_StreamID f"
| "Frame_Stream (PriorityFrame f) = pf_StreamID f"
| "Frame_Stream (RSTStreamFrame f) = rf_StreamID f"
| "Frame_Stream (SettingsFrame f) = 0"
| "Frame_Stream (PushPromiseFrame f) = pp_StreamID f"
| "Frame_Stream (PingFrame f) = 0"
| "Frame_Stream (GoAwayFrame f) = 0"
| "Frame_Stream (WindowUpdateFrame f) = wf_StreamID f"
| "Frame_Stream (ContinuationFrame f) = cf_StreamID f"
| "Frame_Stream (PriorityUpdateFrame f) = 0"

fun Frame_PayloadLen :: "frame \<Rightarrow> u32" where
  "Frame_PayloadLen (DataFrame f) = Data_PayloadLen f"
| "Frame_PayloadLen (HeadersFrame f) = Headers_PayloadLen f"
| "Frame_PayloadLen (PriorityFrame f) = Priority_PayloadLen f"
| "Frame_PayloadLen (RSTStreamFrame f) = RST_PayloadLen f"
| "Frame_PayloadLen (SettingsFrame f) = Settings_PayloadLen f"
| "Frame_PayloadLen (PushPromiseFrame f) = PushPromise_PayloadLen f"
| "Frame_PayloadLen (PingFrame f) = Ping_PayloadLen f"
| "Frame_PayloadLen (GoAwayFrame f) = GoAway_PayloadLen f"
| "Frame_PayloadLen (WindowUpdateFrame f) = WindowUpdate_PayloadLen f"
| "Frame_PayloadLen (ContinuationFrame f) = Continuation_PayloadLen f"
| "Frame_PayloadLen (PriorityUpdateFrame f) = PriorityUpdate_PayloadLen f"

fun Frame_appendPayload :: "frame \<Rightarrow> byte list \<Rightarrow> byte list" where
  "Frame_appendPayload (DataFrame f) dst = Data_appendPayload f dst"
| "Frame_appendPayload (HeadersFrame f) dst = Headers_appendPayload f dst"
| "Frame_appendPayload (PriorityFrame f) dst = Priority_appendPayload f dst"
| "Frame_appendPayload (RSTStreamFrame f) dst = RST_appendPayload f dst"
| "Frame_appendPayload (SettingsFrame f) dst = Settings_appendPayload f dst"
| "Frame_appendPayload (PushPromiseFrame f) dst = PushPromise_appendPayload f dst"
| "Frame_appendPayload (PingFrame f) dst = Ping_appendPayload f dst"
| "Frame_appendPayload (GoAwayFrame f) dst = GoAway_appendPayload f dst"
| "Frame_appendPayload (WindowUpdateFrame f) dst = WindowUpdate_appendPayload f dst"
| "Frame_appendPayload (ContinuationFrame f) dst = Continuation_appendPayload f dst"
| "Frame_appendPayload (PriorityUpdateFrame f) dst = PriorityUpdate_appendPayload f dst"

definition HeaderOf :: "frame \<Rightarrow> header" where
  "HeaderOf f = \<lparr>h_Length = Frame_PayloadLen f, h_Type = Frame_Type f, h_Flags = Frame_Flags f,
                 h_StreamID = Frame_Stream f\<rparr>"

text \<open>The parser table of reader.go; a type with no entry is unknown.\<close>

definition parsers :: "frame_type \<Rightarrow> (header \<Rightarrow> byte list \<Rightarrow> error + frame) option" where
  "parsers t =
     (if t = TypeData then Some parseData
      else if t = TypeHeaders then Some parseHeaders
      else if t = TypePriority then Some parsePriority
      else if t = TypeRSTStream then Some parseRSTStream
      else if t = TypeSettings then Some parseSettings
      else if t = TypePushPromise then Some parsePushPromise
      else if t = TypePing then Some parsePing
      else if t = TypeGoAway then Some parseGoAway
      else if t = TypeWindowUpdate then Some parseWindowUpdate
      else if t = TypeContinuation then Some parseContinuation
      else if t = TypePriorityUpdate then Some parsePriorityUpdate
      else None)"

definition known :: "frame_type \<Rightarrow> bool" where
  "known t \<longleftrightarrow> parsers t \<noteq> None"

lemmas flag_defs = Data_Flags_def Headers_Flags_def Settings_Flags_def PushPromise_Flags_def
  Ping_Flags_def Continuation_Flags_def set_flag_def has_def

lemmas append_defs = Data_appendPayload_def Headers_appendPayload_def Priority_appendPayload_def
  RST_appendPayload_def Settings_appendPayload_def PushPromise_appendPayload_def
  Ping_appendPayload_def GoAway_appendPayload_def WindowUpdate_appendPayload_def
  Continuation_appendPayload_def PriorityUpdate_appendPayload_def

lemmas length_defs = Data_PayloadLen_def Headers_PayloadLen_def Priority_PayloadLen_def
  RST_PayloadLen_def Settings_PayloadLen_def PushPromise_PayloadLen_def Ping_PayloadLen_def
  GoAway_PayloadLen_def WindowUpdate_PayloadLen_def Continuation_PayloadLen_def
  PriorityUpdate_PayloadLen_def

lemmas parser_defs = parseData_def parseHeaders_def parsePriority_def parseRSTStream_def
  parseSettings_def parsePushPromise_def parsePing_def parseGoAway_def parseWindowUpdate_def
  parseContinuation_def parsePriorityUpdate_def

subsection \<open>Declared and serialised length\<close>

text \<open>The payload a frame serialises to, and what the Go types fix about a frame: the data of a
  PING is an array of eight octets.\<close>

abbreviation payload_of :: "frame \<Rightarrow> byte list" where
  "payload_of f \<equiv> Frame_appendPayload f []"

fun frame_typed :: "frame \<Rightarrow> bool" where
  "frame_typed (PingFrame f) = (length (pg_Data f) = pingLen)"
| "frame_typed _ = True"

lemma appendPadded_dst: "appendPadded dst p n c = dst @ appendPadded [] p n c"
  by (simp add: appendPadded_def)

lemma appendPriorityBlock_dst: "appendPriorityBlock dst e d w = dst @ appendPriorityBlock [] e d w"
  by (simp add: appendPriorityBlock_def Let_def)

lemma append_settings_dst: "append_settings dst ss = dst @ append_settings [] ss"
proof (induction ss arbitrary: dst)
  case (Cons s ss)
  from Cons.IH [of "(dst @ put16 (ID s)) @ put32 (SValue s)"]
    Cons.IH [of "put16 (ID s) @ put32 (SValue s)"]
  show ?case by simp
qed simp

lemma append_settings_Cons:
  "append_settings [] (s # ss) = put16 (ID s) @ put32 (SValue s) @ append_settings [] ss"
  using append_settings_dst [of "put16 (ID s) @ put32 (SValue s)" ss] by simp

lemma Frame_appendPayload_dst: "Frame_appendPayload f dst = dst @ payload_of f"
  by (cases f)
    (auto simp: append_defs Let_def
      intro: appendPadded_dst appendPriorityBlock_dst append_settings_dst)

lemma length_appendPadded [simp, wire]:
  "length (appendPadded dst p n c) =
     length dst + length c + (if p then 1 + unat n else 0)"
  using unat_byte_less [of n] by (simp add: appendPadded_def zeroPad_def)

lemma length_appendPriorityBlock [simp, wire]:
  "length (appendPriorityBlock dst e d w) = length dst + 5"
  by (simp add: appendPriorityBlock_def Let_def)

lemma length_append_settings [simp, wire]:
  "length (append_settings dst ss) = length dst + length ss * 6"
  by (induction ss arbitrary: dst) auto

lemma unat_paddedLen:
  assumes "n + (if p then 1 + unat k else 0) < 2 ^ 32"
  shows "unat (paddedLen p k n) = n + (if p then 1 + unat k else 0)"
proof (cases p)
  case True
  have k: "unat (1 + ucast k :: u32) = 1 + unat k"
    using unat_byte_less [of k] by (simp add: unat_word_ariths)
  with True assms show ?thesis
    by (simp add: paddedLen_def unat_word_ariths)
qed (use assms in \<open>simp add: paddedLen_def\<close>)

lemma PayloadLen_length:
  assumes "frame_typed f" and "length (payload_of f) < 2 ^ 32"
  shows "unat (Frame_PayloadLen f) = length (payload_of f)"
proof (cases f)
  case (DataFrame g)
  with assms show ?thesis by (simp add: length_defs append_defs unat_paddedLen)
next
  case (HeadersFrame g)
  with assms show ?thesis
    by (auto simp: length_defs append_defs unat_paddedLen Let_def add.commute split: if_splits)
next
  case (PushPromiseFrame g)
  with assms show ?thesis by (simp add: length_defs append_defs unat_paddedLen Let_def)
qed (use assms in \<open>auto simp: length_defs append_defs unat_word_ariths\<close>)

subsection \<open>Parsing what a frame serialises to\<close>

definition on_stream :: "u32 \<Rightarrow> bool" where
  "on_stream i \<longleftrightarrow> i \<noteq> 0 \<and> i \<le> streamIDMask"

text \<open>
  The frames that come off the wire: identifiers in 31 bits and in the range their type
  requires, \<open>PadLen\<close> and the priority fields zero when their flag is clear, an acknowledgement
  without settings, and settings in their legal ranges.
\<close>

fun canonical :: "frame \<Rightarrow> bool" where
  "canonical (DataFrame f) \<longleftrightarrow> on_stream (df_StreamID f) \<and> (df_Padded f \<or> df_PadLen f = 0)"
| "canonical (HeadersFrame f) \<longleftrightarrow> on_stream (hf_StreamID f) \<and> (hf_Padded f \<or> hf_PadLen f = 0) \<and>
     (if hf_Priority f then hf_StreamDependency f \<le> streamIDMask
      else \<not> hf_Exclusive f \<and> hf_StreamDependency f = 0 \<and> hf_Weight f = 0)"
| "canonical (PriorityFrame f) \<longleftrightarrow> on_stream (pf_StreamID f) \<and>
     pf_StreamDependency f \<le> streamIDMask \<and> pf_StreamDependency f \<noteq> pf_StreamID f"
| "canonical (RSTStreamFrame f) \<longleftrightarrow> on_stream (rf_StreamID f)"
| "canonical (SettingsFrame f) \<longleftrightarrow> (sf_Ack f \<longrightarrow> sf_Settings f = []) \<and>
     list_all (\<lambda>s. validateSetting s = None) (sf_Settings f)"
| "canonical (PushPromiseFrame f) \<longleftrightarrow> on_stream (pp_StreamID f) \<and> on_stream (pp_PromisedID f) \<and>
     (pp_Padded f \<or> pp_PadLen f = 0)"
| "canonical (PingFrame f) \<longleftrightarrow> length (pg_Data f) = pingLen"
| "canonical (GoAwayFrame f) \<longleftrightarrow> gf_LastStreamID f \<le> streamIDMask"
| "canonical (WindowUpdateFrame f) \<longleftrightarrow> wf_StreamID f \<le> streamIDMask \<and> on_stream (wf_Increment f)"
| "canonical (ContinuationFrame f) \<longleftrightarrow> on_stream (cf_StreamID f)"
| "canonical (PriorityUpdateFrame f) \<longleftrightarrow> on_stream (pu_PrioritizedStreamID f)"

lemma canonical_typed: "canonical f \<Longrightarrow> frame_typed f"
  by (cases f) auto

lemma canonical_stream_le: "canonical f \<Longrightarrow> Frame_Stream f \<le> streamIDMask"
  by (cases f) (auto simp: on_stream_def)

lemma splitPadding_appendPadded:
  assumes "has (h_Flags h) FlagPadded = p"
    and "unat (h_Length h) = length (appendPadded [] p k c)"
    and "p \<or> k = 0"
  shows "splitPadding h (appendPadded [] p k c) = Inr (c, k)"
proof (cases p)
  case False
  with assms show ?thesis by (simp add: splitPadding_def appendPadded_def)
next
  case True
  from True assms(2) have len: "unat (h_Length h) = 1 + length c + unat k" by simp
  then have "ucast k < h_Length h"
    by (simp add: word_less_nat_alt)
  moreover have "unat (h_Length h - ucast k) = 1 + length c"
    using calculation len by (simp add: unat_sub less_imp_le)
  moreover have "\<not> h_Length h < 1"
    using len by (simp add: word_less_nat_alt)
  ultimately show ?thesis
    using True assms(1) len by (simp add: splitPadding_def appendPadded_def not_le)
qed

lemma priority_dep_roundtrip:
  fixes d :: u32
  assumes "x = ucast (drop_bit 24 d) AND 0x7f \<or> x = ucast (drop_bit 24 d) AND 0x7f OR 0x80"
  shows "(push_bit 24 (ucast (x :: byte)) OR push_bit 16 (ucast (ucast (drop_bit 16 d) :: byte)) OR
          push_bit 8 (ucast (ucast (drop_bit 8 d) :: byte)) OR ucast (ucast d :: byte)) AND streamIDMask
         = d AND streamIDMask"
proof -
  have x: "bit x j \<longleftrightarrow> bit d (24 + j)" if "j < 7" for j
    using assms that by (auto simp only: bit_or_0x80 bit_and_0x7f) (auto simp: bit_simps)
  show ?thesis
  proof (rule bit_word_eqI)
    fix n assume "n < LENGTH(32)"
    then consider "n < 8" | "8 \<le> n" "n < 16" | "16 \<le> n" "n < 24" | "24 \<le> n" "n < 31" | "n = 31"
      by fastforce
    then show "bit ((push_bit 24 (ucast (x :: byte)) OR push_bit 16 (ucast (ucast (drop_bit 16 d) :: byte)) OR
          push_bit 8 (ucast (ucast (drop_bit 8 d) :: byte)) OR ucast (ucast d :: byte)) AND streamIDMask) n
       \<longleftrightarrow> bit (d AND streamIDMask) n"
      unfolding streamIDMask_take_bit
      by cases (auto simp: bit_simps x simp del: take_bit_eq_mask)
  qed
qed

lemma parsePriorityBlock_append [wire]:
  assumes "d \<le> streamIDMask"
  shows "parsePriorityBlock (appendPriorityBlock [] e d w @ rest) = Inr (e, d, w)"
proof -
  have e: "\<not> bit (ucast (drop_bit 24 d) AND 0x7f :: byte) 7"
    "bit (ucast (drop_bit 24 d) AND 0x7f OR 0x80 :: byte) 7"
    by (simp_all only: bit_or_0x80 bit_and_0x7f) simp_all
  show ?thesis
    using assms e priority_dep_roundtrip [of "ucast (drop_bit 24 d) AND 0x7f" d]
      priority_dep_roundtrip [of "ucast (drop_bit 24 d) AND 0x7f OR 0x80" d]
    by (cases e) (simp_all add: parsePriorityBlock_def appendPriorityBlock_def and_0x80_bit)
qed

subsection \<open>The round trips\<close>

lemma parse_settings_loop_append:
  assumes "list_all (\<lambda>s. validateSetting s = None) ss"
    and "length pre = i * 6" and "k = length ss"
  shows "parse_settings_loop (pre @ append_settings [] ss) i k = Inr ss"
  using assms
proof (induction ss arbitrary: pre i k)
  case (Cons s ss)
  have "parse_settings_loop ((pre @ put16 (ID s) @ put32 (SValue s)) @ append_settings [] ss)
      (i + 1) (length ss) = Inr ss"
    using Cons.prems by (intro Cons.IH) auto
  moreover have "slice (pre @ append_settings [] (s # ss)) (i * 6) (i * 6 + 6)
      = Some (put16 (ID s) @ put32 (SValue s))"
    using Cons.prems by (simp add: append_settings_Cons slice_def del: append_settings.simps)
  ultimately show ?case
    using Cons.prems
    by (cases s) (simp add: append_settings_Cons add.commute Let_def del: append_settings.simps)
qed simp

lemma settings_length_div:
  assumes "n * 6 < 2 ^ 32"
  shows "(word_of_nat n * 6 :: u32) mod 6 = 0"
    and "unat ((word_of_nat n * 6 :: u32) div 6) = n"
proof -
  have "unat (word_of_nat n * 6 :: u32) = n * 6"
    using assms by (simp add: unat_word_ariths)
  then show "(word_of_nat n * 6 :: u32) mod 6 = 0" "unat ((word_of_nat n * 6 :: u32) div 6) = n"
    by (simp_all add: unat_div_distrib unat_mod_distrib word_unat_eq_iff)
qed

lemma parse_payload [wire]:
  assumes "canonical f" and "length (payload_of f) < 2 ^ 32"
  shows "\<exists>p. parsers (Frame_Type f) = Some p \<and> p (HeaderOf f) (payload_of f) = Inr f"
proof -
  note len = PayloadLen_length [OF canonical_typed [OF assms(1)] assms(2)]
  show ?thesis
  proof (cases f)
    case (DataFrame g)
    have "has (Data_Flags g) FlagPadded = df_Padded g"
      "has (Data_Flags g) FlagEndStream = df_EndStream g"
      by (auto simp: flag_defs)
    then show ?thesis
      using assms len DataFrame
      by (simp add: parsers_def parser_defs HeaderOf_def append_defs on_stream_def
          splitPadding_appendPadded)
  next
    case (HeadersFrame g)
    have fl: "has (Headers_Flags g) FlagPadded = hf_Padded g"
      "has (Headers_Flags g) FlagEndStream = hf_EndStream g"
      "has (Headers_Flags g) FlagEndHeaders = hf_EndHeaders g"
      "has (Headers_Flags g) FlagPriority = hf_Priority g"
      by (auto simp: flag_defs)
    show ?thesis
    proof (cases "hf_Priority g")
      case True
      let ?c = "appendPriorityBlock [] (hf_Exclusive g) (hf_StreamDependency g) (hf_Weight g)"
      have "parsePriorityBlock ?c = Inr (hf_Exclusive g, hf_StreamDependency g, hf_Weight g)"
        using parsePriorityBlock_append [of "hf_StreamDependency g" _ _ "[]"] assms HeadersFrame True
        by simp
      then show ?thesis
        using assms len HeadersFrame True fl
        by (simp add: parsers_def parser_defs HeaderOf_def append_defs on_stream_def
            splitPadding_appendPadded Let_def)
    next
      case False
      then show ?thesis
        using assms len HeadersFrame fl
        by (simp add: parsers_def parser_defs HeaderOf_def append_defs on_stream_def
            splitPadding_appendPadded Let_def)
    qed
  next
    case (PriorityFrame g)
    then show ?thesis
      using assms parsePriorityBlock_append [of "pf_StreamDependency g" _ _ "[]"]
      by (simp add: parsers_def parser_defs HeaderOf_def append_defs length_defs on_stream_def)
  next
    case (SettingsFrame g)
    have "has (Settings_Flags g) FlagAck = sf_Ack g" by (auto simp: flag_defs)
    then show ?thesis
      using assms SettingsFrame settings_length_div [of "length (sf_Settings g)"]
        parse_settings_loop_append [of "sf_Settings g" "[]" 0]
      by (cases "sf_Ack g")
        (simp_all add: parsers_def parser_defs HeaderOf_def append_defs length_defs)
  next
    case (PushPromiseFrame g)
    have "has (PushPromise_Flags g) FlagPadded = pp_Padded g"
      "has (PushPromise_Flags g) FlagEndHeaders = pp_EndHeaders g"
      by (auto simp: flag_defs)
    then show ?thesis
      using assms len PushPromiseFrame
      by (simp add: parsers_def parser_defs HeaderOf_def append_defs on_stream_def
          splitPadding_appendPadded Let_def)
  next
    case (PingFrame g)
    have "has (Ping_Flags g) FlagAck = pg_Ack g" by (auto simp: flag_defs)
    with PingFrame show ?thesis
      using assms by (simp add: parsers_def parser_defs HeaderOf_def append_defs length_defs)
  next
    case (ContinuationFrame g)
    have "has (Continuation_Flags g) FlagEndHeaders = cf_EndHeaders g" by (auto simp: flag_defs)
    with ContinuationFrame show ?thesis
      using assms len
      by (cases "cf_Fragment g")
        (auto simp: parsers_def parser_defs HeaderOf_def append_defs length_defs on_stream_def
          word_less_nat_alt)
  qed (use assms len in \<open>auto simp: parsers_def parser_defs HeaderOf_def append_defs length_defs
      on_stream_def word_less_nat_alt unat_word_ariths slice_def Let_def\<close>)
qed

subsection \<open>What a parser returns\<close>

text \<open>
  Given a header off the wire and exactly the payload it declares, every parser returns a
  frame in canonical form that has the header's type, its stream, and its declared length, or
  an error the protocol has an answer to. No branch panics.
\<close>

lemma splitPadding_sound:
  assumes "splitPadding h pl = Inr (c, k)" and "length pl = unat (h_Length h)"
  shows "length pl = length (appendPadded [] (has (h_Flags h) FlagPadded) k c)"
    and "has (h_Flags h) FlagPadded \<or> k = 0"
proof -
  consider "\<not> has (h_Flags h) FlagPadded" "k = 0" "c = take (unat (h_Length h)) pl"
    | "has (h_Flags h) FlagPadded" "ucast k < h_Length h"
      "length c = unat (h_Length h - ucast k) - 1" "1 \<le> unat (h_Length h - ucast k)"
    using assms
    by (auto simp: splitPadding_def and_then_Inr_iff or_panic_def not_le
        dest!: slice_eq_SomeD split: if_splits option.splits)
  then show "length pl = length (appendPadded [] (has (h_Flags h) FlagPadded) k c)"
    using assms(2)
    by cases (auto simp: unat_sub less_imp_le word_less_nat_alt)
  show "has (h_Flags h) FlagPadded \<or> k = 0"
    using assms(1) by (auto simp: splitPadding_def and_then_Inr_iff split: if_splits)
qed

lemma splitPadding_no_panic:
  assumes "length pl = unat (h_Length h)"
  shows "splitPadding h pl \<noteq> Inl Panic"
proof -
  have "1 \<le> unat (h_Length h - ucast k)" "unat (h_Length h - ucast k) \<le> unat (h_Length h)"
    if "ucast k < h_Length h" for k :: byte
    using that by (auto simp: unat_sub less_imp_le word_less_nat_alt)
  then show ?thesis
    using assms
    by (auto simp: splitPadding_def and_then_Inl_iff or_panic_def slice_def at_def not_le
        word_less_nat_alt word_le_nat_alt split: if_splits)
qed

text \<open>\<open>answers h pl f\<close>: frame \<open>f\<close> is a faithful reading of header \<open>h\<close> with payload \<open>pl\<close>.\<close>

definition answers :: "header \<Rightarrow> byte list \<Rightarrow> frame \<Rightarrow> bool" where
  "answers h pl f \<longleftrightarrow> canonical f \<and> Frame_Type f = h_Type h \<and> Frame_Stream f = h_StreamID h \<and>
     length (payload_of f) = length pl"

definition parser_ok :: "frame_type \<Rightarrow> (header \<Rightarrow> byte list \<Rightarrow> error + frame) \<Rightarrow> bool" where
  "parser_ok t p \<longleftrightarrow>
     (\<forall>h pl. h_Type h = t \<longrightarrow> length pl = unat (h_Length h) \<longrightarrow> h_StreamID h \<le> streamIDMask \<longrightarrow>
        (case p h pl of Inl e \<Rightarrow> protocol_error e | Inr f \<Rightarrow> answers h pl f))"

lemma parser_okI:
  assumes "\<And>h pl f. h_Type h = t \<Longrightarrow> length pl = unat (h_Length h) \<Longrightarrow> h_StreamID h \<le> streamIDMask \<Longrightarrow>
      p h pl = Inr f \<Longrightarrow> answers h pl f"
    and "\<And>h pl e. h_Type h = t \<Longrightarrow> length pl = unat (h_Length h) \<Longrightarrow> h_StreamID h \<le> streamIDMask \<Longrightarrow>
      p h pl = Inl e \<Longrightarrow> protocol_error e"
  shows "parser_ok t p"
  using assms by (auto simp: parser_ok_def split: sum.splits)

lemma splitPadding_error:
  assumes "splitPadding h pl = Inl e" and "length pl = unat (h_Length h)"
  shows "protocol_error e"
  using assms splitPadding_no_panic [OF assms(2)]
  by (auto simp: splitPadding_def and_then_Inl_iff or_panic_def split: if_splits option.splits)

lemma parsePriorityBlock_ok:
  assumes "5 \<le> length b"
  obtains e d w where "parsePriorityBlock b = Inr (e, d, w)" "d \<le> streamIDMask"
proof -
  from assms have "b \<noteq> []" by auto
  with assms that show thesis by (simp add: parsePriorityBlock_def)
qed

lemma parseData_ok: "parser_ok TypeData parseData"
  by (rule parser_okI)
    (auto simp: parseData_def and_then_Inr_iff and_then_Inl_iff answers_def on_stream_def
      append_defs splitPadding_sound dest: splitPadding_sound splitPadding_error split: if_splits prod.splits)

lemma parseHeaders_ok: "parser_ok TypeHeaders parseHeaders"
proof (rule parser_okI)
  fix h pl f
  assume h: "h_Type h = TypeHeaders" "length pl = unat (h_Length h)" "h_StreamID h \<le> streamIDMask"
    "parseHeaders h pl = Inr f"
  then obtain c k where split: "splitPadding h pl = Inr (c, k)"
    by (auto simp: parseHeaders_def and_then_Inr_iff split: if_splits)
  note sound = splitPadding_sound [OF split h(2)]
  show "answers h pl f"
  proof (cases "has (h_Flags h) FlagPriority")
    case True
    with h split have "5 \<le> length (take 5 c)"
      by (auto simp: parseHeaders_def split: if_splits)
    then obtain e d w where "parsePriorityBlock (take 5 c) = Inr (e, d, w)" "d \<le> streamIDMask"
      by (rule parsePriorityBlock_ok)
    with True h split sound show ?thesis
      by (auto simp: parseHeaders_def answers_def on_stream_def append_defs Let_def split: if_splits)
  next
    case False
    with h split sound show ?thesis
      by (auto simp: parseHeaders_def answers_def on_stream_def append_defs Let_def split: if_splits)
  qed
next
  fix h pl e
  assume h: "length pl = unat (h_Length h)" "parseHeaders h pl = Inl e"
  have "parsePriorityBlock (take 5 c) \<noteq> Inl e'" if "5 \<le> length c" for c e'
    using parsePriorityBlock_ok [of "take 5 c"] that by fastforce
  with h show "protocol_error e"
    by (auto simp: parseHeaders_def and_then_Inl_iff Let_def dest: splitPadding_error
        split: if_splits)
qed

lemma parsePriority_ok: "parser_ok TypePriority parsePriority"
proof (rule parser_okI)
  fix h pl f
  assume h: "h_Type h = TypePriority" "length pl = unat (h_Length h)" "h_StreamID h \<le> streamIDMask"
    "parsePriority h pl = Inr f"
  then have "length pl = 5"
    by (auto simp: parsePriority_def split: if_splits)
  then obtain e d w where "parsePriorityBlock pl = Inr (e, d, w)" "d \<le> streamIDMask"
    by (metis parsePriorityBlock_ok order_refl)
  with h \<open>length pl = 5\<close> show "answers h pl f"
    by (auto simp: parsePriority_def answers_def on_stream_def append_defs split: if_splits)
next
  fix h pl e
  assume h: "length pl = unat (h_Length h)" "parsePriority h pl = Inl e"
  have "parsePriorityBlock pl \<noteq> Inl e'" if "length pl = 5" for e'
    using parsePriorityBlock_ok [of pl] that by fastforce
  with h show "protocol_error e"
    by (auto simp: parsePriority_def and_then_Inl_iff split: if_splits)
qed

lemma parseRSTStream_ok: "parser_ok TypeRSTStream parseRSTStream"
  by (rule parser_okI)
    (auto simp: parseRSTStream_def answers_def on_stream_def append_defs split: if_splits)

lemma parsePing_ok: "parser_ok TypePing parsePing"
  by (rule parser_okI) (auto simp: parsePing_def answers_def append_defs split: if_splits)

lemma parseWindowUpdate_ok: "parser_ok TypeWindowUpdate parseWindowUpdate"
  by (rule parser_okI)
    (auto simp: parseWindowUpdate_def answers_def on_stream_def append_defs Let_def split: if_splits)

lemma parseContinuation_ok: "parser_ok TypeContinuation parseContinuation"
  by (rule parser_okI)
    (auto simp: parseContinuation_def answers_def on_stream_def append_defs Let_def word_less_nat_alt
      split: if_splits)

lemma parsePriorityUpdate_ok: "parser_ok TypePriorityUpdate parsePriorityUpdate"
  by (rule parser_okI)
    (auto simp: parsePriorityUpdate_def answers_def on_stream_def append_defs Let_def
      word_less_nat_alt not_less split: if_splits)

lemma parseGoAway_ok: "parser_ok TypeGoAway parseGoAway"
  by (rule parser_okI)
    (auto simp: parseGoAway_def answers_def append_defs Let_def word_less_nat_alt not_less
      split: if_splits)

lemma parsePushPromise_ok: "parser_ok TypePushPromise parsePushPromise"
proof (rule parser_okI)
  fix h pl f
  assume h: "h_Type h = TypePushPromise" "length pl = unat (h_Length h)" "h_StreamID h \<le> streamIDMask"
    "parsePushPromise h pl = Inr f"
  then obtain c k where split: "splitPadding h pl = Inr (c, k)"
    by (auto simp: parsePushPromise_def and_then_Inr_iff split: if_splits)
  with h splitPadding_sound [OF split h(2)] show "answers h pl f"
    by (auto simp: parsePushPromise_def answers_def on_stream_def append_defs Let_def split: if_splits)
qed (auto simp: parsePushPromise_def and_then_Inl_iff Let_def dest: splitPadding_error
    split: if_splits)

lemma parse_settings_loop_ok:
  assumes "(i + k) * 6 = length pl"
  shows "case parse_settings_loop pl i k of
      Inl e \<Rightarrow> protocol_error e
    | Inr ss \<Rightarrow> length ss = k \<and> list_all (\<lambda>s. validateSetting s = None) ss"
  using assms
proof (induction k arbitrary: i)
  case (Suc k)
  have "validateSetting s = Some e \<Longrightarrow> protocol_error e" for s e
    by (auto simp: validateSetting_def split: if_splits)
  with Suc.IH [of "i + 1"] Suc.prems show ?case
    by (fastforce simp: Let_def and_then_def split: sum.splits option.splits)
qed simp

lemma parseSettings_ok: "parser_ok TypeSettings parseSettings"
proof (rule parser_okI)
  fix h pl f
  assume h: "h_Type h = TypeSettings" "length pl = unat (h_Length h)" "parseSettings h pl = Inr f"
  let ?k = "unat (h_Length h div 6)"
  from h have "?k * 6 = length pl"
    by (auto simp: parseSettings_def unat_div_distrib unat_mod_distrib word_unat_eq_iff split: if_splits)
  with parse_settings_loop_ok [of 0 ?k pl] h show "answers h pl f"
    by (auto simp: parseSettings_def and_then_Inr_iff answers_def append_defs Let_def split: if_splits)
next
  fix h pl e
  assume h: "length pl = unat (h_Length h)" "parseSettings h pl = Inl e"
  let ?k = "unat (h_Length h div 6)"
  have "h_Length h mod 6 = 0 \<Longrightarrow> ?k * 6 = length pl"
    using h by (auto simp: unat_div_distrib unat_mod_distrib word_unat_eq_iff)
  with parse_settings_loop_ok [of 0 ?k pl] h show "protocol_error e"
    by (auto simp: parseSettings_def and_then_Inl_iff Let_def split: if_splits)
qed

lemmas parser_oks = parseData_ok parseHeaders_ok parsePriority_ok parseRSTStream_ok
  parseSettings_ok parsePushPromise_ok parsePing_ok parseGoAway_ok parseWindowUpdate_ok
  parseContinuation_ok parsePriorityUpdate_ok

lemma parsers_ok: "parsers t = Some p \<Longrightarrow> parser_ok t p"
  using parser_oks by (auto simp: parsers_def split: if_splits)

lemma parser_okD:
  assumes "parser_ok (h_Type h) p" "length pl = unat (h_Length h)" "h_StreamID h \<le> streamIDMask"
  shows "case p h pl of Inl e \<Rightarrow> protocol_error e | Inr f \<Rightarrow> answers h pl f"
  using assms unfolding parser_ok_def by blast

lemma parsers_answer:
  assumes "parsers (h_Type h) = Some p" "p h pl = Inr f"
    and "length pl = unat (h_Length h)" "h_StreamID h \<le> streamIDMask"
  shows "answers h pl f"
  using parser_okD [OF parsers_ok [OF assms(1)] assms(3,4)] assms(2) by simp

lemma parsers_error:
  assumes "parsers (h_Type h) = Some p" "p h pl = Inl e"
    and "length pl = unat (h_Length h)" "h_StreamID h \<le> streamIDMask"
  shows "protocol_error e"
  using parser_okD [OF parsers_ok [OF assms(1)] assms(3,4)] assms(2) by simp

end
