(* ===== verification/FrameReader.thy ===== *)
theory FrameReader
  imports FrameWire
begin

text \<open>
  \<^verbatim>\<open>internal/frame/reader.go\<close>. The \<open>io.Reader\<close> under a \<open>Reader\<close> is the octets it will deliver
  and the error it reports when they have run out; \<open>io.ReadFull\<close> is modelled as documented.
  The scratch buffer is not part of the state: every parser copies what it keeps, which here is
  the value semantics of lists.
\<close>

subsection \<open>The input\<close>

record reader =
  rd_in :: "byte list"
  rd_end :: io_error
  maxFrameSize :: u32
  maxHeaderBlockSize :: u32
  maxContinuations :: int
  blockStream :: u32
  blockSize :: u64
  continuations :: int

definition readFull :: "nat \<Rightarrow> reader \<Rightarrow> (io_error + byte list) \<times> reader" where
  "readFull n rd =
     (if n \<le> length (rd_in rd) then (Inr (take n (rd_in rd)), rd\<lparr>rd_in := drop n (rd_in rd)\<rparr>)
      else (Inl (if rd_end rd = EOF then (if rd_in rd = [] then EOF else UnexpectedEOF)
                 else rd_end rd),
            rd\<lparr>rd_in := []\<rparr>))"

subsection \<open>Construction\<close>

record reader_config =
  MaxFrameSize :: u32
  MaxHeaderBlockSize :: u32
  MaxContinuationFrames :: int

definition DefaultMaxHeaderBlockSize :: u32 where [simp]: "DefaultMaxHeaderBlockSize = 0x20000"
definition DefaultMaxContinuationFrames :: int where [simp]: "DefaultMaxContinuationFrames = 32"

definition NewReader :: "byte list \<Rightarrow> io_error \<Rightarrow> reader_config \<Rightarrow> reader" where
  "NewReader input at_end cfg =
     (let cfg = (if MaxFrameSize cfg = 0 then cfg\<lparr>MaxFrameSize := DefaultMaxFrameSize\<rparr> else cfg);
          cfg = (if MaxHeaderBlockSize cfg = 0
                 then cfg\<lparr>MaxHeaderBlockSize := DefaultMaxHeaderBlockSize\<rparr> else cfg);
          cfg = (if MaxContinuationFrames cfg = 0
                 then cfg\<lparr>MaxContinuationFrames := DefaultMaxContinuationFrames\<rparr> else cfg);
          cfg = (if MaxHeaderBlockSize cfg < MaxFrameSize cfg
                 then cfg\<lparr>MaxHeaderBlockSize := MaxFrameSize cfg\<rparr> else cfg)
      in \<lparr>rd_in = input, rd_end = at_end, maxFrameSize = MaxFrameSize cfg,
          maxHeaderBlockSize = MaxHeaderBlockSize cfg,
          maxContinuations = MaxContinuationFrames cfg,
          blockStream = 0, blockSize = 0, continuations = 0\<rparr>)"

subsection \<open>The connection preface\<close>

text \<open>The 24 octets \<open>PRI * HTTP/2.0 CR LF CR LF SM CR LF CR LF\<close>.\<close>

definition crlf :: string where
  "crlf = [CHR 0x0D, CHR 0x0A]"

definition ClientPreface :: string where
  "ClientPreface = ''PRI * HTTP/2.0'' @ crlf @ crlf @ ''SM'' @ crlf @ crlf"

definition http1Methods :: "string list" where
  "http1Methods = [''GET'', ''HEAD'', ''POST'', ''PUT'', ''DELETE'', ''CONNECT'', ''OPTIONS'',
     ''TRACE'', ''PATCH'']"

fun http1_loop :: "string list \<Rightarrow> string \<Rightarrow> string \<times> bool" where
  "http1_loop [] b = ([], False)"
| "http1_loop (m # ms) b =
     (if take (length m + 1) b = m @ '' '' then (m, True) else http1_loop ms b)"

definition looksLikeHTTP1 :: "byte list \<Rightarrow> string \<times> bool" where
  "looksLikeHTTP1 b = http1_loop http1Methods (string_of b)"

text \<open>Both mismatches are the same error; they differ in the reason only.\<close>

definition ReadPreface :: "reader \<Rightarrow> error option \<times> reader" where
  "ReadPreface rd =
     (case readFull (length ClientPreface) rd of
        (Inl e, rd') \<Rightarrow> (Some (IoError e), rd')
      | (Inr got, rd') \<Rightarrow>
          if string_of got = ClientPreface then (None, rd')
          else (case looksLikeHTTP1 got of
                  (m, True) \<Rightarrow> (Some (ConnError ProtocolError), rd')
                | (m, False) \<Rightarrow> (Some (ConnError ProtocolError), rd')))"

subsection \<open>Header block continuity and its bounds\<close>

definition checkContinuity :: "reader \<Rightarrow> header \<Rightarrow> error option" where
  "checkContinuity rd h =
     (if blockStream rd \<noteq> 0 then
        (if h_Type h \<noteq> TypeContinuation then Some (ConnError ProtocolError)
         else if h_StreamID h \<noteq> blockStream rd then Some (ConnError ProtocolError)
         else None)
      else if h_Type h = TypeContinuation then Some (ConnError ProtocolError)
      else None)"

definition checkBlockLimits :: "reader \<Rightarrow> error option" where
  "checkBlockLimits rd =
     (if blockSize rd > ucast (maxHeaderBlockSize rd) then Some (ConnError EnhanceYourCalm)
      else if continuations rd > maxContinuations rd then Some (ConnError EnhanceYourCalm)
      else None)"

definition finishFrame :: "reader \<Rightarrow> bool \<Rightarrow> error option \<times> reader" where
  "finishFrame rd endHeaders =
     (let err = checkBlockLimits rd
      in (err, if endHeaders then rd\<lparr>blockStream := 0, blockSize := 0, continuations := 0\<rparr>
               else rd))"

definition beginBlock :: "reader \<Rightarrow> u32 \<Rightarrow> nat \<Rightarrow> bool \<Rightarrow> error option \<times> reader" where
  "beginBlock rd stream fragment endHeaders =
     finishFrame (rd\<lparr>blockStream := stream, blockSize := word_of_nat fragment,
                     continuations := 0\<rparr>) endHeaders"

definition extendBlock :: "reader \<Rightarrow> nat \<Rightarrow> bool \<Rightarrow> error option \<times> reader" where
  "extendBlock rd fragment endHeaders =
     finishFrame (rd\<lparr>blockSize := blockSize rd + word_of_nat fragment,
                     continuations := continuations rd + 1\<rparr>) endHeaders"

fun trackBlock :: "reader \<Rightarrow> frame \<Rightarrow> error option \<times> reader" where
  "trackBlock rd (HeadersFrame f) =
     beginBlock rd (hf_StreamID f) (length (hf_Fragment f)) (hf_EndHeaders f)"
| "trackBlock rd (PushPromiseFrame f) =
     beginBlock rd (pp_StreamID f) (length (pp_Fragment f)) (pp_EndHeaders f)"
| "trackBlock rd (ContinuationFrame f) =
     extendBlock rd (length (cf_Fragment f)) (cf_EndHeaders f)"
| "trackBlock rd _ = (None, rd)"

subsection \<open>ReadFrame\<close>

lemma readFull_shorter:
  "readFull n rd = (r, rd') \<Longrightarrow> length (rd_in rd') \<le> length (rd_in rd)"
  by (auto simp: readFull_def split: if_splits)

lemma readFull_Inr_shorter:
  "readFull n rd = (Inr b, rd') \<Longrightarrow> length (rd_in rd') = length (rd_in rd) - n \<and> n \<le> length (rd_in rd)"
  by (auto simp: readFull_def split: if_splits)

text \<open>
  The loop discards frames of unknown type; each turn consumes the nine octets of a header, so
  it ends when the input does.
\<close>

function ReadFrame :: "reader \<Rightarrow> (error + frame) \<times> reader" where
  "ReadFrame rd =
     (case readFull HeaderLen rd of
        (Inl e, rd1) \<Rightarrow> (Inl (IoError e), rd1)
      | (Inr hdr, rd1) \<Rightarrow>
        (case ParseHeader hdr of
           Inl e \<Rightarrow> (Inl e, rd1)
         | Inr h \<Rightarrow>
           if h_Length h > maxFrameSize rd1 then (Inl (ConnError FrameSizeError), rd1)
           else
             (case checkContinuity rd1 h of
                Some e \<Rightarrow> (Inl e, rd1)
              | None \<Rightarrow>
                (case readFull (unat (h_Length h)) rd1 of
                   (Inl e, rd2) \<Rightarrow> (Inl (IoError (if e = EOF then UnexpectedEOF else e)), rd2)
                 | (Inr payload, rd2) \<Rightarrow>
                   (case parsers (h_Type h) of
                      None \<Rightarrow> ReadFrame rd2
                    | Some p \<Rightarrow>
                      (case p h payload of
                         Inl e \<Rightarrow> (Inl e, rd2)
                       | Inr f \<Rightarrow>
                         (case trackBlock rd2 f of
                            (Some e, rd3) \<Rightarrow> (Inl e, rd3)
                          | (None, rd3) \<Rightarrow> (Inr f, rd3))))))))"
  by pat_completeness auto
termination
  by (relation "measure (\<lambda>rd. length (rd_in rd))")
    (auto dest!: readFull_Inr_shorter [OF sym])

declare ReadFrame.simps [simp del]

definition BlockOpen :: "reader \<Rightarrow> u32" where
  "BlockOpen rd = blockStream rd"

end
