(* ===== verification/WireSource.thy ===== *)
theory WireSource
  imports Prelude
begin

text \<open>
  The interface between a sender and a receiver on an octet stream, for every encoding of the
  server: a sender whose state \<open>'b\<close> decides what an item looks like on the wire and which items
  may come next, and a receiver whose state \<open>'s\<close> takes one item at a time off the front of its
  input. The frame reader, HPACK's integers and strings and HPACK's field representations are
  instances; each proves the two laws for one item and gets the statements for sequences.
\<close>

text \<open>\<open>feed\<close> runs the sender's state over a list of items, \<open>send\<close> is what it puts on the wire and
  \<open>pull\<close> takes \<open>n\<close> items from a receiver.\<close>

fun feed :: "('b \<Rightarrow> 'a \<Rightarrow> 'b option) \<Rightarrow> 'b \<Rightarrow> 'a list \<Rightarrow> 'b option" where
  "feed ok b [] = Some b"
| "feed ok b (x # xs) = (case ok b x of None \<Rightarrow> None | Some b' \<Rightarrow> feed ok b' xs)"

fun send :: "('b \<Rightarrow> 'a \<Rightarrow> byte list) \<Rightarrow> ('b \<Rightarrow> 'a \<Rightarrow> 'b option) \<Rightarrow> 'b \<Rightarrow> 'a list \<Rightarrow> byte list" where
  "send put ok b [] = []"
| "send put ok b (x # xs) =
     put b x @ (case ok b x of None \<Rightarrow> [] | Some b' \<Rightarrow> send put ok b' xs)"

fun pull :: "('s \<Rightarrow> ('e + 'a) \<times> 's) \<Rightarrow> nat \<Rightarrow> 's \<Rightarrow> ('e + 'a list) \<times> 's" where
  "pull recv 0 s = (Inr [], s)"
| "pull recv (Suc n) s =
     (case recv s of
        (Inl e, s') \<Rightarrow> (Inl e, s')
      | (Inr x, s') \<Rightarrow>
          (case pull recv n s' of
             (Inl e, s'') \<Rightarrow> (Inl e, s'')
           | (Inr xs, s'') \<Rightarrow> (Inr (x # xs), s'')))"

lemma feed_append:
  "feed ok b (xs @ ys) = (case feed ok b xs of None \<Rightarrow> None | Some b' \<Rightarrow> feed ok b' ys)"
  by (induction xs arbitrary: b) (auto split: option.splits)

text \<open>\<open>holds s b bs\<close>: receiver \<open>s\<close> is in step with sender state \<open>b\<close> and has \<open>bs\<close> still to read.\<close>

locale wire_source =
  fixes put :: "'b \<Rightarrow> 'a \<Rightarrow> byte list"
    and ok :: "'b \<Rightarrow> 'a \<Rightarrow> 'b option"
    and recv :: "'s \<Rightarrow> ('e + 'a) \<times> 's"
    and holds :: "'s \<Rightarrow> 'b \<Rightarrow> byte list \<Rightarrow> bool"
  assumes recv_put: "holds s b (put b x @ rest) \<Longrightarrow> ok b x = Some b' \<Longrightarrow>
      \<exists>s'. recv s = (Inr x, s') \<and> holds s' b' rest"
begin

lemma pull_send:
  assumes "holds s b (send put ok b xs @ rest)" and "feed ok b xs = Some b'"
  shows "\<exists>s'. pull recv (length xs) s = (Inr xs, s') \<and> holds s' b' rest"
  using assms
proof (induction xs arbitrary: s b)
  case (Cons x xs)
  from Cons.prems(2) obtain b1 where b1: "ok b x = Some b1" "feed ok b1 xs = Some b'"
    by (auto split: option.splits)
  with Cons.prems(1) have "holds s b (put b x @ (send put ok b1 xs @ rest))" by simp
  from recv_put [OF this b1(1)] obtain s1 where
    "recv s = (Inr x, s1)" "holds s1 b1 (send put ok b1 xs @ rest)" by auto
  with Cons.IH [OF _ b1(2)] show ?case by fastforce
qed simp

text \<open>No two item sequences of the same length have encodings that a receiver could confuse.\<close>

lemma send_unambiguous:
  assumes "holds s b (send put ok b xs @ rest)"
    and "send put ok b xs @ rest = send put ok b ys @ rest'"
    and "feed ok b xs = Some b1" "feed ok b ys = Some b2" "length xs = length ys"
  shows "xs = ys"
proof -
  obtain s1 where s1: "pull recv (length xs) s = (Inr xs, s1)"
    using pull_send [OF assms(1,3)] by blast
  have "holds s b (send put ok b ys @ rest')"
    using assms(1) unfolding assms(2) .
  then obtain s2 where "pull recv (length ys) s = (Inr ys, s2)"
    using pull_send assms(4) by blast
  with s1 assms(5) show ?thesis by simp
qed

end

text \<open>A receiver that is sound as well: what it accepts is a step of the sender.\<close>

locale sound_source = wire_source +
  assumes recv_sound: "holds s b bs \<Longrightarrow> recv s = (Inr x, s') \<Longrightarrow>
      \<exists>b' bs'. ok b x = Some b' \<and> holds s' b' bs'"
begin

lemma pull_sound:
  assumes "holds s b bs" and "pull recv n s = (Inr xs, s')"
  shows "\<exists>b' bs'. feed ok b xs = Some b' \<and> holds s' b' bs' \<and> length xs = n"
  using assms
proof (induction n arbitrary: s b bs xs)
  case (Suc n)
  from Suc.prems(2) obtain x xs1 s1 where
    p: "recv s = (Inr x, s1)" "pull recv n s1 = (Inr xs1, s')" "xs = x # xs1"
    by (auto split: prod.splits sum.splits)
  from recv_sound [OF Suc.prems(1) p(1)] obtain b1 bs1 where
    b1: "ok b x = Some b1" "holds s1 b1 bs1" by auto
  from Suc.IH [OF b1(2) p(2)] b1(1) p(3) show ?case by auto
qed auto

end

end
