(* ===== verification/ReaderSpec.thy ===== *)
theory ReaderSpec
  imports FrameReader WireSource
begin

text \<open>
  What a frame reader promises: an abstract account of RFC 9113 section 6.10 and of the two
  bounds on a header block (\<open>spec_step\<close>), and the refinement of it by \<open>ReadFrame\<close>. The abstract
  state is the header block that is open: its stream, its compressed octets so far as a natural
  number, and the number of CONTINUATION frames.
\<close>

subsection \<open>The abstract block discipline\<close>

type_synonym open_block = "(u32 \<times> nat \<times> nat) option"

text \<open>The block with a frame's fragment added; \<open>None\<close> where the frame may not arrive.\<close>

fun grown :: "open_block \<Rightarrow> frame \<Rightarrow> open_block option" where
  "grown None (HeadersFrame f) = Some (Some (hf_StreamID f, length (hf_Fragment f), 0))"
| "grown None (PushPromiseFrame f) = Some (Some (pp_StreamID f, length (pp_Fragment f), 0))"
| "grown None (ContinuationFrame f) = None"
| "grown None _ = Some None"
| "grown (Some (s, n, c)) (ContinuationFrame f) =
     (if cf_StreamID f = s then Some (Some (s, n + length (cf_Fragment f), c + 1)) else None)"
| "grown (Some _) _ = None"

fun ends_block :: "frame \<Rightarrow> bool" where
  "ends_block (HeadersFrame f) = hf_EndHeaders f"
| "ends_block (PushPromiseFrame f) = pp_EndHeaders f"
| "ends_block (ContinuationFrame f) = cf_EndHeaders f"
| "ends_block _ = False"

text \<open>One frame under the limits \<open>L\<close> (octets) and \<open>C\<close> (CONTINUATION frames), the frame that
  closes the block included.\<close>

definition spec_step :: "nat \<Rightarrow> int \<Rightarrow> open_block \<Rightarrow> frame \<Rightarrow> open_block option" where
  "spec_step L C b f =
     (case grown b f of
        None \<Rightarrow> None
      | Some None \<Rightarrow> Some None
      | Some (Some (s, n, c)) \<Rightarrow>
          if n \<le> L \<and> int c \<le> C then Some (if ends_block f then None else Some (s, n, c)) else None)"

text \<open>Consequences that can be read off: between the frame that opens a block and the one that
  ends it there is nothing but CONTINUATION frames of that stream, within the limits.\<close>

lemma spec_step_open:
  "spec_step L C (Some (s, n, c)) f = Some b' \<Longrightarrow>
     \<exists>g. f = ContinuationFrame g \<and> cf_StreamID g = s \<and> n + length (cf_Fragment g) \<le> L \<and> int c + 1 \<le> C"
  by (cases f) (auto simp: spec_step_def split: if_splits)

subsection \<open>The relation between the reader and the abstract block\<close>

definition block_rel :: "reader \<Rightarrow> open_block \<Rightarrow> bool" where
  "block_rel rd b \<longleftrightarrow>
     (case b of
        None \<Rightarrow> blockStream rd = 0 \<and> blockSize rd = 0 \<and> continuations rd = 0
      | Some (s, n, c) \<Rightarrow> s \<noteq> 0 \<and> blockStream rd = s \<and> blockSize rd = word_of_nat n \<and>
          n \<le> unat (maxHeaderBlockSize rd) \<and> continuations rd = int c)"

lemma block_rel_in [simp]: "block_rel (rd\<lparr>rd_in := bs\<rparr>) b = block_rel rd b"
  by (simp add: block_rel_def split: option.splits)

text \<open>The limits are fixed for the life of a reader.\<close>

definition same_limits :: "reader \<Rightarrow> reader \<Rightarrow> bool" where
  "same_limits rd rd' \<longleftrightarrow> maxFrameSize rd' = maxFrameSize rd \<and>
     maxHeaderBlockSize rd' = maxHeaderBlockSize rd \<and> maxContinuations rd' = maxContinuations rd"

lemma same_limits_refl [simp]: "same_limits rd rd"
  by (simp add: same_limits_def)

lemma same_limits_trans: "same_limits a b \<Longrightarrow> same_limits b c \<Longrightarrow> same_limits a c"
  by (simp add: same_limits_def)

lemma readFull_frame:
  "readFull n rd = (r, rd') \<Longrightarrow> same_limits rd rd' \<and> rd_end rd' = rd_end rd \<and>
     blockStream rd' = blockStream rd \<and> blockSize rd' = blockSize rd \<and>
     continuations rd' = continuations rd \<and> (block_rel rd' b \<longleftrightarrow> block_rel rd b)"
  by (auto simp: readFull_def same_limits_def block_rel_def split: if_splits option.splits)

lemma readFull_append [simp]:
  "rd_in rd = xs @ rest \<Longrightarrow> n = length xs \<Longrightarrow> readFull n rd = (Inr xs, rd\<lparr>rd_in := rest\<rparr>)"
  by (simp add: readFull_def)

lemma u64_of_small [simp]:
  "n < 2 ^ 33 \<Longrightarrow> unat (word_of_nat n :: u64) = n"
  by (rule unat_word_of_nat_small) simp

lemma unat_ucast_u32_u64: "unat (ucast (w :: u32) :: u64) = unat w"
proof -
  have "unat w < 2 ^ 64"
    using unsigned_less [of w, where ?'a = nat] by simp
  then show ?thesis by (simp add: unsigned_ucast_eq take_bit_nat_eq_self)
qed

lemma finishFrame_spec:
  assumes "blockSize rd = word_of_nat n" "n < 2 ^ 33" "continuations rd = int c"
    and "blockStream rd = s" "s \<noteq> 0"
    and "finishFrame rd e = (r, rd')"
  shows "r = None \<longleftrightarrow> n \<le> unat (maxHeaderBlockSize rd) \<and> int c \<le> maxContinuations rd"
    and "r = None \<Longrightarrow> block_rel rd' (if e then None else Some (s, n, c))"
    and "same_limits rd rd'" "rd_in rd' = rd_in rd" "rd_end rd' = rd_end rd"
    and "r \<noteq> None \<Longrightarrow> r = Some (ConnError EnhanceYourCalm)"
proof -
  have "blockSize rd > ucast (maxHeaderBlockSize rd) \<longleftrightarrow> unat (maxHeaderBlockSize rd) < n"
    using assms(1,2) by (simp add: word_less_nat_alt unat_ucast_u32_u64)
  with assms show "r = None \<longleftrightarrow> n \<le> unat (maxHeaderBlockSize rd) \<and> int c \<le> maxContinuations rd"
    and "r = None \<Longrightarrow> block_rel rd' (if e then None else Some (s, n, c))"
    and "same_limits rd rd'" "rd_in rd' = rd_in rd" "rd_end rd' = rd_end rd"
    and "r \<noteq> None \<Longrightarrow> r = Some (ConnError EnhanceYourCalm)"
    by (auto simp: finishFrame_def checkBlockLimits_def block_rel_def same_limits_def
        split: if_splits)
qed

lemma checkContinuity_grown:
  assumes "block_rel rd b" "Frame_Type f = h_Type h" "Frame_Stream f = h_StreamID h"
  shows "checkContinuity rd h = None \<longleftrightarrow> grown b f \<noteq> None"
  using assms
  by (cases f; cases b) (auto simp: checkContinuity_def block_rel_def)

lemma fragment_le_payload:
  "length (hf_Fragment g) \<le> length (payload_of (HeadersFrame g))"
  "length (pp_Fragment p) \<le> length (payload_of (PushPromiseFrame p))"
  "length (cf_Fragment c) \<le> length (payload_of (ContinuationFrame c))"
  by (auto simp: append_defs Let_def)

abbreviation step_of :: "reader \<Rightarrow> open_block \<Rightarrow> frame \<Rightarrow> open_block option" where
  "step_of rd \<equiv> spec_step (unat (maxHeaderBlockSize rd)) (maxContinuations rd)"

lemma trackBlock_spec:
  assumes "block_rel rd b" "canonical f" "length (payload_of f) < 2 ^ 32" "grown b f \<noteq> None"
    and "trackBlock rd f = (r, rd')"
  shows "(case r of
            None \<Rightarrow> (\<exists>b'. step_of rd b f = Some b' \<and> block_rel rd' b')
          | Some e \<Rightarrow> step_of rd b f = None \<and> e = ConnError EnhanceYourCalm) \<and>
         same_limits rd rd' \<and> rd_in rd' = rd_in rd \<and> rd_end rd' = rd_end rd"
proof (cases "grown b f")
  case None
  with assms show ?thesis by simp
next
  case (Some ob)
  show ?thesis
  proof (cases ob)
    case None
    with Some have "trackBlock rd f = (None, rd)" "b = None"
      by (cases f; cases b; auto split: if_splits)+
    with Some None assms show ?thesis by (auto simp: spec_step_def)
  next
    case (Some x)
    obtain s n c where x: "x = (s, n, c)" by (cases x)
    have g: "grown b f = Some (Some (s, n, c))" using \<open>grown b f = Some ob\<close> Some x by simp
    obtain rd1 where rd1: "trackBlock rd f = finishFrame rd1 (ends_block f)" "same_limits rd rd1"
      "blockSize rd1 = word_of_nat n" "n < 2 ^ 33" "continuations rd1 = int c"
      "blockStream rd1 = s" "s \<noteq> 0" "rd_in rd1 = rd_in rd" "rd_end rd1 = rd_end rd"
    proof (cases f)
      case (HeadersFrame k)
      with g assms(1-3) fragment_le_payload(1) [of k]
      show ?thesis
        by (intro that [of "rd\<lparr>blockStream := s, blockSize := word_of_nat n, continuations := 0\<rparr>"];
            cases b; auto simp: beginBlock_def same_limits_def on_stream_def)
    next
      case (PushPromiseFrame k)
      with g assms(1-3) fragment_le_payload(2) [of k]
      show ?thesis
        by (intro that [of "rd\<lparr>blockStream := s, blockSize := word_of_nat n, continuations := 0\<rparr>"];
            cases b; auto simp: beginBlock_def same_limits_def on_stream_def)
    next
      case (ContinuationFrame k)
      have "unat (maxHeaderBlockSize rd) < 2 ^ 32"
        using unsigned_less [of "maxHeaderBlockSize rd", where ?'a = nat] by simp
      with ContinuationFrame g assms(1-3) fragment_le_payload(3) [of k]
      show ?thesis
        by (intro that [of "rd\<lparr>blockSize := blockSize rd + word_of_nat (length (cf_Fragment k)),
              continuations := continuations rd + 1\<rparr>"];
            cases b; auto simp: extendBlock_def block_rel_def same_limits_def split: if_splits)
    qed (use g in \<open>cases b; simp\<close>)+
    note fin = finishFrame_spec [OF rd1(3-7) assms(5) [unfolded rd1(1)]]
    from g fin rd1 show ?thesis
      by (auto simp: spec_step_def same_limits_def split: option.splits)
  qed
qed

subsection \<open>ReadFrame refines the block discipline\<close>

definition read_result_ok :: "reader \<Rightarrow> open_block \<Rightarrow> error + frame \<Rightarrow> reader \<Rightarrow> bool" where
  "read_result_ok rd b r rd' \<longleftrightarrow>
     same_limits rd rd' \<and> rd_end rd' = rd_end rd \<and>
     (case r of
        Inl e \<Rightarrow> protocol_error e \<or> (\<exists>i. e = IoError i)
      | Inr f \<Rightarrow> canonical f \<and> length (payload_of f) \<le> unat (maxFrameSize rd) \<and>
          (\<exists>b'. step_of rd b f = Some b' \<and> block_rel rd' b'))"

lemma read_result_ok_trans:
  "same_limits rd rd1 \<Longrightarrow> rd_end rd1 = rd_end rd \<Longrightarrow> read_result_ok rd1 b r rd' \<Longrightarrow>
     read_result_ok rd b r rd'"
  by (auto simp: read_result_ok_def same_limits_def split: sum.splits)

lemma checkContinuity_error: "checkContinuity rd h = Some e \<Longrightarrow> protocol_error e"
  by (auto simp: checkContinuity_def split: if_splits)

lemma parsed_frame_ok:
  assumes "block_rel rd b" "checkContinuity rd h = None" "parsers (h_Type h) = Some p"
    and "length pl = unat (h_Length h)" "h_StreamID h \<le> streamIDMask"
    and "h_Length h \<le> maxFrameSize rd" "p h pl = Inr f" "trackBlock rd f = (t, rd')"
  shows "read_result_ok rd b (case t of None \<Rightarrow> Inr f | Some e \<Rightarrow> Inl e) rd'"
proof -
  have a: "answers h pl f"
    using parsers_answer assms by blast
  have len: "length (payload_of f) = unat (h_Length h)"
    using a assms(4) by (simp add: answers_def)
  have g: "grown b f \<noteq> None"
    using checkContinuity_grown [of rd b f h] a assms by (auto simp: answers_def)
  have "length (payload_of f) < 2 ^ 32"
    using len unsigned_less [of "h_Length h", where ?'a = nat] by simp
  with trackBlock_spec [OF assms(1) _ _ g assms(8)] a len assms(6) show ?thesis
    by (auto simp: read_result_ok_def answers_def word_le_nat_alt split: option.splits)
qed

theorem ReadFrame_sound:
  assumes "block_rel rd b"
  shows "read_result_ok rd b (fst (ReadFrame rd)) (snd (ReadFrame rd))"
  using assms
proof (induction rd rule: ReadFrame.induct)
  case (1 rd)
  note eq = ReadFrame.simps [of rd]
  obtain r1 rd1 where r1: "readFull 9 rd = (r1, rd1)" by fastforce
  note f1 = readFull_frame [OF r1]
  show ?case
  proof (cases r1)
    case (Inl e)
    with f1 show ?thesis by (simp add: eq r1 read_result_ok_def)
  next
    case (Inr hb)
    have "length hb = 9"
      using r1 Inr by (auto simp: readFull_def split: if_splits)
    then obtain h where h: "ParseHeader hb = Inr h" "h_StreamID h \<le> streamIDMask"
      using ParseHeader_total by blast
    show ?thesis
    proof (cases "h_Length h > maxFrameSize rd1 \<or> checkContinuity rd1 h \<noteq> None")
      case True
      with f1 Inr h checkContinuity_error [of rd1 h] show ?thesis
        by (auto simp: eq r1 read_result_ok_def)
    next
      case False
      obtain r2 rd2 where r2: "readFull (unat (h_Length h)) rd1 = (r2, rd2)" by fastforce
      note f2 = readFull_frame [OF r2]
      have base: "same_limits rd rd2" "rd_end rd2 = rd_end rd" "block_rel rd2 b"
        using f1 f2 "1.prems" by (auto simp: same_limits_def)
      have cont: "checkContinuity rd2 h = None"
        using False f2 by (auto simp: checkContinuity_def split: if_splits)
      show ?thesis
      proof (cases r2)
        case (Inl e)
        with False Inr h base show ?thesis by (auto simp: eq r1 r2 read_result_ok_def)
      next
        case (Inr pl)
        have pl: "length pl = unat (h_Length h)"
          using r2 Inr by (auto simp: readFull_def split: if_splits)
        show ?thesis
        proof (cases "parsers (h_Type h)")
          case None
          have "ReadFrame rd = ReadFrame rd2"
            using None False Inr \<open>r1 = Inr hb\<close> h by (simp add: eq r1 r2)
          moreover have "read_result_ok rd2 b (fst (ReadFrame rd2)) (snd (ReadFrame rd2))"
            using "1.IH" r1 r2 Inr \<open>r1 = Inr hb\<close> h False None base by auto
          ultimately show ?thesis
            using base read_result_ok_trans by auto
        next
          case (Some p)
          show ?thesis
          proof (cases "p h pl")
            case (Inl e)
            with parsers_error [OF Some Inl pl h(2)] Some False \<open>r2 = Inr pl\<close> \<open>r1 = Inr hb\<close> h base
            show ?thesis by (simp add: eq r1 r2 read_result_ok_def)
          next
            case (Inr f)
            obtain t rd3 where t: "trackBlock rd2 f = (t, rd3)" by fastforce
            have le: "h_Length h \<le> maxFrameSize rd2"
              using False f2 by (auto simp: same_limits_def)
            have "ReadFrame rd = (case t of None \<Rightarrow> Inr f | Some e \<Rightarrow> Inl e, rd3)"
              using Some Inr t False \<open>r2 = Inr pl\<close> \<open>r1 = Inr hb\<close> h
              by (simp add: eq r1 r2 split: option.split)
            with parsed_frame_ok [OF base(3) cont Some pl h(2) le Inr t] base
            show ?thesis by (auto intro: read_result_ok_trans)
          qed
        qed
      qed
    qed
  qed
qed

subsection \<open>Reading what was written\<close>

definition wire_of :: "frame \<Rightarrow> byte list" where
  "wire_of f = Header_AppendTo (HeaderOf f) [] @ payload_of f"

text \<open>What may be sent to a reader with these limits: canonical frames whose payload fits the
  frame size, in an order the block discipline admits.\<close>

definition sendable :: "nat \<Rightarrow> nat \<Rightarrow> int \<Rightarrow> open_block \<Rightarrow> frame \<Rightarrow> open_block option" where
  "sendable F L C b f =
     (if canonical f \<and> length (payload_of f) \<le> F then spec_step L C b f else None)"

lemma ReadFrame_wire:
  assumes "canonical f" "length (payload_of f) \<le> unat (maxFrameSize rd)"
    and "maxFrameSize rd \<le> MaxLength"
    and "block_rel rd b" "step_of rd b f = Some b'" "rd_in rd = wire_of f @ rest"
  shows "\<exists>rd'. ReadFrame rd = (Inr f, rd') \<and> rd_in rd' = rest \<and> block_rel rd' b' \<and>
           same_limits rd rd' \<and> rd_end rd' = rd_end rd"
proof -
  let ?h = "HeaderOf f"
  have small: "length (payload_of f) \<le> 0xffffff"
    using assms(2,3) by (simp add: word_le_nat_alt)
  then have len: "unat (h_Length ?h) = length (payload_of f)"
    using PayloadLen_length [OF canonical_typed [OF assms(1)]] by (simp add: HeaderOf_def)
  have head: "ParseHeader (Header_AppendTo ?h []) = Inr ?h"
    using small len canonical_stream_le [OF assms(1)]
    by (intro ParseHeader_AppendTo) (simp_all add: word_le_nat_alt, simp add: HeaderOf_def word_le_nat_alt)
  define rd1 where "rd1 = rd\<lparr>rd_in := payload_of f @ rest\<rparr>"
  define rd2 where "rd2 = rd\<lparr>rd_in := rest\<rparr>"
  have r1: "readFull 9 rd = (Inr (Header_AppendTo ?h []), rd1)"
    using assms(6) by (simp add: wire_of_def rd1_def)
  have r2: "readFull (unat (h_Length ?h)) rd1 = (Inr (payload_of f), rd2)"
    using len by (simp add: rd1_def rd2_def)
  have fits: "\<not> maxFrameSize rd1 < h_Length ?h"
    using len assms(2) by (simp add: rd1_def not_less word_le_nat_alt)
  have g: "grown b f \<noteq> None"
    using assms(5) by (auto simp: spec_step_def split: option.splits)
  have rel: "block_rel rd1 b" "block_rel rd2 b"
    using assms(4) by (simp_all add: rd1_def rd2_def)
  have "Frame_Type f = h_Type ?h" "Frame_Stream f = h_StreamID ?h"
    by (simp_all add: HeaderOf_def)
  then have cont: "checkContinuity rd1 ?h = None"
    using checkContinuity_grown [OF rel(1)] g by blast
  obtain p where p: "parsers (h_Type ?h) = Some p" "p ?h (payload_of f) = Inr f"
    using parse_payload [OF assms(1)] small by (auto simp: HeaderOf_def)
  obtain t rd3 where t: "trackBlock rd2 f = (t, rd3)" by fastforce
  have "length (payload_of f) < 2 ^ 32" using small by simp
  from trackBlock_spec [OF rel(2) assms(1) this g t] assms(5)
  have "t = None" "block_rel rd3 b'" "same_limits rd2 rd3" "rd_in rd3 = rest" "rd_end rd3 = rd_end rd"
    by (auto simp: rd2_def split: option.splits)
  moreover have "ReadFrame rd = (Inr f, rd3)"
    using r1 r2 head fits cont p t \<open>t = None\<close> by (simp add: ReadFrame.simps [of rd])
  ultimately show ?thesis by (auto simp: same_limits_def rd2_def)
qed

text \<open>A reader with fixed limits, in step with the block discipline.\<close>

definition reader_at :: "nat \<Rightarrow> nat \<Rightarrow> int \<Rightarrow> reader \<Rightarrow> open_block \<Rightarrow> byte list \<Rightarrow> bool" where
  "reader_at F L C rd b bs \<longleftrightarrow>
     block_rel rd b \<and> rd_in rd = bs \<and> unat (maxFrameSize rd) = F \<and> maxFrameSize rd \<le> MaxLength \<and>
     unat (maxHeaderBlockSize rd) = L \<and> maxContinuations rd = C"

interpretation fr: sound_source "\<lambda>b. wire_of" "sendable F L C" ReadFrame "reader_at F L C" for F L C
proof (unfold_locales, goal_cases)
  case (1 s b x rest b')
  then have "canonical x" "length (payload_of x) \<le> unat (maxFrameSize s)"
    "maxFrameSize s \<le> MaxLength" "block_rel s b" "step_of s b x = Some b'" "rd_in s = wire_of x @ rest"
    by (auto simp: reader_at_def sendable_def split: if_splits)
  from ReadFrame_wire [OF this] 1(1) show ?case
    by (auto simp: reader_at_def same_limits_def)
next
  case (2 s b bs x s')
  then have "block_rel s b" by (simp add: reader_at_def)
  from ReadFrame_sound [OF this] 2 show ?case
    by (auto simp: read_result_ok_def reader_at_def sendable_def same_limits_def)
qed

end
