(* ===== verification/FrameWriter.thy ===== *)
theory FrameWriter
  imports ReaderSpec "HOL-Library.Sublist"
begin

text \<open>
  \<^verbatim>\<open>internal/frame/writer.go\<close>. The \<open>io.Writer\<close> under a \<open>Writer\<close> is a parameter: a function
  \<open>write\<close> on its state \<open>'w\<close> that answers with the count of octets taken and an error or none.
  \<open>write_contract\<close> is what the package \<open>io\<close> documents of it, as an account of the octets that
  have reached the peer. The frame size is the one field that another goroutine writes; a store
  between two operations is \<open>SetMaxFrameSize\<close>.
\<close>

subsection \<open>The state\<close>

record 'w writer =
  w_sink :: 'w
  w_buf :: "byte list"
  w_maxFrameSize :: u32
  w_err :: "error option"

record writer_config =
  wc_MaxFrameSize :: u32
  wc_BufferSize :: int

definition DefaultWriteBufferSize :: int where [simp]: "DefaultWriteBufferSize = 0x1000"

definition SetMaxFrameSize :: "u32 \<Rightarrow> 'w writer \<Rightarrow> 'w writer" where
  "SetMaxFrameSize n w =
     (let n = (if n < DefaultMaxFrameSize then DefaultMaxFrameSize else n);
          n = (if n > MaxLength then MaxLength else n)
      in w\<lparr>w_maxFrameSize := n\<rparr>)"

text \<open>The buffer size is a capacity and leaves no trace in the value of the buffer.\<close>

definition NewWriter :: "'w \<Rightarrow> writer_config \<Rightarrow> 'w writer" where
  "NewWriter sink cfg =
     (let cfg = (if wc_MaxFrameSize cfg = 0 then cfg\<lparr>wc_MaxFrameSize := DefaultMaxFrameSize\<rparr> else cfg);
          cfg = (if wc_BufferSize cfg \<le> 0 then cfg\<lparr>wc_BufferSize := DefaultWriteBufferSize\<rparr> else cfg)
      in SetMaxFrameSize (wc_MaxFrameSize cfg)
           \<lparr>w_sink = sink, w_buf = [], w_maxFrameSize = 0, w_err = None\<rparr>)"

definition Buffered :: "'w writer \<Rightarrow> nat" where
  "Buffered w = length (w_buf w)"

definition Writer_Err :: "'w writer \<Rightarrow> error option" where
  "Writer_Err w = w_err w"

subsection \<open>Queue, Flush and WriteFrame\<close>

definition Queue :: "frame \<Rightarrow> 'w writer \<Rightarrow> error option \<times> 'w writer" where
  "Queue f w =
     (case w_err w of
        Some e \<Rightarrow> (Some e, w)
      | None \<Rightarrow>
          if Frame_PayloadLen f > w_maxFrameSize w then (Some (ConnError InternalError), w)
          else if Frame_Stream f > streamIDMask then (Some (ConnError InternalError), w)
          else
            let start = length (w_buf w);
                buf = Frame_appendPayload f (Header_AppendTo (HeaderOf f) (w_buf w))
            in if int (length buf) - int start - int HeaderLen \<noteq> uint (Frame_PayloadLen f)
               then (Some (ConnError InternalError), w\<lparr>w_buf := take start buf\<rparr>)
               else (None, w\<lparr>w_buf := buf\<rparr>))"

type_synonym 'w sink_write = "'w \<Rightarrow> byte list \<Rightarrow> (int \<times> io_error option) \<times> 'w"

definition Flush :: "'w sink_write \<Rightarrow> 'w writer \<Rightarrow> error option \<times> 'w writer" where
  "Flush write w =
     (case w_err w of
        Some e \<Rightarrow> (Some e, w)
      | None \<Rightarrow>
          if length (w_buf w) = 0 then (None, w)
          else
            (case write (w_sink w) (w_buf w) of
               ((n, err), sink) \<Rightarrow>
                 (let err = (if err = None \<and> n \<noteq> int (length (w_buf w)) then Some ShortWrite else err);
                      w = w\<lparr>w_sink := sink, w_buf := []\<rparr>
                  in case err of
                       Some e \<Rightarrow> (Some (IoError e), w\<lparr>w_err := Some (IoError e)\<rparr>)
                     | None \<Rightarrow> (None, w))))"

definition WriteFrame :: "'w sink_write \<Rightarrow> frame \<Rightarrow> 'w writer \<Rightarrow> error option \<times> 'w writer" where
  "WriteFrame write f w =
     (case Queue f w of
        (Some e, w) \<Rightarrow> (Some e, w)
      | (None, w) \<Rightarrow> Flush write w)"

subsection \<open>Queue\<close>

lemma SetMaxFrameSize_bounds:
  "DefaultMaxFrameSize \<le> w_maxFrameSize (SetMaxFrameSize n w) \<and>
   w_maxFrameSize (SetMaxFrameSize n w) \<le> MaxLength"
  by (auto simp: SetMaxFrameSize_def Let_def)

lemma SetMaxFrameSize_frame [simp]:
  "w_buf (SetMaxFrameSize n w) = w_buf w" "w_err (SetMaxFrameSize n w) = w_err w"
  "w_sink (SetMaxFrameSize n w) = w_sink w"
  by (simp_all add: SetMaxFrameSize_def Let_def)

lemma take_append_w: "w\<lparr>w_buf := take (length (w_buf w)) (w_buf w @ xs)\<rparr> = w"
  by simp

lemma Queue_unlatched:
  assumes "w_err w = None"
  shows "Queue f w =
    (if Frame_PayloadLen f \<le> w_maxFrameSize w \<and> Frame_Stream f \<le> streamIDMask \<and>
        length (payload_of f) = unat (Frame_PayloadLen f)
     then (None, w\<lparr>w_buf := w_buf w @ wire_of f\<rparr>)
     else (Some (ConnError InternalError), w))"
proof -
  let ?n = "Frame_PayloadLen f"
  have buf: "Frame_appendPayload f (Header_AppendTo (HeaderOf f) (w_buf w)) = w_buf w @ wire_of f"
    unfolding wire_of_def Header_AppendTo_dst [of _ "w_buf w"]
    by (subst Frame_appendPayload_dst) simp
  have len: "length (wire_of f) = 9 + length (payload_of f)"
    by (simp add: wire_of_def length_Header_AppendTo)
  have "int (length (w_buf w @ wire_of f)) - int (length (w_buf w)) - int HeaderLen \<noteq> uint ?n \<longleftrightarrow>
      length (payload_of f) \<noteq> unat ?n"
    by (simp add: len) (metis nat_int uint_nat)
  note fires = this
  have
    "Queue f w = (if w_maxFrameSize w < ?n \<or> streamIDMask < Frame_Stream f \<or>
        length (payload_of f) \<noteq> unat ?n
      then (Some (ConnError InternalError), w) else (None, w\<lparr>w_buf := w_buf w @ wire_of f\<rparr>))"
    unfolding Queue_def assms Let_def buf option.case fires take_append_w by auto
  then show ?thesis by (auto simp: not_less)
qed

text \<open>A frame whose declared length fits is never cut: the length check only refuses payloads
  of \<open>2\<^sup>3\<^sup>2\<close> octets and more.\<close>

lemma Queue_canonical:
  assumes "w_err w = None" "canonical f" "length (payload_of f) \<le> unat (w_maxFrameSize w)"
  shows "Queue f w = (None, w\<lparr>w_buf := w_buf w @ wire_of f\<rparr>)"
proof -
  have "length (payload_of f) < 2 ^ 32"
    using assms(3) unsigned_less [of "w_maxFrameSize w", where ?'a = nat] by simp
  from PayloadLen_length [OF canonical_typed [OF assms(2)] this] assms
  show ?thesis
    using canonical_stream_le [OF assms(2)] by (simp add: Queue_unlatched word_le_nat_alt)
qed

subsection \<open>What the peer receives\<close>

text \<open>The contract of \<open>io.Writer\<close>: octets arrive in order and at most once, all of them when the
  count says so, and otherwise some first part.\<close>

definition write_contract :: "'w sink_write \<Rightarrow> ('w \<Rightarrow> byte list) \<Rightarrow> bool" where
  "write_contract write delivered \<longleftrightarrow>
     (\<forall>s p. case write s p of ((n, err), s') \<Rightarrow>
        \<exists>q. prefix q p \<and> delivered s' = delivered s @ q \<and>
            (err = None \<and> n = int (length p) \<longrightarrow> q = p))"

text \<open>The operations a connection's writer goroutine performs, with the setting stored by the
  reader goroutine between them.\<close>

datatype writer_op = OpQueue frame | OpFlush | OpWriteFrame frame | OpSetMax u32

fun writer_step :: "'w sink_write \<Rightarrow> writer_op \<Rightarrow> 'w writer \<Rightarrow> error option \<times> 'w writer" where
  "writer_step write (OpQueue f) w = Queue f w"
| "writer_step write OpFlush w = Flush write w"
| "writer_step write (OpWriteFrame f) w = WriteFrame write f w"
| "writer_step write (OpSetMax n) w = (None, SetMaxFrameSize n w)"

text \<open>The frames that the writer took, in order, as a run goes.\<close>

definition taken :: "writer_op \<Rightarrow> 'w writer \<Rightarrow> frame list" where
  "taken op w =
     (case op of
        OpQueue f \<Rightarrow> if fst (Queue f w) = None then [f] else []
      | OpWriteFrame f \<Rightarrow> if fst (Queue f w) = None then [f] else []
      | _ \<Rightarrow> [])"

fun writer_run :: "'w sink_write \<Rightarrow> writer_op list \<Rightarrow> 'w writer \<Rightarrow> frame list \<times> 'w writer" where
  "writer_run write [] w = ([], w)"
| "writer_run write (op # ops) w =
     (case writer_run write ops (snd (writer_step write op w)) of
        (fs, w') \<Rightarrow> (taken op w @ fs, w'))"

definition wire_all :: "frame list \<Rightarrow> byte list" where
  "wire_all fs = concat (map wire_of fs)"

lemma wire_all_simps [simp]:
  "wire_all [] = []" "wire_all (f # fs) = wire_of f @ wire_all fs"
  "wire_all (fs @ gs) = wire_all fs @ wire_all gs"
  by (simp_all add: wire_all_def)

text \<open>The octets delivered and queued are those of the frames taken, whole and in order; after a
  failed write they are a first part of them and nothing follows.\<close>

definition writer_ok :: "('w \<Rightarrow> byte list) \<Rightarrow> frame list \<Rightarrow> 'w writer \<Rightarrow> bool" where
  "writer_ok delivered fs w \<longleftrightarrow>
     (if w_err w = None then delivered (w_sink w) @ w_buf w = wire_all fs
      else w_buf w = [] \<and> prefix (delivered (w_sink w)) (wire_all fs))"

lemma Queue_ok:
  assumes "writer_ok delivered fs w"
  shows "writer_ok delivered (fs @ taken (OpQueue f) w) (snd (Queue f w))"
proof (cases "w_err w")
  case None
  with assms show ?thesis
    by (auto simp: writer_ok_def taken_def Queue_unlatched)
next
  case (Some e)
  with assms show ?thesis by (simp add: writer_ok_def taken_def Queue_def)
qed

lemma Flush_ok:
  assumes "write_contract write delivered" "writer_ok delivered fs w"
  shows "writer_ok delivered fs (snd (Flush write w))"
proof (cases "w_err w = None \<and> w_buf w \<noteq> []")
  case True
  obtain n err s' where w: "write (w_sink w) (w_buf w) = ((n, err), s')"
    by (cases "write (w_sink w) (w_buf w)") auto
  from assms(1) [unfolded write_contract_def, rule_format, of "w_buf w" "w_sink w"]
  obtain q where q: "prefix q (w_buf w)" "delivered s' = delivered (w_sink w) @ q"
    "err = None \<and> n = int (length (w_buf w)) \<longrightarrow> q = w_buf w"
    unfolding w by auto
  have wire: "wire_all fs = delivered (w_sink w) @ w_buf w"
    using assms(2) True by (simp add: writer_ok_def)
  have "prefix (delivered s') (wire_all fs)"
    using q(1,2) by (simp add: wire)
  then show ?thesis
    using True w q wire by (auto simp: Flush_def writer_ok_def Let_def split: option.splits)
next
  case False
  with assms(2) show ?thesis by (auto simp: Flush_def split: option.splits)
qed

lemma taken_WriteFrame: "taken (OpWriteFrame f) w = taken (OpQueue f) w"
  by (simp add: taken_def)

lemma WriteFrame_snd:
  "snd (WriteFrame write f w) =
     (if fst (Queue f w) = None then snd (Flush write (snd (Queue f w))) else snd (Queue f w))"
  by (auto simp: WriteFrame_def split: prod.splits option.splits)

lemma writer_step_ok:
  assumes "write_contract write delivered" "writer_ok delivered fs w"
  shows "writer_ok delivered (fs @ taken op w) (snd (writer_step write op w))"
proof (cases op)
  case (OpQueue f)
  with Queue_ok [OF assms(2)] show ?thesis by simp
next
  case OpFlush
  with Flush_ok [OF assms] show ?thesis by (simp add: taken_def)
next
  case (OpWriteFrame f)
  with Queue_ok [OF assms(2)] Flush_ok [OF assms(1)] show ?thesis
    by (simp add: WriteFrame_snd taken_WriteFrame)
next
  case (OpSetMax n)
  with assms(2) show ?thesis by (simp add: taken_def writer_ok_def)
qed

lemma writer_run_ok:
  assumes "write_contract write delivered" "writer_ok delivered fs0 w"
    and "writer_run write ops w = (fs, w')"
  shows "writer_ok delivered (fs0 @ fs) w'"
  using assms(2,3)
proof (induction ops arbitrary: fs0 w fs)
  case (Cons op ops)
  obtain gs where gs: "writer_run write ops (snd (writer_step write op w)) = (gs, w')"
    "fs = taken op w @ gs"
    using Cons.prems(2) by (auto split: prod.splits)
  from Cons.IH [OF writer_step_ok [OF assms(1) Cons.prems(1)] gs(1)] gs(2)
  show ?case by simp
qed simp

lemma NewWriter_ok: "delivered sink = [] \<Longrightarrow> writer_ok delivered [] (NewWriter sink cfg)"
  by (simp add: writer_ok_def NewWriter_def Let_def)

lemma send_wire_all:
  "feed (sendable F L C) b fs = Some b' \<Longrightarrow> send (\<lambda>b. wire_of) (sendable F L C) b fs = wire_all fs"
  by (induction fs arbitrary: b) (auto split: option.splits)

text \<open>A new reader is at the start of what it was given, under the limits it was made with.\<close>

lemma NewReader_at:
  assumes "maxFrameSize (NewReader bs e cfg) \<le> MaxLength"
  shows "reader_at (unat (maxFrameSize (NewReader bs e cfg)))
           (unat (maxHeaderBlockSize (NewReader bs e cfg)))
           (maxContinuations (NewReader bs e cfg)) (NewReader bs e cfg) None bs"
  using assms by (simp add: reader_at_def block_rel_def) (simp add: NewReader_def Let_def)

lemma NewReader_limits:
  "maxFrameSize (NewReader bs e cfg) = maxFrameSize (NewReader [] EOF cfg)"
  "maxHeaderBlockSize (NewReader bs e cfg) = maxHeaderBlockSize (NewReader [] EOF cfg)"
  "maxContinuations (NewReader bs e cfg) = maxContinuations (NewReader [] EOF cfg)"
  by (simp_all add: NewReader_def Let_def)

end
