(* ===== verification/FrameProps.thy ===== *)
theory FrameProps
  imports FrameWriter
begin

text \<open>
  The properties of the frame layer: what one end queues and flushes is what the other end reads,
  a reader only ever delivers well-formed header blocks within its limits, and a writer never puts
  part of a frame, or a frame with a false length, on the stream.
\<close>

abbreviation cfg_F :: "reader_config \<Rightarrow> nat" where
  "cfg_F cfg \<equiv> unat (maxFrameSize (NewReader [] EOF cfg))"

abbreviation cfg_L :: "reader_config \<Rightarrow> nat" where
  "cfg_L cfg \<equiv> unat (maxHeaderBlockSize (NewReader [] EOF cfg))"

abbreviation cfg_C :: "reader_config \<Rightarrow> int" where
  "cfg_C cfg \<equiv> maxContinuations (NewReader [] EOF cfg)"

lemma NewReader_reader_at:
  "maxFrameSize (NewReader [] EOF cfg) \<le> MaxLength \<Longrightarrow>
     reader_at (cfg_F cfg) (cfg_L cfg) (cfg_C cfg) (NewReader bs e cfg) None bs"
  using NewReader_at [of bs e cfg] by (metis NewReader_limits)

text \<open>Values for the witnesses: a default configuration, a list as the peer's end of the stream and
  a request's worth of frames.\<close>

definition default_config :: reader_config where
  "default_config = \<lparr>MaxFrameSize = 0, MaxHeaderBlockSize = 0, MaxContinuationFrames = 0\<rparr>"

definition list_sink :: "byte list sink_write" where
  "list_sink s p = ((int (length p), None), s @ p)"

definition sample_frames :: "frame list" where
  "sample_frames =
    [HeadersFrame \<lparr>hf_StreamID = 1, hf_EndStream = False, hf_EndHeaders = False,
       hf_Fragment = [0x82, 0x86], hf_Priority = False, hf_Exclusive = False,
       hf_StreamDependency = 0, hf_Weight = 0, hf_Padded = True, hf_PadLen = 3\<rparr>,
     ContinuationFrame \<lparr>cf_StreamID = 1, cf_EndHeaders = True, cf_Fragment = [0x84]\<rparr>,
     DataFrame \<lparr>df_StreamID = 1, df_EndStream = True, df_Data = [1, 2, 3], df_Padded = False,
       df_PadLen = 0\<rparr>]"

lemma list_sink_contract: "write_contract list_sink (\<lambda>s. s)"
  by (simp add: write_contract_def list_sink_def)

lemma default_config_limits:
  "maxFrameSize (NewReader [] EOF default_config) = 0x4000"
  "maxHeaderBlockSize (NewReader [] EOF default_config) = 0x20000"
  "maxContinuations (NewReader [] EOF default_config) = 32"
  by (simp_all add: NewReader_def default_config_def)

definition sample_ops :: "writer_op list" where
  "sample_ops = map OpQueue sample_frames @ [OpFlush]"

definition sample_writer :: "byte list writer" where
  "sample_writer = NewWriter [] \<lparr>wc_MaxFrameSize = 0, wc_BufferSize = 0\<rparr>"

lemma sample_feed:
  "feed (sendable 0x4000 0x20000 32) None sample_frames = Some None"
  by (simp add: sample_frames_def sendable_def spec_step_def on_stream_def streamIDMask_def
      append_defs length_defs)

lemma sample_run:
  "fst (writer_run list_sink sample_ops sample_writer) = sample_frames"
  "w_err (snd (writer_run list_sink sample_ops sample_writer)) = None"
  "w_buf (snd (writer_run list_sink sample_ops sample_writer)) = []"
  by (simp_all add: sample_ops_def sample_writer_def sample_frames_def NewWriter_def Let_def
      SetMaxFrameSize_def Queue_canonical taken_def on_stream_def streamIDMask_def
      append_defs length_defs Flush_def list_sink_def)

lemma writer_run_wire:
  assumes "write_contract write delivered" "delivered sink = []"
    and "writer_run write ops (NewWriter sink wc) = (fs, w)"
  shows "writer_ok delivered fs w"
  using writer_run_ok [OF assms(1) NewWriter_ok [where delivered = delivered] assms(3)] assms(2)
  by simp

subsection \<open>Properties\<close>

text \<open>C1: What one end writes, the other end reads. Whatever order of \<open>Queue\<close>, \<open>Flush\<close>,
  \<open>WriteFrame\<close> and setting changes a fresh \<open>Writer\<close> goes through over an \<open>io.Writer\<close> that keeps
  its contract, once everything is flushed without an error the octets delivered, followed by
  anything, are read back by \<open>ReadFrame\<close> of a fresh \<open>Reader\<close> as exactly the frames that were
  taken, provided that sequence respects the limits of the reader and the header block
  discipline. Unknown fields, padding, flags and reserved bits included.\<close>

theorem frames_written_are_read:
  assumes "write_contract write delivered" "delivered sink = []"
    and "writer_run write ops (NewWriter sink wc) = (fs, w)"
    and "w_err w = None" "w_buf w = []"
    and "maxFrameSize (NewReader [] EOF cfg) \<le> MaxLength"
    and "feed (sendable (cfg_F cfg) (cfg_L cfg) (cfg_C cfg)) None fs = Some b"
  shows "\<exists>rd. pull ReadFrame (length fs) (NewReader (delivered (w_sink w) @ rest) e cfg) =
           (Inr fs, rd) \<and> rd_in rd = rest"
proof -
  have "delivered (w_sink w) = wire_all fs"
    using writer_run_wire [OF assms(1-3)] assms(4,5) by (simp add: writer_ok_def)
  then have "reader_at (cfg_F cfg) (cfg_L cfg) (cfg_C cfg)
      (NewReader (delivered (w_sink w) @ rest) e cfg) None
      (send (\<lambda>b. wire_of) (sendable (cfg_F cfg) (cfg_L cfg) (cfg_C cfg)) None fs @ rest)"
    using NewReader_reader_at [OF assms(6)] send_wire_all [OF assms(7)] by metis
  from fr.pull_send [OF this assms(7)] show ?thesis
    by (auto simp: reader_at_def)
qed

lemma frames_written_are_read_witness:
  "\<exists>rd. pull ReadFrame (length sample_frames)
      (NewReader (w_sink (snd (writer_run list_sink sample_ops sample_writer)) @ [0, 0]) EOF default_config)
      = (Inr sample_frames, rd) \<and> rd_in rd = [0, 0]"
  by (rule frames_written_are_read [OF list_sink_contract, where sink = "[]" and ops = sample_ops
        and wc = "\<lparr>wc_MaxFrameSize = 0, wc_BufferSize = 0\<rparr>" and b = None])
    (simp_all add: list_sink_contract sample_run default_config_limits sample_feed prod_eq_iff
      sample_writer_def [symmetric])

text \<open>C2: Whatever octets arrive, the frames that a reader delivers form well-formed header blocks:
  each frame is canonical for its type (non-zero stream where one is required, valid settings,
  31-bit identifiers) and within the frame size, nothing comes between the frame that opens a
  header block and the one that ends it but CONTINUATION frames of that stream, and no block
  exceeds the limits on compressed octets and CONTINUATION frames.\<close>

theorem reader_delivers_only_legal_frames:
  assumes "maxFrameSize (NewReader [] EOF cfg) \<le> MaxLength"
    and "pull ReadFrame n (NewReader bs e cfg) = (Inr fs, rd)"
  shows "length fs = n \<and> feed (sendable (cfg_F cfg) (cfg_L cfg) (cfg_C cfg)) None fs \<noteq> None"
  using fr.pull_sound [OF NewReader_reader_at [OF assms(1)] assms(2)] by blast

lemma reader_delivers_only_legal_frames_witness:
  "feed (sendable (cfg_F default_config) (cfg_L default_config) (cfg_C default_config)) None
     [PingFrame \<lparr>pg_Ack = True, pg_Data = [1, 2, 3, 4, 5, 6, 7, 8]\<rparr>] \<noteq> None"
proof -
  have "pull ReadFrame 1
      (NewReader [0, 0, 8, 6, 1, 0, 0, 0, 0, 1, 2, 3, 4, 5, 6, 7, 8] EOF default_config) =
    (Inr [PingFrame \<lparr>pg_Ack = True, pg_Data = [1, 2, 3, 4, 5, 6, 7, 8]\<rparr>],
     (NewReader [] EOF default_config))"
    by code_simp
  from reader_delivers_only_legal_frames [OF _ this] show ?thesis
    by (simp add: default_config_limits)
qed

text \<open>C4: A reader answers every input with a frame or an error that has an answer: a
  connection error, a stream error, or the error of the transport. It never fails in another way
  (an index out of range would be \<open>Panic\<close>), whatever it has read before.\<close>

theorem reader_errors:
  assumes "maxFrameSize (NewReader [] EOF cfg) \<le> MaxLength"
    and "pull ReadFrame n (NewReader bs e cfg) = (Inl x, rd)"
  shows "protocol_error x \<or> (\<exists>i. x = IoError i)"
proof -
  have "pull ReadFrame n rd0 = (Inl x, rd) \<Longrightarrow> block_rel rd0 b \<Longrightarrow> ?thesis" for rd0 b
  proof (induction n arbitrary: rd0 b)
    case (Suc n)
    from ReadFrame_sound [OF Suc.prems(2)] Suc show ?case
      by (auto simp: read_result_ok_def split: prod.splits sum.splits)
  qed simp
  with NewReader_reader_at [OF assms(1)] assms(2) show ?thesis
    by (auto simp: reader_at_def)
qed

lemma reader_errors_witness:
  "protocol_error (ConnError FrameSizeError) \<or> (\<exists>i. ConnError FrameSizeError = IoError i)"
proof -
  have "pull ReadFrame 1 (NewReader [0, 0, 7, 6, 1, 0, 0, 0, 0, 1, 2, 3, 4, 5, 6, 7] EOF default_config) =
    (Inl (ConnError FrameSizeError), NewReader [] EOF default_config)"
    by code_simp
  from reader_errors [OF _ this] show ?thesis by (simp add: default_config_limits)
qed

text \<open>C3: At every point of a writer's life, the octets delivered to the peer followed by those
  still queued are the whole frames it has taken, in order; after a failed write nothing is
  queued, and what the peer has is a first part of those frames, with nothing sent after it.\<close>

theorem writer_sends_whole_frames:
  assumes "write_contract write delivered" "delivered sink = []"
    and "writer_run write ops (NewWriter sink wc) = (fs, w)"
  shows "(w_err w = None \<longrightarrow> delivered (w_sink w) @ w_buf w = concat (map wire_of fs)) \<and>
         (w_err w \<noteq> None \<longrightarrow> w_buf w = [] \<and> prefix (delivered (w_sink w)) (concat (map wire_of fs)))"
  using writer_run_wire [OF assms] by (auto simp: writer_ok_def wire_all_def split: if_splits)

lemma writer_sends_whole_frames_witness:
  "w_sink (snd (writer_run list_sink sample_ops sample_writer)) = concat (map wire_of sample_frames)"
  using writer_sends_whole_frames [OF list_sink_contract, where sink = "[]" and ops = sample_ops
      and wc = "\<lparr>wc_MaxFrameSize = 0, wc_BufferSize = 0\<rparr>", OF _ surjective_pairing]
  by (simp add: sample_run sample_writer_def [symmetric])

text \<open>\<open>Queue\<close> never desynchronises the stream, whatever frame it is given (payloads of
  4 GiB and more, whose declared length wraps, and PING frames of the wrong size included): a frame it takes is
  a nine-octet header that parses to the frame's own length, type, flags and stream, followed by
  exactly the declared number of octets within the peer's frame size; a frame it refuses leaves
  the writer as it was, with the latched error or INTERNAL_ERROR.\<close>

theorem Queue_all_or_nothing:
  assumes "w_maxFrameSize w \<le> MaxLength" "Queue f w = (r, w')"
  shows "(case r of
      None \<Rightarrow> \<exists>hd pl. w_buf w' = w_buf w @ hd @ pl \<and> length hd = HeaderLen \<and>
          ParseHeader hd = Inr (HeaderOf f) \<and> length pl = unat (h_Length (HeaderOf f)) \<and>
          length pl \<le> unat (w_maxFrameSize w) \<and> w' = w\<lparr>w_buf := w_buf w'\<rparr>
    | Some e \<Rightarrow> w' = w \<and> (w_err w = Some e \<or> (w_err w = None \<and> e = ConnError InternalError)))"
proof (cases "w_err w")
  case (Some e)
  with assms(2) have "r = Some e" "w' = w" by (auto simp: Queue_def)
  with Some show ?thesis by simp
next
  case None
  show ?thesis
  proof (cases r)
    case (Some e)
    with None assms(2) show ?thesis by (auto simp: Queue_unlatched split: if_splits)
  next
    case r: None
    with None assms(2) have q: "Frame_PayloadLen f \<le> w_maxFrameSize w" "Frame_Stream f \<le> streamIDMask"
      "length (payload_of f) = unat (Frame_PayloadLen f)" "w' = w\<lparr>w_buf := w_buf w @ wire_of f\<rparr>"
      by (auto simp: Queue_unlatched split: if_splits)
    have "ParseHeader (Header_AppendTo (HeaderOf f) []) = Inr (HeaderOf f)"
      using q(1,2) assms(1) by (intro ParseHeader_AppendTo) (auto simp: HeaderOf_def)
    moreover have "w_buf w' = w_buf w @ Header_AppendTo (HeaderOf f) [] @ payload_of f"
      "length (payload_of f) = unat (h_Length (HeaderOf f))"
      "length (payload_of f) \<le> unat (w_maxFrameSize w)" "w' = w\<lparr>w_buf := w_buf w'\<rparr>"
      "length (Header_AppendTo (HeaderOf f) []) = HeaderLen"
      using q by (simp_all add: wire_of_def HeaderOf_def length_Header_AppendTo word_le_nat_alt)
    ultimately show ?thesis
      unfolding r option.case by blast
  qed
qed

lemma Queue_all_or_nothing_witness:
  "\<exists>hd pl. w_buf (snd (Queue (sample_frames ! 2) sample_writer)) = hd @ pl \<and> length hd = HeaderLen \<and>
     ParseHeader hd = Inr (HeaderOf (sample_frames ! 2)) \<and> length pl = 3"
proof -
  have w: "w_maxFrameSize sample_writer \<le> MaxLength" "w_buf sample_writer = []"
    by (simp_all add: sample_writer_def NewWriter_def Let_def SetMaxFrameSize_def)
  have f: "sample_frames ! 2 = DataFrame \<lparr>df_StreamID = 1, df_EndStream = True, df_Data = [1, 2, 3],
      df_Padded = False, df_PadLen = 0\<rparr>" (is "_ = ?d")
    by (simp add: sample_frames_def)
  have "fst (Queue ?d sample_writer) = None" "unat (Frame_PayloadLen ?d) = 3"
    by (simp_all add: Queue_canonical sample_writer_def NewWriter_def Let_def SetMaxFrameSize_def
        on_stream_def streamIDMask_def append_defs length_defs paddedLen_def padOverhead_def)
  with Queue_all_or_nothing [OF w(1) surjective_pairing, of ?d] w(2) show ?thesis
    unfolding f by (simp add: HeaderOf_def) blast
qed

end
