(* ===== verification/Hpack.thy ===== *)
theory Hpack
  imports H2 Huffman
begin

text \<open>
  \<^verbatim>\<open>internal/hpack\<close>: the codec of RFC 7541. Go strings are \<open>string\<close>, their octets \<open>bytes_of\<close>; a
  \<open>uint64\<close> value is a \<open>u64\<close> and an \<open>int\<close> of the table accounting is an \<open>int\<close>, which no
  operation brings near its 64-bit bounds. \<open>wrap reason\<close> is \<open>Compression reason\<close>.
\<close>

datatype hpack_error = Compression string

subsection \<open>Integers\<close>

definition maxContinuationBytes :: nat where [simp]: "maxContinuationBytes = 5"
definition maxIntValue :: u64 where [simp]: "maxIntValue = 0x100000000"
definition maxStringLen :: u64 where [simp]: "maxStringLen = 0x1000000"

text \<open>\<open>uint64(1)<<n - 1\<close>\<close>

definition prefix_max :: "nat \<Rightarrow> u64" where
  "prefix_max n = push_bit n 1 - 1"

lemma drop_bit_less: "128 \<le> (i :: u64) \<Longrightarrow> unat (drop_bit 7 i) < unat i"
proof -
  assume "128 \<le> i"
  then have "0 < unat i" by (simp add: word_le_nat_alt)
  then show ?thesis by (simp add: unat_drop_bit_eq drop_bit_nat_def)
qed

function append_continuation :: "byte list \<Rightarrow> u64 \<Rightarrow> byte list" where
  "append_continuation dst i =
     (if i \<ge> 128
      then append_continuation (dst @ [ucast (i AND 0x7f) OR 0x80]) (drop_bit 7 i)
      else dst @ [ucast i])"
  by pat_completeness auto
termination
  by (relation "measure (\<lambda>(dst, i). unat i)") (auto simp: drop_bit_less)

definition appendInt :: "byte list \<Rightarrow> byte \<Rightarrow> nat \<Rightarrow> u64 \<Rightarrow> byte list" where
  "appendInt dst flags n i =
     (let max = prefix_max n in
      if i < max then dst @ [flags OR ucast i]
      else append_continuation (dst @ [flags OR ucast max]) (i - max))"

function decodeInt_loop :: "byte list \<Rightarrow> u64 \<Rightarrow> nat \<Rightarrow> nat \<Rightarrow> hpack_error + (u64 \<times> nat)" where
  "decodeInt_loop src val shift i =
     (if i - 1 \<ge> maxContinuationBytes
      then Inl (Compression ''integer continuation exceeds the allowed length'')
      else if i \<ge> length src
      then Inl (Compression ''truncated integer: continuation byte missing'')
      else
        let b = src ! i;
            val = val + push_bit shift (ucast (b AND 0x7f))
        in if val > maxIntValue then Inl (Compression ''integer overflows the allowed range'')
           else if b AND 0x80 = 0 then Inr (val, i + 1)
           else decodeInt_loop src val (shift + 7) (i + 1))"
  by pat_completeness auto
termination
  by (relation "measure (\<lambda>(src, val, shift, i). length src - i)") auto

declare decodeInt_loop.simps [simp del] append_continuation.simps [simp del]

definition decodeInt :: "byte list \<Rightarrow> nat \<Rightarrow> hpack_error + (u64 \<times> nat)" where
  "decodeInt src n =
     (if length src = 0 then Inl (Compression ''truncated integer: no prefix byte'')
      else
        let max = prefix_max n;
            v = ucast (src ! 0) AND max
        in if v < max then Inr (v, 1) else decodeInt_loop src max 0 1)"

subsection \<open>Strings\<close>

definition appendString :: "byte list \<Rightarrow> string \<Rightarrow> byte list" where
  "appendString dst s =
     (let raw = bytes_of s;
          hlen = EncodedLen raw
      in if hlen < length raw then Encode (appendInt dst 0x80 7 (word_of_nat hlen)) raw
         else appendInt dst 0x00 7 (word_of_nat (length raw)) @ raw)"

fun huffman_message :: "huffman_error \<Rightarrow> string" where
  "huffman_message ErrEOSSymbol = ''huffman: EOS decoded as a symbol''"
| "huffman_message ErrPadding = ''huffman: invalid padding''"

definition decodeString :: "byte list \<Rightarrow> hpack_error + (string \<times> nat)" where
  "decodeString src =
     (if length src = 0 then Inl (Compression ''truncated string: no length byte'')
      else
        let huffmanCoded = (src ! 0 AND 0x80 \<noteq> 0) in
        and_then (decodeInt src 7) (\<lambda>(len, n).
          if len > maxStringLen then Inl (Compression ''string length exceeds the maximum allowed'')
          else if unat len > length src - n
          then Inl (Compression ''string length exceeds the remaining block'')
          else
            let data = take (unat len) (drop n src);
                total = n + unat len
            in if \<not> huffmanCoded then Inr (string_of data, total)
               else (case Decode [] data of
                       (decoded, Some e) \<Rightarrow> Inl (Compression (''huffman: '' @ huffman_message e))
                     | (decoded, None) \<Rightarrow> Inr (string_of decoded, total))))"

subsection \<open>The tables\<close>

definition sf :: "string \<Rightarrow> string \<Rightarrow> field" where
  "sf n v = \<lparr>Name = n, Value = v, Sensitive = False\<rparr>"

definition staticTable :: "field list" where
  "staticTable =
    [sf '':authority'' '''',
     sf '':method'' ''GET'',
     sf '':method'' ''POST'',
     sf '':path'' ''/'',
     sf '':path'' ''/index.html'',
     sf '':scheme'' ''http'',
     sf '':scheme'' ''https'',
     sf '':status'' ''200'',
     sf '':status'' ''204'',
     sf '':status'' ''206'',
     sf '':status'' ''304'',
     sf '':status'' ''400'',
     sf '':status'' ''404'',
     sf '':status'' ''500'',
     sf ''accept-charset'' '''',
     sf ''accept-encoding'' ''gzip, deflate'',
     sf ''accept-language'' '''',
     sf ''accept-ranges'' '''',
     sf ''accept'' '''',
     sf ''access-control-allow-origin'' '''',
     sf ''age'' '''',
     sf ''allow'' '''',
     sf ''authorization'' '''',
     sf ''cache-control'' '''',
     sf ''content-disposition'' '''',
     sf ''content-encoding'' '''',
     sf ''content-language'' '''',
     sf ''content-length'' '''',
     sf ''content-location'' '''',
     sf ''content-range'' '''',
     sf ''content-type'' '''',
     sf ''cookie'' '''',
     sf ''date'' '''',
     sf ''etag'' '''',
     sf ''expect'' '''',
     sf ''expires'' '''',
     sf ''from'' '''',
     sf ''host'' '''',
     sf ''if-match'' '''',
     sf ''if-modified-since'' '''',
     sf ''if-none-match'' '''',
     sf ''if-range'' '''',
     sf ''if-unmodified-since'' '''',
     sf ''last-modified'' '''',
     sf ''link'' '''',
     sf ''location'' '''',
     sf ''max-forwards'' '''',
     sf ''proxy-authenticate'' '''',
     sf ''proxy-authorization'' '''',
     sf ''range'' '''',
     sf ''referer'' '''',
     sf ''refresh'' '''',
     sf ''retry-after'' '''',
     sf ''server'' '''',
     sf ''set-cookie'' '''',
     sf ''strict-transport-security'' '''',
     sf ''transfer-encoding'' '''',
     sf ''user-agent'' '''',
     sf ''vary'' '''',
     sf ''via'' '''',
     sf ''www-authenticate'' '''']"

fun static_index_loop :: "nat \<Rightarrow> field list \<Rightarrow> (string \<rightharpoonup> nat) \<Rightarrow> (string \<rightharpoonup> nat)" where
  "static_index_loop i [] m = m"
| "static_index_loop i (f # fs) m =
     static_index_loop (i + 1) fs (if m (Name f) = None then m(Name f \<mapsto> i + 1) else m)"

definition staticNameIndex :: "string \<rightharpoonup> nat" where
  "staticNameIndex = static_index_loop 0 staticTable Map.empty"

definition defaultDynamicTableSize :: int where [simp]: "defaultDynamicTableSize = 4096"

definition entrySize :: "field \<Rightarrow> int" where
  "entrySize f = int (length (Name f)) + int (length (Value f)) + 32"

record dynamic_table =
  dt_entries :: "field list"
  dt_size :: int
  dt_max :: int
  dt_ceiling :: int

definition newDynamicTable :: dynamic_table where
  "newDynamicTable = \<lparr>dt_entries = [], dt_size = 0, dt_max = defaultDynamicTableSize,
                      dt_ceiling = defaultDynamicTableSize\<rparr>"

text \<open>The loop that drops the oldest entry while the size, with \<open>extra\<close> to come, is above the
  maximum: \<open>evictToFit\<close> runs it with nothing to come and \<open>add\<close> with the new entry.\<close>

function evict_loop :: "int \<Rightarrow> dynamic_table \<Rightarrow> dynamic_table" where
  "evict_loop extra dt =
     (if dt_size dt + extra > dt_max dt \<and> length (dt_entries dt) > 0
      then evict_loop extra
             (dt\<lparr>dt_size := dt_size dt - entrySize (last (dt_entries dt)),
                 dt_entries := butlast (dt_entries dt)\<rparr>)
      else dt)"
  by pat_completeness auto
termination
  by (relation "measure (\<lambda>(extra, dt). length (dt_entries dt))") auto

declare evict_loop.simps [simp del]

definition evictToFit :: "dynamic_table \<Rightarrow> dynamic_table" where
  "evictToFit dt = evict_loop 0 dt"

definition setCeiling :: "int \<Rightarrow> dynamic_table \<Rightarrow> dynamic_table" where
  "setCeiling n dt =
     (let dt = dt\<lparr>dt_ceiling := n\<rparr> in
      if dt_max dt > n then evictToFit (dt\<lparr>dt_max := n\<rparr>) else dt)"

definition setMax :: "int \<Rightarrow> dynamic_table \<Rightarrow> hpack_error option \<times> dynamic_table" where
  "setMax n dt =
     (if n > dt_ceiling dt
      then (Some (Compression ''dynamic table size update exceeds the SETTINGS maximum''), dt)
      else (None, evictToFit (dt\<lparr>dt_max := n\<rparr>)))"

definition dt_add :: "field \<Rightarrow> dynamic_table \<Rightarrow> dynamic_table" where
  "dt_add f dt =
     (let esize = entrySize f in
      if esize > dt_max dt then dt\<lparr>dt_entries := [], dt_size := 0\<rparr>
      else
        let dt = evict_loop esize dt
        in dt\<lparr>dt_entries := f # dt_entries dt, dt_size := dt_size dt + esize\<rparr>)"

definition dt_get :: "int \<Rightarrow> dynamic_table \<Rightarrow> field option" where
  "dt_get offset dt =
     (if offset < 1 \<or> offset > int (length (dt_entries dt)) then None
      else Some (dt_entries dt ! nat (offset - 1)))"

fun find_loop :: "string \<Rightarrow> string \<Rightarrow> nat \<Rightarrow> nat \<Rightarrow> field list \<Rightarrow> nat \<times> bool" where
  "find_loop name val nameOffset i [] = (nameOffset, False)"
| "find_loop name val nameOffset i (e # es) =
     (if Name e \<noteq> name then find_loop name val nameOffset (i + 1) es
      else if Value e = val then (i + 1, True)
      else find_loop name val (if nameOffset = 0 then i + 1 else nameOffset) (i + 1) es)"

definition dt_find :: "string \<Rightarrow> string \<Rightarrow> dynamic_table \<Rightarrow> nat \<times> bool" where
  "dt_find name val dt = find_loop name val 0 0 (dt_entries dt)"

fun findName_loop :: "string \<Rightarrow> nat \<Rightarrow> field list \<Rightarrow> nat" where
  "findName_loop name i [] = 0"
| "findName_loop name i (e # es) = (if Name e = name then i + 1 else findName_loop name (i + 1) es)"

definition dt_findName :: "string \<Rightarrow> dynamic_table \<Rightarrow> nat" where
  "dt_findName name dt = findName_loop name 0 (dt_entries dt)"

subsection \<open>The codec\<close>

record codec =
  dyn :: dynamic_table

definition NewCodec :: codec where
  "NewCodec = \<lparr>dyn = newDynamicTable\<rparr>"

definition SetMaxDynamicTableSize :: "int \<Rightarrow> codec \<Rightarrow> codec" where
  "SetMaxDynamicTableSize n c = c\<lparr>dyn := setCeiling n (dyn c)\<rparr>"

subsection \<open>Encoding\<close>

fun findExact_loop :: "string \<Rightarrow> string \<Rightarrow> nat \<Rightarrow> field list \<Rightarrow> u64 option" where
  "findExact_loop name val i [] = None"
| "findExact_loop name val i (f # fs) =
     (if Name f = name \<and> Value f = val then Some (word_of_nat (i + 1))
      else findExact_loop name val (i + 1) fs)"

definition findExact :: "codec \<Rightarrow> string \<Rightarrow> string \<Rightarrow> u64 option" where
  "findExact c name val =
     (case findExact_loop name val 0 staticTable of
        Some idx \<Rightarrow> Some idx
      | None \<Rightarrow>
          (case dt_find name val (dyn c) of
             (off, exact) \<Rightarrow> if exact then Some (word_of_nat (length staticTable + off)) else None))"

definition findName :: "codec \<Rightarrow> string \<Rightarrow> u64 option" where
  "findName c name =
     (case staticNameIndex name of
        Some i \<Rightarrow> Some (word_of_nat i)
      | None \<Rightarrow>
          (let off = dt_findName name (dyn c) in
           if off > 0 then Some (word_of_nat (length staticTable + off)) else None))"

definition encodeLiteral :: "codec \<Rightarrow> byte list \<Rightarrow> field \<Rightarrow> byte \<Rightarrow> nat \<Rightarrow> byte list" where
  "encodeLiteral c dst f flag prefixBits =
     (let dst = (case findName c (Name f) of
                   Some nameIdx \<Rightarrow> appendInt dst flag prefixBits nameIdx
                 | None \<Rightarrow> appendString (appendInt dst flag prefixBits 0) (Name f))
      in appendString dst (Value f))"

fun Encode_loop :: "byte list \<Rightarrow> field list \<Rightarrow> codec \<Rightarrow> byte list \<times> codec" where
  "Encode_loop dst [] c = (dst, c)"
| "Encode_loop dst (f # fs) c =
     (if Sensitive f then Encode_loop (encodeLiteral c dst f 0x10 4) fs c
      else
        (case findExact c (Name f) (Value f) of
           Some idx \<Rightarrow> Encode_loop (appendInt dst 0x80 7 idx) fs c
         | None \<Rightarrow>
             Encode_loop (encodeLiteral c dst f 0x40 6) fs (c\<lparr>dyn := dt_add f (dyn c)\<rparr>)))"

definition Codec_Encode :: "codec \<Rightarrow> field list \<Rightarrow> byte list \<times> codec" where
  "Codec_Encode c fs = Encode_loop [] fs c"

subsection \<open>Decoding\<close>

definition lookupIndexed :: "codec \<Rightarrow> u64 \<Rightarrow> hpack_error + field" where
  "lookupIndexed c idx =
     (if idx = 0 then Inl (Compression ''indexed header field: index 0 is invalid'')
      else if idx \<le> word_of_nat (length staticTable) then Inr (staticTable ! (unat idx - 1))
      else
        (case dt_get (int (unat idx) - int (length staticTable)) (dyn c) of
           None \<Rightarrow> Inl (Compression ''indexed header field: index out of range'')
         | Some f \<Rightarrow> Inr f))"

definition decodeLiteral :: "codec \<Rightarrow> byte list \<Rightarrow> nat \<Rightarrow> hpack_error + (field \<times> nat)" where
  "decodeLiteral c src prefixBits =
     and_then (decodeInt src prefixBits) (\<lambda>(nameIdx, pos).
     and_then
       (if nameIdx = 0
        then and_then (decodeString (drop pos src)) (\<lambda>(s, m). Inr (s, pos + m))
        else and_then (lookupIndexed c nameIdx) (\<lambda>f. Inr (Name f, pos)))
       (\<lambda>(name, pos).
     and_then (decodeString (drop pos src)) (\<lambda>(val, m).
     Inr (\<lparr>Name = name, Value = val, Sensitive = False\<rparr>, pos + m))))"

text \<open>One turn of the loop of \<open>Decode\<close>: the octets of the instruction, the field it adds if it
  adds one, and the codec, which keeps what a failing instruction has done to it.\<close>

definition Decode_step :: "codec \<Rightarrow> bool \<Rightarrow> byte list \<Rightarrow> (hpack_error + nat \<times> field option) \<times> codec" where
  "Decode_step c sawHeaderField src =
     (let b = src ! 0 in
      if b AND 0x80 \<noteq> 0 then
        (and_then (decodeInt src 7) (\<lambda>(idx, n).
         and_then (lookupIndexed c idx) (\<lambda>f. Inr (n, Some f))), c)
      else if b AND 0xc0 = 0x40 then
        (case decodeLiteral c src 6 of
           Inl e \<Rightarrow> (Inl e, c)
         | Inr (f, n) \<Rightarrow> (Inr (n, Some f), c\<lparr>dyn := dt_add f (dyn c)\<rparr>))
      else if b AND 0xe0 = 0x20 then
        (if sawHeaderField
         then (Inl (Compression ''dynamic table size update after a header field''), c)
         else
           (case decodeInt src 5 of
              Inl e \<Rightarrow> (Inl e, c)
            | Inr (sz, n) \<Rightarrow>
                (case setMax (int (unat sz)) (dyn c) of
                   (Some e, dt) \<Rightarrow> (Inl e, c\<lparr>dyn := dt\<rparr>)
                 | (None, dt) \<Rightarrow> (Inr (n, None), c\<lparr>dyn := dt\<rparr>))))
      else if b AND 0xf0 = 0x10 then
        (and_then (decodeLiteral c src 4) (\<lambda>(f, n). Inr (n, Some (f\<lparr>Sensitive := True\<rparr>))), c)
      else
        (and_then (decodeLiteral c src 4) (\<lambda>(f, n). Inr (n, Some f)), c))"

text \<open>Every instruction is at least one octet, so the loop ends.\<close>

lemma decodeInt_loop_consumed:
  "decodeInt_loop src val shift i = Inr (v, n) \<Longrightarrow> i < n \<and> n \<le> length src"
proof (induction src val shift i rule: decodeInt_loop.induct)
  case (1 src val shift i)
  then show ?case
    by (subst (asm) (2) decodeInt_loop.simps) (fastforce simp: Let_def split: if_splits)
qed

lemma decodeInt_consumed: "decodeInt src n = Inr (v, k) \<Longrightarrow> 0 < k \<and> k \<le> length src"
  by (auto simp: decodeInt_def Let_def Suc_le_eq split: if_splits dest: decodeInt_loop_consumed)

lemma decodeLiteral_consumed: "decodeLiteral c src n = Inr (f, k) \<Longrightarrow> 0 < k"
  by (auto simp: decodeLiteral_def and_then_Inr_iff split: if_splits dest!: decodeInt_consumed)

lemma Decode_step_consumed: "Decode_step c saw src = (Inr (n, r), c') \<Longrightarrow> 0 < n"
  by (auto simp: Decode_step_def Let_def and_then_Inr_iff
      split: if_splits sum.splits option.splits prod.splits
      dest!: decodeInt_consumed decodeLiteral_consumed)

function Decode_loop ::
  "byte list \<Rightarrow> nat \<Rightarrow> bool \<Rightarrow> field list \<Rightarrow> codec \<Rightarrow> (hpack_error + field list) \<times> codec" where
  "Decode_loop block pos saw fs c =
     (if pos < length block then
        (case Decode_step c saw (drop pos block) of
           (Inl e, c) \<Rightarrow> (Inl e, c)
         | (Inr (n, None), c) \<Rightarrow> Decode_loop block (pos + n) saw fs c
         | (Inr (n, Some f), c) \<Rightarrow> Decode_loop block (pos + n) True (fs @ [f]) c)
      else (Inr fs, c))"
  by pat_completeness auto
termination
  by (relation "measure (\<lambda>(block, pos, saw, fs, c). length block - pos)")
    (auto dest!: Decode_step_consumed [OF sym])

declare Decode_loop.simps [simp del]

definition Codec_Decode :: "codec \<Rightarrow> byte list \<Rightarrow> (hpack_error + field list) \<times> codec" where
  "Codec_Decode c block = Decode_loop block 0 False [] c"

end
