(* ===== verification/HuffmanCode.thy ===== *)
theory HuffmanCode
  imports Huffman "HOL-Library.Sublist"
begin

text \<open>
  The code of the tables as bit strings. The tables form a canonical code: within one length the
  codes count up without a gap in the order of the symbols, and the codes of a length start at
  twice where those of the length before it ended. One pass over both tables (\<open>canon\<close>), evaluated
  by the kernel, establishes that, and prefix-freeness follows by arithmetic.
\<close>

definition code_len :: "nat \<Rightarrow> nat" where
  "code_len s = unat (codeLens ! s)"

definition code_val :: "nat \<Rightarrow> int" where
  "code_val s = uint (codes ! s)"

text \<open>The first \<open>n\<close> bits of a word from below, most significant first, and a symbol's code.\<close>

definition low_bits :: "'a::len word \<Rightarrow> nat \<Rightarrow> bool list" where
  "low_bits w n = rev (map (bit w) [0..<n])"

definition code_bits :: "nat \<Rightarrow> bool list" where
  "code_bits s = low_bits (codes ! s) (code_len s)"

lemma low_bits_simps [simp]:
  "low_bits w 0 = []"
  "low_bits w (Suc n) = bit w n # low_bits w n"
  "length (low_bits w n) = n"
  by (simp_all add: low_bits_def)

lemma length_code_bits [simp]: "length (code_bits s) = code_len s"
  by (simp add: code_bits_def)

subsection \<open>The pass over the tables\<close>

definition firstCodes :: "int list" where
  "firstCodes =
    [0, 0, 0, 0, 0, 0, 20, 92, 248, 508, 1016, 2042, 4090, 8184, 16380, 32764, 65534,
     131068, 262136, 524272, 1048550, 2097116, 4194258, 8388568, 16777194, 33554412,
     67108832, 134217694, 268435426, 536870910, 1073741820]"

definition nextCodes :: "int list" where
  "nextCodes =
    [0, 0, 0, 0, 0, 10, 46, 124, 254, 508, 1021, 2045, 4092, 8190, 16382, 32767, 65534,
     131068, 262136, 524275, 1048558, 2097129, 4194284, 8388597, 16777206, 33554416,
     67108847, 134217713, 268435455, 536870910, 1073741824]"

fun canon :: "int list \<Rightarrow> u32 list \<Rightarrow> byte list \<Rightarrow> int list option" where
  "canon nx (c # cs) (l # ls) =
     (if nx ! unat l = uint c then canon (nx[unat l := uint c + 1]) cs ls else None)"
| "canon nx [] [] = Some nx"
| "canon nx _ _ = None"

lemma tables_canonical: "canon firstCodes codes codeLens = Some nextCodes"
  by code_simp

lemma length_codes: "length codes = 257" "length codeLens = 257"
  by (simp_all add: codes_def codeLens_def)

lemma code_lens_range: "list_all (\<lambda>l. 5 \<le> unat l \<and> unat l \<le> 30) codeLens"
  by code_simp

lemma bands:
  "list_all2 (\<le>) firstCodes nextCodes"
  "tl firstCodes = map ((*) 2) (butlast nextCodes)"
  "length firstCodes = 31" "length nextCodes = 31" "last nextCodes = 2 ^ 30"
  by (simp_all add: firstCodes_def nextCodes_def)

lemma canon_inv:
  assumes "canon nx cs ls = Some nx'" "\<forall>l\<in>set ls. unat l < length nx"
  shows "length nx' = length nx \<and> (\<forall>k<length nx. nx ! k \<le> nx' ! k) \<and>
    (\<forall>i<length cs. nx ! unat (ls ! i) \<le> uint (cs ! i) \<and> uint (cs ! i) < nx' ! unat (ls ! i)) \<and>
    (\<forall>j<length cs. \<forall>i<j. ls ! i = ls ! j \<longrightarrow> uint (cs ! i) < uint (cs ! j))"
  using assms
proof (induction nx cs ls rule: canon.induct)
  case (1 nx c cs l ls)
  let ?nx = "nx[unat l := uint c + 1]"
  from 1 have c: "nx ! unat l = uint c" and "canon ?nx cs ls = Some nx'"
    by (auto split: if_splits)
  with 1 have "length nx' = length nx" and mono: "\<forall>k<length nx. ?nx ! k \<le> nx' ! k"
    and rng: "\<forall>i<length cs. ?nx ! unat (ls ! i) \<le> uint (cs ! i) \<and> uint (cs ! i) < nx' ! unat (ls ! i)"
    and inc: "\<forall>j<length cs. \<forall>i<j. ls ! i = ls ! j \<longrightarrow> uint (cs ! i) < uint (cs ! j)"
    by auto
  have le: "nx ! k \<le> ?nx ! k" for k
    using c 1(3) by (cases "k = unat l") (auto simp: nth_list_update)
  have l: "?nx ! unat l = uint c + 1" using 1(3) by simp
  show ?case
  proof (intro conjI allI impI)
    fix k assume "k < length nx" then show "nx ! k \<le> nx' ! k" using le mono order_trans by blast
  next
    fix i assume "i < length (c # cs)"
    then show "nx ! unat ((l # ls) ! i) \<le> uint ((c # cs) ! i)"
      using c rng order_trans [OF le] by (cases i) auto
  next
    fix i assume "i < length (c # cs)"
    then show "uint ((c # cs) ! i) < nx' ! unat ((l # ls) ! i)"
      using l mono rng 1(3) by (cases i) fastforce+
  next
    fix j i assume j: "j < length (c # cs)" "i < j" "(l # ls) ! i = (l # ls) ! j"
    then show "uint ((c # cs) ! i) < uint ((c # cs) ! j)"
      using inc rng l by (cases j; cases i) fastforce+
  qed fact
qed auto

text \<open>Every symbol's code lies in the band of its length, and the bands of longer codes start
  above those of shorter ones.\<close>

lemma code_len_range: "s \<le> 256 \<Longrightarrow> 5 \<le> code_len s \<and> code_len s \<le> 30"
  using code_lens_range by (auto simp: code_len_def list_all_length length_codes)

lemmas table_inv =
  canon_inv [OF tables_canonical, unfolded bands length_codes]

lemma lens_in_table: "\<forall>l\<in>set codeLens. unat l < (31::nat)"
  using code_lens_range by (auto simp: list_all_iff)

lemma code_in_band:
  "s \<le> 256 \<Longrightarrow> firstCodes ! code_len s \<le> code_val s \<and> code_val s < nextCodes ! code_len s"
  using table_inv lens_in_table by (simp add: code_len_def code_val_def)

lemma code_val_mono:
  "t \<le> 256 \<Longrightarrow> s < t \<Longrightarrow> code_len s = code_len t \<Longrightarrow> code_val s < code_val t"
  using table_inv lens_in_table by (simp add: code_val_def code_len_def word_unat_eq_iff)

lemma code_len_val_inject:
  assumes "s \<le> 256" "t \<le> 256" "code_len s = code_len t" "code_val s = code_val t"
  shows "s = t"
  using assms code_val_mono [of s t] code_val_mono [of t s] by (cases s t rule: linorder_cases) auto

lemma first_Suc: "k < 30 \<Longrightarrow> firstCodes ! Suc k = 2 * nextCodes ! k"
proof -
  assume k: "k < 30"
  have "firstCodes ! Suc k = tl firstCodes ! k"
    using k by (simp add: nth_tl bands(3))
  also have "\<dots> = 2 * nextCodes ! k"
    unfolding bands(2) using k bands(4) by (simp add: butlast_conv_take)
  finally show ?thesis .
qed

lemma first_le_next: "k < 31 \<Longrightarrow> firstCodes ! k \<le> nextCodes ! k"
  using bands(1) by (simp add: list_all2_conv_all_nth bands)

lemma band_above:
  "Suc k + d < 31 \<Longrightarrow> 2 ^ Suc d * nextCodes ! k \<le> firstCodes ! (Suc k + d)"
proof (induction d)
  case 0
  then show ?case by (simp add: first_Suc)
next
  case (Suc d)
  then have "2 ^ Suc d * nextCodes ! k \<le> nextCodes ! (Suc k + d)"
    using first_le_next [of "Suc k + d"] by linarith
  with Suc show ?case by (simp add: first_Suc mult.commute)
qed

lemma next_le: "k < 31 \<Longrightarrow> nextCodes ! k \<le> 2 ^ k"
proof (cases "k = 30")
  case True
  then show ?thesis using bands(4,5) by (simp add: last_conv_nth flip: length_greater_0_conv)
next
  case False
  assume "k < 31"
  with False have k: "Suc k + (29 - k) = 30" by simp
  have "2 ^ Suc (29 - k) * nextCodes ! k \<le> firstCodes ! 30"
    using band_above [of k "29 - k"] k by simp
  also have "\<dots> \<le> 2 ^ 30"
    using first_le_next [of 30] bands(4,5) by (simp add: last_conv_nth flip: length_greater_0_conv)
  also have "\<dots> = 2 ^ Suc (29 - k) * 2 ^ k"
    using k by (simp flip: power_add)
  finally show ?thesis by simp
qed

lemma code_val_less: "s \<le> 256 \<Longrightarrow> 0 \<le> code_val s \<and> code_val s < 2 ^ code_len s"
  using code_in_band [of s] next_le [of "code_len s"] code_len_range [of s]
  by (auto simp: code_val_def)

subsection \<open>No code is a first part of another\<close>

definition bits_val :: "bool list \<Rightarrow> int" where
  "bits_val p = horner_sum of_bool 2 (rev p)"

lemma bits_val_append: "bits_val (p @ q) = bits_val p * 2 ^ length q + bits_val q"
  by (simp add: bits_val_def horner_sum_append mult.commute)

lemma bits_val_range: "0 \<le> bits_val p \<and> bits_val p < 2 ^ length p"
  using horner_sum_of_bool_2_less [of "rev p"]
  by (simp add: bits_val_def horner_sum_nonnegative)

lemma bits_val_low_bits: "bits_val (low_bits w n) = take_bit n (uint w)"
proof -
  have "map (bit w) [0..<n] = map (bit (uint w)) [0..<n]"
    by (auto simp: bit_uint_iff dest: bit_imp_le_length)
  then show ?thesis
    unfolding bits_val_def low_bits_def rev_rev_ident by (simp only: horner_sum_bit_eq_take_bit)
qed

lemma bits_val_code: "s \<le> 256 \<Longrightarrow> bits_val (code_bits s) = code_val s"
  using code_val_less [of s]
  by (simp add: code_bits_def bits_val_low_bits code_val_def take_bit_int_eq_self)

theorem code_prefix_free:
  assumes "s \<le> 256" "t \<le> 256" "prefix (code_bits s) (code_bits t)"
  shows "s = t"
proof -
  from assms(3) obtain q where q: "code_bits t = code_bits s @ q" by (auto simp: prefix_def)
  have len: "code_len t = code_len s + length q"
    using arg_cong [OF q, of length] by simp
  have val: "code_val t = code_val s * 2 ^ length q + bits_val q"
    using arg_cong [OF q, of bits_val] assms by (simp add: bits_val_append bits_val_code)
  show ?thesis
  proof (cases q)
    case Nil
    with len val assms code_len_val_inject show ?thesis by (simp add: bits_val_def)
  next
    case (Cons b r)
    have "2 ^ length q * nextCodes ! code_len s \<le> firstCodes ! code_len t"
      using band_above [of "code_len s" "length r"] len Cons code_len_range [OF assms(2)] by simp
    also have "\<dots> \<le> code_val t" using code_in_band [OF assms(2)] by simp
    also have "\<dots> < (code_val s + 1) * 2 ^ length q"
      using bits_val_range [of q] by (simp add: val algebra_simps)
    also have "\<dots> \<le> nextCodes ! code_len s * 2 ^ length q"
      using code_in_band [OF assms(1)] by (intro mult_right_mono) simp_all
    finally show ?thesis by (simp add: mult.commute)
  qed
qed

lemma code_bits_EOS: "code_bits 256 = replicate 30 True"
  by code_simp

end
