(* ===== verification/HuffmanSpec.thy ===== *)
theory HuffmanSpec
  imports HuffmanCode
begin

text \<open>
  The coder against the code as bit strings: the trie built from the tables leads to a leaf
  exactly along the codes, \<open>Decode\<close> accepts exactly the codes of a list of symbols followed by
  fewer than eight one bits, and \<open>Encode\<close> writes exactly that.
\<close>

subsection \<open>The trie\<close>

fun descend :: "node \<Rightarrow> bool list \<Rightarrow> node option" where
  "descend n [] = Some n"
| "descend (Node l r s f) (b # bs) =
     (case (if b then r else l) of None \<Rightarrow> None | Some n \<Rightarrow> descend n bs)"

definition leaf_at :: "node \<Rightarrow> bool list \<Rightarrow> int option" where
  "leaf_at n p =
     (case descend n p of
        None \<Rightarrow> None
      | Some m \<Rightarrow> if isLeaf m then Some (node_sym m) else None)"

lemma descend_append:
  "descend n (p @ q) = (case descend n p of None \<Rightarrow> None | Some m \<Rightarrow> descend m q)"
  by (induction n p rule: descend.induct) (auto split: option.splits)

lemma leaf_at_new [simp]: "leaf_at new_node p = None"
  by (cases p) (auto simp: leaf_at_def new_node_def)

lemma low_bit_test: "drop_bit i (w :: 'a::len word) AND 1 = 0 \<longleftrightarrow> \<not> bit w i"
  by (simp add: and_one_eq bit_iff_odd_drop_bit mod2_eq_if)

lemma leaf_at_insert:
  "leaf_at (insert_code x code i n) q = (if q = low_bits code i then Some x else leaf_at n q)"
proof (induction x code i n arbitrary: q rule: insert_code.induct)
  case (1 x code l r s f)
  then show ?case by (cases q) (auto simp: leaf_at_def)
next
  case (2 x code i l r s f)
  have kid: "leaf_at (Node l r s f) (b # bs) =
      leaf_at (case (if b then r else l) of None \<Rightarrow> new_node | Some n \<Rightarrow> n) bs" for b bs
  proof (cases "if b then r else l")
    case None
    then show ?thesis by (simp add: leaf_at_def [of "Node l r s f"])
  next
    case (Some m)
    then show ?thesis by (simp add: leaf_at_def)
  qed
  show ?case
  proof (cases q)
    case Nil
    then show ?thesis by (simp add: low_bit_test leaf_at_def)
  next
    case (Cons b bs)
    with 2 kid [of b bs] show ?thesis
      by (auto simp: low_bit_test leaf_at_def split: option.splits)
  qed
qed

lemma descend_insert:
  "prefix q (low_bits code i) \<or> descend n q \<noteq> None \<Longrightarrow> descend (insert_code x code i n) q \<noteq> None"
proof (induction x code i n arbitrary: q rule: insert_code.induct)
  case (1 x code l r s f)
  then show ?case by (cases q) auto
next
  case (2 x code i l r s f)
  then show ?case
    by (cases q; cases "bit code i") (auto simp: low_bit_test split: option.splits if_splits)
qed

text \<open>The leaves of the trie are the codes, and every first part of a code is a node of it.\<close>

lemma insert_code_bits:
  "insert_code (int s) (codes ! s) (unat (codeLens ! s)) = insert_code (int s) (codes ! s) (code_len s)"
  by (simp add: code_len_def)

lemma code_bits_inject: "s \<le> 256 \<Longrightarrow> t \<le> 256 \<Longrightarrow> code_bits s = code_bits t \<longleftrightarrow> s = t"
  using code_prefix_free by auto

lemma leaf_at_insert_all:
  "leaf_at (insert_all ss n) q = Some x \<Longrightarrow>
     (\<exists>s\<in>set ss. q = code_bits s \<and> x = int s) \<or> leaf_at n q = Some x"
  by (induction ss n rule: insert_all.induct)
    (auto simp: leaf_at_insert insert_code_bits code_bits_def [symmetric] split: if_splits)

lemma leaf_at_insert_all_code:
  "s \<le> 256 \<Longrightarrow> \<forall>t\<in>set ss. t \<le> 256 \<Longrightarrow> s \<in> set ss \<or> leaf_at n (code_bits s) = Some (int s) \<Longrightarrow>
     leaf_at (insert_all ss n) (code_bits s) = Some (int s)"
  by (induction ss n rule: insert_all.induct)
    (auto simp: leaf_at_insert insert_code_bits code_bits_def [symmetric] code_bits_inject)

lemma descend_insert_all:
  "descend n q \<noteq> None \<Longrightarrow> descend (insert_all ss n) q \<noteq> None"
  by (induction ss n rule: insert_all.induct) (use descend_insert in auto)

lemma root_eq:
  "\<exists>ss. (\<forall>s. s \<in> set ss \<longleftrightarrow> s < 256) \<and>
     root = insert_code 256 (codes ! 256) (code_len 256) (insert_all ss new_node)"
  unfolding root_def buildTree_def code_len_def EOS_sym_def
  by (intro exI [of _ "[0..<256]"]) (simp only: set_upt atLeast0LessThan lessThan_iff of_nat_numeral simp_thms)

lemma leaf_at_root: "leaf_at root q = Some x \<longleftrightarrow> (\<exists>s\<le>256. q = code_bits s \<and> x = int s)"
proof -
  obtain ss where ss: "\<And>s. s \<in> set ss \<longleftrightarrow> s < 256"
    and root: "root = insert_code 256 (codes ! 256) (code_len 256) (insert_all ss new_node)"
    using root_eq by blast
  have eq: "leaf_at root q = (if q = code_bits 256 then Some 256 else leaf_at (insert_all ss new_node) q)"
    unfolding root leaf_at_insert code_bits_def ..
  show ?thesis
  proof (cases "q = code_bits 256")
    case True
    then have "leaf_at root q = Some 256" using eq by simp
    moreover have "s = 256" if "s \<le> 256" "q = code_bits s" for s
      using that True code_bits_inject [of s 256] by simp
    ultimately show ?thesis using True by fastforce
  next
    case False
    have "leaf_at (insert_all ss new_node) q = Some x \<longleftrightarrow> (\<exists>s<256. q = code_bits s \<and> x = int s)"
    proof
      assume "\<exists>s<256. q = code_bits s \<and> x = int s"
      then obtain s where s: "s < 256" "q = code_bits s" "x = int s" by blast
      moreover have "\<forall>t\<in>set ss. t \<le> 256" using ss less_imp_le by blast
      ultimately show "leaf_at (insert_all ss new_node) q = Some x"
        using leaf_at_insert_all_code [of s ss new_node] ss less_imp_le [of s 256] by blast
    next
      assume "leaf_at (insert_all ss new_node) q = Some x"
      from leaf_at_insert_all [OF this] ss show "\<exists>s<256. q = code_bits s \<and> x = int s" by auto
    qed
    moreover have "s < 256 \<longleftrightarrow> s \<le> 256" if "q = code_bits s" for s
      using that False by (cases "s = 256") auto
    ultimately show ?thesis using False unfolding eq if_not_P [OF False] by blast
  qed
qed

text \<open>Along a code the trie does not stop early and does not end.\<close>

lemma descend_code:
  assumes "s \<le> 256" "prefix q (code_bits s)"
  shows "\<exists>m. descend root q = Some m \<and> (isLeaf m \<longleftrightarrow> q = code_bits s) \<and>
           (isLeaf m \<longrightarrow> node_sym m = int s)"
proof -
  have leaf: "leaf_at root (code_bits s) = Some (int s)" using assms leaf_at_root by blast
  from assms(2) obtain r where r: "code_bits s = q @ r" by (auto simp: prefix_def)
  with leaf obtain m where m: "descend root q = Some m"
    by (auto simp: leaf_at_def descend_append split: option.splits)
  have "isLeaf m \<and> node_sym m = int s" if "q = code_bits s"
    using that leaf m by (auto simp: leaf_at_def split: if_splits)
  moreover have "q = code_bits s" if "isLeaf m"
  proof -
    have "leaf_at root q = Some (node_sym m)" using that m by (simp add: leaf_at_def)
    then obtain t where "t \<le> 256" "q = code_bits t" unfolding leaf_at_root by blast
    with assms code_prefix_free show ?thesis by blast
  qed
  ultimately show ?thesis using m by blast
qed

lemma leaf_is_code:
  "descend root q = Some m \<Longrightarrow> isLeaf m \<Longrightarrow> \<exists>s\<le>256. q = code_bits s \<and> node_sym m = int s"
  using leaf_at_root [of q "node_sym m"] by (simp add: leaf_at_def)

lemma size_descend: "descend n p = Some m \<Longrightarrow> p \<noteq> [] \<Longrightarrow> size m < size n"
proof (induction n p arbitrary: m rule: descend.induct)
  case (2 l r s f b bs)
  then show ?case
    by (cases bs; cases b) (fastforce split: option.splits)+
qed simp

lemma descend_root_iff: "descend root p = Some m \<Longrightarrow> m = root \<longleftrightarrow> p = []"
  using size_descend by fastforce

lemma root_no_leaf: "\<not> isLeaf root"
  using leaf_at_root [of "[]" "node_sym root"] code_len_range
  by (force simp: leaf_at_def dest: arg_cong [where f = length])

subsection \<open>Decoding, bit by bit\<close>

fun kid :: "node \<Rightarrow> bool \<Rightarrow> node option" where
  "kid (Node l r s f) b = (if b then r else l)"

fun run_bits :: "bool list \<Rightarrow> walk \<Rightarrow> (byte list \<times> huffman_error) + walk" where
  "run_bits [] w = Inr w"
| "run_bits (b # bs) (n, depth, ones, dst) =
     (case kid n b of
        None \<Rightarrow> Inl (dst, ErrPadding)
      | Some n \<Rightarrow>
          if isLeaf n then
            (if node_sym n = 256 then Inl (dst, ErrEOSSymbol)
             else run_bits bs (root, 0, True, dst @ [word_of_int (node_sym n)]))
          else run_bits bs (n, depth + 1, ones \<and> b, dst))"

definition bits_of :: "byte list \<Rightarrow> bool list" where
  "bits_of bs = concat (map (\<lambda>b. low_bits b 8) bs)"

lemma bits_of_simps [simp]:
  "bits_of [] = []" "bits_of (b # bs) = low_bits b 8 @ bits_of bs"
  "bits_of (xs @ ys) = bits_of xs @ bits_of ys"
  by (simp_all add: bits_of_def)

lemma length_bits_of [simp]: "length (bits_of bs) = 8 * length bs"
  by (induction bs) auto

lemma run_bits_append:
  "run_bits (xs @ ys) w = and_then (run_bits xs w) (run_bits ys)"
  by (induction xs w rule: run_bits.induct) (auto split: option.splits)

lemma child_kid: "child n (drop_bit i (b :: byte) AND 1) = kid n (bit b i)"
  by (cases n) (simp add: low_bit_test)

lemma decode_byte_bits: "decode_byte i b w = run_bits (low_bits b i) w"
proof (induction i b w rule: decode_byte.induct)
  case (2 i b n depth ones dst)
  then show ?case
    by (auto simp: child_kid low_bit_test Let_def split: option.splits)
qed simp

lemma decode_loop_bits: "decode_loop src w = run_bits (bits_of src) w"
  by (induction src arbitrary: w)
    (simp_all add: run_bits_append decode_byte_bits, metis (no_types, lifting))

text \<open>The walk after reading \<open>p\<close> since the last symbol.\<close>

definition walk_at :: "bool list \<Rightarrow> byte list \<Rightarrow> walk \<Rightarrow> bool" where
  "walk_at p dst w \<longleftrightarrow> (\<exists>n. descend root p = Some n \<and> \<not> isLeaf n \<and>
     w = (n, length p, list_all (\<lambda>b. b) p, dst))"

lemma walk_at_root [simp]: "walk_at [] dst (root, 0, True, dst)"
  by (simp add: walk_at_def root_no_leaf)

lemma run_step:
  assumes "walk_at p dst w"
  shows "(run_bits (b # bs) w = Inl (dst, ErrPadding) \<and> descend root (p @ [b]) = None) \<or>
    (\<exists>w'. walk_at (p @ [b]) dst w' \<and> run_bits (b # bs) w = run_bits bs w') \<or>
    (p @ [b] = code_bits 256 \<and> run_bits (b # bs) w = Inl (dst, ErrEOSSymbol)) \<or>
    (\<exists>x. p @ [b] = code_bits (unat (x :: byte)) \<and>
       run_bits (b # bs) w = run_bits bs (root, 0, True, dst @ [x]))"
proof -
  obtain n where n: "descend root p = Some n" "w = (n, length p, list_all (\<lambda>b. b) p, dst)"
    using assms by (auto simp: walk_at_def)
  have d: "descend root (p @ [b]) = kid n b"
    using n(1) by (cases n) (auto simp: descend_append split: option.splits)
  show ?thesis
  proof (cases "kid n b")
    case None
    then show ?thesis using n d by simp
  next
    case (Some m)
    show ?thesis
    proof (cases "isLeaf m")
      case True
      with Some d obtain s where s: "s \<le> 256" "p @ [b] = code_bits s" "node_sym m = int s"
        using leaf_is_code by metis
      show ?thesis
      proof (cases "s = 256")
        case True
        with s Some \<open>isLeaf m\<close> n show ?thesis by simp
      next
        case False
        with s(1) have "unat (word_of_nat s :: byte) = s"
          by (intro unat_word_of_nat_small) simp
        with s False Some \<open>isLeaf m\<close> n show ?thesis
          by (intro disjI2 exI [of _ "word_of_nat s :: byte"]) simp
      qed
    next
      case False
      with Some n d show ?thesis
        by (intro disjI2 disjI1) (auto simp: walk_at_def conj_commute)
    qed
  qed
qed

definition symbol_bits :: "byte list \<Rightarrow> bool list" where
  "symbol_bits s = concat (map (\<lambda>x. code_bits (unat x)) s)"

lemma symbol_bits_simps [simp]:
  "symbol_bits [] = []" "symbol_bits (x # s) = code_bits (unat x) @ symbol_bits s"
  "symbol_bits (s @ t) = symbol_bits s @ symbol_bits t"
  by (simp_all add: symbol_bits_def)

lemma unat_byte_le [simp]: "unat (x :: byte) \<le> 256" "unat (x :: byte) \<noteq> 256"
  using unat_byte_less [of x] by simp_all

lemma run_sound:
  "walk_at p dst w \<Longrightarrow> run_bits bs w = Inr w' \<Longrightarrow>
     \<exists>s p'. walk_at p' (dst @ s) w' \<and> p @ bs = symbol_bits s @ p'"
proof (induction bs arbitrary: p dst w)
  case Nil
  then show ?case by (intro exI [of _ "[]"] exI [of _ p]) simp
next
  case (Cons b bs)
  from run_step [OF Cons.prems(1), of b bs] Cons.prems(2)
  consider w1 where "walk_at (p @ [b]) dst w1" "run_bits bs w1 = Inr w'"
    | x where "p @ [b] = code_bits (unat (x :: byte))"
        "run_bits bs (root, 0, True, dst @ [x]) = Inr w'"
    by auto
  then show ?case
  proof cases
    case 1
    from Cons.IH [OF this] show ?thesis by simp
  next
    case 2
    from Cons.IH [OF walk_at_root 2(2)] obtain s p' where
      "walk_at p' ((dst @ [x]) @ s) w'" "bs = symbol_bits s @ p'" by auto
    with 2(1) show ?thesis
      by (intro exI [of _ "x # s"] exI [of _ p']) simp
  qed
qed

text \<open>One step along a code.\<close>

lemma run_along:
  assumes "walk_at p dst w" "s \<le> 256" "prefix (p @ [b]) (code_bits s)"
  shows "if p @ [b] = code_bits s
    then run_bits (b # bs) w = (if s = 256 then Inl (dst, ErrEOSSymbol)
           else run_bits bs (root, 0, True, dst @ [word_of_nat s]))
    else (\<exists>w'. walk_at (p @ [b]) dst w' \<and> run_bits (b # bs) w = run_bits bs w')"
proof -
  obtain n where n: "descend root p = Some n" "w = (n, length p, list_all (\<lambda>b. b) p, dst)"
    using assms(1) by (auto simp: walk_at_def)
  from descend_code [OF assms(2,3)] obtain m where
    m: "descend root (p @ [b]) = Some m" "isLeaf m \<longleftrightarrow> p @ [b] = code_bits s"
      "isLeaf m \<longrightarrow> node_sym m = int s" by blast
  have k: "kid n b = Some m"
    using n(1) m(1) by (cases n) (auto simp: descend_append split: option.splits)
  show ?thesis
  proof (cases "isLeaf m")
    case True
    with n k m show ?thesis by auto
  next
    case False
    with n k m show ?thesis by (auto simp: walk_at_def)
  qed
qed

lemma run_code:
  "walk_at p dst w \<Longrightarrow> q \<noteq> [] \<Longrightarrow> p @ q = code_bits (unat (x :: byte)) \<Longrightarrow>
     run_bits q w = Inr (root, 0, True, dst @ [x])"
proof (induction q arbitrary: p w)
  case (Cons b q)
  have pre: "prefix (p @ [b]) (code_bits (unat x))"
    using Cons.prems(3) by (metis append.assoc append_Cons append_Nil prefixI)
  note along = run_along [OF Cons.prems(1) unat_byte_le(1) pre, of q]
  show ?case
  proof (cases "q = []")
    case True
    with Cons.prems(3) along show ?thesis by simp
  next
    case False
    then have "p @ [b] \<noteq> code_bits (unat x)" using Cons.prems(3) [symmetric] by simp
    with along obtain w1 where "walk_at (p @ [b]) dst w1" "run_bits (b # q) w = run_bits q w1" by auto
    with Cons.IH [OF this(1) False] Cons.prems(3) show ?thesis by simp
  qed
qed simp

lemma code_bits_nonempty: "s \<le> 256 \<Longrightarrow> code_bits s \<noteq> []"
  using code_len_range [of s] length_code_bits [of s] by (metis list.size(3) not_numeral_le_zero)

lemma run_symbols:
  "run_bits (symbol_bits s @ bs) (root, 0, True, dst) = run_bits bs (root, 0, True, dst @ s)"
proof (induction s arbitrary: dst)
  case (Cons x s)
  have "run_bits (code_bits (unat x)) (root, 0, True, dst) = Inr (root, 0, True, dst @ [x])"
    by (rule run_code [of "[]"]) (simp_all add: code_bits_nonempty)
  with Cons show ?case by (simp add: run_bits_append)
qed simp

lemma run_ones:
  "k < 30 \<Longrightarrow> \<exists>w. run_bits (replicate k True) (root, 0, True, dst) = Inr w \<and>
     walk_at (replicate k True) dst w"
proof (induction k)
  case (Suc k)
  then obtain w where w: "run_bits (replicate k True) (root, 0, True, dst) = Inr w"
    "walk_at (replicate k True) dst w" by auto
  have app: "replicate (Suc k) True = replicate k True @ [True]"
    by (simp add: replicate_append_same)
  have "code_bits 256 = (replicate k True @ [True]) @ replicate (29 - k) True"
    using Suc.prems by (simp add: code_bits_EOS flip: app replicate_add replicate_Suc)
  then have "prefix (replicate k True @ [True]) (code_bits 256)" by (metis prefixI)
  moreover have "replicate k True @ [True] \<noteq> code_bits 256"
    using Suc.prems by (auto simp: code_bits_EOS dest: arg_cong [where f = length])
  ultimately obtain w' where "walk_at (replicate k True @ [True]) dst w'" "run_bits [True] w = Inr w'"
    using run_along [OF w(2), of 256 True "[]"] by auto
  with w(1) show ?case unfolding app run_bits_append by auto
qed simp

text \<open>The test at the end of the input.\<close>

definition accepted :: "walk \<Rightarrow> byte list \<times> huffman_error option" where
  "accepted w = (case w of (n, depth, ones, dst) \<Rightarrow>
     (dst, if n \<noteq> root \<and> (7 < depth \<or> \<not> ones) then Some ErrPadding else None))"

lemma Decode_bits:
  "Decode dst src =
     (case run_bits (bits_of src) (root, 0, True, dst) of
        Inl (d, e) \<Rightarrow> (d, Some e)
      | Inr w \<Rightarrow> accepted w)"
  by (auto simp: Decode_def decode_loop_bits accepted_def split: sum.splits)

lemma accepted_walk:
  "walk_at p dst w \<Longrightarrow> accepted w = (dst', None) \<longleftrightarrow> dst' = dst \<and> length p < 8 \<and> p = replicate (length p) True"
proof -
  assume "walk_at p dst w"
  then obtain n where n: "descend root p = Some n" "w = (n, length p, list_all (\<lambda>b. b) p, dst)"
    by (auto simp: walk_at_def)
  have "list_all (\<lambda>b. b) p \<longleftrightarrow> p = replicate (length p) True"
    by (induction p) auto
  with n descend_root_iff [OF n(1)] show ?thesis
    by (cases "p = []") (auto simp: accepted_def)
qed

theorem Decode_accepts:
  "Decode dst src = (dst', None) \<longleftrightarrow>
     (\<exists>s k. dst' = dst @ s \<and> k < 8 \<and> bits_of src = symbol_bits s @ replicate k True)"
proof
  assume d: "Decode dst src = (dst', None)"
  then obtain w where w: "run_bits (bits_of src) (root, 0, True, dst) = Inr w" "accepted w = (dst', None)"
    by (auto simp: Decode_bits split: sum.splits)
  from run_sound [OF walk_at_root w(1)] obtain s p where
    "walk_at p (dst @ s) w" "bits_of src = symbol_bits s @ p" by auto
  with accepted_walk w(2) show
    "\<exists>s k. dst' = dst @ s \<and> k < 8 \<and> bits_of src = symbol_bits s @ replicate k True"
    by metis
next
  assume "\<exists>s k. dst' = dst @ s \<and> k < 8 \<and> bits_of src = symbol_bits s @ replicate k True"
  then obtain s k where s: "dst' = dst @ s" "k < 8" "bits_of src = symbol_bits s @ replicate k True"
    by blast
  obtain w where "run_bits (replicate k True) (root, 0, True, dst @ s) = Inr w"
    "walk_at (replicate k True) (dst @ s) w"
    using run_ones [of k "dst @ s"] s(2) by auto
  with s accepted_walk show "Decode dst src = (dst', None)"
    by (simp add: Decode_bits run_symbols)
qed

end
