(* ===== verification/HuffmanProps.thy ===== *)
theory HuffmanProps
  imports HuffmanSpec
begin

text \<open>
  \<open>Encode\<close> as bit strings, with the 64-bit accumulator, and the properties of the coder: decoding
  inverts encoding, every other octet string is refused, and the announced length is the length.
\<close>

subsection \<open>The accumulator\<close>

lemma low_bits_split: "low_bits (w :: 'a::len word) (n + c) = low_bits (drop_bit c w) n @ low_bits w c"
  by (induction n) (simp_all add: bit_drop_bit_eq add.commute)

lemma low_bits_cong: "(\<And>i. i < n \<Longrightarrow> bit v i \<longleftrightarrow> bit w i) \<Longrightarrow> low_bits v n = low_bits w n"
  by (simp add: low_bits_def)

lemma low_bits_push:
  fixes acc :: u64
  assumes "\<And>i. bit code i \<Longrightarrow> i < c" "n + c \<le> 64"
  shows "low_bits (push_bit c acc OR ucast (code :: 'a::len word)) (n + c) = low_bits acc n @ low_bits code c"
proof -
  have "low_bits (drop_bit c (push_bit c acc OR ucast code)) n = low_bits acc n"
    using assms by (intro low_bits_cong) (auto simp: bit_simps)
  moreover have "low_bits (push_bit c acc OR ucast code) c = low_bits code c"
    using assms(2) by (intro low_bits_cong) (auto simp: bit_simps dest: bit_imp_le_length)
  ultimately show ?thesis by (simp add: low_bits_split)
qed

lemma low_bits_byte: "low_bits (ucast (w :: u64) :: byte) 8 = low_bits w 8"
  by (intro low_bits_cong) (simp add: bit_simps)

lemma encode_emit_bits:
  "encode_emit acc n dst = (n', dst') \<Longrightarrow>
     n' < 8 \<and> bits_of dst' @ low_bits acc n' = bits_of dst @ low_bits acc n"
proof (induction acc n dst rule: encode_emit.induct)
  case (1 acc n dst)
  show ?case
  proof (cases "n \<ge> 8")
    case True
    then have "low_bits acc n = low_bits (drop_bit (n - 8) acc) 8 @ low_bits acc (n - 8)"
      using low_bits_split [of acc 8 "n - 8"] by simp
    with True 1 show ?thesis by (simp add: encode_emit.simps [of acc n] low_bits_byte)
  next
    case False
    with 1 show ?thesis by (simp add: encode_emit.simps [of acc n])
  qed
qed

lemma code_bit_less: "s \<le> 256 \<Longrightarrow> bit (codes ! s) i \<Longrightarrow> i < code_len s"
proof -
  assume s: "s \<le> 256" "bit (codes ! s) i"
  have "take_bit (code_len s) (uint (codes ! s)) = uint (codes ! s)"
    using code_val_less [OF s(1)] by (simp add: code_val_def take_bit_int_eq_self)
  moreover have "bit (uint (codes ! s)) i"
    using s(2) by (auto simp: bit_uint_iff dest: bit_imp_le_length)
  ultimately show ?thesis by (metis bit_take_bit_iff)
qed

lemma encode_loop_bits:
  "n < 8 \<Longrightarrow> encode_loop acc n dst data = (acc', n', dst') \<Longrightarrow>
     n' < 8 \<and> bits_of dst' @ low_bits acc' n' = bits_of dst @ low_bits acc n @ symbol_bits data"
proof (induction data arbitrary: acc n dst)
  case (Cons b data)
  let ?acc = "push_bit (code_len (unat b)) acc OR ucast (codes ! unat b)"
  obtain n1 dst1 where e: "encode_emit ?acc (n + code_len (unat b)) dst = (n1, dst1)" by fastforce
  have "low_bits ?acc (n + code_len (unat b)) = low_bits acc n @ code_bits (unat b)"
    unfolding code_bits_def
  proof (rule low_bits_push)
    show "n + code_len (unat b) \<le> 64"
      using Cons.prems(1) code_len_range [OF unat_byte_le(1), of b] by linarith
  qed (rule code_bit_less [OF unat_byte_le(1)])
  with encode_emit_bits [OF e] have one: "n1 < 8"
    "bits_of dst1 @ low_bits ?acc n1 = bits_of dst @ low_bits acc n @ code_bits (unat b)" by auto
  have "encode_loop ?acc n1 dst1 data = (acc', n', dst')"
    using Cons.prems(2) e by (simp add: Let_def code_len_def)
  from Cons.IH [OF one(1) this] have
    "n' < 8" "bits_of dst' @ low_bits acc' n' = (bits_of dst1 @ low_bits ?acc n1) @ symbol_bits data"
    by simp_all
  then show ?case unfolding one(2) by simp
qed simp

lemma Encode_bits:
  "\<exists>k<8. bits_of (Encode dst data) = bits_of dst @ symbol_bits data @ replicate k True"
proof -
  obtain acc n dst1 where e: "encode_loop 0 0 dst data = (acc, n, dst1)" by (metis prod_cases3)
  with encode_loop_bits [OF _ e] have n: "n < 8"
    "bits_of dst1 @ low_bits acc n = bits_of dst @ symbol_bits data" by auto
  show ?thesis
  proof (cases "n = 0")
    case True
    with n e show ?thesis by (intro exI [of _ 0]) (simp add: Encode_def)
  next
    case False
    let ?pad = "drop_bit n 0xff :: u64"
    have ones: "bit ?pad i \<longleftrightarrow> i < 8 - n" for i
    proof -
      have "(0xff :: u64) = mask 8" by (simp add: mask_eq_exp_minus_1)
      then show ?thesis
        using n(1) unfolding \<open>0xff = mask 8\<close> bit_drop_bit_eq bit_mask_iff o_def by auto
    qed
    have "low_bits (push_bit (8 - n) acc OR ucast ?pad) (n + (8 - n)) =
        low_bits acc n @ low_bits ?pad (8 - n)"
      using n(1) by (intro low_bits_push) (simp_all add: ones)
    moreover have "low_bits ?pad (8 - n) = replicate (8 - n) True"
      unfolding low_bits_def using ones by (intro nth_equalityI) (simp_all add: rev_nth)
    ultimately have "low_bits (ucast (push_bit (8 - n) acc OR ?pad) :: byte) 8 =
        low_bits acc n @ replicate (8 - n) True"
      using n(1) by (simp add: low_bits_byte)
    then have "bits_of (Encode dst data) = (bits_of dst1 @ low_bits acc n) @ replicate (8 - n) True"
      using e False by (simp add: Encode_def)
    then show ?thesis
      unfolding n(2) using False by (intro exI [of _ "8 - n"]) simp
  qed
qed

subsection \<open>Octet strings and their bits\<close>

lemma low_bits_inject: "low_bits (b :: byte) 8 = low_bits c 8 \<longleftrightarrow> b = c"
proof
  assume "low_bits b 8 = low_bits c 8"
  then have "map (bit b) [0..<8] = map (bit c) [0..<8]" by (simp add: low_bits_def)
  then have "bit b i \<longleftrightarrow> bit c i" if "i < 8" for i
    using that by (metis add_0 length_upt minus_nat.diff_0 nth_map nth_upt)
  then show "b = c" by (intro bit_word_eqI) simp
qed simp

lemma bits_of_inject: "bits_of xs = bits_of ys \<longleftrightarrow> xs = ys"
proof
  assume eq: "bits_of xs = bits_of ys"
  then have "8 * length xs = 8 * length ys" by (metis length_bits_of)
  then have "length xs = length ys" by simp
  then show "xs = ys" using eq
    by (induction xs ys rule: list_induct2) (simp_all only: bits_of_simps append_eq_append_conv low_bits_simps low_bits_inject simp_thms)
qed simp

text \<open>Fewer than eight padding bits are determined by the length of what comes before.\<close>

lemma padding_unique:
  assumes "bits_of xs = p @ replicate k True" "bits_of ys = p @ replicate j True" "k < 8" "j < 8"
  shows "xs = ys"
proof -
  have "8 * length xs = length p + k" "8 * length ys = length p + j"
    using assms(1,2) [THEN arg_cong, of length] by simp_all
  with assms(3,4) have "k = j" by presburger
  with assms show ?thesis by (simp flip: bits_of_inject)
qed

lemma Encode_dst: "Encode dst data = dst @ Encode [] data"
proof -
  obtain k where k: "k < 8" "bits_of (Encode dst data) = (bits_of dst @ symbol_bits data) @ replicate k True"
    using Encode_bits [of dst data] by auto
  obtain j where j: "j < 8" "bits_of (dst @ Encode [] data) = (bits_of dst @ symbol_bits data) @ replicate j True"
    using Encode_bits [of "[]" data] by auto
  from padding_unique [OF k(2) j(2) k(1) j(1)] show ?thesis .
qed

lemma encoded_bits_eq: "encoded_bits n data = n + length (symbol_bits data)"
  by (induction n data rule: encoded_bits.induct) (simp_all add: code_len_def)

lemma symbol_bits_length: "5 * length s \<le> length (symbol_bits s)"
proof (induction s)
  case (Cons x s)
  then show ?case using code_len_range [OF unat_byte_le(1), of x] by simp
qed simp

lemma Decode_Encode: "Decode dst (Encode [] data) = (dst @ data, None)"
  unfolding Decode_accepts using Encode_bits [of "[]" data] by auto

lemma Decode_only_Encode: "Decode dst src = (dst @ data, None) \<Longrightarrow> src = Encode [] data"
proof -
  assume "Decode dst src = (dst @ data, None)"
  then obtain k where k: "k < 8" "bits_of src = symbol_bits data @ replicate k True"
    unfolding Decode_accepts by auto
  obtain j where j: "j < 8" "bits_of (Encode [] data) = symbol_bits data @ replicate j True"
    using Encode_bits [of "[]" data] by auto
  from padding_unique [OF k(2) j(2) k(1) j(1)] show ?thesis .
qed

lemma Encode_octets:
  "\<exists>k<8. 8 * length (Encode [] data) = length (symbol_bits data) + k"
proof -
  obtain k where k: "k < 8" "bits_of (Encode [] data) = symbol_bits data @ replicate k True"
    using Encode_bits [of "[]" data] by auto
  have "8 * length (Encode [] data) = length (symbol_bits data) + k"
    using k(2) [THEN arg_cong, of length] by simp
  with k(1) show ?thesis by blast
qed

lemma Encode_length: "length (Encode dst data) = length dst + EncodedLen data"
proof -
  have "length (Encode [] data) = EncodedLen data"
    unfolding EncodedLen_def encoded_bits_eq using Encode_octets [of data] by linarith
  then show ?thesis using Encode_dst [of dst data] by simp
qed

lemma Decode_length: "Decode dst src = (dst @ data, None) \<Longrightarrow> 5 * length data \<le> 8 * length src"
  using Decode_only_Encode [of dst src data] Encode_octets [of data] symbol_bits_length [of data] by auto

lemma Decode_extends: "Decode dst src = (dst', None) \<Longrightarrow> \<exists>data. dst' = dst @ data"
  unfolding Decode_accepts by blast

subsection \<open>Properties\<close>

text \<open>C10: The Huffman coder is exact in both directions, for all octet strings: \<open>Decode\<close> accepts
  a string and appends \<open>data\<close> to its destination if and only if the string is what \<open>Encode\<close>
  writes for \<open>data\<close>. So decoding inverts encoding, no two strings decode to the same data, and
  wrong or overlong padding, an EOS symbol or a truncated code is always an error.\<close>

theorem huffman_exact:
  "Decode dst src = (dst @ data, None) \<longleftrightarrow> src = Encode [] data"
  using Decode_Encode Decode_only_Encode by blast

text \<open>\<open>EncodedLen\<close> is the length of what \<open>Encode\<close> appends, and the data that \<open>Decode\<close>
  returns is never longer than 8/5 of its input, so a small string cannot expand without bound.\<close>

theorem huffman_lengths:
  "length (Encode dst data) = length dst + EncodedLen data \<and>
   (Decode dst src = (dst @ data, None) \<longrightarrow> 5 * length data \<le> 8 * length src)"
  using Encode_length Decode_length by blast

lemma sample_encoding:
  "Encode [] (bytes_of ''www.example.com'') =
     [0xf1, 0xe3, 0xc2, 0xe5, 0xf2, 0x3a, 0x6b, 0xa0, 0xab, 0x90, 0xf4, 0xff]"
  by code_simp

lemma huffman_lengths_witness:
  "5 * length (bytes_of ''www.example.com'') \<le>
     8 * length ([0xf1, 0xe3, 0xc2, 0xe5, 0xf2, 0x3a, 0x6b, 0xa0, 0xab, 0x90, 0xf4, 0xff] :: byte list)"
  using huffman_lengths [THEN conjunct2, THEN mp, OF Decode_Encode, of "bytes_of ''www.example.com''"]
  unfolding sample_encoding .

end
