(* ===== verification/HpackWire.thy ===== *)
theory HpackWire
  imports Hpack HuffmanProps WireSource
begin

text \<open>
  HPACK's integers and strings on the wire: what is appended is what is decoded, whatever follows,
  and what the decoder accepts is bounded. Both are instances of \<open>wire_source\<close>.
\<close>

subsection \<open>Octets of an integer\<close>

lemma prefix_max_mask: "prefix_max n = mask n"
  by (simp add: prefix_max_def mask_eq_exp_minus_1 push_bit_eq_mult)

lemma bit_0x7f_u64: "bit (0x7f :: u64) j \<longleftrightarrow> j < 7"
proof -
  have "(0x7f :: u64) = mask 7" by (simp add: mask_eq_exp_minus_1)
  then show ?thesis by (simp only: bit_mask_iff) auto
qed

lemma low7_more:
  "ucast ((ucast (i AND 0x7f) OR 0x80 :: byte) AND 0x7f) = (i AND 0x7f :: u64)"
  "(ucast (i AND 0x7f :: u64) OR 0x80 :: byte) AND 0x80 \<noteq> 0"
proof -
  show "ucast ((ucast (i AND 0x7f) OR 0x80 :: byte) AND 0x7f) = (i AND 0x7f :: u64)"
    by (rule bit_word_eqI) (simp only: bit_ucast_iff bit_and_iff [where ?'a = u64] bit_0x7f_u64 bit_and_0x7f bit_or_0x80, auto)
  show "(ucast (i AND 0x7f :: u64) OR 0x80 :: byte) AND 0x80 \<noteq> 0"
    unfolding and_0x80_bit bit_or_0x80 by blast
qed

lemma low7_last:
  assumes "(i :: u64) < 128"
  shows "(ucast i :: byte) AND 0x80 = 0" "ucast ((ucast i :: byte) AND 0x7f) = i"
proof -
  have "unat i < 2 ^ 7" using assms by (simp add: word_less_nat_alt)
  then have i: "take_bit 7 i = i"
    by (metis take_bit_nat_eq_self unsigned_take_bit_eq word_unat_eq_iff)
  then have low: "bit i j \<Longrightarrow> j < 7" for j
    by (metis bit_take_bit_iff)
  show "(ucast i :: byte) AND 0x80 = 0"
    using and_0x80_bit [of "ucast i"] low by (auto simp: bit_ucast_iff)
  show "ucast ((ucast i :: byte) AND 0x7f) = i"
    by (rule bit_word_eqI) (auto simp: bit_ucast_iff bit_and_0x7f dest: low)
qed

lemma unat_low7: "unat (i AND 0x7f :: u64) = unat i mod 128"
proof -
  have "(0x7f :: u64) = mask 7" by (simp add: mask_eq_exp_minus_1)
  then have "i AND 0x7f = take_bit 7 i" by (simp add: take_bit_eq_mask)
  then show ?thesis by (simp add: unsigned_take_bit_eq take_bit_nat_def)
qed

lemma unat_add_shifted:
  assumes "unat (v :: u64) + unat (x :: u64) * 2 ^ sh < 2 ^ 64"
  shows "unat (v + push_bit sh x) = unat v + unat x * 2 ^ sh"
  using assms by (simp add: unat_word_ariths unsigned_push_bit_eq push_bit_nat_def take_bit_nat_def)

lemma append_continuation_dst: "append_continuation dst i = dst @ append_continuation [] i"
proof (induction "unat i" arbitrary: dst i rule: less_induct)
  case less
  show ?case
  proof (cases "i \<ge> 128")
    case True
    note IH = less [OF drop_bit_less [OF True]]
    show ?thesis
      using True IH [of "dst @ [ucast (i AND 0x7f) OR 0x80]"] IH [of "[ucast (i AND 0x7f) OR 0x80]"]
      by (simp add: append_continuation.simps [of _ i])
  qed (simp add: append_continuation.simps)
qed

definition continuation :: "u64 \<Rightarrow> byte list" where
  "continuation i = append_continuation [] i"

lemma continuation_last: "i < 128 \<Longrightarrow> continuation i = [ucast i]"
  by (simp add: continuation_def append_continuation.simps)

lemma continuation_more:
  "i \<ge> 128 \<Longrightarrow> continuation i = (ucast (i AND 0x7f) OR 0x80) # continuation (drop_bit 7 i)"
  using append_continuation_dst [of "[ucast (i AND 0x7f) OR 0x80]" "drop_bit 7 i"]
  by (simp add: continuation_def append_continuation.simps [of _ i])

lemma appendInt_eq:
  "appendInt dst flags n i =
     dst @ (if i < mask n then [flags OR ucast i] else (flags OR ucast (mask n :: u64)) # continuation (i - mask n))"
  by (simp add: appendInt_def prefix_max_mask Let_def continuation_def append_continuation_dst [of "dst @ _"])

text \<open>Reading continuation octets: \<open>j\<close> of them have been read, and the total does not pass the
  bound, so there are at most five.\<close>

lemma decodeInt_loop_continuation:
  assumes "unat val + unat i * 2 ^ (7 * j) \<le> 2 ^ 32" "j = 0 \<or> 0 < i"
    and "drop (Suc j) src = continuation i @ rest"
  shows "\<exists>v. decodeInt_loop src val (7 * j) (Suc j) = Inr (v, Suc j + length (continuation i)) \<and>
           unat v = unat val + unat i * 2 ^ (7 * j)"
  using assms
proof (induction "unat i" arbitrary: val i j rule: less_induct)
  case less
  have j: "j < 5"
  proof (rule ccontr)
    assume "\<not> j < 5"
    then have "(2::nat) ^ 35 \<le> 2 ^ (7 * j)" by (intro power_increasing) simp_all
    also have "\<dots> \<le> unat i * 2 ^ (7 * j)"
      using less.prems(2) \<open>\<not> j < 5\<close> by (auto simp: unat_gt_0 Suc_le_eq)
    also have "\<dots> \<le> 2 ^ 32" using less.prems(1) by simp
    finally show False by simp
  qed
  obtain b bs where b: "continuation i = b # bs"
    by (cases "i \<ge> 128") (simp_all add: continuation_more continuation_last not_le)
  then have src: "Suc j < length src" "src ! Suc j = b"
    using less.prems(3) by (metis drop_eq_Nil Nil_is_append_conv list.discI not_le_imp_less)
      (metis append_Cons b hd_drop_conv_nth drop_eq_Nil less.prems(3) list.discI list.sel(1) not_le_imp_less)
  show ?case
  proof (cases "i \<ge> 128")
    case False
    then have last: "b = ucast i" "bs = []" using b by (simp_all add: continuation_last not_le)
    have v: "unat (val + push_bit (7 * j) i) = unat val + unat i * 2 ^ (7 * j)"
      using less.prems(1) by (intro unat_add_shifted) simp
    with less.prems(1) have "\<not> val + push_bit (7 * j) i > maxIntValue"
      by (simp add: word_less_nat_alt)
    with False j src last v b show ?thesis
      by (subst decodeInt_loop.simps) (simp add: Let_def low7_last not_le)
  next
    case True
    let ?val = "val + push_bit (7 * j) (i AND 0x7f)"
    have more: "b = ucast (i AND 0x7f) OR 0x80" "bs = continuation (drop_bit 7 i)"
      using b continuation_more [OF True] by simp_all
    have i: "unat i = unat i mod 128 + 128 * unat (drop_bit 7 i)"
      by (simp add: unat_drop_bit_eq drop_bit_nat_def)
    have total: "unat i * 2 ^ (7 * j) = (unat i mod 128) * 2 ^ (7 * j) + unat (drop_bit 7 i) * 2 ^ (7 * Suc j)"
      by (subst i) (simp add: algebra_simps power_add)
    have v: "unat ?val = unat val + (unat i mod 128) * 2 ^ (7 * j)"
      using less.prems(1) total by (subst unat_add_shifted) (simp_all add: unat_low7)
    have "0 < drop_bit 7 i"
      using True by (simp add: word_less_nat_alt word_le_nat_alt unat_drop_bit_eq drop_bit_nat_def div_greater_zero_iff)
    moreover have "drop (Suc (Suc j)) src = continuation (drop_bit 7 i) @ rest"
      using less.prems(3) more b by (metis append_Cons drop_Suc list.sel(3) tl_drop)
    ultimately obtain w where w:
      "decodeInt_loop src ?val (7 * Suc j) (Suc (Suc j)) = Inr (w, Suc (Suc j) + length bs)"
      "unat w = unat ?val + unat (drop_bit 7 i) * 2 ^ (7 * Suc j)"
      using less.hyps [OF drop_bit_less [OF True], of ?val "Suc j"] less.prems(1) total v more(2) by auto
    have "\<not> ?val > maxIntValue"
      using less.prems(1) total v by (simp add: word_less_nat_alt)
    moreover have "ucast (b AND 0x7f) = i AND 0x7f" "b AND 0x80 \<noteq> 0"
      unfolding more by (rule low7_more)+
    ultimately have "decodeInt_loop src val (7 * j) (Suc j) = Inr (w, Suc (Suc j) + length bs)"
      using w(1) j src by (subst decodeInt_loop.simps) (simp add: Let_def add.commute del: push_bit_and)
    with w(2) v total b show ?thesis by simp
  qed
qed

subsection \<open>Integers\<close>

text \<open>The bits above the prefix must be clear of it.\<close>

definition prefix_ok :: "byte \<Rightarrow> nat \<Rightarrow> bool" where
  "prefix_ok flags n \<longleftrightarrow> n \<le> 8 \<and> take_bit n flags = 0"

lemma prefix_ok_flags [simp]:
  "prefix_ok 0x80 7" "prefix_ok 0x00 7" "prefix_ok 0x40 6" "prefix_ok 0x10 4"
  by (simp_all add: prefix_ok_def)

lemma prefix_ok_bit: "prefix_ok flags n \<Longrightarrow> j < n \<Longrightarrow> \<not> bit flags j"
  by (metis bit_0_eq bit_take_bit_iff bot_apply bot_bool_def prefix_ok_def)

lemma unat_mask_u64: "n \<le> 8 \<Longrightarrow> unat (mask n :: u64) = 2 ^ n - 1"
proof -
  assume "n \<le> 8"
  then have "n = 0 \<or> n = 1 \<or> n = 2 \<or> n = 3 \<or> n = 4 \<or> n = 5 \<or> n = 6 \<or> n = 7 \<or> n = 8"
    by linarith
  then show ?thesis by (elim disjE) (simp_all add: mask_eq_exp_minus_1)
qed

lemma prefix_byte:
  assumes "prefix_ok flags n" "\<And>j. bit (i :: u64) j \<Longrightarrow> j < n"
  shows "ucast (flags OR ucast i :: byte) AND mask n = i"
proof (rule bit_word_eqI)
  fix j :: nat assume j: "j < LENGTH(64)"
  have "n \<le> 8" using assms(1) by (simp add: prefix_ok_def)
  moreover have "bit i j \<Longrightarrow> j < 8"
    using assms(2) [of j] \<open>n \<le> 8\<close> by linarith
  ultimately show "bit (ucast (flags OR ucast i :: byte) AND mask n :: u64) j \<longleftrightarrow> bit i j"
    using assms j prefix_ok_bit [OF assms(1), of j]
    by (auto simp: bit_and_iff bit_mask_iff bit_ucast_iff bit_or_iff)
qed

lemma bit_below_mask: "(i :: u64) < mask n \<Longrightarrow> n \<le> 8 \<Longrightarrow> bit i j \<Longrightarrow> j < n"
proof -
  assume i: "i < mask n" "n \<le> 8" "bit i j"
  then have "unat i < 2 ^ n" using unat_mask_u64 [of n] by (simp add: word_less_nat_alt)
  then have "take_bit n i = i"
    by (metis take_bit_nat_eq_self unsigned_take_bit_eq word_unat_eq_iff)
  with i(3) show ?thesis by (metis bit_take_bit_iff)
qed

lemma decodeInt_appendInt:
  assumes "prefix_ok flags n" "unat i \<le> 2 ^ 32"
  shows "decodeInt (appendInt [] flags n i @ rest) n = Inr (i, length (appendInt [] flags n i))"
proof (cases "i < mask n")
  case True
  have "n \<le> 8" using assms(1) by (simp add: prefix_ok_def)
  with prefix_byte [OF assms(1), of i] bit_below_mask [OF True] True show ?thesis
    by (simp add: appendInt_eq decodeInt_def prefix_max_mask)
next
  case False
  let ?src = "(flags OR ucast (mask n :: u64)) # continuation (i - mask n) @ rest"
  have n: "n \<le> 8" using assms(1) by (simp add: prefix_ok_def)
  have first: "ucast (flags OR ucast (mask n :: u64) :: byte) AND mask n = (mask n :: u64)"
    using n by (intro prefix_byte [OF assms(1)]) (simp add: bit_mask_iff)
  have sub: "unat (i - mask n) = unat i - unat (mask n :: u64)"
    using False by (intro unat_sub) (simp add: not_less)
  have le: "unat (mask n :: u64) \<le> unat i" using False by (simp add: not_less word_le_nat_alt)
  from decodeInt_loop_continuation [of "mask n" "i - mask n" 0 ?src rest] sub le assms(2)
  obtain v where v: "decodeInt_loop ?src (mask n) 0 1 = Inr (v, 1 + length (continuation (i - mask n)))"
    "unat v = unat i" by auto
  have "appendInt [] flags n i @ rest = ?src" using False by (simp add: appendInt_eq)
  moreover have "decodeInt ?src n = decodeInt_loop ?src (mask n) 0 1"
    unfolding decodeInt_def prefix_max_mask Let_def nth_Cons_0 first by simp
  ultimately show ?thesis
    using v False by (simp add: appendInt_eq word_unat_eq_iff)
qed

lemma decodeInt_loop_bound:
  "decodeInt_loop src val shift i = Inr (v, k) \<Longrightarrow> v \<le> maxIntValue \<and> (1 \<le> i \<longrightarrow> k \<le> 6)"
proof (induction src val shift i rule: decodeInt_loop.induct)
  case (1 src val shift i)
  then show ?case
    by (subst (asm) (2) decodeInt_loop.simps) (fastforce simp: Let_def split: if_splits)
qed

lemma decodeInt_bound:
  "decodeInt src n = Inr (v, k) \<Longrightarrow> n \<le> 8 \<Longrightarrow> unat v \<le> 2 ^ 32 \<and> 1 \<le> k \<and> k \<le> 6 \<and> k \<le> length src"
proof -
  assume d: "decodeInt src n = Inr (v, k)" "n \<le> 8"
  show ?thesis
  proof (cases "ucast (src ! 0) AND prefix_max n < prefix_max n")
    case True
    then have "unat (ucast (src ! 0) AND prefix_max n) < 2 ^ n"
      using unat_mask_u64 [OF d(2)] by (simp add: word_less_nat_alt prefix_max_mask)
    moreover have "(2::nat) ^ n \<le> 2 ^ 8" using d(2) by (intro power_increasing) simp_all
    ultimately show ?thesis using True d decodeInt_consumed [OF d(1)]
      by (auto simp: decodeInt_def Let_def split: if_splits)
  next
    case False
    with d decodeInt_consumed [OF d(1)] decodeInt_loop_bound [of src "prefix_max n" 0 1 v k] show ?thesis
      by (auto simp: decodeInt_def Let_def word_le_nat_alt split: if_splits)
  qed
qed

lemma length_appendInt_pos: "0 < length (appendInt [] flags n i)"
  by (simp add: appendInt_eq)

lemma appendInt_dst: "appendInt dst flags n i = dst @ appendInt [] flags n i"
  by (simp add: appendInt_eq)

text \<open>The bits above the prefix are those of the flags, which is what the decoder dispatches on.\<close>

lemma appendInt_nth0:
  assumes "prefix_ok flags n" "take_bit n m = 0"
  shows "(appendInt [] flags n i @ rest) ! 0 AND m = flags AND m"
proof -
  have low: "(flags OR ucast (k :: u64)) AND m = flags AND m" if "\<And>j. bit k j \<Longrightarrow> j < n" for k
  proof (rule bit_word_eqI)
    fix j :: nat
    have "j < n \<Longrightarrow> \<not> bit m j"
      by (metis assms(2) bit_0_eq bit_take_bit_iff bot_apply bot_bool_def)
    with that [of j] show "bit ((flags OR ucast k) AND m) j \<longleftrightarrow> bit (flags AND m) j"
      by (auto simp: bit_and_iff bit_or_iff bit_ucast_iff)
  qed
  have n: "n \<le> 8" using assms(1) by (simp add: prefix_ok_def)
  show ?thesis
  proof (cases "i < mask n")
    case True
    with low [of i] bit_below_mask [OF True n] show ?thesis by (simp add: appendInt_eq)
  next
    case False
    with low [of "mask n"] show ?thesis by (simp add: appendInt_eq bit_mask_iff)
  qed
qed

subsection \<open>Strings\<close>

definition string_fits :: "string \<Rightarrow> bool" where
  "string_fits s \<longleftrightarrow> length s \<le> 2 ^ 24"

lemma appendString_dst: "appendString dst s = dst @ appendString [] s"
  by (simp add: appendString_def Let_def appendInt_dst [of dst] Encode_dst [of "dst @ _"]
      Encode_dst [of "appendInt [] _ _ _"])

lemma unat_small_u64: "k \<le> 2 ^ 24 \<Longrightarrow> unat (word_of_nat k :: u64) = k"
  by (rule unat_word_of_nat_small) simp

text \<open>A length prefix followed by that many octets, under either coding.\<close>

lemma decodeString_parts:
  assumes "flags = 0x80 \<or> flags = 0x00" "length data \<le> 2 ^ 24"
  shows "decodeString (appendInt [] flags 7 (word_of_nat (length data)) @ data @ rest) =
    (let total = length (appendInt [] flags 7 (word_of_nat (length data))) + length data in
     if flags = 0x00 then Inr (string_of data, total)
     else (case Decode [] data of
             (d, Some e) \<Rightarrow> Inl (Compression (''huffman: '' @ huffman_message e))
           | (d, None) \<Rightarrow> Inr (string_of d, total)))"
proof -
  let ?k = "word_of_nat (length data) :: u64"
  let ?hd = "appendInt [] flags 7 ?k"
  have pre: "prefix_ok flags 7" using assms(1) by auto
  have k: "unat ?k = length data" using assms(2) by (rule unat_small_u64)
  have int: "decodeInt (?hd @ data @ rest) 7 = Inr (?k, length ?hd)"
    using decodeInt_appendInt [OF pre, of ?k "data @ rest"] k assms(2) by simp
  have flag: "(?hd @ data @ rest) ! 0 AND 0x80 = flags AND 0x80"
    using appendInt_nth0 [OF pre, of "0x80" ?k "data @ rest"] by simp
  have small: "\<not> ?k > maxStringLen" using k assms(2) by (simp add: word_less_nat_alt)
  show ?thesis
    unfolding decodeString_def flag int Let_def and_then_simps prod.case
    using assms k small by (auto simp: appendInt_eq)
qed

lemma decodeString_appendString:
  assumes "string_fits s"
  shows "decodeString (appendString [] s @ rest) = Inr (s, length (appendString [] s))"
proof (cases "EncodedLen (bytes_of s) < length (bytes_of s)")
  case True
  have len: "length (Encode [] (bytes_of s)) = EncodedLen (bytes_of s)"
    using Encode_length by simp
  have eq: "appendString [] s =
      appendInt [] 0x80 7 (word_of_nat (length (Encode [] (bytes_of s)))) @ Encode [] (bytes_of s)"
    using True by (simp add: appendString_def Let_def len Encode_dst [of "appendInt [] _ _ _"])
  have "length (Encode [] (bytes_of s)) \<le> 2 ^ 24"
    using True assms by (simp add: len string_fits_def)
  from decodeString_parts [OF _ this, of "0x80" rest] Decode_Encode [of "[]" "bytes_of s"]
  show ?thesis unfolding eq by (simp add: Let_def)
next
  case False
  have eq: "appendString [] s = appendInt [] 0x00 7 (word_of_nat (length (bytes_of s))) @ bytes_of s"
    using False by (simp add: appendString_def Let_def)
  have "length (bytes_of s) \<le> 2 ^ 24" using assms by (simp add: string_fits_def)
  from decodeString_parts [OF _ this, of "0x00" rest]
  show ?thesis unfolding eq by (simp add: Let_def)
qed

lemma decodeString_bound:
  "decodeString src = Inr (s, k) \<Longrightarrow> 0 < k \<and> k \<le> length src \<and> 5 * length s \<le> 8 * k"
proof -
  assume d: "decodeString src = Inr (s, k)"
  then obtain len n where n: "decodeInt src 7 = Inr (len, n)"
    by (auto simp: decodeString_def Let_def and_then_Inr_iff split: if_splits)
  let ?data = "take (unat len) (drop n src)"
  from decodeInt_consumed [OF n] have "0 < n" "n \<le> length src" by auto
  moreover from d n have len: "unat len \<le> length src - n" and k: "k = n + unat len"
    and s: "s = string_of ?data \<or> (\<exists>dec. Decode [] ?data = (dec, None) \<and> s = string_of dec)"
    by (auto simp: decodeString_def Let_def split: if_splits prod.splits option.splits)
  moreover have "5 * length s \<le> 8 * unat len"
    using s len Decode_length [of "[]" ?data] by (auto simp: min_def split: if_splits)
  ultimately show ?thesis by auto
qed

subsection \<open>Instances of the interface\<close>

text \<open>A receiver of integers or strings takes one off the front of its octets.\<close>

definition take_with :: "(byte list \<Rightarrow> 'e + ('a \<times> nat)) \<Rightarrow> byte list \<Rightarrow> ('e + 'a) \<times> byte list" where
  "take_with decode bs =
     (case decode bs of Inl e \<Rightarrow> (Inl e, bs) | Inr (x, n) \<Rightarrow> (Inr x, drop n bs))"

interpretation wire_int: wire_source
    "\<lambda>u :: unit. appendInt [] flags n"
    "\<lambda>u x. if prefix_ok flags n \<and> unat x \<le> 2 ^ 32 then Some u else None"
    "take_with (\<lambda>bs. decodeInt bs n)" "\<lambda>bs u bs'. bs = bs'" for flags n
  by unfold_locales (auto simp: take_with_def decodeInt_appendInt split: if_splits)

interpretation wire_string: wire_source
    "\<lambda>u :: unit. appendString []"
    "\<lambda>u s. if string_fits s then Some u else None"
    "take_with decodeString" "\<lambda>bs u bs'. bs = bs'"
  by unfold_locales (auto simp: take_with_def decodeString_appendString split: if_splits)

end
