(* ===== verification/HpackTable.thy ===== *)
theory HpackTable
  imports HpackWire
begin

text \<open>
  The dynamic table as RFC 7541 section 4 describes it: the newest entries that fit. \<open>fit m es\<close> is
  the longest first part of \<open>es\<close> whose sizes add up to at most \<open>m\<close>; adding, resizing and eviction
  are all \<open>fit\<close>. From it follow the invariant of the table under every operation of the codec
  and that a decoder with a larger table than the encoder's sees the encoder's entries.
\<close>

subsection \<open>The newest entries that fit\<close>

fun fit :: "int \<Rightarrow> field list \<Rightarrow> field list" where
  "fit m [] = []"
| "fit m (e # es) = (if entrySize e \<le> m then e # fit (m - entrySize e) es else [])"

definition total_size :: "field list \<Rightarrow> int" where
  "total_size es = sum_list (map entrySize es)"

lemma total_size_simps [simp]:
  "total_size [] = 0" "total_size (e # es) = entrySize e + total_size es"
  "total_size (xs @ ys) = total_size xs + total_size ys"
  by (simp_all add: total_size_def)

lemma entrySize_pos: "32 \<le> entrySize e"
  by (simp add: entrySize_def)

lemma total_size_nonneg: "0 \<le> total_size es"
proof (induction es)
  case (Cons e es)
  then show ?case using entrySize_pos [of e] by simp
qed simp

lemma total_size_length: "32 * int (length es) \<le> total_size es"
proof (induction es)
  case (Cons e es)
  then show ?case using entrySize_pos [of e] by simp
qed simp

lemma fit_all: "total_size es \<le> m \<Longrightarrow> fit m es = es"
proof (induction es arbitrary: m)
  case (Cons e es)
  then show ?case using total_size_nonneg [of es] by simp
qed simp

lemma fit_size: "0 \<le> m \<Longrightarrow> total_size (fit m es) \<le> m"
  by (induction m es rule: fit.induct) auto

lemma fit_prefix: "prefix (fit m es) es"
  by (induction m es rule: fit.induct) auto

text \<open>Maximality: every longer first part is too large.\<close>

lemma fit_maximal: "prefix xs es \<Longrightarrow> total_size xs \<le> m \<Longrightarrow> prefix xs (fit m es)"
proof (induction es arbitrary: xs m)
  case (Cons e es)
  show ?case
  proof (cases xs)
    case Nil
    then show ?thesis by simp
  next
    case (Cons x ys)
    with Cons.prems total_size_nonneg [of ys] Cons.IH [of ys "m - entrySize e"]
    show ?thesis by auto
  qed
qed simp

lemma fit_fit: "m \<le> n \<Longrightarrow> fit m (fit n es) = fit m es"
proof (induction es arbitrary: m n)
  case (Cons e es)
  then show ?case by auto
qed simp

lemma fit_butlast:
  "es \<noteq> [] \<Longrightarrow> m < total_size es \<Longrightarrow> fit m (butlast es) = fit m es"
proof (induction es arbitrary: m)
  case (Cons e es)
  then show ?case by (cases "es = []") auto
qed simp

subsection \<open>The operations are \<open>fit\<close>\<close>

definition table_ok :: "dynamic_table \<Rightarrow> bool" where
  "table_ok dt \<longleftrightarrow> dt_size dt = total_size (dt_entries dt) \<and> dt_size dt \<le> dt_max dt \<and>
     dt_max dt \<le> dt_ceiling dt \<and> (\<forall>e\<in>set (dt_entries dt). \<not> Sensitive e)"

lemma evict_loop_fit:
  "dt_size dt = total_size (dt_entries dt) \<Longrightarrow> evict_loop extra dt =
     dt\<lparr>dt_entries := fit (dt_max dt - extra) (dt_entries dt),
        dt_size := total_size (fit (dt_max dt - extra) (dt_entries dt))\<rparr>"
proof (induction extra dt rule: evict_loop.induct)
  case (1 extra dt)
  show ?case
  proof (cases "dt_size dt + extra > dt_max dt \<and> dt_entries dt \<noteq> []")
    case True
    let ?dt = "dt\<lparr>dt_size := dt_size dt - entrySize (last (dt_entries dt)),
                  dt_entries := butlast (dt_entries dt)\<rparr>"
    have split: "dt_entries dt = butlast (dt_entries dt) @ [last (dt_entries dt)]"
      using True by simp
    have "total_size (dt_entries dt) =
        total_size (butlast (dt_entries dt)) + entrySize (last (dt_entries dt))"
      by (subst split) (simp del: append_butlast_last_id)
    then have "dt_size ?dt = total_size (dt_entries ?dt)" using 1 by simp
    with 1 True have "evict_loop extra ?dt =
        ?dt\<lparr>dt_entries := fit (dt_max dt - extra) (butlast (dt_entries dt)),
            dt_size := total_size (fit (dt_max dt - extra) (butlast (dt_entries dt)))\<rparr>" by simp
    moreover have "fit (dt_max dt - extra) (butlast (dt_entries dt)) = fit (dt_max dt - extra) (dt_entries dt)"
      using True 1(2) by (intro fit_butlast) simp_all
    ultimately show ?thesis
      using True by (simp add: evict_loop.simps [of extra dt])
  next
    case False
    then have "fit (dt_max dt - extra) (dt_entries dt) = dt_entries dt"
      using 1(2) by (cases "dt_entries dt = []") (auto intro: fit_all)
    moreover have "evict_loop extra dt = dt"
      using False by (subst evict_loop.simps) auto
    ultimately show ?thesis using 1(2) [symmetric] by simp
  qed
qed

lemma setCeiling_entries:
  "table_ok dt \<Longrightarrow> dt_entries (setCeiling n dt) = fit (min n (dt_max dt)) (dt_entries dt) \<and>
     dt_max (setCeiling n dt) = min n (dt_max dt) \<and> dt_ceiling (setCeiling n dt) = n"
  by (auto simp: setCeiling_def Let_def table_ok_def evictToFit_def evict_loop_fit fit_all)

lemma setMax_entries:
  "table_ok dt \<Longrightarrow> setMax n dt = (None, dt') \<Longrightarrow>
     n \<le> dt_ceiling dt \<and> dt_entries dt' = fit n (dt_entries dt) \<and> dt_max dt' = n \<and>
     dt_ceiling dt' = dt_ceiling dt"
  by (auto simp: setMax_def table_ok_def evictToFit_def evict_loop_fit split: if_splits)

lemma dt_add_entries:
  "table_ok dt \<Longrightarrow> dt_entries (dt_add f dt) = fit (dt_max dt) (f # dt_entries dt) \<and>
     dt_max (dt_add f dt) = dt_max dt \<and> dt_ceiling (dt_add f dt) = dt_ceiling dt"
  by (auto simp: dt_add_def Let_def table_ok_def evict_loop_fit)

lemma fit_not_sensitive:
  "\<forall>e\<in>set es. \<not> Sensitive e \<Longrightarrow> \<forall>e\<in>set (fit m es). \<not> Sensitive e"
  using set_mono_prefix [OF fit_prefix] by blast

lemma setCeiling_ok: "table_ok dt \<Longrightarrow> 0 \<le> n \<Longrightarrow> table_ok (setCeiling n dt)"
  using fit_size [of n "dt_entries dt"] fit_not_sensitive [of "dt_entries dt" n]
  by (auto simp: setCeiling_def Let_def table_ok_def evictToFit_def evict_loop_fit)

lemma setMax_ok: "table_ok dt \<Longrightarrow> 0 \<le> n \<Longrightarrow> table_ok (snd (setMax n dt))"
  using fit_size [of n "dt_entries dt"] fit_not_sensitive [of "dt_entries dt" n]
  by (auto simp: setMax_def table_ok_def evictToFit_def evict_loop_fit)

lemma setMax_step: "setMax n dt = (r, dt') \<Longrightarrow> table_ok dt \<Longrightarrow> 0 \<le> n \<Longrightarrow>
    table_ok dt' \<and> dt_ceiling dt' = dt_ceiling dt"
proof -
  assume s: "setMax n dt = (r, dt')" "table_ok dt" "0 \<le> n"
  then have "table_ok dt'" using setMax_ok [of dt n] by simp
  moreover have "dt_ceiling dt' = dt_ceiling dt"
  proof (cases r)
    case None
    with s setMax_entries [of dt n] show ?thesis by simp
  next
    case (Some e)
    with s(1) show ?thesis by (simp add: setMax_def split: if_splits)
  qed
  ultimately show ?thesis ..
qed

lemma dt_add_ok: "table_ok dt \<Longrightarrow> \<not> Sensitive f \<Longrightarrow> table_ok (dt_add f dt)"
  using fit_size [of "dt_max dt - entrySize f" "dt_entries dt"]
    fit_not_sensitive [of "dt_entries dt" "dt_max dt - entrySize f"] total_size_nonneg [of "dt_entries dt"]
  by (auto simp: dt_add_def Let_def table_ok_def evict_loop_fit)

lemma newDynamicTable_ok: "table_ok newDynamicTable"
  by (simp add: table_ok_def newDynamicTable_def)

text \<open>Entries are at least 32 octets, so their number is bounded with the size.\<close>

lemma table_ok_length: "table_ok dt \<Longrightarrow> 32 * int (length (dt_entries dt)) \<le> dt_max dt"
  using total_size_length [of "dt_entries dt"] by (simp add: table_ok_def)

subsection \<open>The codec\<close>

lemma decodeLiteral_Sensitive: "decodeLiteral c src n = Inr (f, k) \<Longrightarrow> \<not> Sensitive f"
  by (auto simp: decodeLiteral_def and_then_Inr_iff)

lemma Decode_step_ok: "table_ok (dyn c) \<Longrightarrow> Decode_step c saw src = (r, c') \<Longrightarrow>
    table_ok (dyn c') \<and> dt_ceiling (dyn c') = dt_ceiling (dyn c)"
  by (auto simp: Decode_step_def Let_def dt_add_ok dt_add_entries
      split: if_splits sum.splits prod.splits option.splits dest: decodeLiteral_Sensitive
      dest!: setMax_step)

lemma Decode_loop_ok:
  "table_ok (dyn c) \<Longrightarrow> Decode_loop block pos saw fs c = (r, c') \<Longrightarrow>
     table_ok (dyn c') \<and> dt_ceiling (dyn c') = dt_ceiling (dyn c)"
proof (induction block pos saw fs c rule: Decode_loop.induct)
  case (1 block pos saw fs c)
  show ?case
  proof (cases "pos < length block")
    case True
    obtain x c1 where x: "Decode_step c saw (drop pos block) = (x, c1)" by fastforce
    note ok = Decode_step_ok [OF "1.prems"(1) x]
    show ?thesis
    proof (cases x)
      case (Inl e)
      with True x ok "1.prems" show ?thesis by (simp add: Decode_loop.simps [of block pos])
    next
      case (Inr y)
      obtain n g where y: "y = (n, g)" by fastforce
      show ?thesis
      proof (cases g)
        case None
        with True x y Inr "1.prems"(2) have "Decode_loop block (pos + n) saw fs c1 = (r, c')"
          by (simp add: Decode_loop.simps [of block pos])
        with "1.IH"(1) [OF True x [symmetric] Inr y [symmetric] None] ok show ?thesis by auto
      next
        case (Some f)
        with True x y Inr "1.prems"(2) have "Decode_loop block (pos + n) True (fs @ [f]) c1 = (r, c')"
          by (simp add: Decode_loop.simps [of block pos])
        with "1.IH"(2) [OF True x [symmetric] Inr y [symmetric] Some] ok show ?thesis by auto
      qed
    qed
  next
    case False
    with "1.prems" show ?thesis by (simp add: Decode_loop.simps [of block pos])
  qed
qed

lemma Encode_loop_ok:
  "table_ok (dyn c) \<Longrightarrow> Encode_loop dst fs c = (bs, c') \<Longrightarrow>
     table_ok (dyn c') \<and> dt_max (dyn c') = dt_max (dyn c) \<and> dt_ceiling (dyn c') = dt_ceiling (dyn c)"
  by (induction dst fs c arbitrary: bs c' rule: Encode_loop.induct)
    (auto simp: dt_add_ok dt_add_entries split: if_splits option.splits)

end
