(* ===== verification/HpackSync.thy ===== *)
theory HpackSync
  imports HpackTable
begin

text \<open>
  Encoder and decoder in step: the decoder's table has at least the encoder's maximum, and the
  encoder's entries are the newest of the decoder's. A header block keeps them so and is decoded
  to the fields that were encoded, and so does a smaller maximum at the encoder alone, since the
  encoder then only forgets old entries.
\<close>

subsection \<open>The address space\<close>

definition address :: "codec \<Rightarrow> field list" where
  "address c = staticTable @ dt_entries (dyn c)"

lemma length_staticTable [simp]: "length staticTable = 61"
  by (simp add: staticTable_def)

lemma staticTable_not_sensitive: "\<forall>e\<in>set staticTable. \<not> Sensitive e"
  by (simp add: staticTable_def sf_def)

lemma lookupIndexed_address:
  assumes "k < length (address d)" "unat idx = Suc k"
  shows "lookupIndexed d idx = Inr (address d ! k)"
proof -
  have "idx \<noteq> 0" using assms(2) by auto
  moreover have "idx \<le> word_of_nat (length staticTable) \<longleftrightarrow> k < 61"
    using assms(2) by (simp add: word_le_nat_alt Suc_le_eq)
  moreover have "dt_get (int (unat idx) - int (length staticTable)) (dyn d) = Some (dt_entries (dyn d) ! (k - 61))"
    if "61 \<le> k"
    using that assms by (simp add: dt_get_def address_def nat_diff_distrib)
  ultimately show ?thesis
    using assms by (simp add: lookupIndexed_def address_def nth_append)
qed

lemma findExact_loop_Some:
  "findExact_loop name val i fs = Some w \<Longrightarrow>
     \<exists>k<length fs. w = word_of_nat (i + k + 1) \<and> Name (fs ! k) = name \<and> Value (fs ! k) = val"
proof (induction name val i fs rule: findExact_loop.induct)
  case (2 name val i f fs)
  show ?case
  proof (cases "Name f = name \<and> Value f = val")
    case False
    with 2 obtain k where "k < length fs" "w = word_of_nat (i + 1 + k + 1)" "Name (fs ! k) = name"
      "Value (fs ! k) = val" by auto
    then show ?thesis by (intro exI [of _ "Suc k"]) (simp add: add.commute add.left_commute)
  qed (use 2 in auto)
qed simp

lemma find_loop_exact:
  "find_loop name val no i es = (off, True) \<Longrightarrow>
     \<exists>k<length es. off = i + k + 1 \<and> Name (es ! k) = name \<and> Value (es ! k) = val"
proof (induction name val no i es rule: find_loop.induct)
  case (2 name val no i e es)
  then consider "Name e = name" "Value e = val" "off = i + 1"
    | k where "k < length es" "off = i + 1 + k + 1" "Name (es ! k) = name" "Value (es ! k) = val"
    by (auto split: if_splits)
  then show ?case
  proof cases
    case 2
    then show ?thesis by (intro exI [of _ "Suc k"]) simp
  qed auto
qed simp

lemma findName_loop_pos:
  "findName_loop name i es = off \<Longrightarrow> 0 < off \<Longrightarrow> \<exists>k<length es. off = i + k + 1 \<and> Name (es ! k) = name"
proof (induction name i es rule: findName_loop.induct)
  case (2 name i e es)
  show ?case
  proof (cases "Name e = name")
    case False
    with 2 obtain k where "k < length es" "off = i + 1 + k + 1" "Name (es ! k) = name" by auto
    then show ?thesis by (intro exI [of _ "Suc k"]) simp
  qed (use 2 in auto)
qed simp

lemma static_index_loop_Some:
  "static_index_loop i fs m name = Some n \<Longrightarrow>
     m name = Some n \<or> (\<exists>k<length fs. n = i + k + 1 \<and> Name (fs ! k) = name)"
proof (induction i fs m rule: static_index_loop.induct)
  case (2 i f fs m)
  then consider "m name = Some n" | "Name f = name" "n = i + 1"
    | k where "k < length fs" "n = i + 1 + k + 1" "Name (fs ! k) = name"
    by (auto split: if_splits)
  then show ?case
  proof cases
    case 3
    then show ?thesis by (intro disjI2 exI [of _ "Suc k"]) simp
  qed auto
qed simp

text \<open>What the encoder finds is at that place in the address space, whose size the table bounds.\<close>

definition small_table :: "codec \<Rightarrow> bool" where
  "small_table c \<longleftrightarrow> table_ok (dyn c) \<and> dt_max (dyn c) \<le> 2 ^ 32"

lemma small_table_length: "small_table c \<Longrightarrow> length (address c) \<le> 2 ^ 28"
  using table_ok_length [of "dyn c"] by (simp add: small_table_def address_def)

lemma index_word:
  assumes "small_table c" "k < length (address c)"
  shows "unat (word_of_nat (k + 1) :: u64) = Suc k" "k + 1 \<le> 2 ^ 32"
proof -
  have k: "k + 1 \<le> 2 ^ 28" using small_table_length [OF assms(1)] assms(2) by linarith
  have "unat (word_of_nat (k + 1) :: u64) = k + 1"
    by (rule unat_word_of_nat_small) (use k in simp)
  then show "unat (word_of_nat (k + 1) :: u64) = Suc k" by simp
  show "k + 1 \<le> 2 ^ 32" using k by simp
qed

definition found :: "codec \<Rightarrow> u64 \<Rightarrow> (field \<Rightarrow> bool) \<Rightarrow> bool" where
  "found c idx P \<longleftrightarrow> (\<exists>k<length (address c). idx = word_of_nat (k + 1) \<and> P (address c ! k))"

lemma findExact_found:
  assumes "findExact c name val = Some idx"
  shows "found c idx (\<lambda>e. Name e = name \<and> Value e = val)"
proof (cases "findExact_loop name val 0 staticTable")
  case (Some w)
  from findExact_loop_Some [OF this] obtain k where "k < 61" "w = word_of_nat (k + 1)"
    "Name (staticTable ! k) = name" "Value (staticTable ! k) = val" by auto
  with Some assms show ?thesis
    by (auto simp: found_def findExact_def address_def nth_append intro!: exI [of _ k])
next
  case None
  with assms obtain off where off: "dt_find name val (dyn c) = (off, True)" "idx = word_of_nat (61 + off)"
    by (auto simp: findExact_def split: prod.splits if_splits)
  from find_loop_exact [OF off(1) [unfolded dt_find_def]] obtain k where
    "k < length (dt_entries (dyn c))" "off = k + 1"
    "Name (dt_entries (dyn c) ! k) = name" "Value (dt_entries (dyn c) ! k) = val" by auto
  with off(2) show ?thesis
    unfolding found_def address_def by (intro exI [of _ "61 + k"]) (simp add: nth_append ac_simps)
qed

lemma findName_found:
  assumes "findName c name = Some idx"
  shows "found c idx (\<lambda>e. Name e = name)"
proof (cases "staticNameIndex name")
  case (Some n)
  from static_index_loop_Some [OF this [unfolded staticNameIndex_def]] obtain k where
    "k < 61" "n = k + 1" "Name (staticTable ! k) = name" by auto
  with Some assms show ?thesis
    by (auto simp: found_def findName_def address_def nth_append intro!: exI [of _ k])
next
  case None
  with assms have off: "0 < dt_findName name (dyn c)" "idx = word_of_nat (61 + dt_findName name (dyn c))"
    by (auto simp: findName_def Let_def split: if_splits)
  from findName_loop_pos [OF refl off(1) [unfolded dt_findName_def]] obtain k where
    "k < length (dt_entries (dyn c))" "dt_findName name (dyn c) = k + 1"
    "Name (dt_entries (dyn c) ! k) = name" by (auto simp: dt_findName_def)
  with off(2) show ?thesis
    unfolding found_def address_def by (intro exI [of _ "61 + k"]) (simp add: nth_append ac_simps)
qed

subsection \<open>In step\<close>

definition in_step :: "codec \<Rightarrow> codec \<Rightarrow> bool" where
  "in_step c d \<longleftrightarrow> small_table c \<and> small_table d \<and> dt_max (dyn c) \<le> dt_max (dyn d) \<and>
     dt_entries (dyn c) = fit (dt_max (dyn c)) (dt_entries (dyn d))"

lemma in_step_prefix: "in_step c d \<Longrightarrow> prefix (address c) (address d)"
  using fit_prefix by (simp add: in_step_def address_def)

lemma in_step_found:
  assumes "in_step c d" "found c idx P"
  shows "\<exists>e. lookupIndexed d idx = Inr e \<and> P e \<and> \<not> Sensitive e \<and> idx \<noteq> 0 \<and> unat idx \<le> 2 ^ 32"
proof -
  obtain k where k: "k < length (address c)" "idx = word_of_nat (k + 1)" "P (address c ! k)"
    using assms(2) by (auto simp: found_def)
  have small: "small_table c" using assms(1) by (simp add: in_step_def)
  have idx: "unat idx = Suc k" "Suc k \<le> 2 ^ 32"
    using index_word [OF small k(1)] k(2) by simp_all
  from in_step_prefix [OF assms(1)] obtain r where r: "address d = address c @ r" by (auto simp: prefix_def)
  have "lookupIndexed d idx = Inr (address c ! k)"
    using lookupIndexed_address [OF _ idx(1), of d] k(1) by (simp add: r nth_append)
  moreover have "\<not> Sensitive (address c ! k)"
    using nth_mem [OF k(1)] small staticTable_not_sensitive
    by (auto simp: address_def small_table_def table_ok_def)
  moreover have "idx \<noteq> 0" using idx(1) by auto
  ultimately show ?thesis using k(3) idx by auto
qed

lemma in_step_add:
  "in_step c d \<Longrightarrow> \<not> Sensitive f \<Longrightarrow>
     in_step (c\<lparr>dyn := dt_add f (dyn c)\<rparr>) (d\<lparr>dyn := dt_add f (dyn d)\<rparr>)"
  using entrySize_pos [of f]
  by (auto simp: in_step_def small_table_def dt_add_ok dt_add_entries
      fit_fit [of "dt_max (dyn c) - entrySize f" "dt_max (dyn c)"]
      fit_fit [of "dt_max (dyn c) - entrySize f" "dt_max (dyn d) - entrySize f"])

lemma in_step_SetMax:
  "in_step c d \<Longrightarrow> 0 \<le> n \<Longrightarrow> in_step (SetMaxDynamicTableSize n c) d"
  using setCeiling_ok [of "dyn c" n] setCeiling_entries [of "dyn c" n]
  by (auto simp: in_step_def small_table_def SetMaxDynamicTableSize_def fit_fit)

lemma in_step_New: "in_step NewCodec NewCodec"
  using newDynamicTable_ok
  by (simp add: in_step_def small_table_def NewCodec_def) (simp add: newDynamicTable_def)

subsection \<open>One field\<close>

definition field_fits :: "field \<Rightarrow> bool" where
  "field_fits f \<longleftrightarrow> string_fits (Name f) \<and> string_fits (Value f)"

lemma encodeLiteral_dst: "encodeLiteral c dst f flag n = dst @ encodeLiteral c [] f flag n"
  by (simp add: encodeLiteral_def Let_def appendString_dst [of "_ @ _"]
      appendString_dst [of "appendInt _ _ _ _"] appendInt_dst [of dst] appendString_dst [of "appendString _ _"]
      split: option.split)

lemma decodeLiteral_encodeLiteral:
  assumes "in_step c d" "field_fits f" "prefix_ok flag n"
  shows "decodeLiteral d (encodeLiteral c [] f flag n @ rest) n =
           Inr (f\<lparr>Sensitive := False\<rparr>, length (encodeLiteral c [] f flag n))"
proof -
  have val: "decodeString (appendString [] (Value f) @ rest) =
      Inr (Value f, length (appendString [] (Value f)))"
    using assms(2) by (intro decodeString_appendString) (simp add: field_fits_def)
  show ?thesis
  proof (cases "findName c (Name f)")
    case (Some idx)
    from in_step_found [OF assms(1) findName_found [OF Some]] obtain e where
      e: "lookupIndexed d idx = Inr e" "Name e = Name f" "idx \<noteq> 0" "unat idx \<le> 2 ^ 32" by blast
    have lit: "encodeLiteral c [] f flag n = appendInt [] flag n idx @ appendString [] (Value f)"
      using Some by (simp add: encodeLiteral_def appendString_dst [of "appendInt _ _ _ _"])
    have "decodeInt (encodeLiteral c [] f flag n @ rest) n = Inr (idx, length (appendInt [] flag n idx))"
      using decodeInt_appendInt [OF assms(3) e(4)] by (simp add: lit)
    with e val show ?thesis
      by (simp add: decodeLiteral_def) (simp add: lit)
  next
    case None
    have lit: "encodeLiteral c [] f flag n =
        appendInt [] flag n 0 @ appendString [] (Name f) @ appendString [] (Value f)"
      using None by (simp add: encodeLiteral_def appendString_dst [of "appendInt _ _ _ _"]
          appendString_dst [of "_ @ _"])
    have "decodeInt (encodeLiteral c [] f flag n @ rest) n = Inr (0, length (appendInt [] flag n 0))"
      using decodeInt_appendInt [OF assms(3), of 0] by (simp add: lit)
    moreover have "decodeString (appendString [] (Name f) @ appendString [] (Value f) @ rest) =
        Inr (Name f, length (appendString [] (Name f)))"
      using assms(2) by (intro decodeString_appendString) (simp add: field_fits_def)
    ultimately show ?thesis
      using val by (simp add: decodeLiteral_def) (simp add: lit)
  qed
qed

lemma encodeLiteral_nth0:
  "prefix_ok flag n \<Longrightarrow> take_bit n m = 0 \<Longrightarrow> (encodeLiteral c [] f flag n @ rest) ! 0 AND m = flag AND m"
  using appendInt_nth0 [of flag n m]
  by (simp add: encodeLiteral_def Let_def appendString_dst [of "appendInt _ _ _ _"]
      appendString_dst [of "_ @ _"] split: option.split)

text \<open>The representation the encoder chooses for a field, and its effect on the table.\<close>

definition encode_field :: "codec \<Rightarrow> field \<Rightarrow> byte list \<times> codec" where
  "encode_field c f =
     (if Sensitive f then (encodeLiteral c [] f 0x10 4, c)
      else
        (case findExact c (Name f) (Value f) of
           Some idx \<Rightarrow> (appendInt [] 0x80 7 idx, c)
         | None \<Rightarrow> (encodeLiteral c [] f 0x40 6, c\<lparr>dyn := dt_add f (dyn c)\<rparr>)))"

lemma Encode_loop_Cons:
  "Encode_loop dst (f # fs) c =
     Encode_loop (dst @ fst (encode_field c f)) fs (snd (encode_field c f))"
  by (simp add: encode_field_def encodeLiteral_dst [of _ dst] appendInt_dst [of dst] split: option.split)

lemma Encode_loop_dst:
  "Encode_loop dst fs c = (dst @ fst (Encode_loop [] fs c), snd (Encode_loop [] fs c))"
proof (induction fs arbitrary: dst c)
  case (Cons f fs)
  show ?case
    unfolding Encode_loop_Cons Cons [of "dst @ _"] Cons [of "[] @ _"] by simp
qed simp

lemma Decode_step_field:
  assumes "in_step c d" "field_fits f"
  shows "\<exists>d'. Decode_step d saw (fst (encode_field c f) @ rest) =
             (Inr (length (fst (encode_field c f)), Some f), d') \<and>
           in_step (snd (encode_field c f)) d'"
proof (cases "Sensitive f")
  case True
  let ?lit = "encodeLiteral c [] f 0x10 4"
  have bits: "(?lit @ rest) ! 0 AND 0x80 = 0" "(?lit @ rest) ! 0 AND 0xc0 = 0"
    "(?lit @ rest) ! 0 AND 0xe0 = 0" "(?lit @ rest) ! 0 AND 0xf0 = 0x10"
    using encodeLiteral_nth0 [of "0x10" 4 _ c f rest] by simp_all
  from True have "f\<lparr>Sensitive := False\<rparr>\<lparr>Sensitive := True\<rparr> = f" by simp
  with True bits decodeLiteral_encodeLiteral [OF assms prefix_ok_flags(4)] assms(1) show ?thesis
    by (simp add: encode_field_def Decode_step_def Let_def)
next
  case False
  then have plain: "f\<lparr>Sensitive := False\<rparr> = f" by simp
  show ?thesis
  proof (cases "findExact c (Name f) (Value f)")
    case (Some idx)
    from in_step_found [OF assms(1) findExact_found [OF Some]] obtain e where
      e: "lookupIndexed d idx = Inr e" "Name e = Name f" "Value e = Value f" "\<not> Sensitive e"
        "unat idx \<le> 2 ^ 32" by blast
    have "e = f" using e False by (intro field.equality) simp_all
    moreover have "(appendInt [] 0x80 7 idx @ rest) ! 0 AND 0x80 \<noteq> 0"
      using appendInt_nth0 [of "0x80" 7 "0x80" idx rest] by simp
    ultimately show ?thesis
      using Some False e decodeInt_appendInt [OF prefix_ok_flags(1) e(5), of rest] assms(1)
      by (simp add: encode_field_def Decode_step_def Let_def)
  next
    case None
    let ?lit = "encodeLiteral c [] f 0x40 6"
    have bits: "(?lit @ rest) ! 0 AND 0x80 = 0" "(?lit @ rest) ! 0 AND 0xc0 = 0x40"
      using encodeLiteral_nth0 [of "0x40" 6 _ c f rest] by simp_all
    with None False decodeLiteral_encodeLiteral [OF assms prefix_ok_flags(3), unfolded plain]
      in_step_add [OF assms(1) False] show ?thesis
      by (simp add: encode_field_def Decode_step_def Let_def)
  qed
qed

interpretation hp: wire_source
    "\<lambda>c f. fst (encode_field c f)"
    "\<lambda>c f. if field_fits f then Some (snd (encode_field c f)) else None"
    "\<lambda>(d, bs). case Decode_step d True bs of
       (Inr (n, Some f), d') \<Rightarrow> (Inr f, (d', drop n bs))
     | (Inr (n, None), d') \<Rightarrow> (Inl None, (d', drop n bs))
     | (Inl e, d') \<Rightarrow> (Inl (Some e), (d', bs))"
    "\<lambda>(d, bs) c bs'. in_step c d \<and> bs = bs'"
proof (unfold_locales, goal_cases)
  case (1 s c f rest c')
  then obtain d where s: "s = (d, fst (encode_field c f) @ rest)" "in_step c d"
    "field_fits f" "c' = snd (encode_field c f)" by (cases s) (auto split: if_splits)
  from Decode_step_field [OF s(2,3), of True rest] s(1,4) show ?case by auto
qed

subsection \<open>A header block\<close>

lemma Decode_Encode_loop:
  assumes "in_step c d" "\<forall>f\<in>set fs. field_fits f" "drop pos block = fst (Encode_loop [] fs c)"
    and "pos \<le> length block"
  shows "\<exists>d'. Decode_loop block pos saw acc d = (Inr (acc @ fs), d') \<and>
           in_step (snd (Encode_loop [] fs c)) d'"
  using assms
proof (induction fs arbitrary: c d pos saw acc)
  case Nil
  then have "\<not> pos < length block" by simp
  with Nil show ?case by (simp add: Decode_loop.simps [of block "length block"])
next
  case (Cons f fs)
  let ?rep = "fst (encode_field c f)" and ?c = "snd (encode_field c f)"
  have enc: "Encode_loop [] (f # fs) c =
      (?rep @ fst (Encode_loop [] fs ?c), snd (Encode_loop [] fs ?c))"
    unfolding Encode_loop_Cons append_Nil by (rule Encode_loop_dst)
  obtain d1 where d1: "Decode_step d saw (?rep @ fst (Encode_loop [] fs ?c)) =
      (Inr (length ?rep, Some f), d1)" "in_step ?c d1"
    using Decode_step_field [of c d f saw "fst (Encode_loop [] fs ?c)"] Cons.prems(1,2) by auto
  have pos: "0 < length ?rep" using Decode_step_consumed [OF d1(1)] .
  have blk: "drop pos block = ?rep @ fst (Encode_loop [] fs ?c)"
    using Cons.prems(3) enc by simp
  then have len: "length block - pos = length ?rep + length (fst (Encode_loop [] fs ?c))"
    by (metis length_append length_drop)
  have "drop (length ?rep) (drop pos block) = fst (Encode_loop [] fs ?c)"
    unfolding blk by simp
  then have "drop (pos + length ?rep) block = fst (Encode_loop [] fs ?c)"
    by (simp add: add.commute)
  moreover have "pos + length ?rep \<le> length block"
    using len Cons.prems(4) by linarith
  ultimately obtain d' where "Decode_loop block (pos + length ?rep) True (acc @ [f]) d1 = (Inr (acc @ f # fs), d')"
    "in_step (snd (Encode_loop [] fs ?c)) d'"
    using Cons.IH [OF d1(2), of "pos + length ?rep" True "acc @ [f]"] Cons.prems(2) by auto
  moreover have "pos < length block" using len pos by linarith
  ultimately show ?case
    using d1(1) enc by (simp add: Decode_loop.simps [of block pos] blk)
qed

lemma Codec_Decode_Encode:
  assumes "in_step c d" "\<forall>f\<in>set fs. field_fits f" "Codec_Encode c fs = (block, c')"
  shows "\<exists>d'. Codec_Decode d block = (Inr fs, d') \<and> in_step c' d'"
  using Decode_Encode_loop [OF assms(1,2), of 0 block False "[]"] assms(3)
  by (simp add: Codec_Encode_def Codec_Decode_def)

end
