(* ===== verification/HpackProps.thy ===== *)
theory HpackProps
  imports HpackSync
begin

text \<open>
  The properties of the header codec: a connection's worth of header blocks decodes to the fields
  that were encoded, the dynamic table keeps its accounting whatever arrives, it is exactly the
  newest entries that fit, sensitive fields stay out of it, and what integers and strings decode
  to is bounded.
\<close>

text \<open>What happens to an encoder over the life of a connection: blocks, and the peer's setting.\<close>

datatype encoder_op = Block "field list" | SetTable int

fun session :: "encoder_op list \<Rightarrow> codec \<Rightarrow> codec \<Rightarrow> (hpack_error + field list) list" where
  "session [] c d = []"
| "session (SetTable n # ops) c d = session ops (SetMaxDynamicTableSize n c) d"
| "session (Block fs # ops) c d =
     (case Codec_Encode c fs of
        (block, c') \<Rightarrow>
          (case Codec_Decode d block of (r, d') \<Rightarrow> r # session ops c' d'))"

fun blocks :: "encoder_op list \<Rightarrow> field list list" where
  "blocks [] = []"
| "blocks (SetTable n # ops) = blocks ops"
| "blocks (Block fs # ops) = fs # blocks ops"

fun encodable :: "encoder_op \<Rightarrow> bool" where
  "encodable (SetTable n) \<longleftrightarrow> 0 \<le> n"
| "encodable (Block fs) \<longleftrightarrow> list_all field_fits fs"

lemma session_in_step:
  "in_step c d \<Longrightarrow> list_all encodable ops \<Longrightarrow> session ops c d = map Inr (blocks ops)"
proof (induction ops c d rule: session.induct)
  case (3 fs ops c d)
  obtain block c' where e: "Codec_Encode c fs = (block, c')" by fastforce
  from Codec_Decode_Encode [OF 3(2) _ e] 3(3) obtain d' where
    d: "Codec_Decode d block = (Inr fs, d')" "in_step c' d'" by (auto simp: list_all_iff)
  with 3(1) [OF e [symmetric] d(1) [symmetric]] 3(3) e show ?case by simp
qed (auto simp: in_step_SetMax)

text \<open>Everything that can happen to a codec: encoding, decoding any octets, a new maximum.\<close>

datatype codec_op = DoEncode "field list" | DoDecode "byte list" | DoSetMax int

fun codec_step :: "codec_op \<Rightarrow> codec \<Rightarrow> codec" where
  "codec_step (DoEncode fs) c = snd (Codec_Encode c fs)"
| "codec_step (DoDecode block) c = snd (Codec_Decode c block)"
| "codec_step (DoSetMax n) c = SetMaxDynamicTableSize n c"

definition op_ok :: "codec_op \<Rightarrow> bool" where
  "op_ok op = (case op of DoSetMax n \<Rightarrow> 0 \<le> n | _ \<Rightarrow> True)"

lemma codec_step_ok: "table_ok (dyn c) \<Longrightarrow> op_ok op \<Longrightarrow> table_ok (dyn (codec_step op c))"
proof (cases op)
  case (DoEncode fs)
  then show "table_ok (dyn c) \<Longrightarrow> ?thesis"
    using Encode_loop_ok [of c "[]" fs, OF _ surjective_pairing] by (simp add: Codec_Encode_def)
next
  case (DoDecode block)
  then show "table_ok (dyn c) \<Longrightarrow> ?thesis"
    using Decode_loop_ok [of c block 0 False "[]", OF _ surjective_pairing] by (simp add: Codec_Decode_def)
next
  case (DoSetMax n)
  then show "table_ok (dyn c) \<Longrightarrow> op_ok op \<Longrightarrow> ?thesis"
    by (simp add: op_ok_def SetMaxDynamicTableSize_def setCeiling_ok)
qed

lemma codec_run_ok:
  "table_ok (dyn c) \<Longrightarrow> list_all op_ok ops \<Longrightarrow> table_ok (dyn (fold codec_step ops c))"
  by (induction ops arbitrary: c) (auto simp: codec_step_ok)

text \<open>No block begins with a table size update, the only representation whose first octet has
  these bits.\<close>

lemma encode_field_no_update:
  "fst (encode_field c f) \<noteq> [] \<and> (fst (encode_field c f) @ rest) ! 0 AND 0xe0 \<noteq> 0x20"
proof -
  have ne: "encodeLiteral c [] f flag n \<noteq> []" for flag n
    using length_appendInt_pos by (auto simp: encodeLiteral_def Let_def appendString_dst [of "_ @ _"]
        appendString_dst [of "appendInt _ _ _ _"] appendString_dst [of "appendString _ _"] split: option.split)
  have no: "b AND 0xe0 \<noteq> 0x20" if "b AND m \<noteq> 0" "m = 0x40 \<or> m = 0x80" for b m :: byte
  proof
    assume "b AND 0xe0 = 0x20"
    then have "b AND (0xe0 AND m) = 0x20 AND m" by (simp only: flip: and.assoc)
    with that show False by auto
  qed
  show ?thesis
  proof (cases "Sensitive f")
    case True
    with ne encodeLiteral_nth0 [of "0x10" 4 "0xe0" c f rest] show ?thesis
      by (simp add: encode_field_def)
  next
    case False
    show ?thesis
    proof (cases "findExact c (Name f) (Value f)")
      case None
      with False ne no [of _ "0x40"] encodeLiteral_nth0 [of "0x40" 6 "0x40" c f rest] show ?thesis
        by (simp add: encode_field_def)
    next
      case (Some idx)
      with False length_appendInt_pos [of "0x80" 7 idx] no [of _ "0x80"]
        appendInt_nth0 [of "0x80" 7 "0x80" idx rest] show ?thesis
        by (simp add: encode_field_def)
    qed
  qed
qed

text \<open>RFC 7541 section 4.4 as a specification: of the entries \<open>es\<close>, newest first, the longest run
  from the front whose sizes add up to at most \<open>m\<close>.\<close>

definition newest_fitting :: "int \<Rightarrow> field list \<Rightarrow> field list \<Rightarrow> bool" where
  "newest_fitting m es r \<longleftrightarrow> prefix r es \<and> total_size r \<le> m \<and>
     (\<forall>xs. prefix xs es \<and> total_size xs \<le> m \<longrightarrow> prefix xs r)"

lemma newest_fitting_fit: "0 \<le> m \<Longrightarrow> newest_fitting m es (fit m es)"
  by (simp add: newest_fitting_def fit_prefix fit_size fit_maximal)

lemma table_ok_max: "table_ok dt \<Longrightarrow> 0 \<le> dt_max dt"
  using total_size_nonneg [of "dt_entries dt"] by (simp add: table_ok_def)

definition secret :: field where
  "secret = \<lparr>Name = ''authorization'', Value = ''x'', Sensitive = True\<rparr>"

definition trace_id :: field where
  "trace_id = sf ''x-trace'' ''1''"

lemma sample_fits: "field_fits secret" "field_fits trace_id"
  by (simp_all add: field_fits_def string_fits_def secret_def trace_id_def sf_def)

subsection \<open>Properties\<close>

text \<open>C9: Header blocks survive the codec for the life of a connection. Starting from new codecs at
  both ends, whatever header lists are encoded (names and values up to 16 MiB) and whatever
  SETTINGS_HEADER_TABLE_SIZE the encoder is given in between, decoding the blocks in order yields
  exactly those lists, the never-index marks included.\<close>

theorem hpack_session_roundtrip:
  assumes "list_all encodable ops"
  shows "session ops NewCodec NewCodec = map Inr (blocks ops)"
  using session_in_step [OF in_step_New assms] .

lemma hpack_session_roundtrip_witness:
  "session [Block [trace_id, secret], SetTable 0, Block [trace_id]] NewCodec NewCodec =
     [Inr [trace_id, secret], Inr [trace_id]]"
  using hpack_session_roundtrip [of "[Block [trace_id, secret], SetTable 0, Block [trace_id]]"]
  by (simp add: sample_fits del: session.simps)

text \<open>The accounting of the dynamic table holds whatever a connection does with a codec, decoding
  arbitrary and malformed octets included: the recorded size is the sum of the entries' sizes,
  it is within the maximum, the maximum is within the limit that was set, no sensitive field is
  in the table, and so there are never more than a 32nd as many entries as octets.\<close>

theorem dynamic_table_accounting:
  assumes "list_all op_ok ops" "dt = dyn (fold codec_step ops NewCodec)"
  shows "dt_size dt = total_size (dt_entries dt) \<and> dt_size dt \<le> dt_max dt \<and>
         dt_max dt \<le> dt_ceiling dt \<and> list_all (\<lambda>e. \<not> Sensitive e) (dt_entries dt) \<and>
         32 * int (length (dt_entries dt)) \<le> dt_max dt"
proof -
  have "table_ok dt"
    using codec_run_ok [OF _ assms(1), of NewCodec] newDynamicTable_ok by (simp add: assms(2) NewCodec_def)
  with table_ok_length show ?thesis by (auto simp: table_ok_def list_all_iff)
qed

lemma dynamic_table_accounting_witness:
  "32 * int (length (dt_entries (dyn (fold codec_step
      [DoEncode [trace_id, secret], DoDecode [0x40], DoSetMax 64] NewCodec)))) \<le>
   dt_max (dyn (fold codec_step [DoEncode [trace_id, secret], DoDecode [0x40], DoSetMax 64] NewCodec))"
proof -
  have "list_all op_ok [DoEncode [trace_id, secret], DoDecode [0x40], DoSetMax 64]"
    by (simp add: op_ok_def)
  from dynamic_table_accounting [OF this refl] show ?thesis by blast
qed

text \<open>C11: The dynamic table refines RFC 7541 section 4: inserting an entry, a table size update and a
  new limit each leave exactly the newest entries whose sizes fit the maximum, and a size update
  succeeds exactly up to the limit.\<close>

theorem dynamic_table_refines_fifo:
  assumes "table_ok dt" "0 \<le> n"
  shows "newest_fitting (dt_max dt) (f # dt_entries dt) (dt_entries (dt_add f dt)) \<and>
         newest_fitting (min n (dt_max dt)) (dt_entries dt) (dt_entries (setCeiling n dt)) \<and>
         (fst (setMax n dt) = None \<longleftrightarrow> n \<le> dt_ceiling dt) \<and>
         (n \<le> dt_ceiling dt \<longrightarrow> newest_fitting n (dt_entries dt) (dt_entries (snd (setMax n dt))))"
proof -
  have "fst (setMax n dt) = None \<longleftrightarrow> n \<le> dt_ceiling dt" by (simp add: setMax_def)
  moreover have "dt_entries (snd (setMax n dt)) = fit n (dt_entries dt)" if "n \<le> dt_ceiling dt"
    using setMax_entries [OF assms(1), of n "snd (setMax n dt)"] that by (simp add: setMax_def)
  moreover have "dt_entries (dt_add f dt) = fit (dt_max dt) (f # dt_entries dt)"
    "dt_entries (setCeiling n dt) = fit (min n (dt_max dt)) (dt_entries dt)"
    using dt_add_entries [OF assms(1)] setCeiling_entries [OF assms(1)] by blast+
  ultimately show ?thesis
    using assms(2) table_ok_max [OF assms(1)] by (simp add: newest_fitting_fit del: fit.simps)
qed

lemma dynamic_table_refines_fifo_witness:
  "newest_fitting 4096 [trace_id] (dt_entries (dt_add trace_id newDynamicTable))"
proof -
  have "dt_max newDynamicTable = 4096" "dt_entries newDynamicTable = []"
    by (simp_all add: newDynamicTable_def)
  with dynamic_table_refines_fifo [OF newDynamicTable_ok, of 0 trace_id] show ?thesis by simp
qed

text \<open>HPACK integers and the strings they prefix: any sequence of strings of at most 16 MiB,
  appended one after the other with or without Huffman coding, is read back exactly; an integer
  up to \<open>2\<^sup>3\<^sup>2\<close> under any prefix is read back whatever follows it.\<close>

theorem hpack_primitives_roundtrip:
  assumes "list_all string_fits ss" "prefix_ok flags n" "unat i \<le> 2 ^ 32"
  shows "decodeInt (appendInt [] flags n i @ rest) n = Inr (i, length (appendInt [] flags n i)) \<and>
         pull (take_with decodeString) (length ss) (concat (map (appendString []) ss) @ rest) = (Inr ss, rest)"
proof -
  let ?ok = "\<lambda>(u :: unit) s. if string_fits s then Some u else None"
  have "feed ?ok () ss = Some () \<and> send (\<lambda>u. appendString []) ?ok () ss = concat (map (appendString []) ss)"
    using assms(1) by (induction ss) auto
  with wire_string.pull_send [of _ "()" ss rest "()"] decodeInt_appendInt [OF assms(2,3)] show ?thesis
    by auto
qed

lemma hpack_primitives_roundtrip_witness:
  "decodeInt (appendInt [] 0x40 6 1337 @ [0xff]) 6 = Inr (1337, length (appendInt [] 0x40 6 1337)) \<and>
   pull (take_with decodeString) (length [''date'', []])
     (concat (map (appendString []) [''date'', []]) @ [0xff]) = (Inr [''date'', []], [0xff])"
  by (rule hpack_primitives_roundtrip) (simp_all add: string_fits_def)

text \<open>What HPACK's primitives accept is bounded, for any input: an integer is at most \<open>2\<^sup>3\<^sup>2\<close> and
  takes at most six octets of the block, and a string takes no more octets than the block has and
  expands to at most 8/5 of them.\<close>

theorem hpack_primitives_bounds:
  "(decodeInt src n = Inr (v, k) \<and> n \<le> 8 \<longrightarrow> unat v \<le> 2 ^ 32 \<and> 1 \<le> k \<and> k \<le> 6 \<and> k \<le> length src) \<and>
   (decodeString src = Inr (s, m) \<longrightarrow> 0 < m \<and> m \<le> length src \<and> 5 * length s \<le> 8 * m)"
  using decodeInt_bound decodeString_bound by blast

lemma hpack_primitives_bounds_witness:
  "unat (1337 :: u64) \<le> 2 ^ 32 \<and> 5 * length ''a'' \<le> 8 * (2 :: nat)"
proof -
  have i: "decodeInt [0x1f, 0x9a, 0x0a] 5 = Inr (1337, 3)" by code_simp
  have s: "decodeString [0x01, 0x61] = Inr (''a'', 2)" by code_simp
  from i hpack_primitives_bounds [of "[0x1f, 0x9a, 0x0a]" 5 1337 3 "[]" 0]
  have "unat (1337 :: u64) \<le> 2 ^ 32" by auto
  moreover from s hpack_primitives_bounds [of "[0x01, 0x61]" 5 0 0 "''a''" 2]
  have "5 * length ''a'' \<le> 8 * (2 :: nat)" by blast
  ultimately show ?thesis ..
qed

text \<open>C12: A sensitive field is sent as a never-indexed literal and leaves no trace in the encoder: its
  representation has the bits 0001, and the dynamic table is unchanged, so no later block depends
  on its value.\<close>

theorem sensitive_fields_never_indexed:
  assumes "Sensitive f" "Codec_Encode c [f] = (block, c')"
  shows "c' = c \<and> block \<noteq> [] \<and> block ! 0 AND 0xf0 = 0x10"
proof -
  have "block = fst (encode_field c f)" "c' = c"
    using assms by (auto simp: Codec_Encode_def encode_field_def)
  then show ?thesis
    using encode_field_no_update [of c f "[]"] assms(1) encodeLiteral_nth0 [of "0x10" 4 "0xf0" c f "[]"]
    by (simp add: encode_field_def)
qed

lemma sensitive_fields_never_indexed_witness:
  "snd (Codec_Encode NewCodec [secret]) = NewCodec"
  using sensitive_fields_never_indexed [OF _ prod.collapse [symmetric], of secret NewCodec]
  by (simp add: secret_def)

text \<open>The encoder never announces a change of its table: whatever maximum it has been given, the
  block it produces next does not begin with a dynamic table size update. RFC 7541 section 4.2
  requires one after a reduction, so a peer that enforces it answers COMPRESSION_ERROR.\<close>

theorem encoder_never_announces_table_size:
  assumes "Codec_Encode (SetMaxDynamicTableSize n c) (f # fs) = (block, c')"
  shows "block \<noteq> [] \<and> block ! 0 AND 0xe0 \<noteq> 0x20"
proof -
  let ?c = "SetMaxDynamicTableSize n c"
  have "block = fst (encode_field ?c f) @ fst (Encode_loop [] fs (snd (encode_field ?c f)))"
    using assms Encode_loop_Cons [of "[]" f fs ?c]
      Encode_loop_dst [of "fst (encode_field ?c f)" fs "snd (encode_field ?c f)"]
    by (simp add: Codec_Encode_def)
  with encode_field_no_update show ?thesis by simp
qed

lemma encoder_never_announces_table_size_witness:
  "fst (Codec_Encode (SetMaxDynamicTableSize 0 NewCodec) [trace_id]) ! 0 AND 0xe0 \<noteq> 0x20"
  using encoder_never_announces_table_size [OF prod.collapse [symmetric], of 0 NewCodec trace_id "[]"] by blast

end
