(* ===== verification/Limits.thy ===== *)
theory Limits
  imports Prelude
begin

text \<open>
  \<^verbatim>\<open>internal/limits\<close>: the bounds the server enforces and the token bucket of bucket.go. A
  \<open>time.Time\<close> is its monotonic reading in nanoseconds and a \<open>time.Duration\<close> the same, both \<open>int\<close>;
  \<open>Time.Sub\<close> saturates at the bounds of an \<open>int64\<close> as documented, and Go's division truncates
  towards zero.
\<close>

subsection \<open>The bounds\<close>

definition lim_MaxFrameSize :: u32 where [simp]: "lim_MaxFrameSize = 0x4000"
definition lim_MaxHeaderBlockSize :: u32 where [simp]: "lim_MaxHeaderBlockSize = 0x20000"
definition lim_MaxContinuationFrames :: int where [simp]: "lim_MaxContinuationFrames = 32"
definition MaxConcurrentStreams :: nat where [simp]: "MaxConcurrentStreams = 100"
definition ReplenishThreshold :: int where [simp]: "ReplenishThreshold = 32767"
definition MaxEncoderTableSize :: u32 where [simp]: "MaxEncoderTableSize = 0x10000"
definition ResetBurst :: int where [simp]: "ResetBurst = 100"
definition ResetRefillPerSecond :: int where [simp]: "ResetRefillPerSecond = 20"

subsection \<open>The bucket\<close>

record bucket =
  burst :: int
  interval :: int
  tokens :: int
  last_refill :: int

definition time_Second :: int where [simp]: "time_Second = 1000000000"

definition max_int64 :: int where [simp]: "max_int64 = 0x7fffffffffffffff"

definition time_Sub :: "int \<Rightarrow> int \<Rightarrow> int" where
  "time_Sub t u = max (- max_int64 - 1) (min max_int64 (t - u))"

text \<open>Division of \<open>int64\<close> in Go.\<close>

definition quot :: "int \<Rightarrow> int \<Rightarrow> int" where
  "quot a b = (if 0 \<le> a then a div b else - (- a div b))"

definition NewBucket :: "int \<Rightarrow> int \<Rightarrow> int \<Rightarrow> bucket" where
  "NewBucket bst refillPerSecond now =
     (let bst = (if bst < 1 then 1 else bst);
          refillPerSecond = (if refillPerSecond < 1 then 1 else refillPerSecond);
          ival = quot time_Second refillPerSecond;
          ival = (if ival < 1 then 1 else ival)
      in \<lparr>burst = bst, interval = ival, tokens = bst, last_refill = now\<rparr>)"

definition NewResetBucket :: "int \<Rightarrow> bucket" where
  "NewResetBucket now = NewBucket ResetBurst ResetRefillPerSecond now"

definition refill :: "int \<Rightarrow> bucket \<Rightarrow> bucket" where
  "refill now b =
     (let earned = quot (time_Sub now (last_refill b)) (interval b) in
      if earned \<le> 0 then b
      else if earned \<ge> burst b - tokens b then b\<lparr>tokens := burst b, last_refill := now\<rparr>
      else b\<lparr>tokens := tokens b + earned,
             last_refill := last_refill b + earned * interval b\<rparr>)"

definition Allow :: "int \<Rightarrow> bucket \<Rightarrow> bool \<times> bucket" where
  "Allow now b =
     (let b = refill now b in
      if tokens b \<le> 0 then (False, b) else (True, b\<lparr>tokens := tokens b - 1\<rparr>))"

definition Tokens :: "int \<Rightarrow> bucket \<Rightarrow> int \<times> bucket" where
  "Tokens now b = (let b = refill now b in (tokens b, b))"

definition Burst :: "bucket \<Rightarrow> int" where
  "Burst b = burst b"

subsection \<open>Well-formed buckets\<close>

definition bucket_ok :: "bucket \<Rightarrow> bool" where
  "bucket_ok b \<longleftrightarrow> 1 \<le> burst b \<and> 1 \<le> interval b \<and> interval b \<le> time_Second \<and>
     0 \<le> tokens b \<and> tokens b \<le> burst b"

lemma NewBucket_ok: "bucket_ok (NewBucket bst rate now)"
proof -
  have "1000000000 div r \<le> 1000000000" if "1 \<le> r" for r :: int
    using that zdiv_mono2 [of 1000000000 1 r] by simp
  then show ?thesis
    by (auto simp: bucket_ok_def NewBucket_def Let_def quot_def)
qed

lemma refill_static [simp]:
  "burst (refill now b) = burst b" "interval (refill now b) = interval b"
  by (simp_all add: refill_def Let_def)

lemma refill_ok: "bucket_ok b \<Longrightarrow> bucket_ok (refill now b)"
  by (auto simp: bucket_ok_def refill_def Let_def)

text \<open>What is earned is no more than the whole intervals that have passed, and time that has not
  earned a token is kept.\<close>

lemma earned_bound:
  assumes "1 \<le> i" "0 < quot (time_Sub t u) i"
  shows "quot (time_Sub t u) i * i \<le> t - u"
proof -
  let ?d = "time_Sub t u"
  have "0 \<le> - ?d div i" if "\<not> 0 \<le> ?d" using that assms(1) by (simp add: pos_imp_zdiv_nonneg_iff)
  then have "0 \<le> ?d" using assms(2) by (cases "0 \<le> ?d") (simp_all add: quot_def)
  then have "quot ?d i * i \<le> ?d" using assms(1) by (simp add: quot_def minus_mod_eq_div_mult [symmetric])
  moreover have "?d \<le> t - u" using \<open>0 \<le> ?d\<close> by (auto simp: time_Sub_def)
  ultimately show ?thesis by simp
qed

text \<open>The account of a bucket at a time: tokens held and the intervals it has credited since \<open>t0\<close>.\<close>

lemma refill_account:
  assumes "bucket_ok b"
  shows "tokens (refill now b) * interval b \<le> tokens b * interval b + (last_refill (refill now b) - last_refill b)"
    and "last_refill b \<le> last_refill (refill now b)"
    and "last_refill (refill now b) \<le> max (last_refill b) now"
proof -
  let ?e = "quot (time_Sub now (last_refill b)) (interval b)"
  have i: "1 \<le> interval b" using assms by (simp add: bucket_ok_def)
  have e: "?e * interval b \<le> now - last_refill b" if "0 < ?e"
    using earned_bound [OF i that] .
  have pos: "0 \<le> ?e * interval b" if "0 < ?e" using that i by simp
  have full: "(burst b - tokens b) * interval b \<le> ?e * interval b" if "burst b - tokens b \<le> ?e"
    using that i by (intro mult_right_mono) simp_all
  show "tokens (refill now b) * interval b \<le>
      tokens b * interval b + (last_refill (refill now b) - last_refill b)"
    "last_refill b \<le> last_refill (refill now b)"
    "last_refill (refill now b) \<le> max (last_refill b) now"
    using e pos full by (auto simp: refill_def Let_def algebra_simps not_le)
qed

subsection \<open>Runs\<close>

text \<open>The number of events permitted in a run of calls, and the bucket after it.\<close>

fun run_bucket :: "int list \<Rightarrow> bucket \<Rightarrow> int \<times> bucket" where
  "run_bucket [] b = (0, b)"
| "run_bucket (t # ts) b =
     (case Allow t b of (ok, b) \<Rightarrow>
        (case run_bucket ts b of (n, b) \<Rightarrow> ((if ok then n + 1 else n), b)))"

lemma Allow_account:
  assumes "bucket_ok b" "Allow t b = (ok, b')"
  shows "bucket_ok b'" "interval b' = interval b" "burst b' = burst b"
    and "((if ok then 1 else 0) + tokens b') * interval b + last_refill b \<le> tokens b * interval b + last_refill b'"
    and "last_refill b' \<le> max (last_refill b) t"
proof -
  let ?b = "refill t b"
  note acc = refill_account [OF assms(1), of t]
  have ok: "bucket_ok ?b" using refill_ok [OF assms(1)] .
  consider "ok" "b' = ?b\<lparr>tokens := tokens ?b - 1\<rparr>" "0 < tokens ?b" | "\<not> ok" "b' = ?b" "tokens ?b = 0"
    using assms(2) ok by (auto simp: Allow_def Let_def bucket_ok_def split: if_splits)
  then show "bucket_ok b'" "interval b' = interval b" "burst b' = burst b"
    and "((if ok then 1 else 0) + tokens b') * interval b + last_refill b \<le> tokens b * interval b + last_refill b'"
    and "last_refill b' \<le> max (last_refill b) t"
    using acc ok by (cases; simp add: bucket_ok_def)+
qed

lemma run_bucket_account:
  assumes "bucket_ok b" "run_bucket ts b = (n, b')" "\<forall>t\<in>set ts. t \<le> T" "last_refill b \<le> T"
  shows "bucket_ok b' \<and> last_refill b' \<le> T \<and> n * interval b + last_refill b \<le> tokens b * interval b + T"
  using assms
proof (induction ts arbitrary: b n)
  case Nil
  then have "0 \<le> tokens b * interval b" by (simp add: bucket_ok_def)
  with Nil show ?case by simp
next
  case (Cons t ts)
  obtain ok b1 where a: "Allow t b = (ok, b1)" by fastforce
  obtain m where m: "run_bucket ts b1 = (m, b')" "n = (if ok then m + 1 else m)"
    using Cons.prems(2) a by (auto split: prod.splits)
  note acc = Allow_account [OF Cons.prems(1) a]
  have "last_refill b1 \<le> T" using acc(5) Cons.prems(3,4) by auto
  from Cons.IH [OF acc(1) m(1) _ this] Cons.prems(3) acc(2)
  have "bucket_ok b'" "last_refill b' \<le> T" "m * interval b + last_refill b1 \<le> tokens b1 * interval b + T"
    by auto
  with acc(4) m(2) show ?case by (auto simp: algebra_simps split: if_splits)
qed

text \<open>A run whose events are an interval apart.\<close>

fun spaced :: "int \<Rightarrow> int \<Rightarrow> int list \<Rightarrow> bool" where
  "spaced i t [] = True"
| "spaced i t (u # us) = (t + i \<le> u \<and> spaced i u us)"

lemma Allow_after_interval:
  assumes "bucket_ok b" "last_refill b + interval b \<le> t"
  shows "fst (Allow t b)"
proof -
  have "interval b \<le> time_Sub t (last_refill b)"
    using assms by (auto simp: time_Sub_def bucket_ok_def)
  then have "1 \<le> quot (time_Sub t (last_refill b)) (interval b)"
    using assms(1) by (simp add: quot_def bucket_ok_def pos_imp_zdiv_pos_iff int_one_le_iff_zero_less)
  then show ?thesis
    using assms(1) by (auto simp: Allow_def refill_def Let_def bucket_ok_def)
qed

lemma run_spaced:
  "bucket_ok b \<Longrightarrow> last_refill b \<le> t \<Longrightarrow> spaced (interval b) t ts \<Longrightarrow> 0 \<le> interval b \<Longrightarrow>
     fst (run_bucket ts b) = int (length ts)"
proof (induction ts arbitrary: b t)
  case (Cons u us)
  obtain ok b1 where a: "Allow u b = (ok, b1)" by fastforce
  note acc = Allow_account [OF Cons.prems(1) a]
  have "ok" using Allow_after_interval [OF Cons.prems(1), of u] Cons.prems(2,3) a by simp
  moreover have "last_refill b1 \<le> u" using acc(5) Cons.prems by auto
  ultimately show ?case
    using Cons.IH [OF acc(1), of u] Cons.prems acc(2) a by (auto split: prod.splits)
qed simp

subsection \<open>Timeouts\<close>

text \<open>\<^verbatim>\<open>internal/limits/timeouts.go\<close>: durations in nanoseconds.\<close>

record timeouts =
  to_TLSHandshake :: int
  to_Preface :: int
  to_Idle :: int
  to_Write :: int
  to_SettingsAck :: int
  to_ShutdownGrace :: int

definition DefaultTimeouts :: timeouts where
  "DefaultTimeouts =
     \<lparr>to_TLSHandshake = 10 * time_Second, to_Preface = 10 * time_Second, to_Idle = 60 * time_Second,
      to_Write = 10 * time_Second, to_SettingsAck = 10 * time_Second, to_ShutdownGrace = 5 * time_Second\<rparr>"

definition withDefaultsFrom :: "timeouts \<Rightarrow> timeouts \<Rightarrow> timeouts" where
  "withDefaultsFrom d t =
     (let t = (if to_TLSHandshake t \<le> 0 then t\<lparr>to_TLSHandshake := to_TLSHandshake d\<rparr> else t);
          t = (if to_Preface t \<le> 0 then t\<lparr>to_Preface := to_Preface d\<rparr> else t);
          t = (if to_Idle t \<le> 0 then t\<lparr>to_Idle := to_Idle d\<rparr> else t);
          t = (if to_Write t \<le> 0 then t\<lparr>to_Write := to_Write d\<rparr> else t);
          t = (if to_SettingsAck t \<le> 0 then t\<lparr>to_SettingsAck := to_SettingsAck d\<rparr> else t);
          t = (if to_ShutdownGrace t \<le> 0 then t\<lparr>to_ShutdownGrace := to_ShutdownGrace d\<rparr> else t)
      in t)"

definition WithDefaults :: "timeouts \<Rightarrow> timeouts" where
  "WithDefaults t = withDefaultsFrom DefaultTimeouts t"

text \<open>No timeout can be switched off, and none that was set is replaced.\<close>

lemma withDefaultsFrom_fields:
  "to_TLSHandshake (withDefaultsFrom d t) = (if to_TLSHandshake t \<le> 0 then to_TLSHandshake d else to_TLSHandshake t)"
  "to_Preface (withDefaultsFrom d t) = (if to_Preface t \<le> 0 then to_Preface d else to_Preface t)"
  "to_Idle (withDefaultsFrom d t) = (if to_Idle t \<le> 0 then to_Idle d else to_Idle t)"
  "to_Write (withDefaultsFrom d t) = (if to_Write t \<le> 0 then to_Write d else to_Write t)"
  "to_SettingsAck (withDefaultsFrom d t) = (if to_SettingsAck t \<le> 0 then to_SettingsAck d else to_SettingsAck t)"
  "to_ShutdownGrace (withDefaultsFrom d t) = (if to_ShutdownGrace t \<le> 0 then to_ShutdownGrace d else to_ShutdownGrace t)"
  by (simp_all add: withDefaultsFrom_def Let_def)

lemma WithDefaults_positive:
  "0 < to_TLSHandshake (WithDefaults t) \<and> 0 < to_Preface (WithDefaults t) \<and> 0 < to_Idle (WithDefaults t) \<and>
   0 < to_Write (WithDefaults t) \<and> 0 < to_SettingsAck (WithDefaults t) \<and> 0 < to_ShutdownGrace (WithDefaults t)"
  by (simp add: WithDefaults_def withDefaultsFrom_fields DefaultTimeouts_def)

lemma WithDefaults_idem: "WithDefaults (WithDefaults t) = WithDefaults t"
  using WithDefaults_positive [of t]
  by (simp add: WithDefaults_def [of "WithDefaults t"] withDefaultsFrom_def)

subsection \<open>Properties\<close>

text \<open>C15: The token bucket bounds the rate of events whatever their times, a clock that steps back
  included: from any state of the bucket, the events it permits by time \<open>T\<close> are at most the
  tokens it holds and one for each whole interval since its last refill, and so never more than
  the burst and one for each interval.\<close>

theorem bucket_rate_bound:
  assumes "bucket_ok b" "run_bucket ts b = (n, b')" "\<forall>t\<in>set ts. t \<le> T" "last_refill b \<le> T"
  shows "n \<le> tokens b + (T - last_refill b) div interval b \<and>
         n \<le> burst b + (T - last_refill b) div interval b"
proof -
  have "(n - tokens b) * interval b \<le> T - last_refill b"
    using run_bucket_account [OF assms] by (simp add: algebra_simps)
  then have "(n - tokens b) * interval b div interval b \<le> (T - last_refill b) div interval b"
    using assms(1) by (intro zdiv_mono1) (simp_all add: bucket_ok_def)
  then have "n - tokens b \<le> (T - last_refill b) div interval b"
    using assms(1) by (simp add: bucket_ok_def)
  then show ?thesis using assms(1) by (simp add: bucket_ok_def)
qed

lemma bucket_rate_bound_witness:
  "fst (run_bucket (replicate 150 7) (NewResetBucket 0)) \<le> 100"
proof -
  have b: "burst (NewResetBucket 0) = 100" "last_refill (NewResetBucket 0) = 0"
    "interval (NewResetBucket 0) = 50000000"
    by (simp_all add: NewResetBucket_def NewBucket_def quot_def)
  have "bucket_ok (NewResetBucket 0)" by (simp add: NewResetBucket_def NewBucket_ok)
  from bucket_rate_bound [OF this prod.collapse [symmetric], of "replicate 150 7" 7] b
  show ?thesis by simp
qed

text \<open>A peer that keeps to the sustained rate is never refused, even with the burst spent: events
  that are each an interval after the one before (the first an interval after the last refill)
  are all permitted.\<close>

theorem bucket_admits_steady_rate:
  assumes "bucket_ok b" "spaced (interval b) (last_refill b) ts"
  shows "fst (run_bucket ts b) = int (length ts)"
  using run_spaced [OF assms(1) order_refl assms(2)] assms(1) by (simp add: bucket_ok_def)

lemma bucket_admits_steady_rate_witness:
  "fst (run_bucket [50000000, 100000000] (NewResetBucket 0)) = 2"
  using bucket_admits_steady_rate [OF NewBucket_ok, of ResetBurst ResetRefillPerSecond 0 "[50000000, 100000000]"]
  by (simp add: NewResetBucket_def [symmetric]) (simp add: NewResetBucket_def NewBucket_def quot_def)

end
