(* ===== verification/Window.thy ===== *)
theory Window
  imports H2
begin

text \<open>
  \<^verbatim>\<open>internal/flow/window.go\<close>: one flow-control window. Its \<open>int64\<close> fields are \<open>int\<close>; the
  invariant \<open>window_ok\<close> bounds them by \<open>2\<^sup>3\<^sup>1\<close> in absolute value and every intermediate sum by
  \<open>2\<^sup>3\<^sup>2\<close>, so no operation leaves 64 bits. The formatted reasons are left out.
\<close>

subsection \<open>The window\<close>

definition InitialWindowSize :: u32 where [simp]: "InitialWindowSize = 0xffff"
definition flow_MaxWindowSize :: int where [simp]: "flow_MaxWindowSize = 0x7fffffff"

record window =
  win_streamID :: u32
  win_initial :: int
  win_n :: int

definition NewConnWindow :: window where
  "NewConnWindow = \<lparr>win_streamID = 0, win_initial = uint InitialWindowSize, win_n = uint InitialWindowSize\<rparr>"

definition NewStreamWindow :: "u32 \<Rightarrow> u32 \<Rightarrow> error + window" where
  "NewStreamWindow sid init =
     (if sid = 0 then Inl Panic
      else if uint init > flow_MaxWindowSize then Inl Panic
      else Inr \<lparr>win_streamID = sid, win_initial = uint init, win_n = uint init\<rparr>)"

definition Window_Available :: "window \<Rightarrow> int" where
  "Window_Available w = win_n w"

text \<open>The scope of an error is that of the window.\<close>

definition Window_errorf :: "window \<Rightarrow> errcode \<Rightarrow> error" where
  "Window_errorf w code = (if win_streamID w = 0 then ConnError code else StreamError (win_streamID w) code)"

definition Consume :: "u32 \<Rightarrow> window \<Rightarrow> error option \<times> window" where
  "Consume n w =
     (if n = 0 then (None, w)
      else if uint n > win_n w then (Some (Window_errorf w FlowControlError), w)
      else (None, w\<lparr>win_n := win_n w - uint n\<rparr>))"

definition Increase :: "u32 \<Rightarrow> window \<Rightarrow> error option \<times> window" where
  "Increase n w =
     (if win_n w + uint n > flow_MaxWindowSize then (Some (Window_errorf w FlowControlError), w)
      else (None, w\<lparr>win_n := win_n w + uint n\<rparr>))"

definition Window_SetInitialSize :: "u32 \<Rightarrow> window \<Rightarrow> error option \<times> window" where
  "Window_SetInitialSize n w =
     (if win_streamID w = 0 then (Some (ConnError InternalError), w)
      else
        let nxt = win_n w + (uint n - win_initial w) in
        if nxt > flow_MaxWindowSize then (Some (ConnError FlowControlError), w)
        else (None, w\<lparr>win_initial := uint n, win_n := nxt\<rparr>))"

subsection \<open>Bounds\<close>

text \<open>What has been taken beyond what has been granted is at most the initial size at the time, so
  the credit never falls below \<open>- (2\<^sup>3\<^sup>1 - 1)\<close>.\<close>

definition window_ok :: "window \<Rightarrow> bool" where
  "window_ok w \<longleftrightarrow> 0 \<le> win_initial w \<and> win_initial w \<le> flow_MaxWindowSize \<and>
     win_n w \<le> flow_MaxWindowSize \<and> - flow_MaxWindowSize \<le> win_n w - win_initial w"

lemma uint_u32_nonneg: "0 \<le> uint (w :: u32)"
  by simp

lemma NewConnWindow_ok: "window_ok NewConnWindow"
  by (simp add: window_ok_def NewConnWindow_def)

lemma NewStreamWindow_ok: "NewStreamWindow sid n = Inr w \<Longrightarrow> window_ok w \<and> win_streamID w = sid \<and>
    win_n w = uint n \<and> win_initial w = uint n \<and> sid \<noteq> 0"
  by (auto simp: NewStreamWindow_def window_ok_def split: if_splits)

lemma Consume_ok: "window_ok w \<Longrightarrow> Consume n w = (e, w') \<Longrightarrow> window_ok w'"
  by (auto simp: Consume_def window_ok_def split: if_splits) (use uint_u32_nonneg [of n] in linarith)+

lemma Increase_ok: "window_ok w \<Longrightarrow> Increase n w = (e, w') \<Longrightarrow> window_ok w'"
  by (auto simp: Increase_def window_ok_def split: if_splits) (use uint_u32_nonneg [of n] in linarith)+

lemma Window_SetInitialSize_ok:
  "window_ok w \<Longrightarrow> uint n \<le> flow_MaxWindowSize \<Longrightarrow> Window_SetInitialSize n w = (e, w') \<Longrightarrow> window_ok w'"
  by (auto simp: Window_SetInitialSize_def window_ok_def Let_def split: if_splits)

subsection \<open>The ledger\<close>

text \<open>The operations a peer or a handler can cause, and their effect on credit when they succeed.
  A setting is one that the frame layer has validated.\<close>

datatype window_op = WConsume u32 | WIncrease u32 | WSetInitial u32

fun window_step :: "window_op \<Rightarrow> window \<Rightarrow> error option \<times> window" where
  "window_step (WConsume n) w = Consume n w"
| "window_step (WIncrease n) w = Increase n w"
| "window_step (WSetInitial n) w = Window_SetInitialSize n w"

fun window_op_ok :: "window_op \<Rightarrow> bool" where
  "window_op_ok (WSetInitial n) \<longleftrightarrow> uint n \<le> flow_MaxWindowSize"
| "window_op_ok _ \<longleftrightarrow> True"

text \<open>Octets spent and granted by the operations that succeeded, and the setting now in force.\<close>

record ledger =
  spent :: int
  granted :: int
  setting_now :: int

fun post :: "window_op \<Rightarrow> error option \<Rightarrow> ledger \<Rightarrow> ledger" where
  "post op (Some e) l = l"
| "post (WConsume n) None l = l\<lparr>spent := spent l + uint n\<rparr>"
| "post (WIncrease n) None l = l\<lparr>granted := granted l + uint n\<rparr>"
| "post (WSetInitial n) None l = l\<lparr>setting_now := uint n\<rparr>"

fun window_run :: "window_op list \<Rightarrow> window \<Rightarrow> ledger \<Rightarrow> window \<times> ledger" where
  "window_run [] w l = (w, l)"
| "window_run (op # ops) w l =
     (case window_step op w of (e, w') \<Rightarrow> window_run ops w' (post op e l))"

definition balanced :: "window \<Rightarrow> ledger \<Rightarrow> bool" where
  "balanced w l \<longleftrightarrow> win_initial w = setting_now l \<and> win_n w = setting_now l + granted l - spent l"

lemma window_step_balanced:
  "balanced w l \<Longrightarrow> window_step op w = (e, w') \<Longrightarrow> balanced w' (post op e l)"
  by (cases op) (auto simp: balanced_def Consume_def Increase_def Window_SetInitialSize_def Let_def
      split: if_splits)

lemma window_step_ok:
  "window_ok w \<Longrightarrow> window_op_ok op \<Longrightarrow> window_step op w = (e, w') \<Longrightarrow>
     window_ok w' \<and> win_streamID w' = win_streamID w"
proof (cases op)
  case (WConsume n)
  then show "window_ok w \<Longrightarrow> window_step op w = (e, w') \<Longrightarrow> ?thesis"
    using Consume_ok [of w n e w'] by (auto simp: Consume_def split: if_splits)
next
  case (WIncrease n)
  then show "window_ok w \<Longrightarrow> window_step op w = (e, w') \<Longrightarrow> ?thesis"
    using Increase_ok [of w n e w'] by (auto simp: Increase_def split: if_splits)
next
  case (WSetInitial n)
  then show "window_ok w \<Longrightarrow> window_op_ok op \<Longrightarrow> window_step op w = (e, w') \<Longrightarrow> ?thesis"
    using Window_SetInitialSize_ok [of w n e w']
    by (auto simp: Window_SetInitialSize_def Let_def split: if_splits)
qed

lemma window_run_ok:
  "window_ok w \<Longrightarrow> balanced w l \<Longrightarrow> list_all window_op_ok ops \<Longrightarrow> window_run ops w l = (w', l') \<Longrightarrow>
     window_ok w' \<and> balanced w' l'"
proof (induction ops arbitrary: w l)
  case (Cons op ops)
  obtain e w1 where s: "window_step op w = (e, w1)" by fastforce
  from window_step_ok [OF Cons.prems(1) _ s] window_step_balanced [OF Cons.prems(2) s] Cons.prems(3,4) s
  show ?case by (intro Cons.IH [of w1 "post op e l"]) simp_all
qed simp

subsection \<open>Properties\<close>

text \<open>A window is a ledger: after any operations on a stream window, refused ones included, its
  credit is the SETTINGS_INITIAL_WINDOW_SIZE now in force plus what WINDOW_UPDATE granted less
  what was consumed (a change of the setting is a delta, never an assignment), it never exceeds
  \<open>2\<^sup>3\<^sup>1 - 1\<close>, and it never falls below its negation, so the 64-bit arithmetic cannot overflow.\<close>

theorem window_ledger:
  assumes "NewStreamWindow sid init = Inr w" "list_all window_op_ok ops"
    and "window_run ops w \<lparr>spent = 0, granted = 0, setting_now = uint init\<rparr> = (w', l)"
  shows "win_n w' = setting_now l + granted l - spent l \<and> win_initial w' = setting_now l \<and>
         win_n w' \<le> 2 ^ 31 - 1 \<and> - (2 ^ 31 - 1) \<le> win_n w'"
proof -
  note new = NewStreamWindow_ok [OF assms(1)]
  then have "balanced w \<lparr>spent = 0, granted = 0, setting_now = uint init\<rparr>"
    by (simp add: balanced_def)
  from window_run_ok [OF _ this assms(2,3)] new show ?thesis
    by (auto simp: window_ok_def balanced_def)
qed

lemma window_ledger_witness:
  "win_n (fst (window_run [WConsume 60000, WConsume 60000, WSetInitial 0, WIncrease 10]
     \<lparr>win_streamID = 1, win_initial = 65535, win_n = 65535\<rparr>
     \<lparr>spent = 0, granted = 0, setting_now = 65535\<rparr>)) = 0 + 10 - 60000"
proof -
  let ?w = "\<lparr>win_streamID = 1, win_initial = 65535, win_n = 65535\<rparr> :: window"
  let ?ops = "[WConsume 60000, WConsume 60000, WSetInitial 0, WIncrease 10]"
  have new: "NewStreamWindow 1 65535 = Inr ?w" by (simp add: NewStreamWindow_def)
  have run: "window_run ?ops ?w \<lparr>spent = 0, granted = 0, setting_now = uint (65535 :: u32)\<rparr> =
      (?w\<lparr>win_initial := 0, win_n := -59990\<rparr>, \<lparr>spent = 60000, granted = 10, setting_now = 0\<rparr>)"
    by (simp add: Consume_def Increase_def Window_SetInitialSize_def)
  show ?thesis
    using window_ledger [OF new _ run] run by simp
qed

end
