(* ===== verification/Store.thy ===== *)
theory Store
  imports Prelude "HOL-Library.AList"
begin

text \<open>
  Go maps keyed by stream identifiers as association lists with distinct keys: the library's
  \<open>AList.update\<close> and \<open>AList.delete\<close>, read with \<open>map_of\<close>. \<open>slices.Sorted(maps.Keys(m))\<close> is
  \<open>sorted_keys\<close>.
\<close>

type_synonym 'a store = "(u32 \<times> 'a) list"

abbreviation store_get :: "'a store \<Rightarrow> u32 \<Rightarrow> 'a option" where
  "store_get m k \<equiv> map_of m k"

abbreviation store_put :: "u32 \<Rightarrow> 'a \<Rightarrow> 'a store \<Rightarrow> 'a store" where
  "store_put k v m \<equiv> AList.update k v m"

abbreviation store_delete :: "u32 \<Rightarrow> 'a store \<Rightarrow> 'a store" where
  "store_delete k m \<equiv> AList.delete k m"

definition store_ok :: "'a store \<Rightarrow> bool" where
  "store_ok m \<longleftrightarrow> distinct (map fst m)"

definition sorted_keys :: "'a store \<Rightarrow> u32 list" where
  "sorted_keys m = sort (map fst m)"

lemma store_get_put [simp]:
  "store_get (store_put k v m) j = (if j = k then Some v else store_get m j)"
  by (simp add: update_conv')

lemma store_get_delete [simp]:
  "store_get (store_delete k m) j = (if j = k then None else store_get m j)"
  by (simp add: delete_conv')

lemma store_ok_simps [simp]:
  "store_ok []"
  "store_ok m \<Longrightarrow> store_ok (store_put k v m)"
  "store_ok m \<Longrightarrow> store_ok (store_delete k m)"
  by (simp_all add: store_ok_def distinct_update distinct_delete)

lemma length_store_put:
  "length (store_put k v m) = (if store_get m k = None then length m + 1 else length m)"
  by (induction m) auto

lemma length_store_delete_le: "length (store_delete k m) \<le> length m"
  by (induction m) auto

lemma length_store_delete:
  "store_ok m \<Longrightarrow> store_get m k \<noteq> None \<Longrightarrow> Suc (length (store_delete k m)) = length m"
  by (induction m) (auto simp: store_ok_def map_of_eq_None_iff split: if_splits, metis fst_conv image_eqI)

lemma set_sorted_keys [simp]: "k \<in> set (sorted_keys m) \<longleftrightarrow> store_get m k \<noteq> None"
  by (simp add: sorted_keys_def map_of_eq_None_iff)

lemma distinct_sorted_keys [simp]: "store_ok m \<Longrightarrow> distinct (sorted_keys m)"
  by (simp add: sorted_keys_def store_ok_def)

text \<open>A bound on what every entry satisfies, kept by updates that satisfy it.\<close>

definition all_entries :: "(u32 \<Rightarrow> 'a \<Rightarrow> bool) \<Rightarrow> 'a store \<Rightarrow> bool" where
  "all_entries P m \<longleftrightarrow> (\<forall>k v. store_get m k = Some v \<longrightarrow> P k v)"

lemma all_entries_simps [simp]:
  "all_entries P []"
  "all_entries P m \<Longrightarrow> P k v \<Longrightarrow> all_entries P (store_put k v m)"
  "all_entries P m \<Longrightarrow> all_entries P (store_delete k m)"
  by (simp_all add: all_entries_def)

lemma all_entriesD: "all_entries P m \<Longrightarrow> store_get m k = Some v \<Longrightarrow> P k v"
  by (simp add: all_entries_def)

lemma all_entries_mono: "all_entries P m \<Longrightarrow> (\<And>k v. P k v \<Longrightarrow> Q k v) \<Longrightarrow> all_entries Q m"
  by (auto simp: all_entries_def)

end
