(* ===== verification/Sender.thy ===== *)
theory Sender
  imports Window Store
begin

text \<open>
  \<^verbatim>\<open>internal/flow/sender.go\<close>: the send half of a connection's flow control. Every method runs
  under one mutex, so a method is one step on the state and an interleaving of goroutines is a
  sequence of steps. \<open>Reserve\<close> is the exception, because \<open>credit.Wait\<close> gives the mutex up: its
  loop body is \<open>Reserve_loop\<close>, which grants, fails or parks, and a goroutine that is woken runs
  it again (\<open>Reserve_resume\<close>). The steps that broadcast say so in their result.
\<close>

subsection \<open>State\<close>

record sender =
  snd_conn :: window
  snd_stream :: "window store"
  snd_initial :: u32
  snd_err :: "error option"
  snd_waiting :: int

definition ErrStreamGone :: error where
  "ErrStreamGone = Sentinel ''flow: the stream was retired while waiting for credit''"

definition NewSender :: sender where
  "NewSender = \<lparr>snd_conn = NewConnWindow, snd_stream = [], snd_initial = InitialWindowSize,
                snd_err = None, snd_waiting = 0\<rparr>"

subsection \<open>The methods\<close>

definition Sender_Open :: "u32 \<Rightarrow> sender \<Rightarrow> error option \<times> sender" where
  "Sender_Open sid s =
     (if store_get (snd_stream s) sid \<noteq> None then (Some Panic, s)
      else
        (case NewStreamWindow sid (snd_initial s) of
           Inl e \<Rightarrow> (Some e, s)
         | Inr w \<Rightarrow> (None, s\<lparr>snd_stream := store_put sid w (snd_stream s)\<rparr>)))"

text \<open>The flag is whether the condition variable is broadcast.\<close>

definition Sender_Retire :: "u32 \<Rightarrow> sender \<Rightarrow> bool \<times> sender" where
  "Sender_Retire sid s =
     (if store_get (snd_stream s) sid = None then (False, s)
      else (True, s\<lparr>snd_stream := store_delete sid (snd_stream s)\<rparr>))"

definition CreditConn :: "u32 \<Rightarrow> sender \<Rightarrow> error option \<times> bool \<times> sender" where
  "CreditConn n s =
     (if snd_err s \<noteq> None then (None, False, s)
      else
        (case Increase n (snd_conn s) of
           (Some e, w) \<Rightarrow> (Some e, False, s\<lparr>snd_conn := w\<rparr>)
         | (None, w) \<Rightarrow> (None, True, s\<lparr>snd_conn := w\<rparr>)))"

definition CreditStream :: "u32 \<Rightarrow> u32 \<Rightarrow> sender \<Rightarrow> error option \<times> bool \<times> sender" where
  "CreditStream sid n s =
     (if snd_err s \<noteq> None then (None, False, s)
      else
        (case store_get (snd_stream s) sid of
           None \<Rightarrow> (None, False, s)
         | Some w \<Rightarrow>
             (case Increase n w of
                (Some e, w) \<Rightarrow> (Some e, False, s\<lparr>snd_stream := store_put sid w (snd_stream s)\<rparr>)
              | (None, w) \<Rightarrow> (None, True, s\<lparr>snd_stream := store_put sid w (snd_stream s)\<rparr>))))"

fun set_initial_loop :: "u32 \<Rightarrow> u32 list \<Rightarrow> window store \<Rightarrow> error option \<times> window store" where
  "set_initial_loop n [] m = (None, m)"
| "set_initial_loop n (sid # ids) m =
     (case store_get m sid of
        None \<Rightarrow> (Some Panic, m)
      | Some w \<Rightarrow>
          (case Window_SetInitialSize n w of
             (Some e, w) \<Rightarrow> (Some e, store_put sid w m)
           | (None, w) \<Rightarrow> set_initial_loop n ids (store_put sid w m)))"

definition Sender_SetInitialSize :: "u32 \<Rightarrow> sender \<Rightarrow> error option \<times> bool \<times> sender" where
  "Sender_SetInitialSize n s =
     (if snd_err s \<noteq> None then (None, False, s)
      else
        (case set_initial_loop n (sorted_keys (snd_stream s)) (snd_stream s) of
           (Some e, m) \<Rightarrow> (Some e, False, s\<lparr>snd_stream := m\<rparr>)
         | (None, m) \<Rightarrow> (None, True, s\<lparr>snd_stream := m, snd_initial := n\<rparr>)))"

text \<open>\<open>Close\<close> takes the reason as an option; \<open>None\<close> is the nil error that panics.\<close>

definition Sender_Close :: "error option \<Rightarrow> sender \<Rightarrow> error option \<times> bool \<times> sender" where
  "Sender_Close err s =
     (case err of
        None \<Rightarrow> (Some Panic, False, s)
      | Some e \<Rightarrow>
          if snd_err s \<noteq> None then (None, False, s) else (None, True, s\<lparr>snd_err := Some e\<rparr>))"

datatype reservation = Granted int | Failed error | Parked

definition Reserve_loop :: "u32 \<Rightarrow> int \<Rightarrow> sender \<Rightarrow> reservation \<times> sender" where
  "Reserve_loop sid want s =
     (case snd_err s of
        Some e \<Rightarrow> (Failed e, s)
      | None \<Rightarrow>
          (case store_get (snd_stream s) sid of
             None \<Rightarrow> (Failed ErrStreamGone, s)
           | Some w \<Rightarrow>
               (let n = want;
                    n = (if Window_Available (snd_conn s) < n then Window_Available (snd_conn s) else n);
                    n = (if Window_Available w < n then Window_Available w else n)
                in if n > 0 then
                     (case Consume (word_of_int n) (snd_conn s) of
                        (Some e, cw) \<Rightarrow> (Failed e, s\<lparr>snd_conn := cw\<rparr>)
                      | (None, cw) \<Rightarrow>
                          (case Consume (word_of_int n) w of
                             (Some e, w) \<Rightarrow>
                               (Failed e, s\<lparr>snd_conn := cw, snd_stream := store_put sid w (snd_stream s)\<rparr>)
                           | (None, w) \<Rightarrow>
                               (Granted n, s\<lparr>snd_conn := cw, snd_stream := store_put sid w (snd_stream s)\<rparr>)))
                   else (Parked, s\<lparr>snd_waiting := snd_waiting s + 1\<rparr>))))"

definition Reserve :: "u32 \<Rightarrow> int \<Rightarrow> sender \<Rightarrow> reservation \<times> sender" where
  "Reserve sid want s = (if want \<le> 0 then (Failed Panic, s) else Reserve_loop sid want s)"

definition Reserve_resume :: "u32 \<Rightarrow> int \<Rightarrow> sender \<Rightarrow> reservation \<times> sender" where
  "Reserve_resume sid want s = Reserve_loop sid want (s\<lparr>snd_waiting := snd_waiting s - 1\<rparr>)"

definition Waiters :: "sender \<Rightarrow> int" where
  "Waiters s = snd_waiting s"

definition ConnAvailable :: "sender \<Rightarrow> int" where
  "ConnAvailable s = Window_Available (snd_conn s)"

definition Sender_Available :: "u32 \<Rightarrow> sender \<Rightarrow> int \<times> bool" where
  "Sender_Available sid s =
     (case store_get (snd_stream s) sid of
        None \<Rightarrow> (0, False)
      | Some w \<Rightarrow> (Window_Available w, True))"

definition InitialSize :: "sender \<Rightarrow> u32" where
  "InitialSize s = snd_initial s"

subsection \<open>Well-formed senders\<close>

definition sender_ok :: "sender \<Rightarrow> bool" where
  "sender_ok s \<longleftrightarrow> window_ok (snd_conn s) \<and> win_streamID (snd_conn s) = 0 \<and> 0 \<le> win_n (snd_conn s) \<and>
     store_ok (snd_stream s) \<and>
     all_entries (\<lambda>sid w. window_ok w \<and> win_streamID w = sid \<and> sid \<noteq> 0) (snd_stream s) \<and>
     uint (snd_initial s) \<le> flow_MaxWindowSize"

lemma NewSender_ok: "sender_ok NewSender"
  using NewConnWindow_ok by (simp add: sender_ok_def NewSender_def) (simp add: NewConnWindow_def)

text \<open>What a reservation does, in one rule: the loop body grants the smallest of the three.\<close>

lemma uint_of_small: "0 < n \<Longrightarrow> n \<le> 0x7fffffff \<Longrightarrow> uint (word_of_int n :: u32) = n"
  by (simp add: uint_word_of_int take_bit_int_eq_self)

lemma Reserve_loop_cases:
  assumes "sender_ok s"
  shows "Reserve_loop sid want s =
    (case snd_err s of
       Some e \<Rightarrow> (Failed e, s)
     | None \<Rightarrow>
         (case store_get (snd_stream s) sid of
            None \<Rightarrow> (Failed ErrStreamGone, s)
          | Some w \<Rightarrow>
              (let n = min want (min (win_n (snd_conn s)) (win_n w)) in
               if n > 0
               then (Granted n, s\<lparr>snd_conn := (snd_conn s)\<lparr>win_n := win_n (snd_conn s) - n\<rparr>,
                       snd_stream := store_put sid (w\<lparr>win_n := win_n w - n\<rparr>) (snd_stream s)\<rparr>)
               else (Parked, s\<lparr>snd_waiting := snd_waiting s + 1\<rparr>))))"
proof (cases "snd_err s = None \<and> (\<exists>w. store_get (snd_stream s) sid = Some w)")
  case True
  then obtain w where w: "snd_err s = None" "store_get (snd_stream s) sid = Some w" by blast
  let ?c = "snd_conn s"
  define n where "n = min want (min (win_n ?c) (win_n w))"
  define m where "m = (if Window_Available ?c < want then Window_Available ?c else want)"
  have clamp: "(if Window_Available w < m then Window_Available w else m) = n"
    by (simp add: n_def m_def Window_Available_def min_def)
  have body: "Reserve_loop sid want s =
    (if n > 0 then
       (case Consume (word_of_int n) ?c of
          (Some e, cw) \<Rightarrow> (Failed e, s\<lparr>snd_conn := cw\<rparr>)
        | (None, cw) \<Rightarrow>
            (case Consume (word_of_int n) w of
               (Some e, w) \<Rightarrow> (Failed e, s\<lparr>snd_conn := cw, snd_stream := store_put sid w (snd_stream s)\<rparr>)
             | (None, w) \<Rightarrow> (Granted n, s\<lparr>snd_conn := cw, snd_stream := store_put sid w (snd_stream s)\<rparr>)))
     else (Parked, s\<lparr>snd_waiting := snd_waiting s + 1\<rparr>))"
    using w by (simp only: Reserve_loop_def Let_def option.case clamp flip: m_def)
  have le: "n \<le> win_n ?c" "n \<le> win_n w" by (simp_all add: n_def)
  have small: "uint (word_of_int n :: u32) = n" if "0 < n"
    using that assms le by (intro uint_of_small) (auto simp: sender_ok_def window_ok_def)
  have consume: "Consume (word_of_int n) v = (None, v\<lparr>win_n := win_n v - n\<rparr>)"
    if "0 < n" "n \<le> win_n v" for v
  proof -
    have "(word_of_int n :: u32) \<noteq> 0"
      using small [OF that(1)] that(1) by auto
    then show ?thesis using that small by (simp add: Consume_def)
  qed
  show ?thesis
  proof (cases "0 < n")
    case True
    then show ?thesis unfolding body using w consume le by (simp add: Let_def flip: n_def)
  next
    case False
    then show ?thesis unfolding body using w by (simp add: Let_def flip: n_def)
  qed
next
  case False
  then show ?thesis by (auto simp: Reserve_loop_def split: option.splits)
qed

subsection \<open>Histories\<close>

text \<open>The calls the reader (credit, settings, retirement, teardown) and the writers (\<open>Reserve\<close>, and
  its loop body again after a wake-up) make, in the order the mutex serialises them.\<close>

datatype sender_op =
    SOpen u32
  | SRetire u32
  | SCreditConn u32
  | SCreditStream u32 u32
  | SSetInitial u32
  | SClose "error option"
  | SReserve u32 int
  | SResume u32 int

text \<open>What a call returns: its error, whether it broadcast, and what a writer was given.\<close>

record sender_result =
  sr_error :: "error option"
  sr_broadcast :: bool
  sr_reservation :: "reservation option"

fun sender_apply :: "sender_op \<Rightarrow> sender \<Rightarrow> sender_result \<times> sender" where
  "sender_apply (SOpen sid) s =
     (case Sender_Open sid s of (e, s) \<Rightarrow> (\<lparr>sr_error = e, sr_broadcast = False, sr_reservation = None\<rparr>, s))"
| "sender_apply (SRetire sid) s =
     (case Sender_Retire sid s of (b, s) \<Rightarrow> (\<lparr>sr_error = None, sr_broadcast = b, sr_reservation = None\<rparr>, s))"
| "sender_apply (SCreditConn n) s =
     (case CreditConn n s of (e, b, s) \<Rightarrow> (\<lparr>sr_error = e, sr_broadcast = b, sr_reservation = None\<rparr>, s))"
| "sender_apply (SCreditStream sid n) s =
     (case CreditStream sid n s of (e, b, s) \<Rightarrow> (\<lparr>sr_error = e, sr_broadcast = b, sr_reservation = None\<rparr>, s))"
| "sender_apply (SSetInitial n) s =
     (case Sender_SetInitialSize n s of (e, b, s) \<Rightarrow> (\<lparr>sr_error = e, sr_broadcast = b, sr_reservation = None\<rparr>, s))"
| "sender_apply (SClose r) s =
     (case Sender_Close r s of (e, b, s) \<Rightarrow> (\<lparr>sr_error = e, sr_broadcast = b, sr_reservation = None\<rparr>, s))"
| "sender_apply (SReserve sid want) s =
     (case Reserve sid want s of (r, s) \<Rightarrow> (\<lparr>sr_error = None, sr_broadcast = False, sr_reservation = Some r\<rparr>, s))"
| "sender_apply (SResume sid want) s =
     (case Reserve_resume sid want s of (r, s) \<Rightarrow> (\<lparr>sr_error = None, sr_broadcast = False, sr_reservation = Some r\<rparr>, s))"

text \<open>The setting is one that the frame layer has validated.\<close>

fun sender_op_ok :: "sender_op \<Rightarrow> bool" where
  "sender_op_ok (SSetInitial n) \<longleftrightarrow> uint n \<le> flow_MaxWindowSize"
| "sender_op_ok _ \<longleftrightarrow> True"

text \<open>The loop of \<open>SetInitialSize\<close> is a map over the streams when it succeeds.\<close>

definition resize :: "u32 \<Rightarrow> window \<Rightarrow> window" where
  "resize n w = w\<lparr>win_initial := uint n, win_n := win_n w + (uint n - win_initial w)\<rparr>"

lemma Window_SetInitialSize_resize:
  "Window_SetInitialSize n w = (None, w') \<Longrightarrow> w' = resize n w \<and> win_n w' \<le> flow_MaxWindowSize"
  by (auto simp: Window_SetInitialSize_def resize_def Let_def split: if_splits)

lemma Window_SetInitialSize_error: "Window_SetInitialSize n w = (Some e, w') \<Longrightarrow> w' = w"
  by (auto simp: Window_SetInitialSize_def Let_def split: if_splits)

lemma Increase_error: "Increase n w = (Some e, w') \<Longrightarrow> w' = w"
  by (auto simp: Increase_def split: if_splits)

lemma Increase_some: "Increase n w = (None, w') \<Longrightarrow> w' = w\<lparr>win_n := win_n w + uint n\<rparr>"
  by (auto simp: Increase_def split: if_splits)

lemma set_initial_loop_resize:
  "distinct ids \<Longrightarrow> set_initial_loop n ids m = (None, m') \<Longrightarrow>
     store_get m' k = (if k \<in> set ids then map_option (resize n) (store_get m k) else store_get m k)"
proof (induction ids arbitrary: m)
  case (Cons sid ids)
  then obtain w w' where w: "store_get m sid = Some w" "Window_SetInitialSize n w = (None, w')"
    "set_initial_loop n ids (store_put sid w' m) = (None, m')"
    by (auto split: option.splits prod.splits)
  with Cons.IH [of "store_put sid w' m"] Cons.prems(1) Window_SetInitialSize_resize [OF w(2)]
  show ?case by auto
qed simp

lemma set_initial_loop_ok:
  assumes "uint n \<le> flow_MaxWindowSize"
  shows "store_ok m \<Longrightarrow> all_entries (\<lambda>sid w. window_ok w \<and> win_streamID w = sid \<and> sid \<noteq> 0) m \<Longrightarrow>
    set_initial_loop n ids m = (e, m') \<Longrightarrow>
    store_ok m' \<and> all_entries (\<lambda>sid w. window_ok w \<and> win_streamID w = sid \<and> sid \<noteq> 0) m'"
proof (induction ids arbitrary: m)
  case (Cons sid ids)
  show ?case
  proof (cases "store_get m sid")
    case None
    then show ?thesis using Cons.prems by auto
  next
    case (Some w)
    obtain e1 w' where w': "Window_SetInitialSize n w = (e1, w')" by fastforce
    have "window_ok w' \<and> win_streamID w' = win_streamID w"
      using window_step_ok [of w "WSetInitial n" e1 w'] w' assms all_entriesD [OF Cons.prems(2) Some]
      by simp
    with all_entriesD [OF Cons.prems(2) Some] Cons.prems Some w'
    show ?thesis using Cons.IH [of "store_put sid w' m"] by (cases e1) auto
  qed
qed simp

lemma min_pos: "0 < min a (min b c) \<longleftrightarrow> 0 < a \<and> 0 < b \<and> 0 < (c :: int)"
  by auto

lemma Reserve_loop_granted:
  assumes "sender_ok s" "Reserve_loop sid want s = (Granted n, s')"
  obtains w where "store_get (snd_stream s) sid = Some w" "snd_err s = None"
    "n = min want (min (win_n (snd_conn s)) (win_n w))" "0 < n"
    "s' = s\<lparr>snd_conn := (snd_conn s)\<lparr>win_n := win_n (snd_conn s) - n\<rparr>,
            snd_stream := store_put sid (w\<lparr>win_n := win_n w - n\<rparr>) (snd_stream s)\<rparr>"
  using assms(2) unfolding Reserve_loop_cases [OF assms(1)]
  by (auto simp: Let_def split: option.splits if_splits)

lemma Reserve_loop_not_granted:
  assumes "sender_ok s" "Reserve_loop sid want s = (r, s')" "\<nexists>n. r = Granted n"
  shows "s' = s \<or> s' = s\<lparr>snd_waiting := snd_waiting s + 1\<rparr>"
  using assms(2,3) unfolding Reserve_loop_cases [OF assms(1)]
  by (auto simp: Let_def split: option.splits if_splits)

lemma sender_ok_waiting [simp]: "sender_ok (s\<lparr>snd_waiting := k\<rparr>) = sender_ok s"
  by (simp add: sender_ok_def)

lemma Reserve_loop_ok:
  assumes "sender_ok s" "Reserve_loop sid want s = (r, s')"
  shows "sender_ok s'"
proof (cases "\<exists>n. r = Granted n")
  case True
  then obtain n where n: "r = Granted n" ..
  from assms obtain w where w: "store_get (snd_stream s) sid = Some w"
    "n \<le> win_n (snd_conn s)" "n \<le> win_n w" "0 < n"
    "s' = s\<lparr>snd_conn := (snd_conn s)\<lparr>win_n := win_n (snd_conn s) - n\<rparr>,
            snd_stream := store_put sid (w\<lparr>win_n := win_n w - n\<rparr>) (snd_stream s)\<rparr>"
    unfolding n by (rule Reserve_loop_granted) simp
  have "window_ok w \<and> win_streamID w = sid \<and> sid \<noteq> 0"
    using all_entriesD [OF _ w(1)] assms(1) by (auto simp: sender_ok_def)
  with w assms(1) show ?thesis
    by (auto simp: sender_ok_def window_ok_def)
next
  case False
  from Reserve_loop_not_granted [OF assms this] assms(1) show ?thesis by auto
qed

lemma Sender_SetInitialSize_cases:
  assumes "sender_ok s" "uint n \<le> flow_MaxWindowSize" "Sender_SetInitialSize n s = (e, b, s')"
  shows "sender_ok s' \<and> snd_err s' = snd_err s \<and> snd_conn s' = snd_conn s \<and>
    (snd_err s = None \<longrightarrow> e = None \<longrightarrow> b \<and> snd_initial s' = n \<and>
       (\<forall>k. store_get (snd_stream s') k = map_option (resize n) (store_get (snd_stream s) k))) \<and>
    (snd_err s \<noteq> None \<longrightarrow> e = None \<and> s' = s \<and> \<not> b)"
proof (cases "snd_err s")
  case None
  obtain e1 m where m: "set_initial_loop n (sorted_keys (snd_stream s)) (snd_stream s) = (e1, m)"
    by fastforce
  have "store_ok m \<and> all_entries (\<lambda>sid w. window_ok w \<and> win_streamID w = sid \<and> sid \<noteq> 0) m"
    using set_initial_loop_ok [OF assms(2) _ _ m] assms(1) by (auto simp: sender_ok_def)
  moreover have "store_get m k = map_option (resize n) (store_get (snd_stream s) k)" if "e1 = None" for k
    using set_initial_loop_resize [OF _ m [unfolded that]] assms(1)
    by (cases "store_get (snd_stream s) k") (auto simp: sender_ok_def)
  ultimately show ?thesis
    using None m assms by (cases e1) (auto simp: Sender_SetInitialSize_def sender_ok_def)
qed (use assms in \<open>auto simp: Sender_SetInitialSize_def\<close>)

lemma stream_window_ok:
  "sender_ok s \<Longrightarrow> store_get (snd_stream s) sid = Some w \<Longrightarrow> window_ok w \<and> win_streamID w = sid \<and> sid \<noteq> 0"
  using all_entriesD by (fastforce simp: sender_ok_def)

lemma Sender_Open_ok: "sender_ok s \<Longrightarrow> Sender_Open sid s = (e, s') \<Longrightarrow> sender_ok s'"
  by (auto simp: Sender_Open_def sender_ok_def dest: NewStreamWindow_ok split: if_splits sum.splits)

lemma CreditConn_ok: "sender_ok s \<Longrightarrow> CreditConn n s = (e, b, s') \<Longrightarrow> sender_ok s'"
  using Increase_ok [of "snd_conn s" n]
  by (auto simp: CreditConn_def sender_ok_def dest: Increase_error Increase_some split: if_splits prod.splits option.splits)

lemma CreditStream_ok: "sender_ok s \<Longrightarrow> CreditStream sid n s = (e, b, s') \<Longrightarrow> sender_ok s'"
proof (cases "store_get (snd_stream s) sid")
  case (Some w)
  assume s: "sender_ok s" and c: "CreditStream sid n s = (e, b, s')"
  obtain e1 w' where w': "Increase n w = (e1, w')" by fastforce
  have "window_ok w' \<and> win_streamID w' = sid \<and> sid \<noteq> 0"
    using window_step_ok [of w "WIncrease n" e1 w'] w' stream_window_ok [OF s Some] by simp
  with s c Some w' show ?thesis
    by (cases e1) (auto simp: CreditStream_def sender_ok_def split: if_splits)
qed (auto simp: CreditStream_def split: if_splits)

lemma sender_apply_ok:
  assumes "sender_ok s" "sender_op_ok op" "sender_apply op s = (r, s')"
  shows "sender_ok s'"
proof (cases op)
  case (SOpen sid)
  with assms Sender_Open_ok show ?thesis by (auto split: prod.splits)
next
  case (SCreditConn n)
  with assms CreditConn_ok show ?thesis by (auto split: prod.splits)
next
  case (SCreditStream sid n)
  with assms CreditStream_ok show ?thesis by (auto split: prod.splits)
next
  case (SSetInitial n)
  obtain e b s1 where x: "Sender_SetInitialSize n s = (e, b, s1)" by (metis prod_cases3)
  with Sender_SetInitialSize_cases [OF assms(1) _ x] assms SSetInitial show ?thesis by simp
next
  case (SReserve sid want)
  with assms Reserve_loop_ok show ?thesis by (auto simp: Reserve_def split: prod.splits if_splits)
next
  case (SResume sid want)
  with assms Reserve_loop_ok [of "s\<lparr>snd_waiting := snd_waiting s - 1\<rparr>" sid want] show ?thesis
    by (auto simp: Reserve_resume_def split: prod.splits)
qed (use assms in \<open>auto simp: Sender_Retire_def Sender_Close_def sender_ok_def split: if_splits option.splits\<close>)

end
