(* ===== verification/SenderProps.thy ===== *)
theory SenderProps
  imports Sender
begin

text \<open>
  What the send half of flow control promises over any interleaving of the reader's and the
  writers' calls: no octet is sent that the peer did not grant, no writer is left asleep beside
  credit it could use, and the end of the connection reaches every writer.
\<close>

subsection \<open>The ledger of a history\<close>

text \<open>Credit is booked when the call applied it, which is when it broadcast; a reservation when it
  was granted. A stream's books start again when it is opened.\<close>

record sender_ledger =
  conn_credit :: int
  conn_reserved :: int
  stream_credit :: "u32 \<Rightarrow> int"
  stream_reserved :: "u32 \<Rightarrow> int"

definition no_ledger :: sender_ledger where
  "no_ledger = \<lparr>conn_credit = 0, conn_reserved = 0, stream_credit = (\<lambda>_. 0), stream_reserved = (\<lambda>_. 0)\<rparr>"

fun book_reservation :: "u32 \<Rightarrow> reservation option \<Rightarrow> sender_ledger \<Rightarrow> sender_ledger" where
  "book_reservation sid (Some (Granted n)) l =
     l\<lparr>conn_reserved := conn_reserved l + n,
       stream_reserved := (stream_reserved l)(sid := stream_reserved l sid + n)\<rparr>"
| "book_reservation sid _ l = l"

fun book :: "sender_op \<Rightarrow> sender_result \<Rightarrow> sender_ledger \<Rightarrow> sender_ledger" where
  "book (SOpen sid) r l =
     (if sr_error r = None
      then l\<lparr>stream_credit := (stream_credit l)(sid := 0), stream_reserved := (stream_reserved l)(sid := 0)\<rparr>
      else l)"
| "book (SCreditConn n) r l =
     (if sr_broadcast r then l\<lparr>conn_credit := conn_credit l + uint n\<rparr> else l)"
| "book (SCreditStream sid n) r l =
     (if sr_broadcast r then l\<lparr>stream_credit := (stream_credit l)(sid := stream_credit l sid + uint n)\<rparr> else l)"
| "book (SReserve sid want) r l = book_reservation sid (sr_reservation r) l"
| "book (SResume sid want) r l = book_reservation sid (sr_reservation r) l"
| "book op r l = l"

fun sender_run :: "sender_op list \<Rightarrow> sender \<Rightarrow> sender_ledger \<Rightarrow> sender \<times> sender_ledger" where
  "sender_run [] s l = (s, l)"
| "sender_run (op # ops) s l = (case sender_apply op s of (r, s') \<Rightarrow> sender_run ops s' (book op r l))"

text \<open>A setting that overflows a window ends the connection, so a history does not go on past it.\<close>

fun settings_applied :: "sender_op list \<Rightarrow> sender \<Rightarrow> bool" where
  "settings_applied [] s \<longleftrightarrow> True"
| "settings_applied (op # ops) s \<longleftrightarrow>
     (case sender_apply op s of
        (r, s') \<Rightarrow> (case op of SSetInitial n \<Rightarrow> sr_error r = None | _ \<Rightarrow> True) \<and> settings_applied ops s')"

definition in_balance :: "sender \<Rightarrow> sender_ledger \<Rightarrow> bool" where
  "in_balance s l \<longleftrightarrow> win_n (snd_conn s) = 65535 + conn_credit l - conn_reserved l \<and>
     all_entries (\<lambda>sid w. win_initial w = uint (snd_initial s) \<and>
       win_n w = uint (snd_initial s) + stream_credit l sid - stream_reserved l sid) (snd_stream s)"

lemma in_balance_new: "in_balance NewSender no_ledger"
  by (simp add: in_balance_def NewSender_def no_ledger_def NewConnWindow_def)

lemma in_balance_waiting [simp]: "in_balance (s\<lparr>snd_waiting := k\<rparr>) l = in_balance s l"
  by (simp add: in_balance_def)

lemma in_balance_stream:
  "in_balance s l \<Longrightarrow> store_get (snd_stream s) sid = Some w \<Longrightarrow>
     win_initial w = uint (snd_initial s) \<and>
     win_n w = uint (snd_initial s) + stream_credit l sid - stream_reserved l sid"
  using all_entriesD by (fastforce simp: in_balance_def)

lemma Reserve_loop_balance:
  assumes "sender_ok s" "in_balance s l" "Reserve_loop sid want s = (r, s')"
  shows "in_balance s' (book_reservation sid (Some r) l)"
proof (cases "\<exists>n. r = Granted n")
  case True
  then obtain n where n: "r = Granted n" ..
  from assms(1,3) obtain w where w: "store_get (snd_stream s) sid = Some w"
    "s' = s\<lparr>snd_conn := (snd_conn s)\<lparr>win_n := win_n (snd_conn s) - n\<rparr>,
            snd_stream := store_put sid (w\<lparr>win_n := win_n w - n\<rparr>) (snd_stream s)\<rparr>"
    unfolding n by (rule Reserve_loop_granted)
  with in_balance_stream [OF assms(2) w(1)] assms(2) n show ?thesis
    by (auto simp: in_balance_def all_entries_def)
next
  case False
  with Reserve_loop_not_granted [OF assms(1,3)] assms(2) show ?thesis
    by (cases r) auto
qed

lemma sender_apply_balance:
  assumes "sender_ok s" "in_balance s l" "sender_op_ok op" "sender_apply op s = (r, s')"
    and "\<And>n. op = SSetInitial n \<Longrightarrow> sr_error r = None"
  shows "in_balance s' (book op r l)"
proof (cases op)
  case (SOpen sid)
  with assms show ?thesis
    by (auto simp: Sender_Open_def in_balance_def all_entries_def dest!: NewStreamWindow_ok
        split: if_splits sum.splits)
next
  case (SRetire sid)
  with assms show ?thesis by (auto simp: Sender_Retire_def in_balance_def split: if_splits)
next
  case (SCreditConn n)
  with assms show ?thesis
    by (auto simp: CreditConn_def in_balance_def dest!: Increase_error Increase_some
        split: if_splits prod.splits option.splits)
next
  case (SCreditStream sid n)
  with assms in_balance_stream [OF assms(2), of sid] show ?thesis
    by (auto simp: CreditStream_def in_balance_def all_entries_def dest!: Increase_error Increase_some
        split: if_splits prod.splits option.splits)
next
  case (SSetInitial n)
  obtain e b s1 where x: "Sender_SetInitialSize n s = (e, b, s1)" by (metis prod_cases3)
  have "e = None" using assms(4,5) SSetInitial x by auto
  with Sender_SetInitialSize_cases [OF assms(1) _ x] assms SSetInitial x in_balance_stream [OF assms(2)]
  show ?thesis
    by (cases "snd_err s") (auto simp: in_balance_def all_entries_def resize_def)
next
  case (SClose reason)
  with assms show ?thesis by (auto simp: Sender_Close_def in_balance_def split: if_splits option.splits)
next
  case (SReserve sid want)
  with assms Reserve_loop_balance [OF assms(1,2)] show ?thesis
    by (auto simp: Reserve_def split: prod.splits if_splits)
next
  case (SResume sid want)
  with assms Reserve_loop_balance [of "s\<lparr>snd_waiting := snd_waiting s - 1\<rparr>" l sid want] show ?thesis
    by (auto simp: Reserve_resume_def split: prod.splits)
qed

lemma sender_run_balance:
  "sender_ok s \<Longrightarrow> in_balance s l \<Longrightarrow> list_all sender_op_ok ops \<Longrightarrow> settings_applied ops s \<Longrightarrow>
     sender_run ops s l = (s', l') \<Longrightarrow> sender_ok s' \<and> in_balance s' l'"
proof (induction ops arbitrary: s l)
  case (Cons op ops)
  obtain r s1 where s1: "sender_apply op s = (r, s1)" by fastforce
  with Cons.prems have "sender_ok s1" using sender_apply_ok [OF _ _ s1] by simp
  moreover have "in_balance s1 (book op r l)"
    using Cons.prems s1 by (intro sender_apply_balance [OF _ _ _ s1]) auto
  ultimately show ?case using Cons.prems s1 by (intro Cons.IH [of s1]) auto
qed simp

subsection \<open>Parked writers\<close>

text \<open>Whether a writer at the head of \<open>Reserve\<close>'s loop would leave it, with credit or an error.\<close>

definition can_proceed :: "u32 \<Rightarrow> sender \<Rightarrow> bool" where
  "can_proceed sid s \<longleftrightarrow> snd_err s \<noteq> None \<or>
     (case store_get (snd_stream s) sid of
        None \<Rightarrow> True
      | Some w \<Rightarrow> 0 < win_n (snd_conn s) \<and> 0 < win_n w)"

lemma Reserve_loop_parks:
  "sender_ok s \<Longrightarrow> 0 < want \<Longrightarrow> (fst (Reserve_loop sid want s) = Parked) = (\<not> can_proceed sid s)"
  unfolding Reserve_loop_cases
  by (auto simp: can_proceed_def Let_def split: option.splits)

lemma Reserve_loop_wakes_nobody:
  assumes "sender_ok s" "Reserve_loop sid want s = (r, s')" "can_proceed k s'"
  shows "can_proceed k s"
proof (cases "\<exists>n. r = Granted n")
  case True
  then obtain n where n: "r = Granted n" ..
  from assms(1,2) obtain w where "store_get (snd_stream s) sid = Some w" "0 < n"
    "s' = s\<lparr>snd_conn := (snd_conn s)\<lparr>win_n := win_n (snd_conn s) - n\<rparr>,
            snd_stream := store_put sid (w\<lparr>win_n := win_n w - n\<rparr>) (snd_stream s)\<rparr>"
    unfolding n by (rule Reserve_loop_granted)
  with assms(3) show ?thesis
    by (auto simp: can_proceed_def split: option.splits if_splits)
next
  case False
  with Reserve_loop_not_granted [OF assms(1,2)] assms(3) show ?thesis
    by (auto simp: can_proceed_def split: option.splits)
qed

lemma can_proceed_waiting [simp]: "can_proceed k (s\<lparr>snd_waiting := j\<rparr>) = can_proceed k s"
  by (simp add: can_proceed_def split: option.splits)

lemma sender_apply_wakes:
  assumes "sender_ok s" "sender_op_ok op" "sender_apply op s = (r, s')" "sr_error r = None"
    and "\<not> can_proceed k s" "can_proceed k s'"
  shows "sr_broadcast r"
proof (cases op)
  case (SOpen sid)
  with assms show ?thesis
    by (auto simp: Sender_Open_def can_proceed_def split: if_splits sum.splits option.splits)
next
  case (SRetire sid)
  with assms show ?thesis by (auto simp: Sender_Retire_def split: if_splits)
next
  case (SCreditConn n)
  with assms show ?thesis by (auto simp: CreditConn_def split: if_splits option.splits prod.splits)
next
  case (SCreditStream sid n)
  with assms show ?thesis by (auto simp: CreditStream_def split: if_splits option.splits prod.splits)
next
  case (SSetInitial n)
  obtain e b s1 where x: "Sender_SetInitialSize n s = (e, b, s1)" by (metis prod_cases3)
  with Sender_SetInitialSize_cases [OF assms(1) _ x] assms SSetInitial show ?thesis
    by (auto simp: can_proceed_def)
next
  case (SClose reason)
  with assms show ?thesis by (auto simp: Sender_Close_def split: if_splits option.splits)
next
  case (SReserve sid want)
  with assms Reserve_loop_wakes_nobody [OF assms(1)] show ?thesis
    by (auto simp: Reserve_def split: prod.splits if_splits)
next
  case (SResume sid want)
  with assms Reserve_loop_wakes_nobody [of "s\<lparr>snd_waiting := snd_waiting s - 1\<rparr>" sid want _ _ k]
  show ?thesis by (auto simp: Reserve_resume_def split: prod.splits)
qed

text \<open>The reason for the end is permanent.\<close>

lemma Reserve_loop_err: "snd_err s = Some e \<Longrightarrow> Reserve_loop sid want s = (Failed e, s)"
  by (simp add: Reserve_loop_def)

lemma sender_apply_err:
  "snd_err s = Some e \<Longrightarrow> sender_apply op s = (r, s') \<Longrightarrow> snd_err s' = Some e"
  by (cases op)
     (auto simp: Sender_Open_def Sender_Retire_def CreditConn_def CreditStream_def Sender_SetInitialSize_def
        Sender_Close_def Reserve_def Reserve_resume_def Reserve_loop_err
       split: if_splits sum.splits option.splits)

lemma sender_run_err:
  "snd_err s = Some e \<Longrightarrow> snd_err (fst (sender_run ops s l)) = Some e"
proof (induction ops arbitrary: s l)
  case (Cons op ops)
  obtain r s1 where "sender_apply op s = (r, s1)" by fastforce
  with Cons sender_apply_err [OF Cons.prems this] show ?case by simp
qed simp

subsection \<open>Properties\<close>

text \<open>What a reservation does: \<open>Reserve\<close> takes between one octet and what was asked, exactly
  the smallest of the request and both windows' credit, debits the connection's and the stream's
  window by the same amount and no other stream's; it parks if and only if the connection lives,
  the stream is open and one of the two windows has no credit.\<close>

theorem Reserve_takes_from_both:
  assumes "sender_ok s" "0 < want" "Reserve sid want s = (r, s')"
  shows "(r = Granted n \<longrightarrow> 1 \<le> n \<and> n \<le> want \<and>
            n = min want (min (ConnAvailable s) (fst (Sender_Available sid s))) \<and>
            ConnAvailable s' = ConnAvailable s - n \<and>
            Sender_Available sid s' = (fst (Sender_Available sid s) - n, True) \<and>
            (\<forall>k. k \<noteq> sid \<longrightarrow> Sender_Available k s' = Sender_Available k s)) \<and>
         (r = Parked \<longleftrightarrow> snd_err s = None \<and> snd (Sender_Available sid s) \<and>
            (ConnAvailable s \<le> 0 \<or> fst (Sender_Available sid s) \<le> 0)) \<and>
         (snd_err s = None \<longrightarrow> \<not> snd (Sender_Available sid s) \<longrightarrow> r = Failed ErrStreamGone)"
  using assms(2,3) unfolding Reserve_def Reserve_loop_cases [OF assms(1)]
  by (auto simp: Let_def ConnAvailable_def Sender_Available_def Window_Available_def
      split: option.splits if_splits)

lemma Reserve_takes_from_both_witness:
  "fst (Reserve 1 70000 (snd (Sender_Open 1 NewSender))) = Granted 65535 \<and>
   ConnAvailable (snd (Reserve 1 70000 (snd (Sender_Open 1 NewSender)))) = 0"
proof -
  let ?s = "snd (Sender_Open 1 NewSender)"
  obtain e where o: "Sender_Open 1 NewSender = (e, ?s)" by (metis prod.collapse)
  have s: "?s = NewSender\<lparr>snd_stream := [(1, \<lparr>win_streamID = 1, win_initial = 65535, win_n = 65535\<rparr>)]\<rparr>"
    by (simp add: Sender_Open_def NewSender_def NewStreamWindow_def)
  have g: "fst (Reserve 1 70000 ?s) = Granted 65535"
    unfolding s by (simp add: Reserve_def Reserve_loop_def NewSender_def NewConnWindow_def Window_Available_def
        Consume_def)
  have c: "ConnAvailable ?s = 65535"
    unfolding s by (simp add: ConnAvailable_def Window_Available_def NewSender_def NewConnWindow_def)
  have ok: "sender_ok ?s" by (rule Sender_Open_ok [OF NewSender_ok o])
  show ?thesis
    using Reserve_takes_from_both [OF ok _ prod.collapse [symmetric], of 70000 1 65535] g c
    by simp
qed

text \<open>C13: Flow control is never overrun: after any interleaving of openings, credits, settings,
  retirements and reservations on a new connection, the octets reserved on the connection are at
  most its 65,535 and what stream-0 WINDOW_UPDATEs granted, the difference being the window; and
  on every open stream the window is the setting in force plus the credit granted less the octets
  reserved since it was opened.\<close>

theorem sender_conserves_credit:
  assumes "list_all sender_op_ok ops" "settings_applied ops NewSender"
    and "sender_run ops NewSender no_ledger = (s, l)"
  shows "ConnAvailable s = 65535 + conn_credit l - conn_reserved l \<and>
         conn_reserved l \<le> 65535 + conn_credit l \<and> ConnAvailable s \<le> 2 ^ 31 - 1 \<and>
         (Sender_Available sid s = (a, True) \<longrightarrow>
            a = uint (InitialSize s) + stream_credit l sid - stream_reserved l sid \<and> a \<le> 2 ^ 31 - 1)"
proof -
  from sender_run_balance [OF NewSender_ok in_balance_new assms]
  have *: "sender_ok s" "in_balance s l" by simp_all
  have "a = uint (snd_initial s) + stream_credit l sid - stream_reserved l sid \<and> a \<le> 2 ^ 31 - 1"
    if "Sender_Available sid s = (a, True)"
    using that in_balance_stream [OF *(2), of sid] stream_window_ok [OF *(1), of sid]
    by (auto simp: Sender_Available_def Window_Available_def window_ok_def split: option.splits)
  with * show ?thesis
    by (auto simp: in_balance_def sender_ok_def window_ok_def ConnAvailable_def InitialSize_def Window_Available_def)
qed

lemma sender_conserves_credit_witness:
  "ConnAvailable (fst (sender_run [SOpen 1, SReserve 1 60000, SCreditConn 10, SSetInitial 0, SReserve 1 5]
     NewSender no_ledger)) = 65535 + 10 - 60000"
proof -
  let ?ops = "[SOpen 1, SReserve 1 60000, SCreditConn 10, SSetInitial 0, SReserve 1 5]"
  note ev = Sender_Open_def NewSender_def NewStreamWindow_def NewConnWindow_def Reserve_def Reserve_loop_def
    Window_Available_def Consume_def CreditConn_def Increase_def Sender_SetInitialSize_def
    Window_SetInitialSize_def sorted_keys_def no_ledger_def
  have ok: "settings_applied ?ops NewSender" by (simp add: ev)
  have l: "conn_credit (snd (sender_run ?ops NewSender no_ledger)) = 10 \<and>
      conn_reserved (snd (sender_run ?ops NewSender no_ledger)) = 60000" by (simp add: ev)
  show ?thesis
    using sender_conserves_credit [OF _ ok prod.collapse [symmetric]] l by simp
qed

text \<open>C14: No wake-up is lost: whenever a call that reports no error turns a state in which a writer on
  stream \<open>sid\<close> would park into one in which it would not, the call broadcasts, so the writer runs
  its loop again. Reservations never have to: they only take credit away.\<close>

theorem no_lost_wakeup:
  assumes "sender_ok s" "sender_op_ok op" "sender_apply op s = (r, s')" "sr_error r = None" "0 < want"
    and "fst (Reserve_loop sid want s) = Parked" "fst (Reserve_loop sid want s') \<noteq> Parked"
  shows "sr_broadcast r"
  using assms Reserve_loop_parks sender_apply_ok [OF assms(1-3)] sender_apply_wakes [OF assms(1-4), of sid]
  by blast

lemma no_lost_wakeup_witness:
  "sr_broadcast (fst (sender_apply (SSetInitial 10)
     (snd (Sender_Open 1 (NewSender\<lparr>snd_initial := 0\<rparr>)))))"
proof -
  let ?s = "snd (Sender_Open 1 (NewSender\<lparr>snd_initial := 0\<rparr>))"
  note ev = NewSender_def Sender_Open_def NewStreamWindow_def NewConnWindow_def Reserve_loop_def
    Window_Available_def Consume_def Sender_SetInitialSize_def Window_SetInitialSize_def sorted_keys_def
  have ok: "sender_ok ?s" by (simp add: sender_ok_def store_ok_def all_entries_def window_ok_def ev)
  show ?thesis
    by (rule no_lost_wakeup [OF ok _ prod.collapse [symmetric], of _ 5 1]) (simp_all add: ev)
qed

text \<open>The end of a connection reaches every writer: once \<open>Close\<close> was called with a reason, then
  whatever calls follow (another \<open>Close\<close> with another reason included), every \<open>Reserve\<close> and every
  parked writer that is woken returns that first reason, and none parks.\<close>

theorem Close_reaches_every_writer:
  assumes "snd_err s = None" "Sender_Close (Some e) s = (None, b, s1)" "0 < want"
  shows "b \<and> fst (Reserve sid want (fst (sender_run ops s1 l))) = Failed e \<and>
         fst (Reserve_resume sid want (fst (sender_run ops s1 l))) = Failed e"
proof -
  from assms(1,2) have "b" "snd_err s1 = Some e" by (auto simp: Sender_Close_def)
  with sender_run_err [OF this(2), of ops l] assms(3) show ?thesis
    by (simp add: Reserve_def Reserve_resume_def Reserve_loop_err)
qed

lemma Close_reaches_every_writer_witness:
  "fst (Reserve 1 9 (fst (sender_run [SClose (Some Panic), SCreditConn 4]
     (NewSender\<lparr>snd_err := Some ErrStreamGone\<rparr>) no_ledger))) = Failed ErrStreamGone"
  using Close_reaches_every_writer [of NewSender ErrStreamGone True "NewSender\<lparr>snd_err := Some ErrStreamGone\<rparr>" 9 1
      "[SClose (Some Panic), SCreditConn 4]" no_ledger]
  by (simp add: Sender_Close_def NewSender_def)

end
