(* ===== verification/StreamTable.thy ===== *)
theory StreamTable
  imports FrameCodec Sender Limits
begin

text \<open>
  \<^verbatim>\<open>internal/stream/stream.go\<close> and \<^verbatim>\<open>table.go\<close>: the table of a connection's streams. A \<open>*Stream\<close> is
  the identifier it was made with, which is used once (\<open>streams_ok\<close>), and its fields are in
  \<open>tb_objects\<close>; the map \<open>streams\<close> is the list of identifiers in it. The interfaces \<open>HeaderCodec\<close> and
  \<open>Requests\<close> are the functions of \<open>deps\<close> with their states \<open>tb_codec\<close> and \<open>tb_reqs\<close>. Results of
  \<open>Writer\<close> and \<open>Encoder\<close> calls are never used, so the calls are recorded in \<open>tb_out\<close>, latest last.

  Nothing runs in the table after a call to \<open>Requests\<close>, so a report that a request makes during the
  call is the same as one made next, which is how the histories of \<open>TableSteps\<close> have it.
\<close>

subsection \<open>Streams (stream.go)\<close>

datatype stream_state = StateIdle | StateOpen | StateHalfClosedRemote | StateHalfClosedLocal | StateClosed

definition State_String :: "stream_state \<Rightarrow> string" where
  "State_String s =
     (case s of
        StateIdle \<Rightarrow> ''idle''
      | StateOpen \<Rightarrow> ''open''
      | StateHalfClosedRemote \<Rightarrow> ''half-closed (remote)''
      | StateHalfClosedLocal \<Rightarrow> ''half-closed (local)''
      | StateClosed \<Rightarrow> ''closed'')"

record stream =
  st_id :: u32
  st_state :: stream_state
  st_recv :: window

definition recvEnd :: "stream \<Rightarrow> stream" where
  "recvEnd s =
     (if st_state s = StateHalfClosedLocal then s\<lparr>st_state := StateClosed\<rparr>
      else s\<lparr>st_state := StateHalfClosedRemote\<rparr>)"

definition peerDone :: "stream \<Rightarrow> bool" where
  "peerDone s \<longleftrightarrow> st_state s = StateHalfClosedRemote"

subsection \<open>Credit to return (table.go)\<close>

record recv_credit =
  rc_pending :: int
  rc_granted :: int

definition no_credit :: recv_credit where
  "no_credit = \<lparr>rc_pending = 0, rc_granted = 0\<rparr>"

definition earn :: "int \<Rightarrow> recv_credit \<Rightarrow> u32 \<times> recv_credit" where
  "earn n c =
     (let c = c\<lparr>rc_pending := rc_pending c + n\<rparr> in
      if rc_pending c < ReplenishThreshold then (0, c)
      else
        let due = rc_pending c;
            due = (if due > flow_MaxWindowSize then flow_MaxWindowSize else due)
        in (word_of_int due, c\<lparr>rc_pending := rc_pending c - due, rc_granted := rc_granted c + due\<rparr>))"

subsection \<open>The table\<close>

record block =
  bk_id :: u32
  bk_s :: "u32 option"
  bk_buf :: "byte list"
  bk_endStream :: bool
  bk_verdict :: "error option"

datatype table_effect = Enqueued frame | Forgot u32 | SetEncoderTable int | SetEncoderList u32

record ('c, 'r) table =
  tb_codec :: 'c
  tb_reqs :: 'r
  tb_maxConcurrent :: u32
  tb_objects :: "stream store"
  tb_streams :: "u32 list"
  tb_highestRemote :: u32
  tb_connRecv :: window
  tb_sender :: sender
  tb_resets :: bucket
  tb_assembling :: "block option"
  tb_sent :: "u32 list"
  tb_connCredit :: recv_credit
  tb_streamCredit :: "recv_credit store"
  tb_out :: "table_effect list"

record ('c, 'r) deps =
  dep_Decode :: "byte list \<Rightarrow> 'c \<Rightarrow> (error + field list) \<times> 'c"
  dep_Headers :: "stream \<Rightarrow> field list \<Rightarrow> bool \<Rightarrow> 'r \<Rightarrow> error option \<times> 'r"
  dep_Data :: "stream \<Rightarrow> byte list \<Rightarrow> bool \<Rightarrow> 'r \<Rightarrow> error option \<times> 'r"
  dep_Trailers :: "stream \<Rightarrow> field list \<Rightarrow> 'r \<Rightarrow> error option \<times> 'r"
  dep_Canceled :: "stream \<Rightarrow> errcode \<Rightarrow> 'r \<Rightarrow> 'r"

text \<open>\<open>New\<close>: the collaborators are given (a nil one panics), \<open>MaxConcurrent\<close> 0 is the default, and a nil
  \<open>Sender\<close> is a new one.\<close>

definition Table_New :: "'c option \<Rightarrow> 'r option \<Rightarrow> u32 \<Rightarrow> sender option \<Rightarrow> int \<Rightarrow> error + ('c, 'r) table" where
  "Table_New codec reqs maxConcurrent sndr now =
     (case codec of
        None \<Rightarrow> Inl Panic
      | Some c \<Rightarrow>
          (case reqs of
             None \<Rightarrow> Inl Panic
           | Some r \<Rightarrow>
               Inr \<lparr>tb_codec = c, tb_reqs = r,
                    tb_maxConcurrent =
                      (if maxConcurrent = 0 then word_of_nat MaxConcurrentStreams else maxConcurrent),
                    tb_objects = [], tb_streams = [], tb_highestRemote = 0,
                    tb_connRecv = NewConnWindow,
                    tb_sender = (case sndr of None \<Rightarrow> NewSender | Some s \<Rightarrow> s),
                    tb_resets = NewResetBucket now, tb_assembling = None, tb_sent = [],
                    tb_connCredit = no_credit, tb_streamCredit = [], tb_out = []\<rparr>))"

definition Table_Len :: "('c, 'r) table \<Rightarrow> nat" where
  "Table_Len t = length (tb_streams t)"

definition Table_Stream :: "u32 \<Rightarrow> ('c, 'r) table \<Rightarrow> stream option" where
  "Table_Stream sid t = (if sid \<in> set (tb_streams t) then store_get (tb_objects t) sid else None)"

definition StateOf :: "u32 \<Rightarrow> ('c, 'r) table \<Rightarrow> stream_state" where
  "StateOf sid t =
     (case Table_Stream sid t of
        Some s \<Rightarrow> st_state s
      | None \<Rightarrow>
          if sid mod 2 = 0 then StateIdle
          else if sid > tb_highestRemote t then StateIdle
          else StateClosed)"

definition Live :: "u32 \<Rightarrow> ('c, 'r) table \<Rightarrow> bool" where
  "Live sid t \<longleftrightarrow> Table_Stream sid t \<noteq> None"

text \<open>Writing through a \<open>*Stream\<close>.\<close>

definition set_stream :: "stream \<Rightarrow> ('c, 'r) table \<Rightarrow> ('c, 'r) table" where
  "set_stream s t = t\<lparr>tb_objects := store_put (st_id s) s (tb_objects t)\<rparr>"

definition table_emit :: "table_effect \<Rightarrow> ('c, 'r) table \<Rightarrow> ('c, 'r) table" where
  "table_emit e t = t\<lparr>tb_out := tb_out t @ [e]\<rparr>"

definition retire :: "stream \<Rightarrow> ('c, 'r) table \<Rightarrow> ('c, 'r) table" where
  "retire s t =
     (if st_state s = StateClosed
      then table_emit (Forgot (st_id s))
             (t\<lparr>tb_streams := removeAll (st_id s) (tb_streams t),
                tb_sender := snd (Sender_Retire (st_id s) (tb_sender t))\<rparr>)
      else t)"

definition SendEnd :: "stream \<Rightarrow> ('c, 'r) table \<Rightarrow> ('c, 'r) table" where
  "SendEnd s t =
     (if st_state s = StateHalfClosedRemote
      then let s = s\<lparr>st_state := StateClosed\<rparr> in retire s (set_stream s t)
      else set_stream (s\<lparr>st_state := StateHalfClosedLocal\<rparr>) t)"

definition ReportSendEnd :: "u32 \<Rightarrow> ('c, 'r) table \<Rightarrow> ('c, 'r) table" where
  "ReportSendEnd sid t = t\<lparr>tb_sent := tb_sent t @ [sid]\<rparr>"

fun drainSent_loop :: "u32 list \<Rightarrow> ('c, 'r) table \<Rightarrow> ('c, 'r) table" where
  "drainSent_loop [] t = t"
| "drainSent_loop (sid # ids) t =
     drainSent_loop ids (case Table_Stream sid t of None \<Rightarrow> t | Some s \<Rightarrow> SendEnd s t)"

definition drainSent :: "('c, 'r) table \<Rightarrow> ('c, 'r) table" where
  "drainSent t = (let sent = tb_sent t in drainSent_loop sent (t\<lparr>tb_sent := []\<rparr>))"

definition enqueueWindowUpdate :: "u32 \<Rightarrow> u32 \<Rightarrow> ('c, 'r) table \<Rightarrow> ('c, 'r) table" where
  "enqueueWindowUpdate sid increment t =
     table_emit (Enqueued (WindowUpdateFrame \<lparr>wf_StreamID = sid, wf_Increment = increment\<rparr>)) t"

definition ReportConsumed :: "u32 \<Rightarrow> int \<Rightarrow> bool \<Rightarrow> ('c, 'r) table \<Rightarrow> ('c, 'r) table" where
  "ReportConsumed sid n still_open t =
     (if n \<le> 0 then t
      else
        (case earn n (tb_connCredit t) of
           (conn, cc) \<Rightarrow>
             (let t = t\<lparr>tb_connCredit := cc\<rparr>;
                  (strm, t) =
                    (if still_open
                     then (case earn n (case store_get (tb_streamCredit t) sid of
                                          None \<Rightarrow> no_credit | Some c \<Rightarrow> c) of
                             (strm, c) \<Rightarrow>
                               (strm, t\<lparr>tb_streamCredit := store_put sid c (tb_streamCredit t)\<rparr>))
                     else (0, t));
                  t = (if conn > 0 then enqueueWindowUpdate 0 conn t else t)
              in if strm > 0 then enqueueWindowUpdate sid strm t else t)))"

text \<open>The sweep of \<open>drainCredit\<close> over \<open>streamCredit\<close>: what to apply to whom, and what is kept.\<close>

fun sweep_credit :: "u32 list \<Rightarrow> recv_credit store \<Rightarrow> (u32 \<times> int) list \<times> recv_credit store" where
  "sweep_credit live [] = ([], [])"
| "sweep_credit live ((sid, c) # m) =
     (case sweep_credit live m of
        (due, kept) \<Rightarrow>
          (let due = (if rc_granted c > 0 then (sid, rc_granted c) # due else due);
               c = (if rc_granted c > 0 then c\<lparr>rc_granted := 0\<rparr> else c)
           in (due, if sid \<notin> set live \<and> rc_pending c = 0 \<and> rc_granted c = 0 then kept
                    else (sid, c) # kept)))"

text \<open>Go visits the map of due credit in no particular order; here it is the order of the sweep.\<close>

fun apply_credit :: "(u32 \<times> int) list \<Rightarrow> ('c, 'r) table \<Rightarrow> error option \<times> ('c, 'r) table" where
  "apply_credit [] t = (None, t)"
| "apply_credit ((sid, n) # due) t =
     (case Table_Stream sid t of
        None \<Rightarrow> apply_credit due t
      | Some s \<Rightarrow>
          (case Increase (word_of_int n) (st_recv s) of
             (Some e, w) \<Rightarrow> (Some e, set_stream (s\<lparr>st_recv := w\<rparr>) t)
           | (None, w) \<Rightarrow> apply_credit due (set_stream (s\<lparr>st_recv := w\<rparr>) t)))"

definition drainCredit :: "('c, 'r) table \<Rightarrow> error option \<times> ('c, 'r) table" where
  "drainCredit t =
     (let conn = rc_granted (tb_connCredit t);
          (due, kept) = sweep_credit (tb_streams t) (tb_streamCredit t);
          t = t\<lparr>tb_connCredit := (tb_connCredit t)\<lparr>rc_granted := 0\<rparr>, tb_streamCredit := kept\<rparr>
      in if conn > 0
         then (case Increase (word_of_int conn) (tb_connRecv t) of
                 (Some e, w) \<Rightarrow> (Some e, t\<lparr>tb_connRecv := w\<rparr>)
               | (None, w) \<Rightarrow> apply_credit due (t\<lparr>tb_connRecv := w\<rparr>))
         else apply_credit due t)"

subsection \<open>Frames\<close>

definition admit :: "headers_frame \<Rightarrow> ('c, 'r) table \<Rightarrow> error option" where
  "admit f t =
     (if hf_Priority f \<and> hf_StreamDependency f = hf_StreamID f
      then Some (StreamError (hf_StreamID f) ProtocolError)
      else if word_of_nat (length (tb_streams t)) \<ge> tb_maxConcurrent t
      then Some (StreamError (hf_StreamID f) RefusedStream)
      else None)"

definition completeBlock ::
  "('c, 'r) deps \<Rightarrow> block \<Rightarrow> ('c, 'r) table \<Rightarrow> error option \<times> ('c, 'r) table" where
  "completeBlock d b t =
     (let t = t\<lparr>tb_assembling := None\<rparr> in
      case dep_Decode d (bk_buf b) (tb_codec t) of
        (Inl e, c) \<Rightarrow> (Some (ConnError CompressionError), t\<lparr>tb_codec := c\<rparr>)
      | (Inr flds, c) \<Rightarrow>
          (let t = t\<lparr>tb_codec := c\<rparr> in
           case bk_verdict b of
             Some e \<Rightarrow> (Some e, t)
           | None \<Rightarrow>
               (case bk_s b of
                  Some ptr \<Rightarrow>
                    (case store_get (tb_objects t) ptr of
                       None \<Rightarrow> (Some Panic, t)
                     | Some s \<Rightarrow>
                         (let s = recvEnd s;
                              t = retire s (set_stream s t);
                              (e, r) = dep_Trailers d s flds (tb_reqs t)
                          in (e, t\<lparr>tb_reqs := r\<rparr>)))
                | None \<Rightarrow>
                    (case NewStreamWindow (bk_id b) InitialWindowSize of
                       Inl e \<Rightarrow> (Some e, t)
                     | Inr w \<Rightarrow>
                         (let s = \<lparr>st_id = bk_id b, st_state = StateOpen, st_recv = w\<rparr>;
                              t = set_stream s t;
                              t = t\<lparr>tb_streams := List.insert (bk_id b) (tb_streams t)\<rparr>
                          in case Sender_Open (bk_id b) (tb_sender t) of
                               (Some e, sn) \<Rightarrow> (Some e, t\<lparr>tb_sender := sn\<rparr>)
                             | (None, sn) \<Rightarrow>
                                 (let t = t\<lparr>tb_sender := sn\<rparr>;
                                      s = (if bk_endStream b then recvEnd s else s);
                                      t = set_stream s t;
                                      (e, r) = dep_Headers d s flds (bk_endStream b) (tb_reqs t)
                                  in (e, t\<lparr>tb_reqs := r\<rparr>)))))))"

text \<open>\<open>assembling\<close> is set by every caller of \<open>extend\<close>; a nil one would panic.\<close>

definition extend ::
  "('c, 'r) deps \<Rightarrow> byte list \<Rightarrow> bool \<Rightarrow> ('c, 'r) table \<Rightarrow> error option \<times> ('c, 'r) table" where
  "extend d fragment endHeaders t =
     (case tb_assembling t of
        None \<Rightarrow> (Some Panic, t)
      | Some b \<Rightarrow>
          (let b = b\<lparr>bk_buf := bk_buf b @ fragment\<rparr>;
               t = t\<lparr>tb_assembling := Some b\<rparr>
           in if \<not> endHeaders then (None, t) else completeBlock d b t))"

definition openStream ::
  "('c, 'r) deps \<Rightarrow> headers_frame \<Rightarrow> ('c, 'r) table \<Rightarrow> error option \<times> ('c, 'r) table" where
  "openStream d f t =
     (if hf_StreamID f mod 2 = 0 then (Some (ConnError ProtocolError), t)
      else if hf_StreamID f \<le> tb_highestRemote t then (Some (ConnError ProtocolError), t)
      else
        let t = t\<lparr>tb_highestRemote := hf_StreamID f\<rparr>;
            t = t\<lparr>tb_assembling :=
                    Some \<lparr>bk_id = hf_StreamID f, bk_s = None, bk_buf = [], bk_endStream = hf_EndStream f,
                          bk_verdict = admit f t\<rparr>\<rparr>
        in extend d (hf_Fragment f) (hf_EndHeaders f) t)"

definition beginTrailers ::
  "('c, 'r) deps \<Rightarrow> headers_frame \<Rightarrow> stream \<Rightarrow> ('c, 'r) table \<Rightarrow> error option \<times> ('c, 'r) table" where
  "beginTrailers d f s t =
     (let verdict =
            (if peerDone s then Some (StreamError (hf_StreamID f) StreamClosed)
             else if \<not> hf_EndStream f then Some (StreamError (hf_StreamID f) ProtocolError)
             else None)
      in extend d (hf_Fragment f) (hf_EndHeaders f)
           (t\<lparr>tb_assembling :=
                Some \<lparr>bk_id = hf_StreamID f, bk_s = Some (st_id s), bk_buf = [],
                      bk_endStream = hf_EndStream f, bk_verdict = verdict\<rparr>\<rparr>))"

definition table_headers ::
  "('c, 'r) deps \<Rightarrow> headers_frame \<Rightarrow> ('c, 'r) table \<Rightarrow> error option \<times> ('c, 'r) table" where
  "table_headers d f t =
     (if tb_assembling t \<noteq> None then (Some (ConnError ProtocolError), t)
      else
        (case Table_Stream (hf_StreamID f) t of
           Some s \<Rightarrow> beginTrailers d f s t
         | None \<Rightarrow> openStream d f t))"

definition table_continuation ::
  "('c, 'r) deps \<Rightarrow> continuation_frame \<Rightarrow> ('c, 'r) table \<Rightarrow> error option \<times> ('c, 'r) table" where
  "table_continuation d f t =
     (case tb_assembling t of
        None \<Rightarrow> (Some (ConnError ProtocolError), t)
      | Some b \<Rightarrow>
          if cf_StreamID f \<noteq> bk_id b then (Some (ConnError ProtocolError), t)
          else extend d (cf_Fragment f) (cf_EndHeaders f) t)"

definition absent :: "u32 \<Rightarrow> ('c, 'r) table \<Rightarrow> error" where
  "absent sid t =
     (if StateOf sid t = StateIdle then ConnError ProtocolError else StreamError sid StreamClosed)"

definition table_data ::
  "('c, 'r) deps \<Rightarrow> data_frame \<Rightarrow> ('c, 'r) table \<Rightarrow> error option \<times> ('c, 'r) table" where
  "table_data d f t =
     (let n = Data_PayloadLen f in
      case Consume n (tb_connRecv t) of
        (Some e, cw) \<Rightarrow> (Some e, t\<lparr>tb_connRecv := cw\<rparr>)
      | (None, cw) \<Rightarrow>
          (let t = t\<lparr>tb_connRecv := cw\<rparr> in
           case Table_Stream (df_StreamID f) t of
             None \<Rightarrow> (Some (absent (df_StreamID f) t), t)
           | Some s \<Rightarrow>
               if peerDone s then (Some (StreamError (df_StreamID f) StreamClosed), t)
               else
                 (case Consume n (st_recv s) of
                    (Some e, w) \<Rightarrow> (Some e, set_stream (s\<lparr>st_recv := w\<rparr>) t)
                  | (None, w) \<Rightarrow>
                      (let s = s\<lparr>st_recv := w\<rparr>;
                           s = (if df_EndStream f then recvEnd s else s);
                           t = set_stream s t;
                           t = (if df_EndStream f then retire s t else t);
                           (e, r) = dep_Data d s (df_Data f) (df_EndStream f) (tb_reqs t)
                       in (e, t\<lparr>tb_reqs := r\<rparr>)))))"

definition rstStream ::
  "('c, 'r) deps \<Rightarrow> int \<Rightarrow> rst_frame \<Rightarrow> ('c, 'r) table \<Rightarrow> error option \<times> ('c, 'r) table" where
  "rstStream d now f t =
     (if StateOf (rf_StreamID f) t = StateIdle then (Some (ConnError ProtocolError), t)
      else
        (case Allow now (tb_resets t) of
           (ok, b) \<Rightarrow>
             (let t = t\<lparr>tb_resets := b\<rparr> in
              if \<not> ok then (Some (ConnError EnhanceYourCalm), t)
              else
                (case Table_Stream (rf_StreamID f) t of
                   None \<Rightarrow> (None, t)
                 | Some s \<Rightarrow>
                     (let s = s\<lparr>st_state := StateClosed\<rparr>;
                          t = retire s (set_stream s t)
                      in (None, t\<lparr>tb_reqs := dep_Canceled d s (rf_ErrCode f) (tb_reqs t)\<rparr>))))))"

definition table_windowUpdate :: "window_update_frame \<Rightarrow> ('c, 'r) table \<Rightarrow> error option \<times> ('c, 'r) table" where
  "table_windowUpdate f t =
     (if Table_Stream (wf_StreamID f) t = None then
        (if StateOf (wf_StreamID f) t = StateIdle then (Some (ConnError ProtocolError), t) else (None, t))
      else
        (case CreditStream (wf_StreamID f) (wf_Increment f) (tb_sender t) of
           (e, _, sn) \<Rightarrow> (e, t\<lparr>tb_sender := sn\<rparr>)))"

fun table_dispatch ::
  "('c, 'r) deps \<Rightarrow> int \<Rightarrow> frame \<Rightarrow> ('c, 'r) table \<Rightarrow> error option \<times> ('c, 'r) table" where
  "table_dispatch d now (HeadersFrame f) t = table_headers d f t"
| "table_dispatch d now (ContinuationFrame f) t = table_continuation d f t"
| "table_dispatch d now (DataFrame f) t = table_data d f t"
| "table_dispatch d now (RSTStreamFrame f) t = rstStream d now f t"
| "table_dispatch d now (PriorityFrame f) t = (None, t)"
| "table_dispatch d now (WindowUpdateFrame f) t = table_windowUpdate f t"
| "table_dispatch d now f t = (Some (ConnError InternalError), t)"

definition HandleFrame ::
  "('c, 'r) deps \<Rightarrow> int \<Rightarrow> frame \<Rightarrow> ('c, 'r) table \<Rightarrow> error option \<times> ('c, 'r) table" where
  "HandleFrame d now f t =
     (case drainCredit (drainSent t) of
        (Some e, t) \<Rightarrow> (Some e, t)
      | (None, t) \<Rightarrow> table_dispatch d now f t)"

subsection \<open>What the connection layer passes on\<close>

definition ConnWindowUpdate :: "u32 \<Rightarrow> ('c, 'r) table \<Rightarrow> error option \<times> ('c, 'r) table" where
  "ConnWindowUpdate increment t =
     (case CreditConn increment (tb_sender t) of (e, _, sn) \<Rightarrow> (e, t\<lparr>tb_sender := sn\<rparr>))"

definition SetInitialWindowSize :: "u32 \<Rightarrow> ('c, 'r) table \<Rightarrow> error option \<times> ('c, 'r) table" where
  "SetInitialWindowSize n t =
     (case Sender_SetInitialSize n (tb_sender t) of (e, _, sn) \<Rightarrow> (e, t\<lparr>tb_sender := sn\<rparr>))"

definition SetHeaderTableSize :: "u32 \<Rightarrow> ('c, 'r) table \<Rightarrow> ('c, 'r) table" where
  "SetHeaderTableSize n t = table_emit (SetEncoderTable (uint (min n MaxEncoderTableSize))) t"

definition SetMaxHeaderListSize :: "u32 \<Rightarrow> ('c, 'r) table \<Rightarrow> ('c, 'r) table" where
  "SetMaxHeaderListSize n t = table_emit (SetEncoderList n) t"

definition Table_Close :: "error option \<Rightarrow> ('c, 'r) table \<Rightarrow> error option \<times> ('c, 'r) table" where
  "Table_Close err t =
     (case Sender_Close err (tb_sender t) of (e, _, sn) \<Rightarrow> (e, t\<lparr>tb_sender := sn\<rparr>))"

end
