(* ===== verification/TableOk.thy ===== *)
theory TableOk
  imports StreamTable
begin

text \<open>
  The invariant of the stream table and that every operation keeps it: the live streams are odd
  identifiers the peer has used, in a live state, at most \<open>maxConcurrent\<close> of them, and the send half
  has a window for exactly those.
\<close>

definition live_state :: "stream_state \<Rightarrow> bool" where
  "live_state s \<longleftrightarrow> s \<in> {StateOpen, StateHalfClosedRemote, StateHalfClosedLocal}"

lemma live_state_simps [simp]:
  "\<not> live_state StateIdle" "live_state StateOpen" "live_state StateHalfClosedRemote"
  "live_state StateHalfClosedLocal" "\<not> live_state StateClosed"
  by (simp_all add: live_state_def)

lemma live_state_iff: "live_state s \<longleftrightarrow> s \<noteq> StateIdle \<and> s \<noteq> StateClosed"
  by (cases s) simp_all

definition recv_window_ok :: "window \<Rightarrow> bool" where
  "recv_window_ok w \<longleftrightarrow> win_initial w = 65535 \<and> 0 \<le> win_n w \<and> win_n w \<le> flow_MaxWindowSize"

definition object_ok :: "u32 \<Rightarrow> u32 \<Rightarrow> stream \<Rightarrow> bool" where
  "object_ok highest sid s \<longleftrightarrow> st_id s = sid \<and> sid mod 2 \<noteq> 0 \<and> sid \<le> highest \<and>
     st_state s \<noteq> StateIdle \<and> win_streamID (st_recv s) = sid \<and> recv_window_ok (st_recv s)"

fun block_ok :: "u32 \<Rightarrow> stream store \<Rightarrow> nat \<Rightarrow> u32 \<Rightarrow> block option \<Rightarrow> bool" where
  "block_ok highest objs n maxc None \<longleftrightarrow> True"
| "block_ok highest objs n maxc (Some b) \<longleftrightarrow> bk_id b mod 2 \<noteq> 0 \<and> bk_id b \<le> highest \<and> bk_verdict b \<noteq> Some Panic \<and>
     (case bk_s b of
        None \<Rightarrow> store_get objs (bk_id b) = None \<and> (bk_verdict b = None \<longrightarrow> n < unat maxc)
      | Some p \<Rightarrow> p = bk_id b \<and> store_get objs p \<noteq> None)"

definition streams_ok :: "('c, 'r) table \<Rightarrow> bool" where
  "streams_ok t \<longleftrightarrow>
     distinct (tb_streams t) \<and> length (tb_streams t) \<le> unat (tb_maxConcurrent t) \<and>
     (\<forall>sid\<in>set (tb_streams t). \<exists>s. store_get (tb_objects t) sid = Some s \<and> live_state (st_state s)) \<and>
     all_entries (object_ok (tb_highestRemote t)) (tb_objects t) \<and>
     sender_ok (tb_sender t) \<and>
     (\<forall>sid. store_get (snd_stream (tb_sender t)) sid \<noteq> None \<longleftrightarrow> sid \<in> set (tb_streams t)) \<and>
     recv_window_ok (tb_connRecv t) \<and> win_streamID (tb_connRecv t) = 0 \<and>
     block_ok (tb_highestRemote t) (tb_objects t) (length (tb_streams t)) (tb_maxConcurrent t)
       (tb_assembling t)"

text \<open>Fields the invariant does not read.\<close>

lemma streams_ok_frame [simp]:
  "streams_ok (t\<lparr>tb_codec := c\<rparr>) = streams_ok t"
  "streams_ok (t\<lparr>tb_reqs := r\<rparr>) = streams_ok t"
  "streams_ok (t\<lparr>tb_resets := b\<rparr>) = streams_ok t"
  "streams_ok (t\<lparr>tb_sent := l\<rparr>) = streams_ok t"
  "streams_ok (t\<lparr>tb_connCredit := cc\<rparr>) = streams_ok t"
  "streams_ok (t\<lparr>tb_streamCredit := m\<rparr>) = streams_ok t"
  "streams_ok (t\<lparr>tb_out := out\<rparr>) = streams_ok t"
  by (simp_all add: streams_ok_def)

lemma streams_ok_emit [simp]: "streams_ok (table_emit e t) = streams_ok t"
  by (simp add: table_emit_def)

lemma streams_ok_no_block [simp]: "streams_ok t \<Longrightarrow> streams_ok (t\<lparr>tb_assembling := None\<rparr>)"
  by (simp add: streams_ok_def)

lemma streams_ok_connRecv:
  "streams_ok t \<Longrightarrow> recv_window_ok w \<Longrightarrow> win_streamID w = 0 \<Longrightarrow> streams_ok (t\<lparr>tb_connRecv := w\<rparr>)"
  by (simp add: streams_ok_def)

lemma streams_ok_sender:
  "streams_ok t \<Longrightarrow> sender_ok s \<Longrightarrow>
     (\<And>k. (store_get (snd_stream s) k \<noteq> None) = (store_get (snd_stream (tb_sender t)) k \<noteq> None)) \<Longrightarrow>
     streams_ok (t\<lparr>tb_sender := s\<rparr>)"
  by (simp add: streams_ok_def)

lemma Table_StreamD:
  "streams_ok t \<Longrightarrow> Table_Stream sid t = Some s \<Longrightarrow>
     store_get (tb_objects t) sid = Some s \<and> sid \<in> set (tb_streams t) \<and> live_state (st_state s) \<and>
     object_ok (tb_highestRemote t) sid s"
  by (auto simp: Table_Stream_def streams_ok_def dest: all_entriesD split: if_splits)

lemma objectD:
  "streams_ok t \<Longrightarrow> store_get (tb_objects t) sid = Some s \<Longrightarrow> object_ok (tb_highestRemote t) sid s"
  by (auto simp: streams_ok_def dest: all_entriesD)

lemma Table_Stream_None: "streams_ok t \<Longrightarrow> Table_Stream sid t = None \<longleftrightarrow> sid \<notin> set (tb_streams t)"
  by (auto simp: Table_Stream_def streams_ok_def)

lemma Table_Stream_frame [simp]:
  "Table_Stream sid (t\<lparr>tb_connRecv := w\<rparr>) = Table_Stream sid t"
  "Table_Stream sid (t\<lparr>tb_resets := b\<rparr>) = Table_Stream sid t"
  "Table_Stream sid (t\<lparr>tb_codec := c\<rparr>) = Table_Stream sid t"
  "Table_Stream sid (t\<lparr>tb_reqs := r\<rparr>) = Table_Stream sid t"
  "Table_Stream sid (t\<lparr>tb_assembling := a\<rparr>) = Table_Stream sid t"
  "Table_Stream sid (t\<lparr>tb_sent := l\<rparr>) = Table_Stream sid t"
  "Table_Stream sid (t\<lparr>tb_connCredit := cc\<rparr>) = Table_Stream sid t"
  "Table_Stream sid (t\<lparr>tb_streamCredit := m\<rparr>) = Table_Stream sid t"
  "Table_Stream sid (t\<lparr>tb_out := out\<rparr>) = Table_Stream sid t"
  "Table_Stream sid (t\<lparr>tb_sender := sn\<rparr>) = Table_Stream sid t"
  "Table_Stream sid (t\<lparr>tb_highestRemote := h\<rparr>) = Table_Stream sid t"
  by (simp_all add: Table_Stream_def)

text \<open>Writing through a stream pointer, and retiring what that closed.\<close>

lemma set_stream_ok:
  assumes "streams_ok t" "store_get (tb_objects t) (st_id s) \<noteq> None"
    and "object_ok (tb_highestRemote t) (st_id s) s"
    and "st_id s \<in> set (tb_streams t) \<Longrightarrow> live_state (st_state s)"
  shows "streams_ok (set_stream s t)"
  using assms by (cases "tb_assembling t") (auto simp: streams_ok_def set_stream_def split: option.splits)

lemma Sender_Retire_ok: "sender_ok s \<Longrightarrow> sender_ok (snd (Sender_Retire sid s))"
  by (simp add: Sender_Retire_def sender_ok_def)

lemma Sender_Retire_get:
  "store_get (snd_stream (snd (Sender_Retire sid s))) k = (if k = sid then None else store_get (snd_stream s) k)"
  by (auto simp: Sender_Retire_def)

lemma removeAll_distinct_length: "distinct xs \<Longrightarrow> length (removeAll x xs) \<le> length xs"
  by (simp add: length_filter_le removeAll_filter_not_eq)

lemma retire_set_stream_ok:
  assumes "streams_ok t" "store_get (tb_objects t) (st_id s) \<noteq> None"
    and "object_ok (tb_highestRemote t) (st_id s) s"
  shows "streams_ok (retire s (set_stream s t))"
proof (cases "st_state s = StateClosed")
  case True
  let ?l = "removeAll (st_id s) (tb_streams t)"
  have len: "length ?l \<le> length (tb_streams t)"
    by (simp add: length_filter_le removeAll_filter_not_eq)
  have "block_ok (tb_highestRemote t) (store_put (st_id s) s (tb_objects t)) (length ?l)
      (tb_maxConcurrent t) (tb_assembling t)"
    using assms(1,2) by (cases "tb_assembling t")
      (auto simp: streams_ok_def intro: le_less_trans [OF len] split: option.splits)
  with assms len True show ?thesis
    by (auto simp: retire_def set_stream_def table_emit_def streams_ok_def Sender_Retire_ok Sender_Retire_get
        distinct_removeAll intro: order_trans [OF len])
next
  case False
  with assms have "live_state (st_state s)" by (simp add: live_state_iff object_ok_def)
  with assms set_stream_ok show ?thesis by (simp add: retire_def False)
qed

subsection \<open>The operations\<close>

lemma recvEnd_simps [simp]:
  "st_id (recvEnd s) = st_id s" "st_recv (recvEnd s) = st_recv s" "st_state (recvEnd s) \<noteq> StateIdle"
  "st_state (recvEnd s) \<noteq> StateOpen"
  by (simp_all add: recvEnd_def)

lemma object_ok_state:
  "object_ok h sid s \<Longrightarrow> x \<noteq> StateIdle \<Longrightarrow> object_ok h sid (s\<lparr>st_state := x\<rparr>)"
  by (simp add: object_ok_def)

lemma object_ok_recvEnd: "object_ok h sid s \<Longrightarrow> object_ok h sid (recvEnd s)"
  by (simp add: object_ok_def)

lemma SendEnd_ok:
  assumes "streams_ok t" "Table_Stream sid t = Some s"
  shows "streams_ok (SendEnd s t)"
proof -
  note * = Table_StreamD [OF assms]
  then have sid: "st_id s = sid" by (simp add: object_ok_def)
  show ?thesis
    using * assms(1) sid unfolding SendEnd_def Let_def
    by (auto intro!: retire_set_stream_ok set_stream_ok object_ok_state)
qed

lemma drainSent_loop_ok: "streams_ok t \<Longrightarrow> streams_ok (drainSent_loop ids t)"
  by (induction ids t rule: drainSent_loop.induct) (auto simp: SendEnd_ok split: option.split)

lemma drainSent_ok: "streams_ok t \<Longrightarrow> streams_ok (drainSent t)"
  by (simp add: drainSent_def Let_def drainSent_loop_ok)

lemma Increase_recv_ok: "recv_window_ok w \<Longrightarrow> Increase n w = (e, w') \<Longrightarrow> recv_window_ok w' \<and> win_streamID w' = win_streamID w"
  by (auto simp: recv_window_ok_def Increase_def split: if_splits)

lemma Consume_recv_ok: "recv_window_ok w \<Longrightarrow> Consume n w = (e, w') \<Longrightarrow> recv_window_ok w' \<and> win_streamID w' = win_streamID w"
  by (auto simp: recv_window_ok_def Consume_def split: if_splits) (use uint_u32_nonneg [of n] in linarith)+

lemma set_recv_ok:
  assumes "streams_ok t" "Table_Stream sid t = Some s" "recv_window_ok w" "win_streamID w = win_streamID (st_recv s)"
  shows "streams_ok (set_stream (s\<lparr>st_recv := w\<rparr>) t)"
  using assms Table_StreamD [OF assms(1,2)] by (intro set_stream_ok) (auto simp: object_ok_def)

lemma apply_credit_ok: "streams_ok t \<Longrightarrow> apply_credit due t = (e, t') \<Longrightarrow> streams_ok t'"
proof (induction due t rule: apply_credit.induct)
  case (2 sid n due t)
  show ?case
  proof (cases "Table_Stream sid t")
    case None
    with 2 show ?thesis by simp
  next
    case (Some s)
    obtain e1 w where w: "Increase (word_of_int n) (st_recv s) = (e1, w)" by fastforce
    have "streams_ok (set_stream (s\<lparr>st_recv := w\<rparr>) t)"
      using Increase_recv_ok [OF _ w] Table_StreamD [OF "2.prems"(1) Some]
      by (intro set_recv_ok [OF "2.prems"(1) Some]) (auto simp: object_ok_def)
    with 2 Some w show ?thesis by (cases e1) auto
  qed
qed simp

lemma drainCredit_ok:
  assumes "streams_ok t" "drainCredit t = (e, t')"
  shows "streams_ok t'"
proof -
  obtain due kept where sw: "sweep_credit (tb_streams t) (tb_streamCredit t) = (due, kept)" by fastforce
  obtain e1 w where w: "Increase (word_of_int (rc_granted (tb_connCredit t))) (tb_connRecv t) = (e1, w)"
    by fastforce
  let ?t = "t\<lparr>tb_connCredit := (tb_connCredit t)\<lparr>rc_granted := 0\<rparr>, tb_streamCredit := kept\<rparr>"
  have "streams_ok (?t\<lparr>tb_connRecv := w\<rparr>)"
    using Increase_recv_ok [OF _ w] assms(1) by (intro streams_ok_connRecv) (simp_all add: streams_ok_def)
  moreover have "streams_ok ?t" using assms(1) by simp
  ultimately show ?thesis
    using assms(2) sw w by (auto simp: drainCredit_def Let_def split: if_splits option.splits
        intro: apply_credit_ok [of ?t] apply_credit_ok [of "?t\<lparr>tb_connRecv := w\<rparr>"])
qed

lemma ReportConsumed_ok: "streams_ok t \<Longrightarrow> streams_ok (ReportConsumed sid n m t)"
  by (simp add: ReportConsumed_def enqueueWindowUpdate_def Let_def split: prod.splits option.splits)

lemma ReportSendEnd_ok: "streams_ok t \<Longrightarrow> streams_ok (ReportSendEnd sid t)"
  by (simp add: ReportSendEnd_def)

subsection \<open>Frames\<close>

lemma set_block_ok:
  "streams_ok t \<Longrightarrow> block_ok (tb_highestRemote t) (tb_objects t) (length (tb_streams t)) (tb_maxConcurrent t) (Some b) \<Longrightarrow>
     streams_ok (t\<lparr>tb_assembling := Some b\<rparr>)"
  by (simp add: streams_ok_def)

lemma Sender_Open_get:
  "Sender_Open sid s = (None, s') \<Longrightarrow> store_get (snd_stream s') k \<noteq> None \<longleftrightarrow> k = sid \<or> store_get (snd_stream s) k \<noteq> None"
  by (auto simp: Sender_Open_def split: if_splits sum.splits)

lemma Sender_Open_succeeds:
  assumes "sender_ok s" "sid \<noteq> 0" "store_get (snd_stream s) sid = None"
  obtains s' where "Sender_Open sid s = (None, s')"
  using assms by (fastforce simp: Sender_Open_def NewStreamWindow_def sender_ok_def)

lemma odd_nonzero: "sid mod 2 \<noteq> 0 \<Longrightarrow> sid \<noteq> (0 :: u32)"
  by auto

text \<open>A new stream: the object, the map entry and the send window.\<close>

lemma add_stream_ok:
  assumes ok: "streams_ok t" and blk: "tb_assembling t = None"
    and sid: "sid mod 2 \<noteq> 0" "sid \<le> tb_highestRemote t" "store_get (tb_objects t) sid = None"
    and room: "length (tb_streams t) < unat (tb_maxConcurrent t)"
    and w: "NewStreamWindow sid InitialWindowSize = Inr w"
    and o: "Sender_Open sid (tb_sender t) = (None, sn)"
  shows "streams_ok ((set_stream \<lparr>st_id = sid, st_state = StateOpen, st_recv = w\<rparr> t)
           \<lparr>tb_streams := List.insert sid (tb_streams t), tb_sender := sn\<rparr>)"
proof -
  have "sid \<notin> set (tb_streams t)" using ok sid(3) by (auto simp: streams_ok_def)
  moreover have "object_ok (tb_highestRemote t) sid \<lparr>st_id = sid, st_state = StateOpen, st_recv = w\<rparr>"
    using sid NewStreamWindow_ok [OF w] by (simp add: object_ok_def recv_window_ok_def)
  moreover have "sender_ok sn" using Sender_Open_ok [OF _ o] ok by (simp add: streams_ok_def)
  ultimately show ?thesis
    using ok room blk Sender_Open_get [OF o] by (auto simp: streams_ok_def set_stream_def)
qed

lemma completeBlock_ok:
  assumes ok: "streams_ok t" and b: "block_ok (tb_highestRemote t) (tb_objects t) (length (tb_streams t)) (tb_maxConcurrent t) (Some b)"
    and c: "completeBlock d b t = (e, t')"
  shows "streams_ok t' \<and> tb_assembling t' = None \<and>
    (e = Some Panic \<longrightarrow> (\<exists>s flds es r r'. dep_Headers d s flds es r = (Some Panic, r')) \<or>
       (\<exists>s flds r r'. dep_Trailers d s flds r = (Some Panic, r')))"
proof -
  obtain dr c1 where dec: "dep_Decode d (bk_buf b) (tb_codec t) = (dr, c1)" by fastforce
  let ?t = "t\<lparr>tb_assembling := None, tb_codec := c1\<rparr>"
  have t: "streams_ok ?t" using ok by simp
  show ?thesis
  proof (cases dr)
    case (Inl x)
    then show ?thesis using c dec t by (auto simp: completeBlock_def)
  next
    case (Inr flds)
    consider (verdict) v where "bk_verdict b = Some v"
      | (trailers) p where "bk_verdict b = None" "bk_s b = Some p"
      | (new) "bk_verdict b = None" "bk_s b = None"
      by (cases "bk_verdict b"; cases "bk_s b") auto
    then show ?thesis
    proof cases
      case verdict
      then show ?thesis using c dec t Inr b by (auto simp: completeBlock_def)
    next
      case trailers
      then obtain s where s: "store_get (tb_objects t) p = Some s" using b by auto
      have "st_id s = p" using objectD [OF ok s] by (simp add: object_ok_def)
      moreover have "streams_ok (retire (recvEnd s) (set_stream (recvEnd s) ?t))"
        using objectD [OF ok s] s t \<open>st_id s = p\<close>
        by (intro retire_set_stream_ok) (simp_all add: object_ok_recvEnd)
      moreover have "tb_assembling (retire (recvEnd s) (set_stream (recvEnd s) ?t)) = None"
        by (simp add: retire_def set_stream_def table_emit_def)
      ultimately show ?thesis
        using c dec Inr trailers s by (auto simp: completeBlock_def Let_def split: prod.splits)
    next
      case new
      then have sid: "bk_id b mod 2 \<noteq> 0" "bk_id b \<le> tb_highestRemote t" "store_get (tb_objects t) (bk_id b) = None"
        "length (tb_streams t) < unat (tb_maxConcurrent t)" using b by simp_all
      obtain w where w: "NewStreamWindow (bk_id b) InitialWindowSize = Inr w"
        using odd_nonzero [OF sid(1)] by (simp add: NewStreamWindow_def)
      have "bk_id b \<notin> set (tb_streams t)" using ok sid(3) by (auto simp: streams_ok_def)
      then obtain sn where o: "Sender_Open (bk_id b) (tb_sender t) = (None, sn)"
        using Sender_Open_succeeds odd_nonzero [OF sid(1)] ok by (metis streams_ok_def)
      let ?s = "\<lparr>st_id = bk_id b, st_state = StateOpen, st_recv = w\<rparr>"
      let ?t1 = "(set_stream ?s ?t)\<lparr>tb_streams := List.insert (bk_id b) (tb_streams t), tb_sender := sn\<rparr>"
      have t1: "streams_ok ?t1"
        using add_stream_ok [OF t _ sid(1) _ _ _ w, of sn] sid o by simp
      have obj: "object_ok (tb_highestRemote ?t1) (bk_id b) ?s" "store_get (tb_objects ?t1) (bk_id b) = Some ?s"
        using objectD [OF t1, of "bk_id b" ?s] by (simp_all add: set_stream_def)
      have "streams_ok (set_stream (if bk_endStream b then recvEnd ?s else ?s) ?t1)"
        using t1 obj object_ok_recvEnd [OF obj(1)]
        by (intro set_stream_ok) (cases "bk_endStream b"; simp add: recvEnd_def)+
      moreover have "tb_assembling (set_stream (if bk_endStream b then recvEnd ?s else ?s) ?t1) = None"
        by (simp add: set_stream_def)
      ultimately show ?thesis
        using c dec Inr new w o by (auto simp: completeBlock_def Let_def set_stream_def split: prod.splits)
    qed
  qed
qed

lemma extend_ok:
  assumes "streams_ok t" "tb_assembling t = Some b"
    and "extend d frag fin t = (e, t')"
  shows "streams_ok t'"
proof -
  let ?b = "b\<lparr>bk_buf := bk_buf b @ frag\<rparr>"
  have b: "block_ok (tb_highestRemote t) (tb_objects t) (length (tb_streams t)) (tb_maxConcurrent t) (Some ?b)"
    using assms(1,2) by (simp add: streams_ok_def split: option.splits)
  then have t: "streams_ok (t\<lparr>tb_assembling := Some ?b\<rparr>)" using assms(1) by (intro set_block_ok)
  show ?thesis
  proof (cases fin)
    case True
    with assms(2,3) have "completeBlock d ?b (t\<lparr>tb_assembling := Some ?b\<rparr>) = (e, t')"
      by (simp add: extend_def Let_def)
    from completeBlock_ok [OF t _ this] b show ?thesis by simp
  next
    case False
    with assms t show ?thesis by (auto simp: extend_def Let_def)
  qed
qed

lemma admit_room:
  assumes "streams_ok t" "admit f t = None"
  shows "length (tb_streams t) < unat (tb_maxConcurrent t)"
proof -
  have "length (tb_streams t) < 2 ^ 32"
    using assms(1) unsigned_less [of "tb_maxConcurrent t"] by (auto simp: streams_ok_def elim: le_less_trans)
  then have "unat (word_of_nat (length (tb_streams t)) :: u32) = length (tb_streams t)"
    by (simp add: unat_of_nat take_bit_nat_eq_self)
  with assms(2) show ?thesis
    by (auto simp: admit_def word_le_nat_alt not_le split: if_splits)
qed

lemma admit_frame [simp]: "admit f (t\<lparr>tb_highestRemote := h\<rparr>) = admit f t"
  by (simp add: admit_def)

lemma raise_highest_ok:
  assumes "streams_ok t" "tb_assembling t = None" "tb_highestRemote t \<le> h"
  shows "streams_ok (t\<lparr>tb_highestRemote := h\<rparr>)"
proof -
  have "all_entries (object_ok h) (tb_objects t)"
    using assms(1,3) by (auto simp: streams_ok_def object_ok_def elim!: all_entries_mono)
  with assms show ?thesis by (simp add: streams_ok_def)
qed

lemma above_highest_new:
  "streams_ok t \<Longrightarrow> tb_highestRemote t < sid \<Longrightarrow> store_get (tb_objects t) sid = None"
  using objectD [of t sid] by (cases "store_get (tb_objects t) sid") (auto simp: object_ok_def)

lemma admit_no_panic [simp]: "admit f t \<noteq> Some Panic"
  by (simp add: admit_def)

text \<open>Both kinds of HEADERS set a block to assemble and go on with \<open>extend\<close>.\<close>

abbreviation request_table :: "headers_frame \<Rightarrow> ('c, 'r) table \<Rightarrow> ('c, 'r) table" where
  "request_table f t \<equiv> t\<lparr>tb_highestRemote := hf_StreamID f, tb_assembling := Some
     \<lparr>bk_id = hf_StreamID f, bk_s = None, bk_buf = [], bk_endStream = hf_EndStream f, bk_verdict = admit f t\<rparr>\<rparr>"

abbreviation trailers_table :: "headers_frame \<Rightarrow> stream \<Rightarrow> ('c, 'r) table \<Rightarrow> ('c, 'r) table" where
  "trailers_table f s t \<equiv> t\<lparr>tb_assembling := Some
     \<lparr>bk_id = hf_StreamID f, bk_s = Some (st_id s), bk_buf = [], bk_endStream = hf_EndStream f,
      bk_verdict = (if peerDone s then Some (StreamError (hf_StreamID f) StreamClosed)
                    else if \<not> hf_EndStream f then Some (StreamError (hf_StreamID f) ProtocolError) else None)\<rparr>\<rparr>"

lemma openStream_refused:
  "hf_StreamID f mod 2 = 0 \<or> hf_StreamID f \<le> tb_highestRemote t \<Longrightarrow> openStream d f t = (Some (ConnError ProtocolError), t)"
  by (cases "hf_StreamID f mod 2 = 0") (simp_all add: openStream_def)

lemma openStream_start:
  assumes "streams_ok t" "tb_assembling t = None" "\<not> (hf_StreamID f mod 2 = 0 \<or> hf_StreamID f \<le> tb_highestRemote t)"
  shows "streams_ok (request_table f t)"
    "openStream d f t = extend d (hf_Fragment f) (hf_EndHeaders f) (request_table f t)"
proof -
  have sid: "hf_StreamID f mod 2 \<noteq> 0" "tb_highestRemote t < hf_StreamID f" using assms(3) by auto
  have "streams_ok (t\<lparr>tb_highestRemote := hf_StreamID f\<rparr>)" using assms sid by (intro raise_highest_ok) auto
  then show "streams_ok (request_table f t)"
    using sid above_highest_new [OF assms(1) sid(2)] admit_room [OF assms(1)]
    by (intro set_block_ok) auto
  show "openStream d f t = extend d (hf_Fragment f) (hf_EndHeaders f) (request_table f t)"
    using assms(3) unfolding openStream_def Let_def by simp
qed

lemma beginTrailers_start:
  assumes "streams_ok t" "Table_Stream (hf_StreamID f) t = Some s"
  shows "streams_ok (trailers_table f s t)"
    "beginTrailers d f s t = extend d (hf_Fragment f) (hf_EndHeaders f) (trailers_table f s t)"
proof -
  show "streams_ok (trailers_table f s t)"
    using Table_StreamD [OF assms] assms(1) by (intro set_block_ok) (auto simp: object_ok_def)
  show "beginTrailers d f s t = extend d (hf_Fragment f) (hf_EndHeaders f) (trailers_table f s t)"
    by (simp only: beginTrailers_def Let_def)
qed

text \<open>So a HEADERS is refused for its identifier, or adds to a block.\<close>

lemma table_headers_cases [consumes 2, case_names refused request trailers]:
  assumes "streams_ok t" "table_headers d f t = (e, t')"
  obtains (refused) "e = Some (ConnError ProtocolError)" "t' = t"
  | (request) "tb_assembling t = None" "Table_Stream (hf_StreamID f) t = None"
      "\<not> (hf_StreamID f mod 2 = 0 \<or> hf_StreamID f \<le> tb_highestRemote t)" "streams_ok (request_table f t)"
      "extend d (hf_Fragment f) (hf_EndHeaders f) (request_table f t) = (e, t')"
  | (trailers) s where "tb_assembling t = None" "Table_Stream (hf_StreamID f) t = Some s"
      "streams_ok (trailers_table f s t)"
      "extend d (hf_Fragment f) (hf_EndHeaders f) (trailers_table f s t) = (e, t')"
proof (cases "tb_assembling t = None")
  case True
  show ?thesis
  proof (cases "Table_Stream (hf_StreamID f) t")
    case None
    show ?thesis
    proof (cases "hf_StreamID f mod 2 = 0 \<or> hf_StreamID f \<le> tb_highestRemote t")
      case True
      from openStream_refused [OF this, of d] refused None \<open>tb_assembling t = None\<close> assms(2) show ?thesis
        by (simp add: table_headers_def)
    next
      case False
      note st = openStream_start [OF assms(1) \<open>tb_assembling t = None\<close> False]
      have "openStream d f t = (e, t')" using None True assms(2) by (simp add: table_headers_def)
      then show ?thesis unfolding st(2) using request True None False st(1) by blast
    qed
  next
    case (Some s)
    note st = beginTrailers_start [OF assms(1) Some]
    have "beginTrailers d f s t = (e, t')" using Some True assms(2) by (simp add: table_headers_def)
    then show ?thesis unfolding st(2) using trailers True Some st(1) by blast
  qed
next
  case False
  with refused assms(2) show ?thesis by (simp add: table_headers_def)
qed

lemma table_headers_ok:
  assumes "streams_ok t" "table_headers d f t = (e, t')"
  shows "streams_ok t'"
  using assms by (cases rule: table_headers_cases) (use assms(1) in \<open>auto intro: extend_ok\<close>)

lemma table_continuation_ok: "streams_ok t \<Longrightarrow> table_continuation d f t = (e, t') \<Longrightarrow> streams_ok t'"
  by (auto simp: table_continuation_def intro: extend_ok split: if_splits option.splits)

lemma table_data_ok:
  assumes "streams_ok t" "table_data d f t = (e, t')"
  shows "streams_ok t'"
proof -
  obtain e1 cw where cw: "Consume (Data_PayloadLen f) (tb_connRecv t) = (e1, cw)" by fastforce
  have t1: "streams_ok (t\<lparr>tb_connRecv := cw\<rparr>)"
    using Consume_recv_ok [OF _ cw] assms(1) by (intro streams_ok_connRecv) (simp_all add: streams_ok_def)
  show ?thesis
  proof (cases "e1 = None \<and> (\<exists>s. Table_Stream (df_StreamID f) t = Some s \<and> \<not> peerDone s)")
    case True
    then obtain s where s: "Table_Stream (df_StreamID f) t = Some s" "\<not> peerDone s" "e1 = None" by blast
    obtain e2 w where w: "Consume (Data_PayloadLen f) (st_recv s) = (e2, w)" by fastforce
    let ?t = "t\<lparr>tb_connRecv := cw\<rparr>"
    let ?s = "s\<lparr>st_recv := w\<rparr>"
    have s': "Table_Stream (df_StreamID f) ?t = Some s" using s(1) by simp
    note D = Table_StreamD [OF t1 s']
    then have obj: "object_ok (tb_highestRemote ?t) (df_StreamID f) ?s" "st_id s = df_StreamID f"
      using Consume_recv_ok [OF _ w] by (auto simp: object_ok_def)
    have "streams_ok (set_stream ?s ?t)" using D obj t1 by (intro set_stream_ok) simp_all
    moreover have "streams_ok (retire (recvEnd ?s) (set_stream (recvEnd ?s) ?t))"
      using D obj t1 by (intro retire_set_stream_ok) (simp_all add: object_ok_recvEnd)
    ultimately show ?thesis
      using s s' w cw assms(2) by (cases e2) (auto simp: table_data_def Let_def split: prod.splits if_splits)
  next
    case False
    with t1 cw assms(2) show ?thesis
      by (cases e1) (auto simp: table_data_def Let_def split: option.splits if_splits)
  qed
qed

lemma rstStream_ok:
  assumes "streams_ok t" "rstStream d now f t = (e, t')"
  shows "streams_ok t'"
proof (cases "Table_Stream (rf_StreamID f) t")
  case (Some s)
  obtain ok b where a: "Allow now (tb_resets t) = (ok, b)" by fastforce
  let ?t = "t\<lparr>tb_resets := b\<rparr>"
  have t: "streams_ok ?t" "Table_Stream (rf_StreamID f) ?t = Some s" using assms(1) Some by simp_all
  note D = Table_StreamD [OF t]
  then have id: "st_id s = rf_StreamID f" by (simp add: object_ok_def)
  have "streams_ok (retire (s\<lparr>st_state := StateClosed\<rparr>) (set_stream (s\<lparr>st_state := StateClosed\<rparr>) ?t))"
    using D t id by (intro retire_set_stream_ok) (auto simp: object_ok_def)
  with assms a t show ?thesis
    by (auto simp: rstStream_def Let_def split: if_splits)
qed (use assms in \<open>auto simp: rstStream_def Let_def split: if_splits prod.splits option.splits\<close>)

lemma CreditStream_get:
  "CreditStream sid n s = (e, b, s') \<Longrightarrow> store_get (snd_stream s') k \<noteq> None \<longleftrightarrow> store_get (snd_stream s) k \<noteq> None"
  by (auto simp: CreditStream_def split: if_splits option.splits prod.splits)

lemma table_windowUpdate_ok:
  assumes "streams_ok t" "table_windowUpdate f t = (e, t')"
  shows "streams_ok t'"
proof -
  obtain e1 b sn where c: "CreditStream (wf_StreamID f) (wf_Increment f) (tb_sender t) = (e1, b, sn)"
    by (metis prod_cases3)
  have "streams_ok (t\<lparr>tb_sender := sn\<rparr>)"
    using CreditStream_ok [OF _ c] CreditStream_get [OF c] assms(1)
    by (intro streams_ok_sender) (simp_all add: streams_ok_def)
  with assms c show ?thesis by (auto simp: table_windowUpdate_def split: if_splits)
qed

lemma table_dispatch_ok: "streams_ok t \<Longrightarrow> table_dispatch d now f t = (e, t') \<Longrightarrow> streams_ok t'"
  by (cases f) (auto intro: table_headers_ok table_continuation_ok table_data_ok rstStream_ok table_windowUpdate_ok)

lemma HandleFrame_ok: "streams_ok t \<Longrightarrow> HandleFrame d now f t = (e, t') \<Longrightarrow> streams_ok t'"
  by (cases "drainCredit (drainSent t)"; cases "fst (drainCredit (drainSent t))")
     (auto simp: HandleFrame_def intro: drainCredit_ok [OF drainSent_ok] table_dispatch_ok [OF drainCredit_ok [OF drainSent_ok]])


subsection \<open>No panics\<close>

text \<open>A request layer that does not panic.\<close>

definition deps_safe :: "('c, 'r) deps \<Rightarrow> bool" where
  "deps_safe d \<longleftrightarrow> (\<forall>s flds es r. fst (dep_Headers d s flds es r) \<noteq> Some Panic) \<and>
     (\<forall>s b es r. fst (dep_Data d s b es r) \<noteq> Some Panic) \<and>
     (\<forall>s flds r. fst (dep_Trailers d s flds r) \<noteq> Some Panic)"

lemma extend_no_panic:
  assumes "streams_ok t" "tb_assembling t = Some b" "extend d frag fin t = (e, t')" "deps_safe d"
  shows "e \<noteq> Some Panic"
proof (cases fin)
  case True
  let ?b = "b\<lparr>bk_buf := bk_buf b @ frag\<rparr>"
  have b: "block_ok (tb_highestRemote t) (tb_objects t) (length (tb_streams t)) (tb_maxConcurrent t) (Some ?b)"
    using assms(1,2) by (simp add: streams_ok_def split: option.splits)
  have "completeBlock d ?b (t\<lparr>tb_assembling := Some ?b\<rparr>) = (e, t')"
    using assms(2,3) True by (simp add: extend_def Let_def)
  from completeBlock_ok [OF set_block_ok [OF assms(1) b] _ this] b assms(4) show ?thesis
    by (auto simp: deps_safe_def) (metis fst_conv)+
next
  case False
  with assms show ?thesis by (auto simp: extend_def Let_def)
qed

lemma no_panics [simp]:
  "Increase n w \<noteq> (Some Panic, w')" "Consume n w \<noteq> (Some Panic, w')"
  "CreditStream sid n sn \<noteq> (Some Panic, b, sn')" "absent sid t \<noteq> Panic"
  by (auto simp: Increase_def Consume_def Window_errorf_def CreditStream_def absent_def split: option.splits prod.splits)

lemma table_dispatch_no_panic:
  assumes "streams_ok t" "table_dispatch d now f t = (e, t')" "deps_safe d"
  shows "e \<noteq> Some Panic"
proof (cases f)
  case (HeadersFrame g)
  with assms have h: "table_headers d g t = (e, t')" by simp
  from assms(1) h assms(3) show ?thesis by (cases rule: table_headers_cases) (auto dest: extend_no_panic)
next
  case (ContinuationFrame g)
  with assms show ?thesis
    by (auto simp: table_continuation_def dest: extend_no_panic split: option.splits if_splits)
next
  case (DataFrame g)
  with assms show ?thesis
    by (auto simp: table_data_def Let_def deps_safe_def split: prod.splits option.splits if_splits) (metis fst_conv)+
next
  case (RSTStreamFrame g)
  with assms show ?thesis
    by (auto simp: rstStream_def Let_def split: prod.splits option.splits if_splits)
next
  case (WindowUpdateFrame g)
  with assms show ?thesis
    by (auto simp: table_windowUpdate_def split: prod.splits if_splits)
qed (use assms in auto)

lemma apply_credit_no_panic: "apply_credit due t = (e, t') \<Longrightarrow> e \<noteq> Some Panic"
  by (induction due t rule: apply_credit.induct) (auto split: option.splits prod.splits)

lemma drainCredit_no_panic: "drainCredit t = (e, t') \<Longrightarrow> e \<noteq> Some Panic"
  by (auto simp: drainCredit_def Let_def dest: apply_credit_no_panic split: prod.splits if_splits option.splits)

lemma HandleFrame_no_panic:
  assumes "streams_ok t" "HandleFrame d now f t = (e, t')" "deps_safe d"
  shows "e \<noteq> Some Panic"
proof -
  obtain e1 t1 where d: "drainCredit (drainSent t) = (e1, t1)" by fastforce
  note ok = drainCredit_ok [OF drainSent_ok [OF assms(1)] d]
  show ?thesis
    using assms(2) d drainCredit_no_panic [OF d] table_dispatch_no_panic [OF ok _ assms(3)]
    by (cases e1) (auto simp: HandleFrame_def)
qed

end
