(* ===== verification/TableSteps.thy ===== *)
theory TableSteps
  imports TableOk
begin

text \<open>
  Histories of the stream table: the calls of the connection's reader (frames, settings, teardown)
  and of other goroutines (reports, reservations, and their steps in the request layer) in the order they take effect, and the state
  machine of RFC 9113 section 5.1 that every stream follows along a history.
\<close>

subsection \<open>Histories\<close>

datatype 'r table_op =
    TFrame int frame
  | TConsumed u32 int bool
  | TSendEnd u32
  | TReserve u32 int
  | TResume u32 int
  | TConnWindowUpdate u32
  | TSetInitial u32
  | TSetTableSize u32
  | TSetListSize u32
  | TClose "error option"
  | TRequest "'r \<Rightarrow> 'r"

fun table_apply :: "('c, 'r) deps \<Rightarrow> 'r table_op \<Rightarrow> ('c, 'r) table \<Rightarrow> error option \<times> ('c, 'r) table" where
  "table_apply d (TFrame now f) t = HandleFrame d now f t"
| "table_apply d (TConsumed sid n m) t = (None, ReportConsumed sid n m t)"
| "table_apply d (TSendEnd sid) t = (None, ReportSendEnd sid t)"
| "table_apply d (TReserve sid want) t = (None, t\<lparr>tb_sender := snd (Reserve sid want (tb_sender t))\<rparr>)"
| "table_apply d (TResume sid want) t = (None, t\<lparr>tb_sender := snd (Reserve_resume sid want (tb_sender t))\<rparr>)"
| "table_apply d (TConnWindowUpdate n) t = ConnWindowUpdate n t"
| "table_apply d (TSetInitial n) t = SetInitialWindowSize n t"
| "table_apply d (TSetTableSize n) t = (None, SetHeaderTableSize n t)"
| "table_apply d (TSetListSize n) t = (None, SetMaxHeaderListSize n t)"
| "table_apply d (TClose r) t = Table_Close r t"
| "table_apply d (TRequest g) t = (None, t\<lparr>tb_reqs := g (tb_reqs t)\<rparr>)"

text \<open>A setting is one that the frame layer has validated.\<close>

fun table_op_ok :: "'r table_op \<Rightarrow> bool" where
  "table_op_ok (TSetInitial n) \<longleftrightarrow> uint n \<le> flow_MaxWindowSize"
| "table_op_ok _ \<longleftrightarrow> True"

text \<open>A connection goes on after no error and after a stream error.\<close>

fun goes_on :: "error option \<Rightarrow> bool" where
  "goes_on None \<longleftrightarrow> True"
| "goes_on (Some (StreamError _ _)) \<longleftrightarrow> True"
| "goes_on _ \<longleftrightarrow> False"

inductive table_history ::
  "('c, 'r) deps \<Rightarrow> ('c, 'r) table \<Rightarrow> ('r table_op \<times> error option) list \<Rightarrow> ('c, 'r) table \<Rightarrow> bool"
  for d t0 where
  start: "table_history d t0 [] t0"
| step: "table_history d t0 h t \<Longrightarrow> table_op_ok op \<Longrightarrow> table_apply d op t = (e, t') \<Longrightarrow> goes_on e \<Longrightarrow>
     table_history d t0 (h @ [(op, e)]) t'"

inductive_cases table_history_snocE: "table_history d t0 (h @ [x]) t"
inductive_simps table_history_Nil [simp]: "table_history d t0 [] t"

lemma Sender_SetInitialSize_get:
  assumes "Sender_SetInitialSize n s = (e, b, s')"
  shows "store_get (snd_stream s') k \<noteq> None \<longleftrightarrow> store_get (snd_stream s) k \<noteq> None"
proof -
  have "set_initial_loop n ids m = (e1, m') \<Longrightarrow> store_get m' k \<noteq> None \<longleftrightarrow> store_get m k \<noteq> None" for ids m e1 m'
    by (induction ids arbitrary: m) (auto split: option.splits prod.splits if_splits)
  from this [of "sorted_keys (snd_stream s)" "snd_stream s"] assms show ?thesis
    by (auto simp: Sender_SetInitialSize_def split: if_splits option.splits prod.splits)
qed

lemma Reserve_loop_get:
  assumes "sender_ok s" "Reserve_loop sid want s = (r, s')"
  shows "store_get (snd_stream s') k \<noteq> None \<longleftrightarrow> store_get (snd_stream s) k \<noteq> None"
  using assms(2) unfolding Reserve_loop_cases [OF assms(1)]
  by (auto simp: Let_def split: option.splits if_splits)

lemma table_sender_ok:
  assumes "streams_ok t" "Reserve_loop sid want ((tb_sender t)\<lparr>snd_waiting := k\<rparr>) = (r, s')"
  shows "streams_ok (t\<lparr>tb_sender := s'\<rparr>)"
proof -
  have s: "sender_ok ((tb_sender t)\<lparr>snd_waiting := k\<rparr>)" using assms(1) by (simp add: streams_ok_def)
  from Reserve_loop_ok [OF s assms(2)] Reserve_loop_get [OF s assms(2)] assms(1) show ?thesis
    by (intro streams_ok_sender) simp_all
qed

lemma table_apply_ok:
  assumes "streams_ok t" "table_op_ok op" "table_apply d op t = (e, t')"
  shows "streams_ok t'"
proof (cases op)
  case (TFrame now f)
  with assms show ?thesis by (auto intro: HandleFrame_ok)
next
  case (TReserve sid want)
  obtain r s' where "Reserve_loop sid want ((tb_sender t)\<lparr>snd_waiting := snd_waiting (tb_sender t)\<rparr>) = (r, s')"
    by fastforce
  from table_sender_ok [OF assms(1) this] this TReserve assms show ?thesis
    by (auto simp: Reserve_def split: if_splits)
next
  case (TResume sid want)
  obtain r s' where "Reserve_loop sid want ((tb_sender t)\<lparr>snd_waiting := snd_waiting (tb_sender t) - 1\<rparr>) = (r, s')"
    by fastforce
  from table_sender_ok [OF assms(1) this] this TResume assms show ?thesis
    by (auto simp: Reserve_resume_def)
next
  case (TConnWindowUpdate n)
  obtain e1 b s' where c: "CreditConn n (tb_sender t) = (e1, b, s')" by (metis prod_cases3)
  then have "snd_stream s' = snd_stream (tb_sender t)"
    by (auto simp: CreditConn_def split: if_splits option.splits prod.splits)
  with CreditConn_ok [OF _ c] c TConnWindowUpdate assms show ?thesis
    by (auto simp: ConnWindowUpdate_def streams_ok_def)
next
  case (TSetInitial n)
  obtain e1 b s' where c: "Sender_SetInitialSize n (tb_sender t) = (e1, b, s')" by (metis prod_cases3)
  have "sender_ok s'" using Sender_SetInitialSize_cases [OF _ _ c] TSetInitial assms by (simp add: streams_ok_def)
  with Sender_SetInitialSize_get [OF c] c TSetInitial assms show ?thesis
    by (auto simp: SetInitialWindowSize_def intro!: streams_ok_sender)
next
  case (TClose r)
  with assms show ?thesis
    by (auto simp: Table_Close_def Sender_Close_def streams_ok_def sender_ok_def split: option.splits if_splits)
qed (use assms in \<open>auto simp: ReportConsumed_ok ReportSendEnd_ok SetHeaderTableSize_def SetMaxHeaderListSize_def\<close>)

lemma table_history_ok: "table_history d t0 h t \<Longrightarrow> streams_ok t0 \<Longrightarrow> streams_ok t"
  by (induction rule: table_history.induct) (auto intro: table_apply_ok)

lemma MaxConcurrentStreams_word: "unat (word_of_nat MaxConcurrentStreams :: u32) = 100"
  by simp

lemma Table_New_ok:
  assumes "Table_New codec reqs n sndr now = Inr t" "\<And>s. sndr = Some s \<Longrightarrow> sender_ok s \<and> snd_stream s = []"
  shows "streams_ok t \<and> tb_maxConcurrent t = (if n = 0 then 100 else n)"
  using assms NewSender_ok
  by (auto simp: Table_New_def streams_ok_def recv_window_ok_def NewConnWindow_def NewSender_def split: option.splits)

subsection \<open>The state machine of a stream\<close>

text \<open>Figure 2 of RFC 9113 as a server sees it; an identifier that is skipped or refused closes
  without having been open.\<close>

inductive stream_edge :: "stream_state \<Rightarrow> stream_state \<Rightarrow> bool" where
  headers: "stream_edge StateIdle StateOpen"
| headers_end: "stream_edge StateIdle StateHalfClosedRemote"
| skipped: "stream_edge StateIdle StateClosed"
| recv_end: "stream_edge StateOpen StateHalfClosedRemote"
| send_end: "stream_edge StateOpen StateHalfClosedLocal"
| reset: "stream_edge StateOpen StateClosed"
| remote_done: "stream_edge StateHalfClosedRemote StateClosed"
| local_done: "stream_edge StateHalfClosedLocal StateClosed"

code_pred stream_edge .

inductive_cases edge_from_closed [elim]: "stream_edge StateClosed s"
inductive_cases edge_to_idle [elim]: "stream_edge s StateIdle"

abbreviation legal :: "stream_state \<Rightarrow> stream_state \<Rightarrow> bool" where
  "legal \<equiv> stream_edge\<^sup>*\<^sup>*"

lemma legal_edges [simp, intro]:
  "legal StateIdle StateOpen" "legal StateIdle StateHalfClosedRemote" "legal StateIdle StateClosed"
  "legal StateOpen StateHalfClosedRemote" "legal StateOpen StateHalfClosedLocal" "legal s s"
  by (auto intro: stream_edge.intros)

lemma legal_to_closed [simp, intro]: "legal s StateClosed"
  by (cases s) (auto intro: stream_edge.intros)

lemma legal_from_closed: "legal StateClosed s \<Longrightarrow> s = StateClosed"
  by (induction rule: rtranclp_induct) auto

lemma legal_to_idle: "legal s StateIdle \<Longrightarrow> s = StateIdle"
  by (induction rule: converse_rtranclp_induct) auto

lemma legal_recvEnd: "st_state s \<noteq> StateIdle \<Longrightarrow> st_state s \<noteq> StateClosed \<Longrightarrow> legal (st_state s) (st_state (recvEnd s))"
  by (cases "st_state s") (simp_all add: recvEnd_def)

text \<open>Between the HEADERS that names a new stream and the end of its header block the stream is
  still idle, whatever \<open>StateOf\<close> would say of it.\<close>

definition new_stream :: "('c, 'r) table \<Rightarrow> u32 option" where
  "new_stream t = (case tb_assembling t of
     None \<Rightarrow> None | Some b \<Rightarrow> if bk_s b = None then Some (bk_id b) else None)"

definition phase :: "u32 \<Rightarrow> ('c, 'r) table \<Rightarrow> stream_state" where
  "phase sid t = (if new_stream t = Some sid then StateIdle else StateOf sid t)"

definition evolves :: "('c, 'r) table \<Rightarrow> ('c, 'r) table \<Rightarrow> bool" where
  "evolves t t' \<longleftrightarrow> (\<forall>sid. legal (phase sid t) (phase sid t'))"

lemma evolves_refl [simp, intro]: "evolves t t"
  by (simp add: evolves_def)

lemma evolves_trans [trans]: "evolves t t' \<Longrightarrow> evolves t' t'' \<Longrightarrow> evolves t t''"
  unfolding evolves_def by (meson rtranclp_trans)

text \<open>What decides the phases of a table.\<close>

definition same_view :: "('c, 'r) table \<Rightarrow> ('c, 'r) table \<Rightarrow> bool" where
  "same_view t t' \<longleftrightarrow> new_stream t' = new_stream t \<and> tb_highestRemote t' = tb_highestRemote t \<and>
     tb_objects t' = tb_objects t \<and> tb_streams t' = tb_streams t"

lemma same_view_phase: "same_view t t' \<Longrightarrow> phase sid t' = phase sid t"
  by (simp add: same_view_def phase_def StateOf_def Table_Stream_def)

lemma same_view_evolves: "same_view t t' \<Longrightarrow> evolves t t'"
  by (simp add: same_view_phase evolves_def)

lemma new_stream_simps [simp]:
  "new_stream (t\<lparr>tb_codec := c\<rparr>) = new_stream t"
  "new_stream (t\<lparr>tb_reqs := r\<rparr>) = new_stream t"
  "new_stream (t\<lparr>tb_resets := b\<rparr>) = new_stream t"
  "new_stream (t\<lparr>tb_sent := l\<rparr>) = new_stream t"
  "new_stream (t\<lparr>tb_connRecv := w\<rparr>) = new_stream t"
  "new_stream (t\<lparr>tb_connCredit := cc\<rparr>) = new_stream t"
  "new_stream (t\<lparr>tb_streamCredit := m\<rparr>) = new_stream t"
  "new_stream (t\<lparr>tb_sender := sn\<rparr>) = new_stream t"
  "new_stream (t\<lparr>tb_streams := ss\<rparr>) = new_stream t"
  "new_stream (t\<lparr>tb_objects := objs\<rparr>) = new_stream t"
  "new_stream (t\<lparr>tb_highestRemote := h\<rparr>) = new_stream t"
  "new_stream (t\<lparr>tb_assembling := None\<rparr>) = None"
  "new_stream (set_stream s t) = new_stream t"
  "new_stream (table_emit x t) = new_stream t"
  "new_stream (retire s t) = new_stream t"
  by (simp_all add: new_stream_def set_stream_def table_emit_def retire_def)

lemma phase_update [simp]:
  "phase sid (t\<lparr>tb_codec := c\<rparr>) = phase sid t"
  "phase sid (t\<lparr>tb_reqs := r\<rparr>) = phase sid t"
  "phase sid (t\<lparr>tb_resets := b\<rparr>) = phase sid t"
  "phase sid (t\<lparr>tb_sent := l\<rparr>) = phase sid t"
  "phase sid (t\<lparr>tb_connRecv := w\<rparr>) = phase sid t"
  "phase sid (t\<lparr>tb_connCredit := cc\<rparr>) = phase sid t"
  "phase sid (t\<lparr>tb_streamCredit := m\<rparr>) = phase sid t"
  "phase sid (t\<lparr>tb_sender := sn\<rparr>) = phase sid t"
  "phase sid (table_emit x t) = phase sid t"
  by (simp_all add: phase_def StateOf_def, simp_all add: table_emit_def Table_Stream_def)

lemma evolves_update [simp]:
  "evolves t (t'\<lparr>tb_codec := c\<rparr>) = evolves t t'"
  "evolves t (t'\<lparr>tb_reqs := r\<rparr>) = evolves t t'"
  "evolves t (t'\<lparr>tb_resets := b\<rparr>) = evolves t t'"
  "evolves t (t'\<lparr>tb_sent := l\<rparr>) = evolves t t'"
  "evolves t (t'\<lparr>tb_connRecv := w\<rparr>) = evolves t t'"
  "evolves t (t'\<lparr>tb_connCredit := cc\<rparr>) = evolves t t'"
  "evolves t (t'\<lparr>tb_streamCredit := m\<rparr>) = evolves t t'"
  "evolves t (t'\<lparr>tb_sender := sn\<rparr>) = evolves t t'"
  "evolves t (table_emit x t') = evolves t t'"
  by (simp_all add: evolves_def)

lemma new_stream_new:
  "streams_ok t \<Longrightarrow> new_stream t = Some sid \<Longrightarrow> store_get (tb_objects t) sid = None \<and> sid \<notin> set (tb_streams t)"
  by (auto simp: new_stream_def streams_ok_def split: option.splits if_splits)

lemma phase_retire:
  assumes "streams_ok t" "store_get (tb_objects t) (st_id s) \<noteq> None"
    and "object_ok (tb_highestRemote t) (st_id s) s"
  shows "phase sid (retire s (set_stream s t)) =
    (if sid = st_id s \<and> sid \<in> set (tb_streams t) then st_state s else phase sid t)"
  using assms new_stream_new [OF assms(1)]
  by (auto simp: phase_def StateOf_def Table_Stream_def retire_def set_stream_def table_emit_def object_ok_def
      new_stream_def not_less split: option.splits)

lemma phase_set:
  assumes "streams_ok t" "store_get (tb_objects t) (st_id s) \<noteq> None"
  shows "phase sid (set_stream s t) =
    (if sid = st_id s \<and> sid \<in> set (tb_streams t) then st_state s else phase sid t)"
  using assms new_stream_new [OF assms(1)]
  by (auto simp: phase_def StateOf_def Table_Stream_def set_stream_def new_stream_def split: option.splits)

lemma phase_live:
  "streams_ok t \<Longrightarrow> Table_Stream sid t = Some s \<Longrightarrow> phase sid t = st_state s"
  using new_stream_new [of t sid] Table_StreamD [of t sid s] by (auto simp: phase_def StateOf_def)

lemma evolves_set:
  assumes "streams_ok t" "Table_Stream sid t = Some s0" "st_id s = sid" "legal (st_state s0) (st_state s)"
  shows "evolves t (set_stream s t)"
  using assms Table_StreamD [OF assms(1,2)] phase_live [OF assms(1,2)]
  by (auto simp: evolves_def phase_set)

lemma evolves_retire:
  assumes "streams_ok t" "store_get (tb_objects t) (st_id s) = Some s0" "object_ok (tb_highestRemote t) (st_id s) s"
    and "st_id s \<in> set (tb_streams t) \<Longrightarrow> legal (st_state s0) (st_state s)"
  shows "evolves t (retire s (set_stream s t))"
proof -
  have "phase (st_id s) t = st_state s0" if "st_id s \<in> set (tb_streams t)"
    using that assms(2) by (intro phase_live [OF assms(1)]) (simp add: Table_Stream_def)
  with assms show ?thesis by (auto simp: evolves_def phase_retire)
qed

lemma SendEnd_evolves:
  assumes "streams_ok t" "Table_Stream sid t = Some s"
  shows "evolves t (SendEnd s t)"
proof -
  note D = Table_StreamD [OF assms]
  then have id: "st_id s = sid" by (simp add: object_ok_def)
  consider "st_state s = StateOpen" | "st_state s = StateHalfClosedRemote" | "st_state s = StateHalfClosedLocal"
    using D by (auto simp: live_state_def)
  then show ?thesis
    using D id assms
    by cases (auto simp: SendEnd_def Let_def object_ok_state intro!: evolves_retire evolves_set)
qed

lemma drainSent_loop_evolves: "streams_ok t \<Longrightarrow> evolves t (drainSent_loop ids t)"
proof (induction ids t rule: drainSent_loop.induct)
  case (2 sid ids t)
  then show ?case
    by (cases "Table_Stream sid t") (auto intro: evolves_trans SendEnd_evolves SendEnd_ok)
qed simp

lemma drainSent_evolves: "streams_ok t \<Longrightarrow> evolves t (drainSent t)"
  using drainSent_loop_evolves [of "t\<lparr>tb_sent := []\<rparr>" "tb_sent t"]
  by (simp add: drainSent_def Let_def evolves_def same_view_phase [of t "t\<lparr>tb_sent := []\<rparr>"] same_view_def)

lemma apply_credit_evolves:
  "streams_ok t \<Longrightarrow> apply_credit due t = (e, t') \<Longrightarrow> evolves t t'"
proof (induction due t rule: apply_credit.induct)
  case (2 sid n due t)
  show ?case
  proof (cases "Table_Stream sid t")
    case (Some s)
    obtain e1 w where w: "Increase (word_of_int n) (st_recv s) = (e1, w)" by fastforce
    let ?t = "set_stream (s\<lparr>st_recv := w\<rparr>) t"
    note D = Table_StreamD [OF "2.prems"(1) Some]
    have ok: "streams_ok ?t"
      using Increase_recv_ok [OF _ w] D by (intro set_recv_ok [OF "2.prems"(1) Some]) (auto simp: object_ok_def)
    have ev: "evolves t ?t" using D by (intro evolves_set [OF "2.prems"(1) Some]) (auto simp: object_ok_def)
    show ?thesis
    proof (cases e1)
      case None
      with "2.prems" "2.IH"(2) [OF Some w [symmetric]] Some w ok ev show ?thesis
        by (auto intro: evolves_trans)
    qed (use "2.prems" Some w ev in auto)
  qed (use 2 in auto)
qed simp

lemma drainCredit_evolves:
  assumes "streams_ok t" "drainCredit t = (e, t')"
  shows "evolves t t'"
proof -
  obtain due kept where sw: "sweep_credit (tb_streams t) (tb_streamCredit t) = (due, kept)" by fastforce
  obtain e1 w where w: "Increase (word_of_int (rc_granted (tb_connCredit t))) (tb_connRecv t) = (e1, w)"
    by fastforce
  let ?t = "t\<lparr>tb_connCredit := (tb_connCredit t)\<lparr>rc_granted := 0\<rparr>, tb_streamCredit := kept\<rparr>"
  have ev: "evolves t ?t" "evolves t (?t\<lparr>tb_connRecv := w\<rparr>)" by simp_all
  have ok: "streams_ok ?t" "streams_ok (?t\<lparr>tb_connRecv := w\<rparr>)"
    using Increase_recv_ok [OF _ w] assms(1) by (auto intro!: streams_ok_connRecv simp: streams_ok_def [of t])
  show ?thesis
  proof (cases "rc_granted (tb_connCredit t) > 0")
    case True
    show ?thesis
    proof (cases e1)
      case None
      then have "apply_credit due (?t\<lparr>tb_connRecv := w\<rparr>) = (e, t')"
        using True assms(2) sw w by (simp add: drainCredit_def Let_def)
      from apply_credit_evolves [OF ok(2) this] ev(2) show ?thesis by (rule evolves_trans [rotated])
    qed (use True assms(2) sw w ev in \<open>auto simp: drainCredit_def Let_def\<close>)
  next
    case False
    then have "apply_credit due ?t = (e, t')"
      using assms(2) sw by (simp add: drainCredit_def Let_def)
    from apply_credit_evolves [OF ok(1) this] ev(1) show ?thesis by (rule evolves_trans [rotated])
  qed
qed

lemma StateOf_object:
  "streams_ok t \<Longrightarrow> store_get (tb_objects t) sid = Some s \<Longrightarrow> sid \<notin> set (tb_streams t) \<Longrightarrow> StateOf sid t = StateClosed"
  using objectD [of t sid s] by (auto simp: StateOf_def Table_Stream_def object_ok_def not_less)

text \<open>The block is closed: a new stream leaves idle, by opening or by being refused.\<close>

lemma completeBlock_evolves:
  assumes ok: "streams_ok t" and b: "tb_assembling t = Some b" and c: "completeBlock d (b\<lparr>bk_buf := buf\<rparr>) t = (e, t')"
  shows "evolves t t'"
proof -
  obtain dr c1 where dec: "dep_Decode d buf (tb_codec t) = (dr, c1)" by fastforce
  let ?t = "t\<lparr>tb_assembling := None, tb_codec := c1\<rparr>"
  have okt: "streams_ok ?t" using ok by simp
  have bok: "block_ok (tb_highestRemote t) (tb_objects t) (length (tb_streams t)) (tb_maxConcurrent t) (Some b)"
    using ok b by (simp add: streams_ok_def)
  then have "odd (bk_id b)" by (simp add: odd_iff_mod_2_eq_one)
  then have view: "phase sid ?t = (if new_stream t = Some sid then StateClosed else phase sid t)" for sid
    using new_stream_new [OF ok, of sid] bok b
    by (auto simp: phase_def StateOf_def Table_Stream_def new_stream_def not_less split: if_splits option.splits)
  then have evt: "evolves t ?t" by (simp add: evolves_def phase_def [of _ t])
  show ?thesis
  proof (cases dr)
    case (Inl x)
    with c dec evt show ?thesis by (auto simp: completeBlock_def)
  next
    case (Inr flds)
    consider (verdict) v where "bk_verdict b = Some v"
      | (trailers) p where "bk_verdict b = None" "bk_s b = Some p"
      | (new) "bk_verdict b = None" "bk_s b = None"
      by (cases "bk_verdict b"; cases "bk_s b") auto
    then show ?thesis
    proof cases
      case verdict
      with c dec evt Inr show ?thesis by (auto simp: completeBlock_def)
    next
      case trailers
      then obtain s where s: "store_get (tb_objects t) p = Some s" using bok by auto
      have id: "st_id s = p" using objectD [OF ok s] by (simp add: object_ok_def)
      have "legal (st_state s) (st_state (recvEnd s))" if "p \<in> set (tb_streams t)"
        using that s ok by (intro legal_recvEnd) (auto simp: streams_ok_def live_state_iff)
      then have "evolves ?t (retire (recvEnd s) (set_stream (recvEnd s) ?t))"
        using objectD [OF ok s] s id okt by (intro evolves_retire) (auto simp: object_ok_recvEnd)
      with evt have "evolves t (retire (recvEnd s) (set_stream (recvEnd s) ?t))" by (rule evolves_trans)
      with c dec Inr trailers s show ?thesis
        by (auto simp: completeBlock_def Let_def split: prod.splits)
    next
      case new
      then have sid: "bk_id b mod 2 \<noteq> 0" "bk_id b \<le> tb_highestRemote t" "store_get (tb_objects t) (bk_id b) = None"
        "new_stream t = Some (bk_id b)" using bok b by (simp_all add: new_stream_def)
      obtain w where w: "NewStreamWindow (bk_id b) InitialWindowSize = Inr w"
        using odd_nonzero [OF sid(1)] by (simp add: NewStreamWindow_def)
      have "bk_id b \<notin> set (tb_streams t)" using ok sid(3) by (auto simp: streams_ok_def)
      then obtain sn where o: "Sender_Open (bk_id b) (tb_sender t) = (None, sn)"
        using Sender_Open_succeeds odd_nonzero [OF sid(1)] ok by (metis streams_ok_def)
      let ?s = "\<lparr>st_id = bk_id b, st_state = StateOpen, st_recv = w\<rparr>"
      let ?s' = "if bk_endStream b then recvEnd ?s else ?s"
      let ?t1 = "(set_stream ?s ?t)\<lparr>tb_streams := List.insert (bk_id b) (tb_streams t), tb_sender := sn\<rparr>"
      let ?t2 = "set_stream ?s' ?t1"
      have "phase sid ?t2 = (if sid = bk_id b then st_state ?s' else phase sid ?t)" for sid
        by (auto simp: phase_def StateOf_def Table_Stream_def set_stream_def recvEnd_def split: option.splits)
      moreover have "legal StateIdle (st_state ?s')" by (simp add: recvEnd_def)
      moreover have "phase (bk_id b) t = StateIdle" using sid(4) by (simp add: phase_def)
      moreover have "legal (phase k t) (phase k ?t)" for k using evt by (simp add: evolves_def)
      ultimately have "evolves t ?t2" unfolding evolves_def by metis
      with c dec Inr new w o show ?thesis
        by (auto simp: completeBlock_def Let_def set_stream_def split: prod.splits)
    qed
  qed
qed

lemma extend_evolves:
  assumes "streams_ok t" "tb_assembling t = Some b" "extend d frag fin t = (e, t')"
  shows "evolves t t'"
proof -
  let ?b = "b\<lparr>bk_buf := bk_buf b @ frag\<rparr>"
  let ?t = "t\<lparr>tb_assembling := Some ?b\<rparr>"
  have "same_view t ?t" using assms(2) by (simp add: same_view_def new_stream_def)
  then have ev: "evolves t ?t" by (rule same_view_evolves)
  show ?thesis
  proof (cases fin)
    case True
    have "streams_ok ?t"
      using assms(1,2) by (intro set_block_ok) (auto simp: streams_ok_def split: option.splits)
    moreover have "completeBlock d (?b\<lparr>bk_buf := bk_buf b @ frag\<rparr>) ?t = (e, t')"
      using assms True by (simp add: extend_def Let_def)
    ultimately have "evolves ?t t'" by (intro completeBlock_evolves [where b = ?b]) simp_all
    with ev show ?thesis by (rule evolves_trans)
  next
    case False
    with assms ev show ?thesis by (auto simp: extend_def Let_def)
  qed
qed

lemma request_table_evolves:
  assumes "tb_assembling t = None" "Table_Stream (hf_StreamID f) t = None"
    "\<not> (hf_StreamID f mod 2 = 0 \<or> hf_StreamID f \<le> tb_highestRemote t)"
  shows "evolves t (request_table f t)"
proof -
  let ?sid = "hf_StreamID f"
  have sid: "?sid mod 2 \<noteq> 0" "tb_highestRemote t < ?sid" using assms(3) by auto
  have "legal (phase k t) (phase k (request_table f t))" for k
  proof (cases "k = ?sid")
    case True
    then have "phase k t = StateIdle" using assms(1,2) sid
      by (simp add: phase_def new_stream_def StateOf_def)
    moreover have "phase k (request_table f t) = StateIdle" using True by (simp add: phase_def new_stream_def)
    ultimately show ?thesis by simp
  next
    case False
    then have "phase k (request_table f t) = phase k t \<or> phase k t = StateIdle \<and> phase k (request_table f t) = StateClosed"
      using assms(1) sid(2) by (auto simp: phase_def new_stream_def StateOf_def Table_Stream_def split: option.splits)
    then show ?thesis by auto
  qed
  then show ?thesis by (simp add: evolves_def)
qed

lemma trailers_table_evolves: "tb_assembling t = None \<Longrightarrow> evolves t (trailers_table f s t)"
  by (rule same_view_evolves) (simp add: same_view_def new_stream_def)

lemma table_headers_evolves:
  assumes "streams_ok t" "table_headers d f t = (e, t')"
  shows "evolves t t'"
  using assms
proof (cases rule: table_headers_cases)
  case request
  from request_table_evolves [OF request(1-3)] extend_evolves [OF request(4) _ request(5)]
  show ?thesis by (auto intro: evolves_trans)
next
  case (trailers s)
  from trailers_table_evolves [OF trailers(1)] extend_evolves [OF trailers(3) _ trailers(4)]
  show ?thesis by (auto intro: evolves_trans)
qed simp

lemma table_data_evolves:
  assumes "streams_ok t" "table_data d f t = (e, t')"
  shows "evolves t t'"
proof -
  obtain e1 cw where cw: "Consume (Data_PayloadLen f) (tb_connRecv t) = (e1, cw)" by fastforce
  have t1: "streams_ok (t\<lparr>tb_connRecv := cw\<rparr>)"
    using Consume_recv_ok [OF _ cw] assms(1) by (intro streams_ok_connRecv) (simp_all add: streams_ok_def)
  show ?thesis
  proof (cases "e1 = None \<and> (\<exists>s. Table_Stream (df_StreamID f) t = Some s \<and> \<not> peerDone s)")
    case True
    then obtain s where s: "Table_Stream (df_StreamID f) t = Some s" "\<not> peerDone s" "e1 = None" by blast
    obtain e2 w where w: "Consume (Data_PayloadLen f) (st_recv s) = (e2, w)" by fastforce
    let ?t = "t\<lparr>tb_connRecv := cw\<rparr>"
    let ?s = "s\<lparr>st_recv := w\<rparr>"
    have s': "Table_Stream (df_StreamID f) ?t = Some s" using s(1) by simp
    note D = Table_StreamD [OF t1 s']
    then have obj: "object_ok (tb_highestRemote ?t) (df_StreamID f) ?s" "st_id s = df_StreamID f"
      using Consume_recv_ok [OF _ w] by (auto simp: object_ok_def)
    have ev0: "evolves t ?t" by simp
    have "evolves ?t (set_stream ?s ?t)" using obj by (intro evolves_set [OF t1 s']) simp_all
    with ev0 have ev1: "evolves t (set_stream ?s ?t)" by (rule evolves_trans)
    have "legal (st_state s) (st_state (recvEnd ?s))"
      using legal_recvEnd [of s] D by (simp add: recvEnd_def live_state_iff split: if_splits)
    then have "evolves ?t (retire (recvEnd ?s) (set_stream (recvEnd ?s) ?t))"
      using D obj by (intro evolves_retire [OF t1, of _ s]) (simp_all add: object_ok_recvEnd)
    with ev0 have "evolves t (retire (recvEnd ?s) (set_stream (recvEnd ?s) ?t))" by (rule evolves_trans)
    with ev1 s s' w cw assms(2) show ?thesis
      by (cases e2) (auto simp: table_data_def Let_def split: prod.splits if_splits)
  next
    case False
    with cw assms(2) show ?thesis
      by (cases e1) (auto simp: table_data_def Let_def split: option.splits if_splits)
  qed
qed

lemma rstStream_evolves:
  assumes "streams_ok t" "rstStream d now f t = (e, t')"
  shows "evolves t t'"
proof (cases "Table_Stream (rf_StreamID f) t")
  case (Some s)
  obtain ok b where a: "Allow now (tb_resets t) = (ok, b)" by fastforce
  let ?t = "t\<lparr>tb_resets := b\<rparr>"
  have t: "streams_ok ?t" "Table_Stream (rf_StreamID f) ?t = Some s" using assms(1) Some by simp_all
  note D = Table_StreamD [OF t]
  then have id: "st_id s = rf_StreamID f" by (simp add: object_ok_def)
  have ev0: "evolves t ?t" by simp
  have "evolves ?t (retire (s\<lparr>st_state := StateClosed\<rparr>) (set_stream (s\<lparr>st_state := StateClosed\<rparr>) ?t))"
    using D t id by (intro evolves_retire [of _ _ s]) (auto simp: object_ok_def)
  with ev0 have "evolves t (retire (s\<lparr>st_state := StateClosed\<rparr>) (set_stream (s\<lparr>st_state := StateClosed\<rparr>) ?t))"
    by (rule evolves_trans)
  with assms a t show ?thesis
    by (auto simp: rstStream_def Let_def split: if_splits)
qed (use assms in \<open>auto simp: rstStream_def Let_def split: if_splits prod.splits option.splits\<close>)

lemma table_dispatch_evolves:
  "streams_ok t \<Longrightarrow> table_dispatch d now f t = (e, t') \<Longrightarrow> evolves t t'"
  by (cases f)
     (auto simp: table_continuation_def table_windowUpdate_def
       intro: table_headers_evolves extend_evolves table_data_evolves rstStream_evolves
       split: if_splits option.splits prod.splits)

lemma HandleFrame_evolves:
  assumes "streams_ok t" "HandleFrame d now f t = (e, t')"
  shows "evolves t t'"
proof -
  obtain e1 t1 where d: "drainCredit (drainSent t) = (e1, t1)" by fastforce
  note ok = drainSent_ok [OF assms(1)]
  have ev: "evolves t t1"
    using drainSent_evolves [OF assms(1)] drainCredit_evolves [OF ok d] by (rule evolves_trans)
  show ?thesis
  proof (cases e1)
    case None
    with assms(2) d have "table_dispatch d now f t1 = (e, t')" by (simp add: HandleFrame_def)
    from ev table_dispatch_evolves [OF drainCredit_ok [OF ok d] this] show ?thesis by (rule evolves_trans)
  qed (use assms(2) d ev in \<open>simp add: HandleFrame_def\<close>)
qed

lemma table_apply_evolves:
  assumes "streams_ok t" "table_apply d op t = (e, t')"
  shows "evolves t t'"
  using assms HandleFrame_evolves [OF assms(1)]
  by (cases op)
     (auto simp: ReportConsumed_def ReportSendEnd_def enqueueWindowUpdate_def ConnWindowUpdate_def
        SetInitialWindowSize_def SetHeaderTableSize_def SetMaxHeaderListSize_def Table_Close_def Let_def
       split: prod.splits option.splits if_splits)

lemma table_history_evolves:
  "table_history d t h t' \<Longrightarrow> streams_ok t \<Longrightarrow> evolves t t'"
proof (induction rule: table_history.induct)
  case (step h t1 op e t2)
  from step.IH [OF step.prems] table_apply_evolves [OF table_history_ok [OF step.hyps(1) step.prems] step.hyps(3)]
  show ?case by (rule evolves_trans)
qed simp

end
