(* ===== verification/TableCredit.thy ===== *)
theory TableCredit
  imports TableSteps
begin

text \<open>
  The receive half of flow control over a history of the stream table: what the windows are in
  terms of what the peer sent, what handlers consumed and what WINDOW_UPDATEs were announced, and
  so that credit, once announced, is always honoured.
\<close>

subsection \<open>The books\<close>

text \<open>Octets announced on a stream (0 is the connection) by the WINDOW_UPDATEs written.\<close>

fun announcement :: "u32 \<Rightarrow> table_effect \<Rightarrow> int" where
  "announcement sid (Enqueued (WindowUpdateFrame f)) = (if wf_StreamID f = sid then uint (wf_Increment f) else 0)"
| "announcement sid _ = 0"

definition announced :: "u32 \<Rightarrow> table_effect list \<Rightarrow> int" where
  "announced sid out = (\<Sum>e\<leftarrow>out. announcement sid e)"

text \<open>Octets of DATA on a stream; those that the request layer was given (it answers what it finds malformed with a stream
  error, and a handler may have read it by then); and those that handlers report.\<close>

fun data_octets :: "u32 \<Rightarrow> 'r table_op \<times> error option \<Rightarrow> int" where
  "data_octets sid (TFrame _ (DataFrame f), _) = (if df_StreamID f = sid then uint (Data_PayloadLen f) else 0)"
| "data_octets sid _ = 0"

fun taken_octets :: "u32 \<Rightarrow> 'r table_op \<times> error option \<Rightarrow> int" where
  "taken_octets sid (op, e) =
     (if e = None \<or> e = Some (StreamError sid ProtocolError) then data_octets sid (op, e) else 0)"

fun report_octets :: "u32 \<Rightarrow> 'r table_op \<times> error option \<Rightarrow> int" where
  "report_octets sid (TConsumed k n _, _) = (if k = sid \<and> 0 < n then n else 0)"
| "report_octets sid _ = 0"

definition received :: "u32 \<Rightarrow> ('r table_op \<times> error option) list \<Rightarrow> int" where
  "received sid h = (\<Sum>x\<leftarrow>h. data_octets sid x)"

definition taken :: "u32 \<Rightarrow> ('r table_op \<times> error option) list \<Rightarrow> int" where
  "taken sid h = (\<Sum>x\<leftarrow>h. taken_octets sid x)"

definition consumed :: "u32 \<Rightarrow> ('r table_op \<times> error option) list \<Rightarrow> int" where
  "consumed sid h = (\<Sum>x\<leftarrow>h. report_octets sid x)"

definition all_received :: "('r table_op \<times> error option) list \<Rightarrow> int" where
  "all_received h = (\<Sum>sid\<in>UNIV. received sid h)"

definition all_consumed :: "('r table_op \<times> error option) list \<Rightarrow> int" where
  "all_consumed h = (\<Sum>sid\<in>UNIV. consumed sid h)"

text \<open>Handlers report only octets that they were given.\<close>

definition reports_ok :: "('r table_op \<times> error option) list \<Rightarrow> bool" where
  "reports_ok h \<longleftrightarrow> (\<forall>n sid. consumed sid (take n h) \<le> taken sid (take n h))"

lemma books_Nil [simp]:
  "received sid [] = 0" "taken sid [] = 0" "consumed sid [] = 0" "all_received [] = 0" "all_consumed [] = 0"
  by (simp_all add: received_def taken_def consumed_def all_received_def all_consumed_def)

lemma books_snoc [simp]:
  "received sid (h @ [x]) = received sid h + data_octets sid x"
  "taken sid (h @ [x]) = taken sid h + taken_octets sid x"
  "consumed sid (h @ [x]) = consumed sid h + report_octets sid x"
  by (simp_all add: received_def taken_def consumed_def)

lemma announced_simps [simp]:
  "announced sid [] = 0"
  "announced sid (out @ [e]) = announced sid out + announcement sid e"
  by (simp_all add: announced_def)

lemma data_octets_nonneg [simp]: "0 \<le> data_octets sid x"
  by (cases "(sid, x)" rule: data_octets.cases) simp_all

lemma taken_octets_le: "taken_octets sid x \<le> data_octets sid x"
  by (cases "(sid, x)" rule: taken_octets.cases) simp_all

lemma taken_octets_nonneg [simp]: "0 \<le> taken_octets sid x"
  by (cases "(sid, x)" rule: taken_octets.cases) simp_all

lemma report_octets_nonneg [simp]: "0 \<le> report_octets sid x"
  by (cases "(sid, x)" rule: report_octets.cases) simp_all

lemma consumed_nonneg: "0 \<le> consumed sid h"
  by (induction h rule: rev_induct) simp_all

lemma taken_le_received: "taken sid h \<le> received sid h"
  by (induction h rule: rev_induct) (simp_all add: add_mono taken_octets_le)

lemma all_received_snoc:
  "all_received (h @ [x]) = all_received h + (\<Sum>sid\<in>UNIV. data_octets sid x)"
  "all_consumed (h @ [x]) = all_consumed h + (\<Sum>sid\<in>UNIV. report_octets sid x)"
  by (simp_all add: all_received_def all_consumed_def sum.distrib)

lemma sum_data_octets:
  "(\<Sum>sid\<in>UNIV. data_octets sid (TFrame now (DataFrame f), e)) = uint (Data_PayloadLen f)"
  "0 < n \<Longrightarrow> (\<Sum>sid\<in>UNIV. report_octets sid (TConsumed k n m, e)) = n"
  by simp_all

lemma reports_okD: "reports_ok h \<Longrightarrow> consumed sid h \<le> taken sid h"
  unfolding reports_ok_def by (metis order_refl take_all)

lemma reports_ok_all: "reports_ok h \<Longrightarrow> all_consumed h \<le> all_received h"
  unfolding all_consumed_def all_received_def
  by (intro sum_mono) (meson order_trans reports_okD taken_le_received)

lemma reports_ok_snoc:
  assumes "reports_ok (h @ [x])"
  shows "reports_ok h"
proof -
  have "take n h = take (min n (length h)) (h @ [x])" for n by (cases "n \<le> length h") simp_all
  then show ?thesis using assms unfolding reports_ok_def by metis
qed

subsection \<open>The invariant\<close>

definition credit_of :: "u32 \<Rightarrow> ('c, 'r) table \<Rightarrow> recv_credit" where
  "credit_of sid t = (case store_get (tb_streamCredit t) sid of None \<Rightarrow> no_credit | Some c \<Rightarrow> c)"

definition recv_of :: "u32 \<Rightarrow> ('c, 'r) table \<Rightarrow> window option" where
  "recv_of sid t = map_option st_recv (store_get (tb_objects t) sid)"

definition conn_credit_ok :: "('r table_op \<times> error option) list \<Rightarrow> ('c, 'r) table \<Rightarrow> bool" where
  "conn_credit_ok h t \<longleftrightarrow> 0 \<le> rc_granted (tb_connCredit t) \<and> 0 \<le> rc_pending (tb_connCredit t) \<and>
     win_n (tb_connRecv t) + rc_granted (tb_connCredit t) = 65535 - all_received h + announced 0 (tb_out t) \<and>
     win_n (tb_connRecv t) + rc_granted (tb_connCredit t) + rc_pending (tb_connCredit t) =
       65535 - all_received h + all_consumed h"

definition stream_credit_ok :: "('r table_op \<times> error option) list \<Rightarrow> ('c, 'r) table \<Rightarrow> u32 \<Rightarrow> bool" where
  "stream_credit_ok h t sid \<longleftrightarrow> 0 \<le> rc_granted (credit_of sid t) \<and> 0 \<le> rc_pending (credit_of sid t) \<and>
     (case recv_of sid t of
        Some w \<Rightarrow>
          win_n w + rc_granted (credit_of sid t) + rc_pending (credit_of sid t) \<le> 65535 - taken sid h + consumed sid h \<and>
          (sid \<in> set (tb_streams t) \<longrightarrow>
             65535 - received sid h + announced sid (tb_out t) \<le> win_n w + rc_granted (credit_of sid t))
      | None \<Rightarrow> taken sid h = 0 \<and> 0 \<le> received sid h \<and> credit_of sid t = no_credit \<and>
          (sid \<noteq> 0 \<longrightarrow> announced sid (tb_out t) = 0))"

definition credit_ok :: "('r table_op \<times> error option) list \<Rightarrow> ('c, 'r) table \<Rightarrow> bool" where
  "credit_ok h t \<longleftrightarrow> store_ok (tb_streamCredit t) \<and> conn_credit_ok h t \<and> (\<forall>sid. stream_credit_ok h t sid)"

text \<open>Steps that leave the books alone.\<close>

definition quiet :: "('c, 'r) table \<Rightarrow> ('c, 'r) table \<Rightarrow> bool" where
  "quiet t t' \<longleftrightarrow> tb_connCredit t' = tb_connCredit t \<and> tb_streamCredit t' = tb_streamCredit t \<and>
     tb_connRecv t' = tb_connRecv t \<and> (\<forall>sid. announced sid (tb_out t') = announced sid (tb_out t)) \<and>
     (\<forall>sid. recv_of sid t' = recv_of sid t) \<and> set (tb_streams t') \<subseteq> set (tb_streams t)"

lemma quiet_refl [simp, intro]: "quiet t t"
  by (simp add: quiet_def)

lemma quiet_trans [trans]: "quiet t t' \<Longrightarrow> quiet t' t'' \<Longrightarrow> quiet t t''"
  by (auto simp: quiet_def)

lemma quiet_stream_credit_ok: "quiet t t' \<Longrightarrow> stream_credit_ok h t sid \<Longrightarrow> stream_credit_ok h t' sid"
  by (cases "recv_of sid t") (auto simp: quiet_def stream_credit_ok_def credit_of_def)

lemma quiet_conn_credit_ok: "quiet t t' \<Longrightarrow> conn_credit_ok h t \<Longrightarrow> conn_credit_ok h t'"
  by (simp add: quiet_def conn_credit_ok_def)

lemma quiet_streamCredit: "quiet t t' \<Longrightarrow> tb_streamCredit t' = tb_streamCredit t"
  by (simp add: quiet_def)

lemma quiet_credit_ok: "quiet t t' \<Longrightarrow> credit_ok h t \<Longrightarrow> credit_ok h t'"
  by (simp add: credit_ok_def quiet_stream_credit_ok quiet_conn_credit_ok quiet_streamCredit)

lemma quiet_update [simp]:
  "quiet t (t'\<lparr>tb_codec := c\<rparr>) = quiet t t'"
  "quiet t (t'\<lparr>tb_reqs := r\<rparr>) = quiet t t'"
  "quiet t (t'\<lparr>tb_resets := b\<rparr>) = quiet t t'"
  "quiet t (t'\<lparr>tb_sent := l\<rparr>) = quiet t t'"
  "quiet t (t'\<lparr>tb_sender := sn\<rparr>) = quiet t t'"
  "quiet t (t'\<lparr>tb_assembling := a\<rparr>) = quiet t t'"
  "quiet t (t'\<lparr>tb_highestRemote := hr\<rparr>) = quiet t t'"
  "quiet t (table_emit (Forgot k) t') = quiet t t'"
  by (simp_all add: quiet_def recv_of_def table_emit_def)

lemma quiet_set_stream:
  "store_get (tb_objects t) (st_id s) = Some s0 \<Longrightarrow> st_recv s = st_recv s0 \<Longrightarrow> quiet t (set_stream s t)"
  by (simp add: quiet_def recv_of_def set_stream_def)

lemma quiet_retire: "quiet t (retire s t)"
  by (simp add: retire_def) (auto simp: quiet_def recv_of_def)

lemma quiet_retire_set:
  "store_get (tb_objects t) (st_id s) = Some s0 \<Longrightarrow> st_recv s = st_recv s0 \<Longrightarrow> quiet t (retire s (set_stream s t))"
  by (rule quiet_trans [OF quiet_set_stream quiet_retire])

lemma SendEnd_quiet: "streams_ok t \<Longrightarrow> Table_Stream sid t = Some s \<Longrightarrow> quiet t (SendEnd s t)"
  using Table_StreamD [of t sid s]
  by (auto simp: SendEnd_def Let_def object_ok_def intro: quiet_retire_set quiet_set_stream)

lemma drainSent_loop_quiet: "streams_ok t \<Longrightarrow> quiet t (drainSent_loop ids t)"
proof (induction ids t rule: drainSent_loop.induct)
  case (2 sid ids t)
  then show ?case
    by (cases "Table_Stream sid t") (auto intro: quiet_trans SendEnd_quiet SendEnd_ok)
qed simp

lemma drainSent_quiet: "streams_ok t \<Longrightarrow> quiet t (drainSent t)"
  using drainSent_loop_quiet [of "t\<lparr>tb_sent := []\<rparr>" "tb_sent t"]
  by (simp add: drainSent_def Let_def quiet_def recv_of_def)

subsection \<open>Draining credit\<close>

abbreviation credit_at :: "recv_credit store \<Rightarrow> u32 \<Rightarrow> recv_credit" where
  "credit_at m sid \<equiv> (case store_get m sid of None \<Rightarrow> no_credit | Some c \<Rightarrow> c)"

lemma sweep_credit_keys:
  "sweep_credit live m = (due, kept) \<Longrightarrow> set (map fst kept) \<subseteq> set (map fst m) \<and> set (map fst due) \<subseteq> set (map fst m)"
  by (induction live m arbitrary: due kept rule: sweep_credit.induct)
     (force simp: Let_def split: prod.splits if_splits)+

lemma sweep_credit_spec:
  "sweep_credit live m = (due, kept) \<Longrightarrow> store_ok m \<Longrightarrow> (\<And>sid. 0 \<le> rc_granted (credit_at m sid)) \<Longrightarrow>
     store_ok kept \<and> distinct (map fst due) \<and>
     (\<forall>sid. credit_at kept sid = (credit_at m sid)\<lparr>rc_granted := 0\<rparr>) \<and>
     (\<forall>sid. map_of due sid = (if 0 < rc_granted (credit_at m sid) then Some (rc_granted (credit_at m sid)) else None))"
proof (induction live m arbitrary: due kept rule: sweep_credit.induct)
  case (1 live)
  then show ?case by (simp add: no_credit_def)
next
  case (2 live sid c m)
  obtain due' kept' where sw: "sweep_credit live m = (due', kept')" by fastforce
  have sid: "sid \<notin> set (map fst m)" and ok: "store_ok m" using "2.prems"(2) by (simp_all add: store_ok_def)
  have nonneg: "0 \<le> rc_granted (credit_at m k)" for k
  proof (cases "k = sid")
    case True
    then have "store_get m k = None" using sid by (simp add: map_of_eq_None_iff)
    then show ?thesis by (simp add: no_credit_def)
  next
    case False
    then show ?thesis using "2.prems"(3) [of k] by simp
  qed
  note IH = "2.IH" [OF sw ok nonneg]
  note keys = sweep_credit_keys [OF sw]
  have none: "store_get m sid = None" "store_get kept' sid = None" "map_of due' sid = None"
    "sid \<notin> fst ` set kept'" "sid \<notin> fst ` set due'"
    using sid keys by (auto simp: map_of_eq_None_iff)
  have c: "0 \<le> rc_granted c" using "2.prems"(3) [of sid] by simp
  have c0: "c\<lparr>rc_granted := 0\<rparr> = c" if "\<not> 0 < rc_granted c" using that c by (cases c) simp
  have eq: "due = (if rc_granted c > 0 then (sid, rc_granted c) # due' else due')"
    "kept = (if sid \<notin> set live \<and> rc_pending c = 0 then kept' else (sid, c\<lparr>rc_granted := 0\<rparr>) # kept')"
    using "2.prems"(1) sw c c0 by (auto simp: Let_def split: if_splits)
  have zero: "c\<lparr>rc_granted := 0\<rparr> = no_credit" if "rc_pending c = 0"
    using that by (simp add: no_credit_def)
  have "credit_at kept k = (credit_at ((sid, c) # m) k)\<lparr>rc_granted := 0\<rparr>" for k
    using IH none zero unfolding eq(2) by auto
  moreover have "map_of due k = (if 0 < rc_granted (credit_at ((sid, c) # m) k)
      then Some (rc_granted (credit_at ((sid, c) # m) k)) else None)" for k
    using IH none unfolding eq(1) by (simp add: no_credit_def del: map_of_eq_Some_iff)
  moreover have "store_ok kept" using IH none unfolding eq(2) by (auto simp: store_ok_def)
  moreover have "distinct (map fst due)" using IH none unfolding eq(1) by auto
  ultimately show ?case by blast
qed

definition due_at :: "(u32 \<times> int) list \<Rightarrow> u32 \<Rightarrow> int" where
  "due_at due sid = (case map_of due sid of None \<Rightarrow> 0 | Some n \<Rightarrow> n)"

text \<open>The parts of a table that the application of credit does not touch.\<close>

definition same_but_objects :: "('c, 'r) table \<Rightarrow> ('c, 'r) table \<Rightarrow> bool" where
  "same_but_objects t t' \<longleftrightarrow> (\<exists>objs. t' = t\<lparr>tb_objects := objs\<rparr>)"

lemma same_but_objectsD:
  "same_but_objects t t' \<Longrightarrow> tb_connCredit t' = tb_connCredit t \<and> tb_streamCredit t' = tb_streamCredit t \<and>
     tb_connRecv t' = tb_connRecv t \<and> tb_out t' = tb_out t \<and> tb_streams t' = tb_streams t"
  by (auto simp: same_but_objects_def)

lemma Increase_small:
  "0 \<le> n \<Longrightarrow> 0 \<le> win_n w \<Longrightarrow> win_n w + n \<le> flow_MaxWindowSize \<Longrightarrow>
     Increase (word_of_int n) w = (None, w\<lparr>win_n := win_n w + n\<rparr>)"
  by (simp add: Increase_def uint_word_of_int take_bit_int_eq_self)

lemma apply_credit_spec:
  assumes "streams_ok t" "distinct (map fst due)"
    and "\<And>sid n s. map_of due sid = Some n \<Longrightarrow> Table_Stream sid t = Some s \<Longrightarrow> 0 \<le> n \<and> win_n (st_recv s) + n \<le> 65535"
  obtains t' where "apply_credit due t = (None, t')" "same_but_objects t t'"
    "\<And>sid. store_get (tb_objects t') sid = map_option (\<lambda>s. s\<lparr>st_recv := (st_recv s)
       \<lparr>win_n := win_n (st_recv s) + (if sid \<in> set (tb_streams t) then due_at due sid else 0)\<rparr>\<rparr>)
       (store_get (tb_objects t) sid)"
proof -
  have "\<exists>t'. apply_credit due t = (None, t') \<and> same_but_objects t t' \<and>
    (\<forall>sid. store_get (tb_objects t') sid = map_option (\<lambda>s. s\<lparr>st_recv := (st_recv s)
       \<lparr>win_n := win_n (st_recv s) + (if sid \<in> set (tb_streams t) then due_at due sid else 0)\<rparr>\<rparr>)
       (store_get (tb_objects t) sid))"
    using assms
  proof (induction due t rule: apply_credit.induct)
    case (1 t)
    have "same_but_objects t t" by (auto simp: same_but_objects_def intro!: exI [of _ "tb_objects t"])
    then show ?case by (simp add: due_at_def option.map_ident)
  next
    case (2 sid n due t)
    have sid: "map_of due sid = None" using "2.prems"(2) by (auto simp: map_of_eq_None_iff)
    show ?case
    proof (cases "Table_Stream sid t")
      case None
      then have nl: "sid \<notin> set (tb_streams t)" using Table_Stream_None [OF "2.prems"(1)] by blast
      have "\<exists>t'. apply_credit due t = (None, t') \<and> same_but_objects t t' \<and>
        (\<forall>sid. store_get (tb_objects t') sid = map_option (\<lambda>s. s\<lparr>st_recv := (st_recv s)
           \<lparr>win_n := win_n (st_recv s) + (if sid \<in> set (tb_streams t) then due_at due sid else 0)\<rparr>\<rparr>)
           (store_get (tb_objects t) sid))"
      proof (rule "2.IH"(1) [OF None "2.prems"(1)])
        show "0 \<le> m \<and> win_n (st_recv s) + m \<le> 65535"
          if "map_of due k = Some m" "Table_Stream k t = Some s" for k m s
        proof -
          have "k \<noteq> sid" using that(2) None by auto
          then show ?thesis using "2.prems"(3) [of k m s] that by simp
        qed
      qed (use "2.prems"(2) in simp)
      moreover have "due_at ((sid, n) # due) k = due_at due k" if "k \<in> set (tb_streams t)" for k
        using that nl by (auto simp: due_at_def)
      ultimately show ?thesis using None by (auto cong: if_cong)
    next
      case (Some s)
      note D = Table_StreamD [OF "2.prems"(1) Some]
      then have id: "st_id s = sid" and obj: "store_get (tb_objects t) sid = Some s" and live: "sid \<in> set (tb_streams t)"
        by (auto simp: object_ok_def)
      have n: "0 \<le> n" "win_n (st_recv s) + n \<le> 65535" using "2.prems"(3) [of sid n s] Some by simp_all
      let ?w = "(st_recv s)\<lparr>win_n := win_n (st_recv s) + n\<rparr>"
      let ?t = "set_stream (s\<lparr>st_recv := ?w\<rparr>) t"
      have inc: "Increase (word_of_int n) (st_recv s) = (None, ?w)"
        using n D by (intro Increase_small) (auto simp: object_ok_def recv_window_ok_def)
      have ok: "streams_ok ?t"
        using D n by (intro set_recv_ok [OF "2.prems"(1) Some]) (auto simp: object_ok_def recv_window_ok_def)
      have ts: "Table_Stream k ?t = (if k = sid then Some (s\<lparr>st_recv := ?w\<rparr>) else Table_Stream k t)" for k
        using live id by (simp add: Table_Stream_def set_stream_def)
      obtain t' where t': "apply_credit due ?t = (None, t')" "same_but_objects ?t t'"
        "\<And>k. store_get (tb_objects t') k = map_option (\<lambda>s. s\<lparr>st_recv := (st_recv s)
           \<lparr>win_n := win_n (st_recv s) + (if k \<in> set (tb_streams ?t) then due_at due k else 0)\<rparr>\<rparr>)
           (store_get (tb_objects ?t) k)"
      proof -
        have "0 \<le> m \<and> win_n (st_recv s') + m \<le> 65535"
          if "map_of due k = Some m" "Table_Stream k ?t = Some s'" for k m s'
          using "2.prems"(3) [of k m s'] that sid ts by (auto split: if_splits)
        moreover have "distinct (map fst due)" using "2.prems"(2) by simp
        ultimately show ?thesis
          using "2.IH"(2) [OF Some inc [symmetric] refl ok] that by blast
      qed
      have "same_but_objects t t'" using t'(2) by (auto simp: same_but_objects_def set_stream_def)
      moreover have "store_get (tb_objects t') k = map_option (\<lambda>s. s\<lparr>st_recv := (st_recv s)
         \<lparr>win_n := win_n (st_recv s) + (if k \<in> set (tb_streams t) then due_at ((sid, n) # due) k else 0)\<rparr>\<rparr>)
         (store_get (tb_objects t) k)" for k
        using t'(3) [of k] id obj live sid by (auto simp: set_stream_def due_at_def)
      ultimately show ?thesis using t'(1) Some inc by auto
    qed
  qed
  then show ?thesis using that by blast
qed

lemma conn_credit_bound:
  assumes "streams_ok t" "conn_credit_ok h t" "reports_ok h"
  shows "0 \<le> win_n (tb_connRecv t)" "win_n (tb_connRecv t) + rc_granted (tb_connCredit t) + rc_pending (tb_connCredit t) \<le> 65535"
  using assms reports_ok_all [OF assms(3)] by (auto simp: conn_credit_ok_def streams_ok_def recv_window_ok_def)

lemma stream_credit_bound:
  assumes "streams_ok t" "stream_credit_ok h t sid" "reports_ok h" "recv_of sid t = Some w"
  shows "0 \<le> win_n w" "win_n w + rc_granted (credit_of sid t) + rc_pending (credit_of sid t) \<le> 65535"
proof -
  obtain s where s: "store_get (tb_objects t) sid = Some s" "w = st_recv s"
    using assms(4) by (auto simp: recv_of_def)
  show "0 \<le> win_n w" using objectD [OF assms(1) s(1)] s(2) by (simp add: object_ok_def recv_window_ok_def)
  show "win_n w + rc_granted (credit_of sid t) + rc_pending (credit_of sid t) \<le> 65535"
    using assms(2,4) reports_okD [OF assms(3), of sid] by (simp add: stream_credit_ok_def)
qed

lemma drainCredit_spec:
  assumes ok: "streams_ok t" and cr: "credit_ok h t" and rep: "reports_ok h"
  obtains t' where "drainCredit t = (None, t')" "credit_ok h t'"
    "\<And>sid. map_option st_state (Table_Stream sid t') = map_option st_state (Table_Stream sid t)"
    "rc_granted (tb_connCredit t') = 0" "\<And>sid. rc_granted (credit_of sid t') = 0" "tb_out t' = tb_out t"
proof -
  obtain due kept where sw: "sweep_credit (tb_streams t) (tb_streamCredit t) = (due, kept)" by fastforce
  have str: "stream_credit_ok h t sid" for sid using cr by (simp add: credit_ok_def)
  have con: "conn_credit_ok h t" and sok: "store_ok (tb_streamCredit t)" using cr by (simp_all add: credit_ok_def)
  have nonneg: "0 \<le> rc_granted (credit_at (tb_streamCredit t) sid)" for sid
    using str [of sid] by (simp add: stream_credit_ok_def credit_of_def)
  note sp = sweep_credit_spec [OF sw sok nonneg]
  let ?g = "rc_granted (tb_connCredit t)"
  let ?t = "t\<lparr>tb_connCredit := (tb_connCredit t)\<lparr>rc_granted := 0\<rparr>, tb_streamCredit := kept,
    tb_connRecv := (tb_connRecv t)\<lparr>win_n := win_n (tb_connRecv t) + ?g\<rparr>\<rparr>"
  have g: "0 \<le> ?g" using con by (simp add: conn_credit_ok_def)
  have inc: "Increase (word_of_int ?g) (tb_connRecv t) = (None, (tb_connRecv t)\<lparr>win_n := win_n (tb_connRecv t) + ?g\<rparr>)"
    using conn_credit_bound [OF ok con rep] con
    by (intro Increase_small) (auto simp: conn_credit_ok_def)
  have t: "drainCredit t = apply_credit due ?t"
  proof (cases "?g > 0")
    case False
    then have "?g = 0" using g by simp
    then have "(tb_connRecv t)\<lparr>win_n := win_n (tb_connRecv t) + ?g\<rparr> = tb_connRecv t" by simp
    then have "?t = t\<lparr>tb_connCredit := (tb_connCredit t)\<lparr>rc_granted := 0\<rparr>, tb_streamCredit := kept\<rparr>" by (cases t) simp
    with False show ?thesis using sw by (simp add: drainCredit_def Let_def)
  qed (use sw inc in \<open>simp add: drainCredit_def Let_def\<close>)
  have okt: "streams_ok ?t"
    using ok conn_credit_bound [OF ok con rep] g con
    by (intro streams_ok_connRecv) (auto simp: streams_ok_def recv_window_ok_def conn_credit_ok_def)
  have duek: "due_at due sid = rc_granted (credit_of sid t)" for sid
    using sp nonneg [of sid] by (auto simp: due_at_def credit_of_def)
  have room: "0 \<le> n \<and> win_n (st_recv s) + n \<le> 65535"
    if n: "map_of due sid = Some n" and s: "Table_Stream sid ?t = Some s" for sid n s
  proof -
    have "recv_of sid t = Some (st_recv s)" using s Table_StreamD [OF okt s] by (simp add: recv_of_def)
    from stream_credit_bound [OF ok str rep this] str [of sid] duek [of sid] n show ?thesis
      by (auto simp: due_at_def stream_credit_ok_def)
  qed
  have dist: "distinct (map fst due)" using sp by blast
  obtain t' where t': "apply_credit due ?t = (None, t')" "same_but_objects ?t t'"
    "\<And>sid. store_get (tb_objects t') sid = map_option (\<lambda>s. s\<lparr>st_recv := (st_recv s)
       \<lparr>win_n := win_n (st_recv s) + (if sid \<in> set (tb_streams ?t) then due_at due sid else 0)\<rparr>\<rparr>)
       (store_get (tb_objects ?t) sid)"
    by (rule apply_credit_spec [OF okt dist]) (use room that in blast)+
  note same = same_but_objectsD [OF t'(2)]
  have cof: "credit_of sid t' = (credit_of sid t)\<lparr>rc_granted := 0\<rparr>" for sid
    using sp same by (simp add: credit_of_def)
  have rof: "recv_of sid t' = map_option (\<lambda>w. w\<lparr>win_n := win_n w +
      (if sid \<in> set (tb_streams t) then rc_granted (credit_of sid t) else 0)\<rparr>) (recv_of sid t)" for sid
    using t'(3) [of sid] by (simp add: recv_of_def duek option.map_comp comp_def cong: map_option_cong)
  have "stream_credit_ok h t' sid" for sid
    using str [of sid] cof [of sid] rof [of sid] same
    by (cases "recv_of sid t") (auto simp: stream_credit_ok_def no_credit_def)
  moreover have "conn_credit_ok h t'" using con same by (simp add: conn_credit_ok_def)
  moreover have "store_ok (tb_streamCredit t')" using sp same by simp
  ultimately have "credit_ok h t'" by (simp add: credit_ok_def)
  moreover have "map_option st_state (Table_Stream sid t') = map_option st_state (Table_Stream sid t)" for sid
    using t'(3) [of sid] same by (simp add: Table_Stream_def option.map_comp comp_def)
  ultimately show ?thesis using that t t'(1) same cof by simp
qed

subsection \<open>Frames\<close>

lemma credit_ok_open:
  assumes cr: "credit_ok h t" and rep: "reports_ok h" and new: "recv_of sid t = None" "sid \<noteq> 0"
    and t': "tb_connCredit t' = tb_connCredit t" "tb_streamCredit t' = tb_streamCredit t"
      "tb_connRecv t' = tb_connRecv t" "tb_out t' = tb_out t"
      "\<And>k. recv_of k t' = (if k = sid then Some w else recv_of k t)" "win_n w = 65535"
      "set (tb_streams t') \<subseteq> insert sid (set (tb_streams t))"
  shows "credit_ok h t'"
proof -
  have "stream_credit_ok h t' k" for k
  proof (cases "k = sid")
    case True
    have "stream_credit_ok h t sid" using cr by (simp add: credit_ok_def)
    moreover have "consumed sid h = 0"
      using reports_okD [OF rep, of sid] consumed_nonneg [of sid h] calculation new
      by (simp add: stream_credit_ok_def)
    ultimately show ?thesis
      using True new t' by (simp add: stream_credit_ok_def credit_of_def [of _ t'] no_credit_def)
        (simp add: credit_of_def no_credit_def)
  next
    case False
    have "stream_credit_ok h t k" using cr by (simp add: credit_ok_def)
    then show ?thesis
      using False t' by (cases "recv_of k t") (auto simp: stream_credit_ok_def credit_of_def)
  qed
  then show ?thesis using cr t' by (simp add: credit_ok_def conn_credit_ok_def)
qed

lemma completeBlock_credit:
  assumes ok: "streams_ok t" and b: "block_ok (tb_highestRemote t) (tb_objects t) (length (tb_streams t)) (tb_maxConcurrent t) (Some b)"
    and c: "completeBlock d b t = (e, t')" and cr: "credit_ok h t" and rep: "reports_ok h"
  shows "credit_ok h t'"
proof -
  obtain dr c1 where dec: "dep_Decode d (bk_buf b) (tb_codec t) = (dr, c1)" by fastforce
  let ?t = "t\<lparr>tb_assembling := None, tb_codec := c1\<rparr>"
  have okt: "streams_ok ?t" using ok by simp
  have crt: "credit_ok h ?t" by (rule quiet_credit_ok [OF _ cr]) simp
  show ?thesis
  proof (cases dr)
    case (Inl x)
    with c dec crt show ?thesis by (auto simp: completeBlock_def)
  next
    case (Inr flds)
    consider (verdict) v where "bk_verdict b = Some v"
      | (trailers) p where "bk_verdict b = None" "bk_s b = Some p"
      | (new) "bk_verdict b = None" "bk_s b = None"
      by (cases "bk_verdict b"; cases "bk_s b") auto
    then show ?thesis
    proof cases
      case verdict
      with c dec crt Inr show ?thesis by (auto simp: completeBlock_def)
    next
      case trailers
      then obtain s where s: "store_get (tb_objects t) p = Some s" using b by auto
      have id: "st_id s = p" using objectD [OF ok s] by (simp add: object_ok_def)
      have "quiet ?t (retire (recvEnd s) (set_stream (recvEnd s) ?t))"
        using s id by (intro quiet_retire_set [of _ _ s]) simp_all
      then have "quiet ?t (retire (recvEnd s) (set_stream (recvEnd s) ?t)\<lparr>tb_reqs := r\<rparr>)" for r by simp
      from quiet_credit_ok [OF this crt] c dec Inr trailers s show ?thesis
        by (auto simp: completeBlock_def Let_def split: prod.splits)
    next
      case new
      then have sid: "bk_id b mod 2 \<noteq> 0" "store_get (tb_objects t) (bk_id b) = None" using b by simp_all
      obtain w where w: "NewStreamWindow (bk_id b) InitialWindowSize = Inr w"
        using odd_nonzero [OF sid(1)] by (simp add: NewStreamWindow_def)
      have "bk_id b \<notin> set (tb_streams t)" using ok sid(2) by (auto simp: streams_ok_def)
      then obtain sn where o: "Sender_Open (bk_id b) (tb_sender t) = (None, sn)"
        using Sender_Open_succeeds odd_nonzero [OF sid(1)] ok by (metis streams_ok_def)
      let ?s = "\<lparr>st_id = bk_id b, st_state = StateOpen, st_recv = w\<rparr>"
      let ?s' = "if bk_endStream b then recvEnd ?s else ?s"
      let ?t2 = "set_stream ?s' ((set_stream ?s ?t)\<lparr>tb_streams := List.insert (bk_id b) (tb_streams t), tb_sender := sn\<rparr>)"
      have "credit_ok h (?t2\<lparr>tb_reqs := r\<rparr>)" for r
        using sid(2) odd_nonzero [OF sid(1)] NewStreamWindow_ok [OF w]
        by (intro credit_ok_open [OF cr rep, of "bk_id b" _ w]) (auto simp: recv_of_def set_stream_def)
      with c dec Inr new w o show ?thesis
        by (auto simp: completeBlock_def Let_def set_stream_def split: prod.splits)
    qed
  qed
qed

lemma extend_credit:
  assumes "streams_ok t" "tb_assembling t = Some b" "extend d frag fin t = (e, t')" "credit_ok h t" "reports_ok h"
  shows "credit_ok h t'"
proof -
  let ?b = "b\<lparr>bk_buf := bk_buf b @ frag\<rparr>"
  let ?t = "t\<lparr>tb_assembling := Some ?b\<rparr>"
  have cr: "credit_ok h ?t" by (rule quiet_credit_ok [OF _ assms(4)]) simp
  have bok: "block_ok (tb_highestRemote t) (tb_objects t) (length (tb_streams t)) (tb_maxConcurrent t) (Some ?b)"
    using assms(1,2) by (simp add: streams_ok_def split: option.splits)
  show ?thesis
  proof (cases fin)
    case True
    then have "completeBlock d ?b ?t = (e, t')" using assms by (simp add: extend_def Let_def)
    from completeBlock_credit [OF set_block_ok [OF assms(1) bok] _ this cr assms(5)] bok show ?thesis by simp
  next
    case False
    with assms cr show ?thesis by (auto simp: extend_def Let_def)
  qed
qed

lemma table_headers_credit:
  assumes "streams_ok t" "table_headers d f t = (e, t')" "credit_ok h t" "reports_ok h"
  shows "credit_ok h t'"
  using assms(1,2)
proof (cases rule: table_headers_cases)
  case request
  have "credit_ok h (request_table f t)" by (rule quiet_credit_ok [OF _ assms(3)]) simp
  from extend_credit [OF request(4) _ request(5) this assms(4)] show ?thesis by simp
next
  case (trailers s)
  have "credit_ok h (trailers_table f s t)" by (rule quiet_credit_ok [OF _ assms(3)]) simp
  from extend_credit [OF trailers(3) _ trailers(4) this assms(4)] show ?thesis by simp
qed (use assms in simp)

lemma rstStream_quiet:
  assumes "streams_ok t" "rstStream d now f t = (e, t')"
  shows "quiet t t'"
proof (cases "Table_Stream (rf_StreamID f) t")
  case (Some s)
  obtain ok b where a: "Allow now (tb_resets t) = (ok, b)" by fastforce
  let ?t = "t\<lparr>tb_resets := b\<rparr>"
  let ?s = "s\<lparr>st_state := StateClosed\<rparr>"
  have "quiet ?t (retire ?s (set_stream ?s ?t))"
    using Table_StreamD [OF assms(1) Some] by (intro quiet_retire_set [of _ _ s]) (auto simp: object_ok_def)
  moreover have "quiet t ?t" by simp
  ultimately have "quiet t (retire ?s (set_stream ?s ?t))" by (rule quiet_trans [rotated])
  with assms a Some show ?thesis by (auto simp: rstStream_def Let_def split: if_splits)
qed (use assms in \<open>auto simp: rstStream_def Let_def split: if_splits prod.splits\<close>)

lemma table_windowUpdate_quiet: "table_windowUpdate f t = (e, t') \<Longrightarrow> quiet t t'"
  by (auto simp: table_windowUpdate_def split: if_splits prod.splits)

lemma credit_ok_idle:
  assumes "\<And>sid. data_octets sid x = 0" "\<And>sid. report_octets sid x = 0"
  shows "credit_ok (h @ [x]) t = credit_ok h t"
proof -
  have "taken_octets sid x = 0" for sid
    using taken_octets_le [of sid x] taken_octets_nonneg [of sid x] assms(1) [of sid] by linarith
  then have "stream_credit_ok (h @ [x]) t sid = stream_credit_ok h t sid" for sid
    using assms by (simp add: stream_credit_ok_def split: option.split)
  with assms show ?thesis by (simp add: credit_ok_def conn_credit_ok_def all_received_snoc)
qed

text \<open>One DATA frame: how the windows moved decides every book.\<close>

definition handed :: "data_frame \<Rightarrow> error option \<Rightarrow> bool" where
  "handed f e \<longleftrightarrow> e = None \<or> e = Some (StreamError (df_StreamID f) ProtocolError)"

lemma credit_ok_data:
  assumes cr: "credit_ok h t"
    and same: "tb_connCredit t' = tb_connCredit t" "tb_streamCredit t' = tb_streamCredit t" "tb_out t' = tb_out t"
      "set (tb_streams t') \<subseteq> set (tb_streams t)"
    and conn: "win_n (tb_connRecv t') = win_n (tb_connRecv t) - uint (Data_PayloadLen f)"
    and recv: "\<And>k. recv_of k t' = (if k = df_StreamID f then
        map_option (\<lambda>w. w\<lparr>win_n := win_n w - m\<rparr>) (recv_of k t) else recv_of k t)"
    and m: "0 \<le> m" "m \<le> uint (Data_PayloadLen f)" "handed f e \<Longrightarrow> m = uint (Data_PayloadLen f)"
    and absent: "recv_of (df_StreamID f) t = None \<Longrightarrow> \<not> handed f e"
  shows "credit_ok (h @ [(TFrame now (DataFrame f), e)]) t'"
proof -
  let ?x = "(TFrame now (DataFrame f), e)"
  have conn': "conn_credit_ok (h @ [?x]) t'"
    using cr same conn by (simp add: credit_ok_def conn_credit_ok_def all_received_snoc)
  have "stream_credit_ok (h @ [?x]) t' k" for k
  proof -
    have st: "stream_credit_ok h t k" using cr by (simp add: credit_ok_def)
    have co: "credit_of k t' = credit_of k t" using same by (simp add: credit_of_def)
    have tk: "taken_octets k ?x = (if handed f e \<and> df_StreamID f = k then uint (Data_PayloadLen f) else 0)"
      by (auto simp: handed_def)
    show ?thesis
    proof (cases "recv_of k t")
      case None
      with st co tk absent recv [of k] same show ?thesis
        by (cases "df_StreamID f = k") (auto simp: stream_credit_ok_def)
    next
      case (Some w)
      have "m = uint (Data_PayloadLen f)" if "handed f e" using m(3) that .
      with Some st co tk recv [of k] same(3,4) m(1,2) show ?thesis
        by (cases "handed f e"; cases "df_StreamID f = k") (auto simp: stream_credit_ok_def)
    qed
  qed
  with conn' cr same(2) show ?thesis by (simp add: credit_ok_def)
qed

lemma table_data_credit:
  assumes ok: "streams_ok t" and cr: "credit_ok h t" and c: "table_data d f t = (e, t')" and g: "goes_on e"
  shows "credit_ok (h @ [(TFrame now (DataFrame f), e)]) t'"
proof -
  let ?n = "Data_PayloadLen f"
  let ?sid = "df_StreamID f"
  obtain e1 cw where cw: "Consume ?n (tb_connRecv t) = (e1, cw)" by fastforce
  have e1: "e1 = None" using c g cw ok
    by (cases e1) (auto simp: table_data_def Consume_def Window_errorf_def streams_ok_def split: if_splits)
  have conn: "win_n cw = win_n (tb_connRecv t) - uint ?n"
    using cw e1 by (auto simp: Consume_def split: if_splits)
  let ?t = "t\<lparr>tb_connRecv := cw\<rparr>"
  show ?thesis
  proof (cases "\<exists>s. Table_Stream ?sid t = Some s \<and> \<not> peerDone s")
    case False
    have "t' = ?t \<and> \<not> handed f e"
      using False c cw e1 by (auto simp: table_data_def absent_def handed_def Let_def split: option.splits if_splits)
    then show ?thesis
      using conn by (intro credit_ok_data [OF cr, where m = 0]) (auto simp: recv_of_def option.map_comp comp_def)
  next
    case True
    then obtain s where s: "Table_Stream ?sid t = Some s" "\<not> peerDone s" by blast
    have s': "Table_Stream ?sid ?t = Some s" using s(1) by simp
    note D = Table_StreamD [OF ok s(1)]
    then have id: "st_id s = ?sid" and obj: "store_get (tb_objects t) ?sid = Some s" by (auto simp: object_ok_def)
    obtain e2 w where w: "Consume ?n (st_recv s) = (e2, w)" by fastforce
    show ?thesis
    proof (cases e2)
      case (Some x)
      then have "w = st_recv s" using w by (auto simp: Consume_def split: if_splits)
      then have "t' = set_stream s ?t \<and> e = Some x"
        using c cw e1 s s' w Some by (simp add: table_data_def Let_def)
      moreover have "\<not> handed f (Some x)"
        using w Some by (auto simp: handed_def Consume_def Window_errorf_def split: if_splits)
      ultimately show ?thesis
        using conn id obj
        by (intro credit_ok_data [OF cr, where m = 0]) (auto simp: recv_of_def set_stream_def)
    next
      case None
      then have wn: "w = (st_recv s)\<lparr>win_n := win_n (st_recv s) - uint ?n\<rparr>"
        using w by (auto simp: Consume_def split: if_splits)
      let ?s = "s\<lparr>st_recv := w\<rparr>"
      have "\<exists>r. t' = (if df_EndStream f then retire (recvEnd ?s) (set_stream (recvEnd ?s) ?t)
          else set_stream ?s ?t)\<lparr>tb_reqs := r\<rparr>"
        using c cw e1 s s' w None
        by (cases "df_EndStream f") (auto simp: table_data_def Let_def split: prod.splits)
      then obtain r where r: "t' = (if df_EndStream f then retire (recvEnd ?s) (set_stream (recvEnd ?s) ?t)
          else set_stream ?s ?t)\<lparr>tb_reqs := r\<rparr>" ..
      let ?t1 = "set_stream ?s ?t"
      have "credit_ok (h @ [(TFrame now (DataFrame f), e)]) ?t1"
        using conn id obj wn
        by (intro credit_ok_data [OF cr, where m = "uint ?n"]) (auto simp: recv_of_def set_stream_def)
      moreover have "quiet ?t1 t'"
        unfolding r using id quiet_retire [of "set_stream (recvEnd ?s) ?t" "recvEnd ?s"]
        by (auto simp: quiet_def recv_of_def set_stream_def)
      ultimately show ?thesis by (rule quiet_credit_ok [rotated])
    qed
  qed
qed

lemma table_dispatch_credit:
  assumes "streams_ok t" "credit_ok h t" "reports_ok h" "table_dispatch d now f t = (e, t')" "goes_on e"
  shows "credit_ok (h @ [(TFrame now f, e)]) t'"
proof (cases f)
  case (DataFrame g)
  with assms table_data_credit [of t h d g e t' now] show ?thesis by simp
next
  case (HeadersFrame g)
  then have "credit_ok h t'"
    using assms table_headers_credit [of t d g e t' h] by simp
  with HeadersFrame show ?thesis by (simp add: credit_ok_idle)
next
  case (ContinuationFrame g)
  then have "credit_ok h t'"
    using assms extend_credit by (auto simp: table_continuation_def split: if_splits option.splits)
  with ContinuationFrame show ?thesis by (simp add: credit_ok_idle)
next
  case (RSTStreamFrame g)
  with assms quiet_credit_ok [OF rstStream_quiet [of t d now g e t'] assms(2)] show ?thesis
    by (simp add: credit_ok_idle)
next
  case (WindowUpdateFrame g)
  with assms quiet_credit_ok [OF table_windowUpdate_quiet [of g t e t'] assms(2)] show ?thesis
    by (simp add: credit_ok_idle)
qed (use assms in \<open>auto simp: credit_ok_idle\<close>)

lemma HandleFrame_credit:
  assumes "streams_ok t" "credit_ok h t" "reports_ok h" "HandleFrame d now f t = (e, t')" "goes_on e"
  shows "credit_ok (h @ [(TFrame now f, e)]) t'"
proof -
  have ok: "streams_ok (drainSent t)" by (rule drainSent_ok [OF assms(1)])
  have cr: "credit_ok h (drainSent t)" by (rule quiet_credit_ok [OF drainSent_quiet [OF assms(1)] assms(2)])
  obtain t1 where t1: "drainCredit (drainSent t) = (None, t1)" "credit_ok h t1"
    by (rule drainCredit_spec [OF ok cr assms(3)]) blast
  then have "table_dispatch d now f t1 = (e, t')" using assms(4) by (simp add: HandleFrame_def)
  from table_dispatch_credit [OF drainCredit_ok [OF ok t1(1)] t1(2) assms(3) this assms(5)] show ?thesis .
qed

subsection \<open>Reports\<close>

lemma earn_spec:
  assumes "earn n c = (strm, c')" "0 \<le> rc_pending c" "0 < n" "rc_pending c + n \<le> 65535"
  obtains due where "0 \<le> due" "uint strm = due" "rc_pending c' = rc_pending c + n - due"
    "rc_granted c' = rc_granted c + due" "0 \<le> rc_pending c'"
proof (cases "rc_pending c + n < ReplenishThreshold")
  case True
  with assms show ?thesis by (intro that [of 0]) (auto simp: earn_def Let_def)
next
  case False
  have "uint (word_of_int (rc_pending c + n) :: u32) = rc_pending c + n"
    using assms(2-4) by (simp only: uint_word_of_int) (simp add: take_bit_int_eq_self)
  with False assms show ?thesis
    by (intro that [of "rc_pending c + n"]) (auto simp: earn_def Let_def simp del: of_int_add split: if_splits)
qed

text \<open>What a report does to the parts of a table that it touches.\<close>

lemma ReportConsumed_fields:
  assumes "0 < n" "earn n (tb_connCredit t) = (conn, cc)" "earn n (credit_of sid t) = (strm, c)"
  shows "tb_connCredit (ReportConsumed sid n m t) = cc"
    "tb_streamCredit (ReportConsumed sid n m t) =
       (if m then store_put sid c (tb_streamCredit t) else tb_streamCredit t)"
    "announced k (tb_out (ReportConsumed sid n m t)) =
       announced k (tb_out t) + (if k = 0 then uint conn else 0) + (if k = sid \<and> m then uint strm else 0)"
    "tb_connRecv (ReportConsumed sid n m t) = tb_connRecv t"
    "tb_objects (ReportConsumed sid n m t) = tb_objects t"
    "tb_streams (ReportConsumed sid n m t) = tb_streams t"
proof -
  have z: "x > 0 \<longleftrightarrow> x \<noteq> 0" for x :: u32 by (simp add: word_neq_0_conv)
  let ?t1 = "t\<lparr>tb_connCredit := cc\<rparr>"
  let ?t2 = "if m then ?t1\<lparr>tb_streamCredit := store_put sid c (tb_streamCredit t)\<rparr> else ?t1"
  let ?t3 = "if conn \<noteq> 0 then enqueueWindowUpdate 0 conn ?t2 else ?t2"
  have R: "ReportConsumed sid n m t = (if m \<and> strm \<noteq> 0 then enqueueWindowUpdate sid strm ?t3 else ?t3)"
    using assms by (cases m) (simp_all add: ReportConsumed_def credit_of_def Let_def z)
  show "tb_connCredit (ReportConsumed sid n m t) = cc"
    "tb_streamCredit (ReportConsumed sid n m t) =
       (if m then store_put sid c (tb_streamCredit t) else tb_streamCredit t)"
    "tb_connRecv (ReportConsumed sid n m t) = tb_connRecv t"
    "tb_objects (ReportConsumed sid n m t) = tb_objects t"
    "tb_streams (ReportConsumed sid n m t) = tb_streams t"
    unfolding R by (simp_all add: enqueueWindowUpdate_def table_emit_def)
  show "announced k (tb_out (ReportConsumed sid n m t)) =
       announced k (tb_out t) + (if k = 0 then uint conn else 0) + (if k = sid \<and> m then uint strm else 0)"
    unfolding R by (auto simp: enqueueWindowUpdate_def table_emit_def)
qed

lemma ReportConsumed_credit:
  assumes ok: "streams_ok t" and cr: "credit_ok h t" and rep: "reports_ok (h @ [(TConsumed sid n m, None)])"
  shows "credit_ok (h @ [(TConsumed sid n m, None)]) (ReportConsumed sid n m t)"
proof (cases "0 < n")
  case False
  then show ?thesis using cr by (simp add: ReportConsumed_def credit_ok_idle)
next
  case True
  let ?x = "(TConsumed sid n m, None) :: 'r table_op \<times> error option"
  let ?t = "ReportConsumed sid n m t"
  have rep0: "reports_ok h" by (rule reports_ok_snoc [OF rep])
  have str: "stream_credit_ok h t k" for k using cr by (simp add: credit_ok_def)
  have con: "conn_credit_ok h t" using cr by (simp add: credit_ok_def)
  have le: "consumed sid h + n \<le> taken sid h" using reports_okD [OF rep, of sid] True by simp
  then obtain w where w: "recv_of sid t = Some w"
    using str [of sid] True consumed_nonneg [of sid h] by (cases "recv_of sid t") (auto simp: stream_credit_ok_def)
  then have sid: "sid \<noteq> 0" using objectD [OF ok, of sid] by (auto simp: recv_of_def object_ok_def)
  have "all_consumed h + n \<le> all_received h"
    using reports_ok_all [OF rep] True by (simp add: all_received_snoc)
  then have "win_n (tb_connRecv t) + rc_granted (tb_connCredit t) + rc_pending (tb_connCredit t) + n \<le> 65535"
    using con by (simp add: conn_credit_ok_def)
  moreover have "0 \<le> win_n (tb_connRecv t)" by (rule conn_credit_bound [OF ok con rep0])
  ultimately have p1: "0 \<le> rc_pending (tb_connCredit t)" "rc_pending (tb_connCredit t) + n \<le> 65535"
    using con by (auto simp: conn_credit_ok_def)
  have "win_n w + rc_granted (credit_of sid t) + rc_pending (credit_of sid t) + n \<le> 65535"
    using str [of sid] w le by (simp add: stream_credit_ok_def)
  then have p2: "0 \<le> rc_pending (credit_of sid t)" "rc_pending (credit_of sid t) + n \<le> 65535"
    using stream_credit_bound(1) [OF ok str rep0 w] str [of sid] by (auto simp: stream_credit_ok_def)
  obtain conn cc where e1: "earn n (tb_connCredit t) = (conn, cc)" by fastforce
  obtain strm c where e2: "earn n (credit_of sid t) = (strm, c)" by fastforce
  obtain due1 where d1: "0 \<le> due1" "uint conn = due1" "rc_pending cc = rc_pending (tb_connCredit t) + n - due1"
    "rc_granted cc = rc_granted (tb_connCredit t) + due1" "0 \<le> rc_pending cc"
    by (rule earn_spec [OF e1 p1(1) True p1(2)])
  obtain due2 where d2: "0 \<le> due2" "uint strm = due2" "rc_pending c = rc_pending (credit_of sid t) + n - due2"
    "rc_granted c = rc_granted (credit_of sid t) + due2" "0 \<le> rc_pending c"
    by (rule earn_spec [OF e2 p2(1) True p2(2)])
  note fl = ReportConsumed_fields [OF True e1 e2]
  have "conn_credit_ok (h @ [?x]) ?t"
    using con d1 fl sid True by (simp add: conn_credit_ok_def all_received_snoc)
  moreover have "stream_credit_ok (h @ [?x]) ?t k" for k
  proof (cases "k = sid")
    case True
    have "credit_of sid ?t = (if m then c else credit_of sid t)" by (simp add: credit_of_def fl)
    moreover have "recv_of sid ?t = Some w" using w by (simp add: recv_of_def fl)
    ultimately show ?thesis
      using True str [of sid] w d2 fl sid \<open>0 < n\<close> by (auto simp: stream_credit_ok_def)
  next
    case False
    have "credit_of k ?t = credit_of k t" using False by (simp add: credit_of_def fl)
    moreover have "recv_of k ?t = recv_of k t" by (simp add: recv_of_def fl)
    moreover have "recv_of 0 t = None"
      using objectD [OF ok, of 0] by (cases "store_get (tb_objects t) 0") (auto simp: recv_of_def object_ok_def)
    ultimately show ?thesis
      using False str [of k] fl by (cases "recv_of k t") (auto simp: stream_credit_ok_def)
  qed
  moreover have "store_ok (tb_streamCredit ?t)" using cr by (simp add: fl credit_ok_def)
  ultimately show ?thesis by (simp add: credit_ok_def)
qed

subsection \<open>Histories\<close>

lemma table_apply_credit:
  assumes "streams_ok t" "credit_ok h t" "reports_ok (h @ [(op, e)])" "table_apply d op t = (e, t')" "goes_on e"
  shows "credit_ok (h @ [(op, e)]) t'"
proof -
  note rep = reports_ok_snoc [OF assms(3)]
  show ?thesis
  proof (cases op)
    case (TFrame now f)
    with HandleFrame_credit [OF assms(1,2) rep _ assms(5)] assms(4) show ?thesis by simp
  next
    case (TConsumed sid n m)
    with ReportConsumed_credit [OF assms(1,2), of sid n m] assms(3,4) show ?thesis by auto
  next
    case (TSetTableSize n)
    with assms have "quiet t t'" by (auto simp: SetHeaderTableSize_def quiet_def table_emit_def recv_of_def)
    with TSetTableSize quiet_credit_ok [OF _ assms(2)] show ?thesis by (simp add: credit_ok_idle)
  next
    case (TSetListSize n)
    with assms have "quiet t t'" by (auto simp: SetMaxHeaderListSize_def quiet_def table_emit_def recv_of_def)
    with TSetListSize quiet_credit_ok [OF _ assms(2)] show ?thesis by (simp add: credit_ok_idle)
  qed (use assms(4) quiet_credit_ok [OF _ assms(2), of t'] in \<open>auto simp: credit_ok_idle ReportSendEnd_def
      ConnWindowUpdate_def SetInitialWindowSize_def Table_Close_def split: prod.splits\<close>)
qed

lemma table_history_credit:
  "table_history d t0 h t \<Longrightarrow> streams_ok t0 \<Longrightarrow> credit_ok [] t0 \<Longrightarrow> reports_ok h \<Longrightarrow> credit_ok h t"
proof (induction rule: table_history.induct)
  case (step h t op e t')
  note rep = reports_ok_snoc [OF step.prems(3)]
  from table_apply_credit [OF table_history_ok [OF step.hyps(1) step.prems(1)] step.IH [OF step.prems(1,2) rep]
      step.prems(3) step.hyps(3,4)]
  show ?case .
qed simp

lemma Table_New_credit: "Table_New codec reqs n sndr now = Inr t \<Longrightarrow> credit_ok [] t"
  by (auto simp: Table_New_def credit_ok_def conn_credit_ok_def stream_credit_ok_def recv_of_def credit_of_def
      no_credit_def NewConnWindow_def split: option.splits)

end
