(* ===== verification/TableProps.thy ===== *)
theory TableProps
  imports TableCredit
begin

text \<open>
  The properties of the stream table over any history of a connection: which streams are live, the
  life of a stream, credit that is honoured once announced, the compression state, the bound on
  resets, the answers to frames in the wrong state, and the absence of panics.
\<close>

subsection \<open>Header blocks\<close>

text \<open>The header blocks of a history, read from its frames alone: those completed, and the one open.\<close>

fun block_step :: "byte list list \<times> byte list option \<Rightarrow> 'r table_op \<Rightarrow> byte list list \<times> byte list option" where
  "block_step (done, cur) (TFrame _ (HeadersFrame f)) =
     (if hf_EndHeaders f then (done @ [hf_Fragment f], None) else (done, Some (hf_Fragment f)))"
| "block_step (done, cur) (TFrame _ (ContinuationFrame f)) =
     (let buf = (case cur of None \<Rightarrow> [] | Some b \<Rightarrow> b) @ cf_Fragment f in
      if cf_EndHeaders f then (done @ [buf], None) else (done, Some buf))"
| "block_step (done, cur) _ = (done, cur)"

definition header_blocks :: "('r table_op \<times> error option) list \<Rightarrow> byte list list \<times> byte list option" where
  "header_blocks h = foldl block_step ([], None) (map fst h)"

definition decode_all :: "('c, 'r) deps \<Rightarrow> byte list list \<Rightarrow> 'c \<Rightarrow> 'c" where
  "decode_all d bs c = foldl (\<lambda>c b. snd (dep_Decode d b c)) c bs"

lemma decode_all_simps [simp]:
  "decode_all d [] c = c"
  "decode_all d (bs @ [b]) c = snd (dep_Decode d b (decode_all d bs c))"
  by (simp_all add: decode_all_def)

lemma header_blocks_simps [simp]:
  "header_blocks [] = ([], None)"
  "header_blocks (h @ [(op, e)]) = block_step (header_blocks h) op"
  by (simp_all add: header_blocks_def)

definition open_block :: "('c, 'r) table \<Rightarrow> byte list option" where
  "open_block t = map_option bk_buf (tb_assembling t)"

text \<open>Steps that do not touch the header block or the codec.\<close>

definition same_block :: "('c, 'r) table \<Rightarrow> ('c, 'r) table \<Rightarrow> bool" where
  "same_block t t' \<longleftrightarrow> tb_codec t' = tb_codec t \<and> tb_assembling t' = tb_assembling t"

lemma same_block_simps [simp]:
  "same_block t t"
  "same_block t (set_stream s t') = same_block t t'"
  "same_block t (table_emit x t') = same_block t t'"
  "same_block t (t'\<lparr>tb_reqs := r\<rparr>) = same_block t t'"
  "same_block t (t'\<lparr>tb_resets := b\<rparr>) = same_block t t'"
  "same_block t (t'\<lparr>tb_sent := l\<rparr>) = same_block t t'"
  "same_block t (t'\<lparr>tb_connRecv := w\<rparr>) = same_block t t'"
  "same_block t (t'\<lparr>tb_sender := sn\<rparr>) = same_block t t'"
  "same_block t (t'\<lparr>tb_streams := ss\<rparr>) = same_block t t'"
  "same_block t (t'\<lparr>tb_connCredit := cc\<rparr>) = same_block t t'"
  "same_block t (t'\<lparr>tb_streamCredit := m\<rparr>) = same_block t t'"
  by (simp_all add: same_block_def set_stream_def table_emit_def)

lemma same_block_retire [simp]: "same_block t (retire s t') = same_block t t'"
  by (simp add: retire_def)

lemma same_block_trans: "same_block t t' \<Longrightarrow> same_block t' t'' \<Longrightarrow> same_block t t''"
  by (simp add: same_block_def)

lemma drainSent_loop_block: "same_block t0 t \<Longrightarrow> same_block t0 (drainSent_loop ids t)"
  by (induction ids t rule: drainSent_loop.induct) (auto simp: SendEnd_def Let_def split: option.split)

lemma drainSent_block [simp]: "same_block t (drainSent t)"
  by (simp add: drainSent_def Let_def drainSent_loop_block)

lemma apply_credit_block: "same_block t0 t \<Longrightarrow> apply_credit due t = (e, t') \<Longrightarrow> same_block t0 t'"
  by (induction due t rule: apply_credit.induct) (auto split: option.splits prod.splits)

lemma drainCredit_block: "drainCredit t = (e, t') \<Longrightarrow> same_block t t'"
  by (auto simp: drainCredit_def Let_def intro: apply_credit_block [rotated] split: prod.splits if_splits option.splits)

lemma completeBlock_decodes:
  assumes "completeBlock d b t = (e, t')" "goes_on e"
  shows "tb_codec t' = snd (dep_Decode d (bk_buf b) (tb_codec t))" "tb_assembling t' = None"
    "\<exists>flds. fst (dep_Decode d (bk_buf b) (tb_codec t)) = Inr flds"
proof -
  obtain dr c1 where dec: "dep_Decode d (bk_buf b) (tb_codec t) = (dr, c1)" by fastforce
  obtain flds where dr: "dr = Inr flds" using assms dec by (cases dr) (auto simp: completeBlock_def)
  let ?t = "t\<lparr>tb_assembling := None, tb_codec := c1\<rparr>"
  have "same_block ?t t'"
    using assms(1) dec dr
    by (cases "bk_verdict b"; cases "bk_s b")
      (auto simp: completeBlock_def Let_def split: prod.splits sum.splits option.splits if_splits)
  then show "tb_codec t' = snd (dep_Decode d (bk_buf b) (tb_codec t))" "tb_assembling t' = None"
    "\<exists>flds. fst (dep_Decode d (bk_buf b) (tb_codec t)) = Inr flds"
    using dec dr by (simp_all add: same_block_def)
qed

lemma extend_decodes:
  assumes "extend d frag fin t = (e, t')" "goes_on e"
  shows "\<exists>b. tb_assembling t = Some b \<and>
    tb_codec t' = (if fin then snd (dep_Decode d (bk_buf b @ frag) (tb_codec t)) else tb_codec t) \<and>
    open_block t' = (if fin then None else Some (bk_buf b @ frag)) \<and>
    (fin \<longrightarrow> (\<exists>flds. fst (dep_Decode d (bk_buf b @ frag) (tb_codec t)) = Inr flds))"
proof (cases "tb_assembling t")
  case (Some b)
  let ?b = "b\<lparr>bk_buf := bk_buf b @ frag\<rparr>"
  show ?thesis
  proof (cases fin)
    case True
    then have "completeBlock d ?b (t\<lparr>tb_assembling := Some ?b\<rparr>) = (e, t')"
      using assms(1) Some by (simp add: extend_def Let_def)
    from completeBlock_decodes [OF this assms(2)] True Some show ?thesis by (simp add: open_block_def)
  qed (use assms Some in \<open>auto simp: extend_def Let_def open_block_def\<close>)
qed (use assms in \<open>auto simp: extend_def\<close>)

lemma table_dispatch_block:
  assumes "table_dispatch d now f t = (e, t')" "goes_on e" "(bs, cur) = (bs, open_block t)"
    and "block_step (bs, cur) (TFrame now f) = (bs', cur')"
  shows "open_block t' = cur' \<and> ((bs' = bs \<and> tb_codec t' = tb_codec t) \<or>
    (\<exists>b flds. bs' = bs @ [b] \<and> tb_codec t' = snd (dep_Decode d b (tb_codec t)) \<and>
       fst (dep_Decode d b (tb_codec t)) = Inr flds))"
proof (cases f)
  case (HeadersFrame g)
  then obtain t1 b where t1: "extend d (hf_Fragment g) (hf_EndHeaders g) t1 = (e, t')"
    "tb_codec t1 = tb_codec t" "tb_assembling t1 = Some b" "bk_buf b = []"
    using assms(1,2)
    by (auto simp: table_headers_def openStream_def beginTrailers_def Let_def split: if_splits option.splits)
  from extend_decodes [OF t1(1) assms(2)] t1 HeadersFrame assms(3,4) show ?thesis
    by (auto split: if_splits)
next
  case (ContinuationFrame g)
  then have t1: "extend d (cf_Fragment g) (cf_EndHeaders g) t = (e, t')"
    using assms(1,2) by (auto simp: table_continuation_def split: if_splits option.splits)
  from extend_decodes [OF t1 assms(2)] ContinuationFrame assms(3,4) show ?thesis
    by (auto simp: open_block_def Let_def split: if_splits)
next
  case (DataFrame g)
  have "same_block t t'"
    using assms(1) DataFrame
    by (auto simp: table_data_def Let_def split: prod.splits option.splits if_splits)
  then show ?thesis using DataFrame assms(3,4) by (simp add: same_block_def open_block_def)
next
  case (RSTStreamFrame g)
  have "same_block t t'"
    using assms(1) RSTStreamFrame
    by (auto simp: rstStream_def Let_def split: prod.splits option.splits if_splits)
  then show ?thesis using RSTStreamFrame assms(3,4) by (simp add: same_block_def open_block_def)
next
  case (WindowUpdateFrame g)
  have "same_block t t'"
    using assms(1) WindowUpdateFrame
    by (auto simp: table_windowUpdate_def split: prod.splits if_splits)
  then show ?thesis using WindowUpdateFrame assms(3,4) by (simp add: same_block_def open_block_def)
qed (use assms in auto)

lemma table_history_blocks:
  assumes "table_history d t0 h t" "streams_ok t0" "credit_ok [] t0" "reports_ok h" "tb_assembling t0 = None"
  shows "open_block t = snd (header_blocks h) \<and> tb_codec t = decode_all d (fst (header_blocks h)) (tb_codec t0) \<and>
    (\<forall>n<length (fst (header_blocks h)).
       \<exists>flds. fst (dep_Decode d (fst (header_blocks h) ! n) (decode_all d (take n (fst (header_blocks h))) (tb_codec t0))) = Inr flds)"
  using assms
proof (induction rule: table_history.induct)
  case start
  then show ?case by (simp add: open_block_def)
next
  case (step h t op e t')
  note rep = reports_ok_snoc [OF step.prems(3)]
  note IH = step.IH [OF step.prems(1,2) rep step.prems(4)]
  have ok: "streams_ok t" by (rule table_history_ok [OF step.hyps(1) step.prems(1)])
  have cr: "credit_ok h t" by (rule table_history_credit [OF step.hyps(1) step.prems(1,2) rep])
  obtain bs cur where hb: "header_blocks h = (bs, cur)" by fastforce
  obtain bs' cur' where hb': "block_step (bs, cur) op = (bs', cur')" by fastforce
  have *: "open_block t' = cur' \<and> ((bs' = bs \<and> tb_codec t' = tb_codec t) \<or>
    (\<exists>b flds. bs' = bs @ [b] \<and> tb_codec t' = snd (dep_Decode d b (tb_codec t)) \<and>
       fst (dep_Decode d b (tb_codec t)) = Inr flds))"
  proof (cases op)
    case (TFrame now f)
    let ?t = "drainSent t"
    obtain t1 where t1: "drainCredit ?t = (None, t1)"
      by (rule drainCredit_spec [OF drainSent_ok [OF ok] quiet_credit_ok [OF drainSent_quiet [OF ok] cr] rep]) blast
    have "same_block t t1" using drainSent_block drainCredit_block [OF t1] by (rule same_block_trans)
    then have same: "tb_codec t1 = tb_codec t" "open_block t1 = cur"
      using IH hb by (simp_all add: same_block_def open_block_def)
    have "table_dispatch d now f t1 = (e, t')" using step.hyps(3) TFrame t1 by (simp add: HandleFrame_def)
    from table_dispatch_block [OF this step.hyps(4), of bs cur bs' cur'] same hb' TFrame show ?thesis by simp
  next
    case (TConsumed sid n m)
    then have "same_block t t'"
      using step.hyps(3)
      by (auto simp: ReportConsumed_def Let_def enqueueWindowUpdate_def split: prod.splits if_splits)
    with TConsumed hb' IH hb show ?thesis by (simp add: same_block_def open_block_def)
  qed (use step.hyps(3) hb' IH hb in \<open>auto simp: ReportSendEnd_def ConnWindowUpdate_def SetInitialWindowSize_def
      SetHeaderTableSize_def SetMaxHeaderListSize_def Table_Close_def open_block_def table_emit_def split: prod.splits\<close>)
  then show ?case
  proof (elim conjE disjE exE)
    assume "open_block t' = cur'" "bs' = bs" "tb_codec t' = tb_codec t"
    then show ?case using IH hb hb' by simp
  next
    fix b flds
    assume b: "open_block t' = cur'" "bs' = bs @ [b]" "tb_codec t' = snd (dep_Decode d b (tb_codec t))"
      "fst (dep_Decode d b (tb_codec t)) = Inr flds"
    then show ?case using IH hb hb' by (auto simp: nth_append less_Suc_eq)
  qed
qed

end
