(* ===== verification/TableResets.thy ===== *)
theory TableResets
  imports TableProps
begin

text \<open>
  The stream table's bound on stream resets: every RST_STREAM that a connection survives took a
  token from the bucket, so the bucket's bound is the connection's.
\<close>

fun reset_time :: "'r table_op \<times> error option \<Rightarrow> int list" where
  "reset_time (TFrame now (RSTStreamFrame f), _) = [now]"
| "reset_time _ = []"

definition reset_times :: "('r table_op \<times> error option) list \<Rightarrow> int list" where
  "reset_times h = concat (map reset_time h)"

lemma reset_times_simps [simp]:
  "reset_times [] = []"
  "reset_times (h @ [x]) = reset_times h @ reset_time x"
  by (simp_all add: reset_times_def)

lemma resets_simps [simp]:
  "tb_resets (set_stream s t) = tb_resets t"
  "tb_resets (table_emit x t) = tb_resets t"
  "tb_resets (retire s t) = tb_resets t"
  "tb_resets (SendEnd s t) = tb_resets t"
  by (simp_all add: set_stream_def table_emit_def retire_def SendEnd_def Let_def)

lemma drainSent_resets [simp]: "tb_resets (drainSent t) = tb_resets t"
proof -
  have "tb_resets (drainSent_loop ids t) = tb_resets t" for ids and t :: "('a, 'b) table"
    by (induction ids t rule: drainSent_loop.induct) (auto split: option.split)
  then show ?thesis by (simp add: drainSent_def Let_def)
qed

lemma apply_credit_resets: "apply_credit due t = (e, t') \<Longrightarrow> tb_resets t' = tb_resets t"
  by (induction due t rule: apply_credit.induct) (auto split: option.splits prod.splits)

lemma drainCredit_resets: "drainCredit t = (e, t') \<Longrightarrow> tb_resets t' = tb_resets t"
  by (auto simp: drainCredit_def Let_def dest: apply_credit_resets split: prod.splits if_splits option.splits)

lemma extend_resets: "extend d frag fin t = (e, t') \<Longrightarrow> tb_resets t' = tb_resets t"
  by (auto simp: extend_def completeBlock_def Let_def split: option.splits prod.splits sum.splits if_splits)

lemma rstStream_resets:
  "rstStream d now f t = (e, t') \<Longrightarrow> goes_on e \<Longrightarrow> Allow now (tb_resets t) = (True, tb_resets t')"
  by (auto simp: rstStream_def Let_def split: option.splits prod.splits if_splits)

lemma table_dispatch_resets:
  assumes "streams_ok t" "table_dispatch d now f t = (e, t')" "goes_on e"
  shows "(case f of RSTStreamFrame g \<Rightarrow> Allow now (tb_resets t) = (True, tb_resets t') | _ \<Rightarrow> tb_resets t' = tb_resets t)"
proof (cases f)
  case (HeadersFrame g)
  then have h: "table_headers d g t = (e, t')" using assms(2) by simp
  from assms(1) h have "tb_resets t' = tb_resets t"
    by (cases rule: table_headers_cases) (auto dest: extend_resets)
  then show ?thesis using HeadersFrame by simp
next
  case (ContinuationFrame g)
  with assms(2) show ?thesis
    by (auto simp: table_continuation_def dest: extend_resets split: option.splits if_splits)
next
  case (DataFrame g)
  with assms(2) show ?thesis
    by (auto simp: table_data_def Let_def split: prod.splits option.splits if_splits)
next
  case (RSTStreamFrame g)
  with assms(2,3) rstStream_resets [of d now g t e t'] show ?thesis by simp
next
  case (WindowUpdateFrame g)
  with assms(2) show ?thesis by (auto simp: table_windowUpdate_def split: prod.splits if_splits)
qed (use assms in auto)

lemma run_bucket_snoc:
  "run_bucket (ts @ [t]) b = (case run_bucket ts b of (n, b1) \<Rightarrow>
     (case Allow t b1 of (ok, b2) \<Rightarrow> (if ok then n + 1 else n, b2)))"
  by (induction ts arbitrary: b) (auto split: prod.splits)

lemma table_history_resets:
  assumes "table_history d t0 h t" "streams_ok t0" "credit_ok [] t0" "reports_ok h"
  shows "run_bucket (reset_times h) (tb_resets t0) = (int (length (reset_times h)), tb_resets t)"
  using assms
proof (induction rule: table_history.induct)
  case (step h t op e t')
  note rep = reports_ok_snoc [OF step.prems(3)]
  note IH = step.IH [OF step.prems(1,2) rep]
  have ok: "streams_ok t" by (rule table_history_ok [OF step.hyps(1) step.prems(1)])
  have cr: "credit_ok h t" by (rule table_history_credit [OF step.hyps(1) step.prems(1,2) rep])
  show ?case
  proof (cases op)
    case (TFrame now f)
    let ?t = "drainSent t"
    note dok = drainSent_ok [OF ok]
    obtain t1 where t1: "drainCredit ?t = (None, t1)"
      by (rule drainCredit_spec [OF dok quiet_credit_ok [OF drainSent_quiet [OF ok] cr] rep]) blast
    have "table_dispatch d now f t1 = (e, t')" using step.hyps(3) TFrame t1 by (simp add: HandleFrame_def)
    from table_dispatch_resets [OF drainCredit_ok [OF dok t1] this step.hyps(4)] drainCredit_resets [OF t1] IH TFrame
    show ?thesis by (cases f) (auto simp: run_bucket_snoc)
  next
    case (TConsumed sid n m)
    with step.hyps(3) IH show ?thesis
      by (auto simp: ReportConsumed_def Let_def enqueueWindowUpdate_def split: prod.splits if_splits)
  qed (use step.hyps(3) IH in \<open>auto simp: ReportSendEnd_def ConnWindowUpdate_def SetInitialWindowSize_def
      SetHeaderTableSize_def SetMaxHeaderListSize_def Table_Close_def split: prod.splits\<close>)
qed simp

end
