(* ===== verification/StreamProps.thy ===== *)
theory StreamProps
  imports TableResets
begin

text \<open>
  The properties of the stream table, each over every history of a new table, and the concrete
  histories that they are applied to.
\<close>

subsection \<open>Running a history\<close>

fun table_run ::
  "('c, 'r) deps \<Rightarrow> 'r table_op list \<Rightarrow> ('r table_op \<times> error option) list \<Rightarrow> ('c, 'r) table \<Rightarrow>
     ('r table_op \<times> error option) list \<times> ('c, 'r) table" where
  "table_run d [] h t = (h, t)"
| "table_run d (op # ops) h t = (case table_apply d op t of (e, t') \<Rightarrow> table_run d ops (h @ [(op, e)]) t')"

lemma table_run_history:
  "table_history d t0 h t \<Longrightarrow> table_run d ops h t = (h', t') \<Longrightarrow> list_all table_op_ok ops \<Longrightarrow>
     list_all goes_on (map snd h') \<Longrightarrow> table_history d t0 h' t'"
proof (induction ops arbitrary: h t)
  case (Cons op ops)
  obtain e t1 where a: "table_apply d op t = (e, t1)" by fastforce
  have run: "table_run d ops (h @ [(op, e)]) t1 = (h', t')" using Cons.prems(2) a by simp
  have "\<exists>g. table_run d ops k u = (k @ g, snd (table_run d ops k u))" for ops k and u :: "('a, 'b) table"
    by (induction ops arbitrary: k u) (auto split: prod.splits, metis append_assoc prod.inject snd_conv)
  from this [of ops "h @ [(op, e)]" t1] run obtain g where "h' = h @ [(op, e)] @ g" by auto
  then have "goes_on e" using Cons.prems(4) by simp
  then have "table_history d t0 (h @ [(op, e)]) t1"
    using Cons.prems(1,3) a by (intro table_history.step) simp_all
  from Cons.IH [OF this run] Cons.prems(3,4) show ?case by simp
qed simp

text \<open>A request layer that accepts everything, and a header codec without a state.\<close>

definition plain_deps :: "(unit, unit) deps" where
  "plain_deps = \<lparr>dep_Decode = \<lambda>b c. (Inr [], c), dep_Headers = \<lambda>s flds es r. (None, r),
     dep_Data = \<lambda>s b es r. (None, r), dep_Trailers = \<lambda>s flds r. (None, r), dep_Canceled = \<lambda>s c r. r\<rparr>"

definition plain_table :: "(unit, unit) table" where
  "plain_table = (case Table_New (Some ()) (Some ()) 0 None 0 of Inr t \<Rightarrow> t)"

definition request_frame :: "u32 \<Rightarrow> bool \<Rightarrow> frame" where
  "request_frame sid es =
     HeadersFrame \<lparr>hf_StreamID = sid, hf_EndStream = es, hf_EndHeaders = True, hf_Fragment = [],
       hf_Priority = False, hf_Exclusive = False, hf_StreamDependency = 0, hf_Weight = 0,
       hf_Padded = False, hf_PadLen = 0\<rparr>"

definition content_frame :: "u32 \<Rightarrow> byte list \<Rightarrow> data_frame" where
  "content_frame sid b = \<lparr>df_StreamID = sid, df_EndStream = False, df_Data = b, df_Padded = False, df_PadLen = 0\<rparr>"

definition reset_frame :: "u32 \<Rightarrow> frame" where
  "reset_frame sid = RSTStreamFrame \<lparr>rf_StreamID = sid, rf_ErrCode = Cancel\<rparr>"

definition upload :: "unit table_op list" where
  "upload = [TFrame 0 (request_frame 1 False), TFrame 0 (DataFrame (content_frame 1 [1, 2, 3])),
     TConsumed 1 3 True, TFrame 0 (request_frame 3 True)]"

lemma plain_table_New: "Table_New (Some ()) (Some ()) 0 None 0 = Inr plain_table"
  by (simp add: plain_table_def Table_New_def)

lemma New_start:
  assumes "Table_New codec reqs n None now = Inr t0" "table_history d t0 h t"
  shows "streams_ok t0" "credit_ok [] t0" "streams_ok t"
  using Table_New_ok [OF assms(1)] Table_New_credit [OF assms(1)] table_history_ok [OF assms(2)] by simp_all

lemma upload_run:
  "table_history plain_deps plain_table (fst (table_run plain_deps upload [] plain_table))
     (snd (table_run plain_deps upload [] plain_table))"
proof (rule table_run_history [OF table_history.start, of _ upload])
  show "list_all goes_on (map snd (fst (table_run plain_deps upload [] plain_table)))" by code_simp
  show "list_all table_op_ok upload" by (simp add: upload_def)
qed simp

lemma reports_okI:
  assumes "\<And>n sid. n \<le> length h \<Longrightarrow> consumed sid (take n h) \<le> taken sid (take n h)"
  shows "reports_ok h"
proof -
  have "consumed sid (take n h) \<le> taken sid (take n h)" for n sid
    using assms [of n sid] assms [of "length h" sid] by (cases "n \<le> length h") simp_all
  then show ?thesis by (simp add: reports_ok_def)
qed

lemma upload_trace: "fst (table_run plain_deps upload [] plain_table) = map (\<lambda>op. (op, None)) upload"
  by code_simp

lemma upload_reports: "reports_ok (fst (table_run plain_deps upload [] plain_table))"
proof (rule reports_okI)
  fix n sid
  assume "n \<le> length (fst (table_run plain_deps upload [] plain_table))"
  then consider "n = 0" | "n = 1" | "n = 2" | "n = 3" | "n = 4"
    unfolding upload_trace by (simp add: upload_def) linarith
  then show "consumed sid (take n (fst (table_run plain_deps upload [] plain_table)))
      \<le> taken sid (take n (fst (table_run plain_deps upload [] plain_table)))"
    unfolding upload_trace
    by cases (simp_all add: upload_def consumed_def taken_def request_frame_def content_frame_def
        Data_PayloadLen_def paddedLen_def)
qed

subsection \<open>The limit on streams does not change\<close>

lemma max_simps [simp]:
  "tb_maxConcurrent (set_stream s t) = tb_maxConcurrent t"
  "tb_maxConcurrent (table_emit x t) = tb_maxConcurrent t"
  "tb_maxConcurrent (retire s t) = tb_maxConcurrent t"
  "tb_maxConcurrent (SendEnd s t) = tb_maxConcurrent t"
  by (simp_all add: set_stream_def table_emit_def retire_def SendEnd_def Let_def)

lemma drainSent_max [simp]: "tb_maxConcurrent (drainSent t) = tb_maxConcurrent t"
proof -
  have "tb_maxConcurrent (drainSent_loop ids t) = tb_maxConcurrent t" for ids and t :: "('a, 'b) table"
    by (induction ids t rule: drainSent_loop.induct) (auto split: option.split)
  then show ?thesis by (simp add: drainSent_def Let_def)
qed

lemma apply_credit_max: "apply_credit due t = (e, t') \<Longrightarrow> tb_maxConcurrent t' = tb_maxConcurrent t"
  by (induction due t rule: apply_credit.induct) (auto split: option.splits prod.splits)

lemma drainCredit_max: "drainCredit t = (e, t') \<Longrightarrow> tb_maxConcurrent t' = tb_maxConcurrent t"
  by (auto simp: drainCredit_def Let_def dest: apply_credit_max split: prod.splits if_splits option.splits)

lemma extend_max: "extend d frag fin t = (e, t') \<Longrightarrow> tb_maxConcurrent t' = tb_maxConcurrent t"
  by (auto simp: extend_def completeBlock_def Let_def split: option.splits prod.splits sum.splits if_splits)

lemma table_dispatch_max:
  assumes "streams_ok t" "table_dispatch d now f t = (e, t')"
  shows "tb_maxConcurrent t' = tb_maxConcurrent t"
proof (cases f)
  case (HeadersFrame g)
  then have h: "table_headers d g t = (e, t')" using assms(2) by simp
  from assms(1) h show ?thesis by (cases rule: table_headers_cases) (auto dest: extend_max)
next
  case (ContinuationFrame g)
  with assms(2) show ?thesis
    by (auto simp: table_continuation_def dest: extend_max split: option.splits if_splits)
qed (use assms(2) in \<open>auto simp: table_data_def rstStream_def table_windowUpdate_def Let_def
    split: prod.splits option.splits if_splits\<close>)

lemma table_apply_max:
  assumes "streams_ok t" "table_apply d op t = (e, t')"
  shows "tb_maxConcurrent t' = tb_maxConcurrent t"
proof (cases op)
  case (TFrame now f)
  obtain e1 t1 where d: "drainCredit (drainSent t) = (e1, t1)" by fastforce
  note ok = drainCredit_ok [OF drainSent_ok [OF assms(1)] d]
  show ?thesis
    using assms(2) TFrame d drainCredit_max [OF d] table_dispatch_max [OF ok]
    by (cases e1) (auto simp: HandleFrame_def)
next
  case (TConsumed sid n m)
  with assms(2) show ?thesis
    by (auto simp: ReportConsumed_def Let_def enqueueWindowUpdate_def split: prod.splits if_splits)
qed (use assms(2) in \<open>auto simp: ReportSendEnd_def ConnWindowUpdate_def SetInitialWindowSize_def
    SetHeaderTableSize_def SetMaxHeaderListSize_def Table_Close_def split: prod.splits\<close>)

lemma table_history_max: "table_history d t0 h t \<Longrightarrow> streams_ok t0 \<Longrightarrow> tb_maxConcurrent t = tb_maxConcurrent t0"
  by (induction rule: table_history.induct) (auto dest: table_apply_max [OF table_history_ok])

subsection \<open>Receiving\<close>

lemma drainSent_loop_receiving:
  "streams_ok t \<Longrightarrow> Table_Stream k t = Some s \<Longrightarrow> \<not> peerDone s \<Longrightarrow>
     \<exists>s. Table_Stream k (drainSent_loop ids t) = Some s \<and> \<not> peerDone s"
proof (induction ids t arbitrary: s rule: drainSent_loop.induct)
  case (2 sid ids t)
  show ?case
  proof (cases "Table_Stream sid t")
    case (Some s0)
    note D = Table_StreamD [OF "2.prems"(1) Some] Table_StreamD [OF "2.prems"(1,2)]
    have "\<exists>s. Table_Stream k (SendEnd s0 t) = Some s \<and> \<not> peerDone s"
      using D Some "2.prems"
      by (cases "k = sid")
        (auto simp: SendEnd_def Let_def Table_Stream_def set_stream_def retire_def table_emit_def peerDone_def object_ok_def)
    with "2.IH" [OF _ _ ] SendEnd_ok [OF "2.prems"(1) Some] Some show ?thesis by auto
  qed (use 2 in auto)
qed auto

lemma drainSent_receiving:
  "streams_ok t \<Longrightarrow> Table_Stream k t = Some s \<Longrightarrow> \<not> peerDone s \<Longrightarrow>
     \<exists>s. Table_Stream k (drainSent t) = Some s \<and> \<not> peerDone s"
  using drainSent_loop_receiving [of "t\<lparr>tb_sent := []\<rparr>" k s "tb_sent t"] by (simp add: drainSent_def Let_def)

lemma table_data_accepts:
  assumes "Table_Stream (df_StreamID f) t = Some s" "\<not> peerDone s"
    and "uint (Data_PayloadLen f) \<le> win_n (tb_connRecv t)" "uint (Data_PayloadLen f) \<le> win_n (st_recv s)"
  shows "\<exists>s' r. st_id s' = st_id s \<and>
    fst (table_data d f t) = fst (dep_Data d s' (df_Data f) (df_EndStream f) r)"
proof -
  have c: "\<exists>w'. Consume (Data_PayloadLen f) w = (None, w')" if "uint (Data_PayloadLen f) \<le> win_n w" for w
    using that by (simp add: Consume_def)
  obtain cw w where "Consume (Data_PayloadLen f) (tb_connRecv t) = (None, cw)" "Consume (Data_PayloadLen f) (st_recv s) = (None, w)"
    using c assms(3,4) by blast
  with assms(1,2) have "fst (table_data d f t) = fst (dep_Data d
      (if df_EndStream f then recvEnd (s\<lparr>st_recv := w\<rparr>) else s\<lparr>st_recv := w\<rparr>) (df_Data f) (df_EndStream f) (tb_reqs t))"
    by (simp add: table_data_def Let_def retire_def set_stream_def table_emit_def split: prod.split)
  then show ?thesis by (intro exI conjI) auto
qed

subsection \<open>Properties\<close>

text \<open>C8: What the table holds: after any history of a new table there are never more streams than
  the configured limit (100 by default), every live stream is an odd identifier the peer has used
  and is open or half-closed, and flow control has a send window for a stream exactly while it is
  live, so a writer on a stream that ended is told so.\<close>

theorem table_tracks_live_streams:
  assumes "Table_New codec reqs n None now = Inr t0" "table_history d t0 h t"
  shows "Table_Len t \<le> (if n = 0 then 100 else unat n) \<and>
         (Live sid t \<longrightarrow> sid mod 2 = 1 \<and> sid \<le> tb_highestRemote t \<and>
            StateOf sid t \<in> {StateOpen, StateHalfClosedRemote, StateHalfClosedLocal}) \<and>
         (snd (Sender_Available sid (tb_sender t)) \<longleftrightarrow> Live sid t)"
proof -
  note ok = New_start [OF assms]
  have len: "Table_Len t \<le> (if n = 0 then 100 else unat n)"
    using ok(3) table_history_max [OF assms(2) ok(1)] Table_New_ok [OF assms(1)]
    by (simp add: streams_ok_def Table_Len_def split: if_splits)
  have win: "snd (Sender_Available sid (tb_sender t)) \<longleftrightarrow> store_get (snd_stream (tb_sender t)) sid \<noteq> None"
    by (auto simp: Sender_Available_def split: option.split)
  have "store_get (snd_stream (tb_sender t)) sid \<noteq> None \<longleftrightarrow> Live sid t"
    using ok(3) Table_Stream_None [OF ok(3), of sid] by (simp add: streams_ok_def Live_def)
  moreover have "sid mod 2 = 1 \<and> sid \<le> tb_highestRemote t \<and>
      StateOf sid t \<in> {StateOpen, StateHalfClosedRemote, StateHalfClosedLocal}" if live: "Live sid t"
  proof -
    obtain s where s: "Table_Stream sid t = Some s" using live unfolding Live_def by blast
    from Table_StreamD [OF ok(3) s] s show ?thesis by (simp add: object_ok_def live_state_def StateOf_def)
  qed
  ultimately show ?thesis using len win by blast
qed

lemma table_tracks_live_streams_witness:
  "Table_Len (snd (table_run plain_deps upload [] plain_table)) \<le> 100"
  using table_tracks_live_streams [OF plain_table_New upload_run] by simp

text \<open>C6: Every stream follows the state machine of RFC 9113 section 5.1: between any two moments of a
  connection the state of a stream only moves along the edges of figure 2 (idle to open or
  half-closed, open to either half-closed state or closed, half-closed to closed), a closed stream
  is closed for good, and no identifier becomes idle again; a stream whose header block is still
  arriving counts as idle.\<close>

theorem stream_life_follows_rfc9113:
  assumes "Table_New codec reqs n None now = Inr t0" "table_history d t0 h t" "table_history d t g t'"
  shows "stream_edge\<^sup>*\<^sup>* (phase sid t) (phase sid t') \<and>
         (phase sid t = StateClosed \<longrightarrow> phase sid t' = StateClosed) \<and>
         (phase sid t' = StateIdle \<longrightarrow> phase sid t = StateIdle)"
proof -
  have "legal (phase sid t) (phase sid t')"
    using table_history_evolves [OF assms(3)] New_start [OF assms(1,2)] by (simp add: evolves_def)
  then show ?thesis by (auto dest: legal_from_closed legal_to_idle)
qed

lemma stream_life_follows_rfc9113_witness:
  "stream_edge\<^sup>*\<^sup>* (phase 3 plain_table) (phase 3 (snd (table_run plain_deps upload [] plain_table))) \<and>
   phase 3 plain_table = StateIdle \<and>
   phase 3 (snd (table_run plain_deps upload [] plain_table)) = StateHalfClosedRemote"
proof -
  have "phase 3 plain_table = StateIdle" by code_simp
  moreover have "phase 3 (snd (table_run plain_deps upload [] plain_table)) = StateHalfClosedRemote" by code_simp
  ultimately show ?thesis
    using stream_life_follows_rfc9113 [OF plain_table_New table_history.start upload_run, of 3] by simp
qed

text \<open>C5: Credit that was announced is honoured, whichever goroutine announced it and when: on a
  connection whose handlers report only octets they were given, a DATA frame that fits what the
  peer has been granted by its own books (65,535 and the WINDOW_UPDATEs sent, less all DATA sent,
  on the connection and on the stream) is never refused for flow control; on a live stream that
  is still receiving, it reaches the request layer and the answer is the request layer's.\<close>

theorem announced_credit_is_honoured:
  assumes "Table_New codec reqs n None now0 = Inr t0" "table_history d t0 h t" "reports_ok h"
    and "Table_Stream (df_StreamID f) t = Some s" "\<not> peerDone s"
    and "uint (Data_PayloadLen f) \<le> 65535 + announced 0 (tb_out t) - all_received h"
    and "uint (Data_PayloadLen f) \<le> 65535 + announced (df_StreamID f) (tb_out t) - received (df_StreamID f) h"
  shows "\<exists>s' r. st_id s' = df_StreamID f \<and>
           fst (HandleFrame d now (DataFrame f) t) = fst (dep_Data d s' (df_Data f) (df_EndStream f) r)"
proof -
  let ?n = "Data_PayloadLen f" and ?sid = "df_StreamID f"
  note ok = New_start [OF assms(1,2)]
  note cr = table_history_credit [OF assms(2) ok(1,2) assms(3)]
  let ?t = "drainSent t"
  have okt: "streams_ok ?t" by (rule drainSent_ok [OF ok(3)])
  have crt: "credit_ok h ?t" by (rule quiet_credit_ok [OF drainSent_quiet [OF ok(3)] cr])
  have outt: "announced k (tb_out ?t) = announced k (tb_out t)" for k
    using drainSent_quiet [OF ok(3)] by (simp add: quiet_def)
  have st: "\<exists>s. Table_Stream ?sid ?t = Some s \<and> \<not> peerDone s"
    using drainSent_receiving [OF ok(3) assms(4,5)] .
  obtain t1 where t1: "drainCredit ?t = (None, t1)" "credit_ok h t1"
    "\<And>sid. map_option st_state (Table_Stream sid t1) = map_option st_state (Table_Stream sid ?t)"
    "rc_granted (tb_connCredit t1) = 0" "\<And>sid. rc_granted (credit_of sid t1) = 0" "tb_out t1 = tb_out ?t"
    by (rule drainCredit_spec [OF okt crt assms(3)]) blast
  have ok1: "streams_ok t1" by (rule drainCredit_ok [OF okt t1(1)])
  obtain s1 where s1: "Table_Stream ?sid t1 = Some s1" "\<not> peerDone s1"
    using st t1(3) [of ?sid] by (auto simp: peerDone_def)
  have conn: "uint ?n \<le> win_n (tb_connRecv t1)"
    using t1(2,4,6) assms(6) outt by (simp add: credit_ok_def conn_credit_ok_def)
  note D = Table_StreamD [OF ok1 s1(1)]
  have "stream_credit_ok h t1 ?sid" using t1(2) by (simp add: credit_ok_def)
  then have strm: "uint ?n \<le> win_n (st_recv s1)"
    using D t1(5) [of ?sid] t1(6) outt assms(7) by (simp add: stream_credit_ok_def recv_of_def)
  from table_data_accepts [OF s1 conn strm, of d] D show ?thesis
    using t1(1) by (auto simp: HandleFrame_def object_ok_def)
qed

lemma announced_credit_is_honoured_witness:
  "fst (HandleFrame plain_deps 0 (DataFrame (content_frame 1 [4])) (snd (table_run plain_deps upload [] plain_table))) = None"
proof -
  let ?t = "snd (table_run plain_deps upload [] plain_table)"
  let ?h = "fst (table_run plain_deps upload [] plain_table)"
  let ?f = "content_frame 1 [4]"
  obtain s where s: "Table_Stream 1 ?t = Some s" "\<not> peerDone s"
  proof -
    have "(case Table_Stream 1 ?t of None \<Rightarrow> False | Some s \<Rightarrow> \<not> peerDone s)" by code_simp
    then show ?thesis using that by (auto split: option.splits)
  qed
  have out: "tb_out ?t = []" by code_simp
  have "received k ?h = (if k = 1 then 3 else 0)" for k
    unfolding upload_trace by (simp add: upload_def received_def request_frame_def content_frame_def
        Data_PayloadLen_def paddedLen_def)
  then have rcv: "received 1 ?h = 3" "all_received ?h = 3" by (simp_all add: all_received_def)
  have n: "uint (Data_PayloadLen ?f) = 1" "df_StreamID ?f = 1"
    by (simp_all add: content_frame_def Data_PayloadLen_def paddedLen_def)
  from announced_credit_is_honoured [OF plain_table_New upload_run upload_reports, of ?f s 0] s out rcv n
  show ?thesis by (auto simp: plain_deps_def)
qed

text \<open>C16: The connection's receive window is its ledger: after any history in which the handlers report only octets they were given (\<open>reports_ok\<close>) it is 65,535 less every
  DATA payload received (padding, refused and unknown streams included) plus what has been announced
  and applied, what has been announced and not yet applied is what the next frame will find added, and
  what was announced never exceeds what handlers reported as read. Only reports give credit back, so
  octets no handler reads (padding, discarded content) are lost to the connection for good.\<close>

theorem connection_window_books:
  assumes "Table_New codec reqs n None now0 = Inr t0" "table_history d t0 h t" "reports_ok h"
  shows "win_n (tb_connRecv t) + rc_granted (tb_connCredit t) = 65535 - all_received h + announced 0 (tb_out t) \<and>
         0 \<le> rc_granted (tb_connCredit t) \<and> 0 \<le> win_n (tb_connRecv t) \<and>
         announced 0 (tb_out t) + rc_pending (tb_connCredit t) = all_consumed h \<and>
         announced 0 (tb_out t) \<le> all_consumed h \<and> win_n (tb_connRecv t) \<le> 65535"
proof -
  note ok = New_start [OF assms(1,2)]
  have c: "conn_credit_ok h t"
    using table_history_credit [OF assms(2) ok(1,2) assms(3)] by (simp add: credit_ok_def)
  from conn_credit_bound [OF ok(3) c assms(3)] c show ?thesis by (auto simp: conn_credit_ok_def)
qed

lemma connection_window_books_witness:
  "win_n (tb_connRecv (snd (table_run plain_deps upload [] plain_table))) \<le> 65535"
  using connection_window_books [OF plain_table_New upload_run upload_reports] by simp

text \<open>Compression stays in step whatever becomes of the streams: the header blocks of a history
  are decided by its HEADERS and CONTINUATION frames alone, every complete one was decoded, once, in
  order, whether its stream was opened, refused, reset or already closed, and the decoder is in the
  state that decoding all of them leaves; the block being assembled is the fragments since.\<close>

theorem every_header_block_is_decoded:
  assumes "Table_New (Some c) reqs n None now0 = Inr t0" "table_history d t0 h t" "reports_ok h"
    and "header_blocks h = (bs, cur)"
  shows "tb_codec t = decode_all d bs c \<and> map_option bk_buf (tb_assembling t) = cur \<and>
         (\<forall>k<length bs. \<exists>flds. fst (dep_Decode d (bs ! k) (decode_all d (take k bs) c)) = Inr flds)"
proof -
  note ok = New_start [OF assms(1,2)]
  have "tb_assembling t0 = None" "tb_codec t0 = c" using assms(1) by (auto simp: Table_New_def split: option.splits)
  with table_history_blocks [OF assms(2) ok(1,2) assms(3)] assms(4) show ?thesis
    by (simp add: open_block_def)
qed

lemma every_header_block_is_decoded_witness:
  "tb_assembling (snd (table_run plain_deps upload [] plain_table)) = None"
proof -
  have "header_blocks (fst (table_run plain_deps upload [] plain_table)) = ([[], []], None)" by code_simp
  from every_header_block_is_decoded [OF plain_table_New upload_run upload_reports this] show ?thesis by simp
qed

text \<open>C17: A flood of resets ends the connection: the RST_STREAM frames that a connection survives up to
  a time are at most 100 and one for every 50 ms since it began, whatever the clock does, on a connection whose handlers
  report only octets they were given (\<open>reports_ok\<close>).\<close>

theorem reset_flood_is_bounded:
  assumes "Table_New codec reqs n None now0 = Inr t0" "table_history d t0 h t" "reports_ok h"
    and "\<forall>u\<in>set (reset_times h). u \<le> T" "now0 \<le> T"
  shows "int (length (reset_times h)) \<le> 100 + (T - now0) div 50000000"
proof -
  note ok = New_start [OF assms(1,2)]
  have b: "tb_resets t0 = NewResetBucket now0" using assms(1) by (auto simp: Table_New_def split: option.splits)
  have "last_refill (tb_resets t0) \<le> T" "bucket_ok (tb_resets t0)" "interval (tb_resets t0) = 50000000"
    "tokens (tb_resets t0) = 100" "last_refill (tb_resets t0) = now0"
    using assms(5) NewBucket_ok by (simp_all add: b NewResetBucket_def) (simp_all add: NewBucket_def quot_def)
  with run_bucket_account [OF _ table_history_resets [OF assms(2) ok(1,2) assms(3)] assms(4)]
  have "int (length (reset_times h)) * 50000000 + now0 \<le> 100 * 50000000 + T" by simp
  then show ?thesis by linarith
qed

lemma reset_flood_is_bounded_witness:
  "int (length (reset_times (fst (table_run plain_deps upload [] plain_table)))) \<le> 100"
proof -
  have "reset_times (fst (table_run plain_deps upload [] plain_table)) = []" by code_simp
  with reset_flood_is_bounded [OF plain_table_New upload_run upload_reports, of 0] show ?thesis by simp
qed

text \<open>C19: No peer can make the stream table panic: along any history, no frame makes it open a stream
  twice, use a window it does not have or find a header block missing, unless the request layer
  itself panics; and where the handlers report only octets they were given (\<open>reports_ok\<close>), returning credit never fails.\<close>

theorem table_never_panics:
  assumes "Table_New codec reqs n None now0 = Inr t0" "table_history d t0 h t"
  shows "(deps_safe d \<longrightarrow> fst (HandleFrame d now f t) \<noteq> Some Panic) \<and> (reports_ok h \<longrightarrow> fst (drainCredit (drainSent t)) = None)"
proof -
  note ok = New_start [OF assms(1,2)]
  have "fst (drainCredit (drainSent t)) = None" if rep: "reports_ok h"
  proof -
    note cr = table_history_credit [OF assms(2) ok(1,2) rep]
    obtain t1 where "drainCredit (drainSent t) = (None, t1)"
      by (rule drainCredit_spec [OF drainSent_ok [OF ok(3)] quiet_credit_ok [OF drainSent_quiet [OF ok(3)] cr] rep]) blast
    then show ?thesis by simp
  qed
  with HandleFrame_no_panic [OF ok(3) prod.collapse [symmetric]] show ?thesis by blast
qed

lemma table_never_panics_witness:
  "fst (HandleFrame plain_deps 0 (reset_frame 2) (snd (table_run plain_deps upload [] plain_table))) \<noteq> Some Panic \<and>
   fst (drainCredit (drainSent (snd (table_run plain_deps upload [] plain_table)))) = None"
  using table_never_panics [OF plain_table_New upload_run, of 0 "reset_frame 2"] upload_reports
  by (simp add: deps_safe_def plain_deps_def)

lemma wrong_state_answers:
  assumes "drainCredit (drainSent t) = (None, t1)"
  shows "uint (Data_PayloadLen df) \<le> win_n (tb_connRecv t1) \<Longrightarrow>
           StateOf (df_StreamID df) t1 \<in> {StateIdle, StateClosed, StateHalfClosedRemote} \<Longrightarrow> streams_ok t1 \<Longrightarrow>
           fst (HandleFrame d now (DataFrame df) t) =
             Some (if StateOf (df_StreamID df) t1 = StateIdle then ConnError ProtocolError
                   else StreamError (df_StreamID df) StreamClosed) \<and>
           win_n (tb_connRecv (snd (HandleFrame d now (DataFrame df) t))) =
             win_n (tb_connRecv t1) - uint (Data_PayloadLen df)"
    and "StateOf (rf_StreamID rf) t1 = StateIdle \<Longrightarrow>
           HandleFrame d now (RSTStreamFrame rf) t = (Some (ConnError ProtocolError), t1)"
    and "Table_Stream (wf_StreamID wu) t1 = None \<Longrightarrow>
           HandleFrame d now (WindowUpdateFrame wu) t =
             (if StateOf (wf_StreamID wu) t1 = StateIdle then Some (ConnError ProtocolError) else None, t1)"
    and "Table_Stream (hf_StreamID hf) t1 = None \<Longrightarrow>
           hf_StreamID hf mod 2 = 0 \<or> hf_StreamID hf \<le> tb_highestRemote t1 \<Longrightarrow>
           HandleFrame d now (HeadersFrame hf) t = (Some (ConnError ProtocolError), t1)"
    and "(case tb_assembling t1 of None \<Rightarrow> True | Some b \<Rightarrow> bk_id b \<noteq> cf_StreamID cf) \<Longrightarrow>
           HandleFrame d now (ContinuationFrame cf) t = (Some (ConnError ProtocolError), t1)"
    and "HandleFrame d now (PriorityFrame pf) t = (None, t1)"
    and "f \<in> {SettingsFrame sf, PingFrame pg, GoAwayFrame gf, PushPromiseFrame pp, PriorityUpdateFrame pu} \<Longrightarrow>
           HandleFrame d now f t = (Some (ConnError InternalError), t1)"
proof -
  have H: "HandleFrame d now f t = table_dispatch d now f t1" for f
    using assms by (simp add: HandleFrame_def)
  show "fst (HandleFrame d now (DataFrame df) t) =
             Some (if StateOf (df_StreamID df) t1 = StateIdle then ConnError ProtocolError
                   else StreamError (df_StreamID df) StreamClosed) \<and>
           win_n (tb_connRecv (snd (HandleFrame d now (DataFrame df) t))) =
             win_n (tb_connRecv t1) - uint (Data_PayloadLen df)"
    if "uint (Data_PayloadLen df) \<le> win_n (tb_connRecv t1)"
      "StateOf (df_StreamID df) t1 \<in> {StateIdle, StateClosed, StateHalfClosedRemote}" "streams_ok t1"
  proof (cases "Table_Stream (df_StreamID df) t1")
    case None
    then show ?thesis using that(1)
      by (auto simp: H table_data_def Consume_def absent_def StateOf_def Let_def)
  next
    case (Some s)
    then have "peerDone s" using that(2) Table_StreamD [OF that(3) Some]
      by (auto simp: StateOf_def peerDone_def live_state_def)
    with Some that(1) show ?thesis
      by (auto simp: H table_data_def Consume_def StateOf_def peerDone_def Let_def)
  qed
  show "HandleFrame d now (RSTStreamFrame rf) t = (Some (ConnError ProtocolError), t1)"
    if "StateOf (rf_StreamID rf) t1 = StateIdle"
    using that by (simp add: H rstStream_def)
  show "HandleFrame d now (WindowUpdateFrame wu) t =
      (if StateOf (wf_StreamID wu) t1 = StateIdle then Some (ConnError ProtocolError) else None, t1)"
    if "Table_Stream (wf_StreamID wu) t1 = None"
    using that by (simp add: H table_windowUpdate_def)
  show "HandleFrame d now (HeadersFrame hf) t = (Some (ConnError ProtocolError), t1)"
    if "Table_Stream (hf_StreamID hf) t1 = None" "hf_StreamID hf mod 2 = 0 \<or> hf_StreamID hf \<le> tb_highestRemote t1"
    using that openStream_refused [OF that(2), of d] by (simp add: H table_headers_def)
  show "HandleFrame d now (ContinuationFrame cf) t = (Some (ConnError ProtocolError), t1)"
    if "case tb_assembling t1 of None \<Rightarrow> True | Some b \<Rightarrow> bk_id b \<noteq> cf_StreamID cf"
    using that by (auto simp: H table_continuation_def split: option.splits)
  show "HandleFrame d now (PriorityFrame pf) t = (None, t1)" by (simp add: H)
  show "HandleFrame d now f t = (Some (ConnError InternalError), t1)"
    if "f \<in> {SettingsFrame sf, PingFrame pg, GoAwayFrame gf, PushPromiseFrame pp, PriorityUpdateFrame pu}"
    using that by (auto simp: H)
qed

text \<open>A frame in the wrong state gets the answer RFC 9113 gives it. With \<open>t1\<close> the table once pending
  reports are applied: on an idle stream, DATA, RST_STREAM and WINDOW_UPDATE are connection errors
  PROTOCOL_ERROR; on a stream that is closed or whose peer is done, DATA is a stream error
  STREAM_CLOSED and is counted on the connection window all the same; WINDOW_UPDATE on a closed
  stream is ignored; HEADERS on an identifier that is even or was used and is not live is a
  connection error; a CONTINUATION that continues nothing is one too; PRIORITY is never an error;
  and frames of the connection are an internal error here.\<close>

theorem frames_in_wrong_state:
  assumes "drainCredit (drainSent t) = (None, t1)" "streams_ok t1"
  shows "(uint (Data_PayloadLen df) \<le> win_n (tb_connRecv t1) \<longrightarrow>
           StateOf (df_StreamID df) t1 \<in> {StateIdle, StateClosed, StateHalfClosedRemote} \<longrightarrow>
           fst (HandleFrame d now (DataFrame df) t) =
             Some (if StateOf (df_StreamID df) t1 = StateIdle then ConnError ProtocolError
                   else StreamError (df_StreamID df) StreamClosed) \<and>
           win_n (tb_connRecv (snd (HandleFrame d now (DataFrame df) t))) =
             win_n (tb_connRecv t1) - uint (Data_PayloadLen df)) \<and>
         (StateOf (rf_StreamID rf) t1 = StateIdle \<longrightarrow>
           HandleFrame d now (RSTStreamFrame rf) t = (Some (ConnError ProtocolError), t1)) \<and>
         (Table_Stream (wf_StreamID wu) t1 = None \<longrightarrow>
           HandleFrame d now (WindowUpdateFrame wu) t =
             (if StateOf (wf_StreamID wu) t1 = StateIdle then Some (ConnError ProtocolError) else None, t1)) \<and>
         (Table_Stream (hf_StreamID hf) t1 = None \<and>
           (hf_StreamID hf mod 2 = 0 \<or> hf_StreamID hf \<le> tb_highestRemote t1) \<longrightarrow>
           HandleFrame d now (HeadersFrame hf) t = (Some (ConnError ProtocolError), t1)) \<and>
         ((case tb_assembling t1 of None \<Rightarrow> True | Some b \<Rightarrow> bk_id b \<noteq> cf_StreamID cf) \<longrightarrow>
           HandleFrame d now (ContinuationFrame cf) t = (Some (ConnError ProtocolError), t1)) \<and>
         HandleFrame d now (PriorityFrame pf) t = (None, t1) \<and>
         (f \<in> {SettingsFrame sf, PingFrame pg, GoAwayFrame gf, PushPromiseFrame pp, PriorityUpdateFrame pu} \<longrightarrow>
           HandleFrame d now f t = (Some (ConnError InternalError), t1))"
proof -
  note ans = wrong_state_answers [OF assms(1)]
  show ?thesis
    by (intro conjI impI; (elim conjE)?;
        (rule ans(1) [THEN conjunct1] ans(1) [THEN conjunct2] ans(2-7));
        (assumption | rule assms(2)))
qed

lemma frames_in_wrong_state_witness:
  "fst (HandleFrame plain_deps 0 (DataFrame (content_frame 3 [7])) (snd (table_run plain_deps upload [] plain_table))) =
     Some (StreamError 3 StreamClosed) \<and>
   fst (HandleFrame plain_deps 0 (reset_frame 5) (snd (table_run plain_deps upload [] plain_table))) =
     Some (ConnError ProtocolError)"
proof -
  let ?t = "snd (table_run plain_deps upload [] plain_table)"
  let ?t1 = "snd (drainCredit (drainSent ?t))"
  have d: "drainCredit (drainSent ?t) = (None, ?t1)"
    by (rule prod_eqI) (code_simp, simp)
  have s3: "StateOf 3 ?t1 = StateHalfClosedRemote" and s5: "StateOf 5 ?t1 = StateIdle"
    and win: "win_n (tb_connRecv ?t1) = 65532" by code_simp+
  have ok: "streams_ok ?t1"
    using drainCredit_ok [OF drainSent_ok [OF New_start(3) [OF plain_table_New upload_run]] d] .
  have n: "uint (Data_PayloadLen (content_frame 3 [7])) = 1" "df_StreamID (content_frame 3 [7]) = 3"
    by (simp_all add: content_frame_def Data_PayloadLen_def paddedLen_def)
  show ?thesis
    using frames_in_wrong_state [OF d ok, of "content_frame 3 [7]" plain_deps 0 "\<lparr>rf_StreamID = 5, rf_ErrCode = Cancel\<rparr>"]
      n s3 s5 win
    by (simp add: reset_frame_def)
qed

text \<open>C18: Admission of a request, whole in one HEADERS frame on a new identifier: when the table is full
  the answer is REFUSED_STREAM (a request that depends on itself is a PROTOCOL_ERROR), no stream is
  made and the request layer is not called; otherwise the stream is live, open or half-closed by
  END_STREAM, and the answer is the request layer's. Either way the fields were decoded and the
  identifier is used. The stream is live even when the request layer answers with a stream error,
  so a malformed request keeps its slot.\<close>

theorem admission_of_requests:
  assumes "drainCredit (drainSent t) = (None, t1)" "streams_ok t1" "tb_assembling t1 = None"
    and "hf_StreamID f mod 2 = 1" "tb_highestRemote t1 < hf_StreamID f" "hf_EndHeaders f"
    and "dep_Decode d (hf_Fragment f) (tb_codec t1) = (Inr flds, c)"
    and "HandleFrame d now (HeadersFrame f) t = (e, t')"
  shows "tb_codec t' = c \<and> tb_highestRemote t' = hf_StreamID f \<and>
    (if hf_Priority f \<and> hf_StreamDependency f = hf_StreamID f \<or> Table_Len t1 = unat (tb_maxConcurrent t1)
     then e = Some (StreamError (hf_StreamID f)
            (if hf_Priority f \<and> hf_StreamDependency f = hf_StreamID f then ProtocolError else RefusedStream)) \<and>
          \<not> Live (hf_StreamID f) t' \<and> Table_Len t' = Table_Len t1 \<and> tb_reqs t' = tb_reqs t1
     else (\<exists>s. e = fst (dep_Headers d s flds (hf_EndStream f) (tb_reqs t1)) \<and>
             tb_reqs t' = snd (dep_Headers d s flds (hf_EndStream f) (tb_reqs t1)) \<and>
             Table_Stream (hf_StreamID f) t' = Some s \<and> Table_Len t' = Table_Len t1 + 1 \<and>
             st_state s = (if hf_EndStream f then StateHalfClosedRemote else StateOpen)))"
proof -
  let ?sid = "hf_StreamID f"
  have new: "store_get (tb_objects t1) ?sid = None" by (rule above_highest_new [OF assms(2,5)])
  then have nl: "?sid \<notin> set (tb_streams t1)" using assms(2) by (auto simp: streams_ok_def)
  then have ts: "Table_Stream ?sid t1 = None" using Table_Stream_None [OF assms(2)] by blast
  have ok: "\<not> (?sid mod 2 = 0 \<or> ?sid \<le> tb_highestRemote t1)" using assms(4,5) by auto
  have b: "completeBlock d \<lparr>bk_id = ?sid, bk_s = None, bk_buf = hf_Fragment f, bk_endStream = hf_EndStream f,
      bk_verdict = admit f t1\<rparr> (t1\<lparr>tb_highestRemote := ?sid, tb_assembling := Some
      \<lparr>bk_id = ?sid, bk_s = None, bk_buf = hf_Fragment f, bk_endStream = hf_EndStream f, bk_verdict = admit f t1\<rparr>\<rparr>) = (e, t')"
    using assms(1,3,6,8) ts openStream_start(2) [OF assms(2,3) ok, of d]
    by (simp add: HandleFrame_def table_headers_def extend_def Let_def)
  have adm: "admit f t1 = (if hf_Priority f \<and> hf_StreamDependency f = ?sid then Some (StreamError ?sid ProtocolError)
      else if Table_Len t1 = unat (tb_maxConcurrent t1) then Some (StreamError ?sid RefusedStream) else None)"
  proof -
    have "length (tb_streams t1) < 2 ^ 32" "length (tb_streams t1) \<le> unat (tb_maxConcurrent t1)"
      using assms(2) unsigned_less [of "tb_maxConcurrent t1"] by (auto simp: streams_ok_def elim: le_less_trans)
    then have "tb_maxConcurrent t1 \<le> word_of_nat (length (tb_streams t1)) \<longleftrightarrow>
        length (tb_streams t1) = unat (tb_maxConcurrent t1)"
      by (auto simp: word_le_nat_alt unat_of_nat take_bit_nat_eq_self)
    then show ?thesis by (simp add: admit_def Table_Len_def)
  qed
  show ?thesis
  proof (cases "admit f t1")
    case (Some x)
    with b assms(7) nl adm show ?thesis
      by (auto simp: completeBlock_def Live_def Table_Stream_def Table_Len_def split: if_splits)
  next
    case None
    have id0: "?sid \<noteq> 0" using odd_nonzero [of ?sid] assms(4) by auto
    then obtain w where w: "NewStreamWindow ?sid InitialWindowSize = Inr w"
      by (simp add: NewStreamWindow_def)
    obtain sn where o: "Sender_Open ?sid (tb_sender t1) = (None, sn)"
      using Sender_Open_succeeds id0 nl assms(2) by (metis streams_ok_def)
    let ?s = "\<lparr>st_id = ?sid, st_state = StateOpen, st_recv = w\<rparr>"
    let ?s' = "if hf_EndStream f then recvEnd ?s else ?s"
    obtain e1 r where h: "dep_Headers d ?s' flds (hf_EndStream f) (tb_reqs t1) = (e1, r)" by fastforce
    have res: "e = e1 \<and> tb_codec t' = c \<and> tb_highestRemote t' = ?sid \<and> tb_reqs t' = r \<and>
        tb_streams t' = ?sid # tb_streams t1 \<and> store_get (tb_objects t') ?sid = Some ?s'"
      using b assms(7) None w o h nl
      by (cases "hf_EndStream f") (auto simp: completeBlock_def Let_def set_stream_def recvEnd_def)
    have "st_state ?s' = (if hf_EndStream f then StateHalfClosedRemote else StateOpen)"
      by (simp add: recvEnd_def)
    with res h None adm show ?thesis
      by (auto simp: Table_Stream_def Table_Len_def split: if_splits)
  qed
qed

lemma admission_of_requests_witness:
  "StateOf 5 (snd (HandleFrame plain_deps 0 (request_frame 5 True) (snd (table_run plain_deps upload [] plain_table)))) =
     StateHalfClosedRemote"
proof -
  let ?t = "snd (table_run plain_deps upload [] plain_table)"
  let ?t1 = "snd (drainCredit (drainSent ?t))"
  let ?f = "\<lparr>hf_StreamID = 5, hf_EndStream = True, hf_EndHeaders = True, hf_Fragment = [],
       hf_Priority = False, hf_Exclusive = False, hf_StreamDependency = 0, hf_Weight = 0,
       hf_Padded = False, hf_PadLen = 0\<rparr>"
  have d: "drainCredit (drainSent ?t) = (None, ?t1)"
    by (rule prod_eqI) (code_simp, simp)
  have ok: "streams_ok ?t1"
    using drainCredit_ok [OF drainSent_ok [OF New_start(3) [OF plain_table_New upload_run]] d] .
  have st: "tb_assembling ?t1 = None" "tb_highestRemote ?t1 = 3" "Table_Len ?t1 = 2" "tb_maxConcurrent ?t1 = 100"
    by code_simp+
  have f: "request_frame 5 True = HeadersFrame ?f" by (simp add: request_frame_def)
  have dec: "dep_Decode plain_deps [] (tb_codec ?t1) = (Inr [], tb_codec ?t1)" by (simp add: plain_deps_def)
  show ?thesis
    using admission_of_requests [OF d ok st(1), of ?f plain_deps "[]" "tb_codec ?t1" 0, OF _ _ _ _ prod.collapse [symmetric]]
      st dec unfolding f by (auto simp: StateOf_def)
qed

end
