(* ===== verification/Sfv.thy ===== *)
theory Sfv
  imports Prelude
begin

text \<open>
  \<^verbatim>\<open>internal/sfv\<close>: the parser for structured-field dictionaries (RFC 9651). The parser's string and
  its index \<open>i\<close> are arguments, and a method returns the index it stops at; an error carries the offset
  that the code reports, without its message. After an error the index is not used again. Go
  strings are octets, so a string is a list of 8-bit characters. \<open>int64\<close> is \<open>int\<close>: no number the
  parser accepts has more than 15 digits (\<open>SfvProps\<close>).
\<close>

subsection \<open>Values (sfv.go)\<close>

datatype kind =
    KindNone | KindInteger | KindDecimal | KindString | KindToken | KindByteSequence | KindBoolean
  | KindDate | KindDisplayString | KindInnerList

datatype item = Item
  (Kind: kind)
  (Integer: int)
  (Thousandths: int)
  (Text: string)
  (Bytes: "byte list")
  (Boolean: bool)
  (List: "item list")
  (Params: "(string \<times> item) list")

type_synonym params = "(string \<times> item) list"
type_synonym dictionary = "(string \<times> item) list"

definition zero_item :: item where
  "zero_item = Item KindNone 0 0 '''' [] False [] []"

definition integer_item :: "int \<Rightarrow> item" where
  "integer_item n = Item KindInteger n 0 '''' [] False [] []"

definition decimal_item :: "int \<Rightarrow> item" where
  "decimal_item n = Item KindDecimal 0 n '''' [] False [] []"

definition text_item :: "kind \<Rightarrow> string \<Rightarrow> item" where
  "text_item k s = Item k 0 0 s [] False [] []"

definition bytes_item :: "byte list \<Rightarrow> item" where
  "bytes_item b = Item KindByteSequence 0 0 '''' b False [] []"

definition boolean_item :: "bool \<Rightarrow> item" where
  "boolean_item b = Item KindBoolean 0 0 '''' [] b [] []"

definition date_item :: "int \<Rightarrow> item" where
  "date_item n = Item KindDate n 0 '''' [] False [] []"

definition with_params :: "params \<Rightarrow> item \<Rightarrow> item" where
  "with_params ps it =
     Item (Kind it) (Integer it) (Thousandths it) (Text it) (Bytes it) (Boolean it) (List it) ps"

definition list_item :: "item list \<Rightarrow> params \<Rightarrow> item" where
  "list_item xs ps = Item KindInnerList 0 0 '''' [] False xs ps"

fun Params_Get :: "string \<Rightarrow> params \<Rightarrow> item \<times> bool" where
  "Params_Get key [] = (zero_item, False)"
| "Params_Get key ((k, v) # ps) = (if k = key then (v, True) else Params_Get key ps)"

fun Dictionary_Get :: "string \<Rightarrow> dictionary \<Rightarrow> item \<times> bool" where
  "Dictionary_Get key [] = (zero_item, False)"
| "Dictionary_Get key ((k, v) # ms) = (if k = key then (v, True) else Dictionary_Get key ms)"

datatype syntax_error = SyntaxError nat

subsection \<open>Characters (parse.go)\<close>

definition isDigit :: "char \<Rightarrow> bool" where
  "isDigit c \<longleftrightarrow> CHR ''0'' \<le> c \<and> c \<le> CHR ''9''"

definition isLCAlpha :: "char \<Rightarrow> bool" where
  "isLCAlpha c \<longleftrightarrow> CHR ''a'' \<le> c \<and> c \<le> CHR ''z''"

definition isAlpha :: "char \<Rightarrow> bool" where
  "isAlpha c \<longleftrightarrow> isLCAlpha c \<or> (CHR ''A'' \<le> c \<and> c \<le> CHR ''Z'')"

definition isTChar :: "char \<Rightarrow> bool" where
  "isTChar c \<longleftrightarrow> c \<in> set ''!#$%&*+-.^_|~:/'' \<or> c = CHR 0x27 \<or> c = CHR 0x60 \<or> isAlpha c \<or> isDigit c"

definition unhex :: "char \<Rightarrow> int" where
  "unhex c =
     (if CHR ''0'' \<le> c \<and> c \<le> CHR ''9'' then int (of_char c) - int (of_char (CHR ''0''))
      else if CHR ''a'' \<le> c \<and> c \<le> CHR ''f'' then int (of_char c) - int (of_char (CHR ''a'')) + 10
      else -1)"

subsection \<open>The cursor\<close>

definition peek :: "string \<Rightarrow> nat \<Rightarrow> char" where
  "peek s i = (if i \<ge> length s then CHR 0x00 else s ! i)"

text \<open>The loops of the form \<open>for p.i < len(p.s) && test(p.s[p.i]) { p.i++ }\<close>.\<close>

function skip_while :: "(char \<Rightarrow> bool) \<Rightarrow> string \<Rightarrow> nat \<Rightarrow> nat" where
  "skip_while test s i = (if i < length s \<and> test (s ! i) then skip_while test s (i + 1) else i)"
  by pat_completeness auto
termination by (relation "measure (\<lambda>(test, s, i). length s - i)") auto

declare skip_while.simps [simp del]

lemma skip_while_ge: "i \<le> skip_while test s i"
  by (induction test s i rule: skip_while.induct) (subst skip_while.simps, auto)

lemma skip_while_le: "i \<le> length s \<Longrightarrow> skip_while test s i \<le> length s"
  by (induction test s i rule: skip_while.induct) (subst skip_while.simps, auto)

lemma skip_while_all: "i \<le> j \<Longrightarrow> j < skip_while test s i \<Longrightarrow> j < length s \<and> test (s ! j)"
proof (induction test s i rule: skip_while.induct)
  case (1 test s i)
  show ?case
  proof (cases "i < length s \<and> test (s ! i)")
    case True
    with 1 show ?thesis by (cases "i = j") (simp_all add: skip_while.simps [of test s i])
  next
    case False
    then have "skip_while test s i = i" by (subst skip_while.simps) auto
    with "1.prems" show ?thesis by simp
  qed
qed

definition skipSP :: "string \<Rightarrow> nat \<Rightarrow> nat" where
  "skipSP s i = skip_while (\<lambda>c. c = CHR '' '') s i"

definition skipOWS :: "string \<Rightarrow> nat \<Rightarrow> nat" where
  "skipOWS s i = skip_while (\<lambda>c. c = CHR '' '' \<or> c = CHR 0x09) s i"

text \<open>\<open>p.s[a:b]\<close>, for indices that the loops have kept in range.\<close>

definition substr :: "string \<Rightarrow> nat \<Rightarrow> nat \<Rightarrow> string" where
  "substr s a b = take (b - a) (drop a s)"

lemma set_substr: "c \<in> set (substr s a b) \<Longrightarrow> \<exists>j. a \<le> j \<and> j < b \<and> j < length s \<and> c = s ! j"
  by (auto simp: substr_def in_set_conv_nth) (metis add.commute le_add1 less_diff_conv)

lemma length_substr: "b \<le> length s \<Longrightarrow> length (substr s a b) = b - a"
  by (simp add: substr_def)

subsection \<open>Keys and keyed lists\<close>

definition is_key_char :: "char \<Rightarrow> bool" where
  "is_key_char c \<longleftrightarrow> isLCAlpha c \<or> isDigit c \<or> c = CHR ''_'' \<or> c = CHR ''-'' \<or> c = CHR ''.'' \<or> c = CHR ''*''"

definition parse_key :: "string \<Rightarrow> nat \<Rightarrow> syntax_error + (string \<times> nat)" where
  "parse_key s i =
     (let c = peek s i in
      if \<not> isLCAlpha c \<and> c \<noteq> CHR ''*'' then Inl (SyntaxError i)
      else let start = i; i = skip_while is_key_char s i in Inr (substr s start i, i))"

text \<open>\<open>setKeyed\<close>: a scan for short lists, an index from key to position once a list is as long as
  \<open>indexThreshold\<close>. The index is a Go map: an association list, or \<open>None\<close> while there is none.\<close>

definition indexThreshold :: nat where [simp]: "indexThreshold = 16"

type_synonym key_index = "(string \<times> nat) list option"

fun find_key :: "string \<Rightarrow> nat \<Rightarrow> (string \<times> 'a) list \<Rightarrow> nat option" where
  "find_key k i [] = None"
| "find_key k i ((k', v) # xs) = (if k' = k then Some i else find_key k (i + 1) xs)"

fun index_of :: "nat \<Rightarrow> (string \<times> 'a) list \<Rightarrow> (string \<times> nat) list" where
  "index_of i [] = []"
| "index_of i ((k, v) # xs) = (k, i) # index_of (i + 1) xs"

definition setKeyed ::
  "(string \<times> 'a) list \<Rightarrow> key_index \<Rightarrow> string \<times> 'a \<Rightarrow> (string \<times> 'a) list \<times> key_index" where
  "setKeyed xs idx e =
     (case idx of
        Some m \<Rightarrow>
          (case map_of m (fst e) of
             Some i \<Rightarrow> (xs[i := e], idx)
           | None \<Rightarrow> (xs @ [e], Some ((fst e, length xs) # m)))
      | None \<Rightarrow>
          (case find_key (fst e) 0 xs of
             Some i \<Rightarrow> (xs[i := e], None)
           | None \<Rightarrow>
               (let xs = xs @ [e] in
                (xs, if length xs = indexThreshold then Some (index_of 0 xs) else None))))"

subsection \<open>Bare items\<close>

definition maxIntegerDigits :: nat where [simp]: "maxIntegerDigits = 15"
definition maxDecimalIntegerDigits :: nat where [simp]: "maxDecimalIntegerDigits = 12"
definition maxDecimalFractionDigits :: nat where [simp]: "maxDecimalFractionDigits = 3"
definition thousand :: int where [simp]: "thousand = 1000"

definition digit_value :: "char \<Rightarrow> int" where
  "digit_value c = of_char c - of_char (CHR ''0'')"

definition digits :: "string \<Rightarrow> int" where
  "digits s = foldl (\<lambda>n c. n * 10 + digit_value c) 0 s"

text \<open>The scan of digits with at most one point: where it ends, and where the point is.\<close>

function number_loop :: "string \<Rightarrow> nat \<Rightarrow> nat option \<Rightarrow> nat \<times> nat option" where
  "number_loop s i point =
     (if i < length s then
        (if isDigit (s ! i) then number_loop s (i + 1) point
         else if s ! i = CHR ''.'' \<and> point = None then number_loop s (i + 1) (Some i)
         else (i, point))
      else (i, point))"
  by pat_completeness auto
termination by (relation "measure (\<lambda>(s, i, point). length s - i)") auto

declare number_loop.simps [simp del]

definition number :: "string \<Rightarrow> nat \<Rightarrow> syntax_error + (item \<times> nat)" where
  "number s i =
     (let pos = i;
          minus = (peek s i = CHR ''-'');
          i = (if minus then i + 1 else i);
          sign = (if minus then -1 else 1)
      in if minus \<and> i \<ge> length s then Inl (SyntaxError i)
         else if \<not> isDigit (peek s i) then Inl (SyntaxError i)
         else
           (let start = i in
            case number_loop s i None of
              (i, point) \<Rightarrow>
                (let run = substr s start i in
                 case point of
                   None \<Rightarrow>
                     if length run > maxIntegerDigits then Inl (SyntaxError pos)
                     else Inr (integer_item (sign * digits run), i)
                 | Some p \<Rightarrow>
                     (let whole = take (p - start) run; frac = drop (p - start + 1) run in
                      if length whole > maxDecimalIntegerDigits then Inl (SyntaxError pos)
                      else if length frac = 0 then Inl (SyntaxError pos)
                      else if length frac > maxDecimalFractionDigits then Inl (SyntaxError pos)
                      else
                        let scale = ((\<lambda>x. x div 10) ^^ length frac) thousand
                        in Inr (decimal_item (sign * (digits whole * thousand + digits frac * scale)), i)))))"

function text_loop :: "string \<Rightarrow> nat \<Rightarrow> nat \<Rightarrow> string \<Rightarrow> syntax_error + (item \<times> nat)" where
  "text_loop s i start b =
     (if i < length s then
        (if s ! i = CHR 0x5c then
           (let b = b @ substr s start i; i = i + 1 in
            if i \<ge> length s then Inl (SyntaxError i)
            else if s ! i \<noteq> CHR 0x22 \<and> s ! i \<noteq> CHR 0x5c then Inl (SyntaxError i)
            else text_loop s (i + 1) (i + 1) (b @ [s ! i]))
         else if s ! i = CHR 0x22 then
           (if b = [] then Inr (text_item KindString (substr s start i), i + 1)
            else Inr (text_item KindString (b @ substr s start i), i + 1))
         else if s ! i < CHR 0x20 \<or> s ! i \<ge> CHR 0x7f then Inl (SyntaxError i)
         else text_loop s (i + 1) start b)
      else Inl (SyntaxError i))"
  by pat_completeness auto
termination by (relation "measure (\<lambda>(s, i, start, b). length s - i)") auto

declare text_loop.simps [simp del]

definition parse_text :: "string \<Rightarrow> nat \<Rightarrow> syntax_error + (item \<times> nat)" where
  "parse_text s i = text_loop s (i + 1) (i + 1) ''''"

definition token :: "string \<Rightarrow> nat \<Rightarrow> syntax_error + (item \<times> nat)" where
  "token s i =
     (let start = i; i = skip_while isTChar s (i + 1) in Inr (text_item KindToken (substr s start i), i))"

text \<open>\<open>base64.RawStdEncoding.DecodeString\<close>: groups of four characters of six bits; a last group of one
  is an error, and bits beyond the last octet are ignored.\<close>

definition b64_value :: "char \<Rightarrow> nat option" where
  "b64_value c =
     (if CHR ''A'' \<le> c \<and> c \<le> CHR ''Z'' then Some (of_char c - 65)
      else if CHR ''a'' \<le> c \<and> c \<le> CHR ''z'' then Some (of_char c - 97 + 26)
      else if CHR ''0'' \<le> c \<and> c \<le> CHR ''9'' then Some (of_char c - 48 + 52)
      else if c = CHR ''+'' then Some 62
      else if c = CHR ''/'' then Some 63
      else None)"

fun b64_group :: "nat list \<Rightarrow> byte list option" where
  "b64_group [] = Some []"
| "b64_group [a] = None"
| "b64_group [a, b] = Some [word_of_nat ((a * 64 + b) div 16)]"
| "b64_group [a, b, c] =
     Some [word_of_nat ((a * 4096 + b * 64 + c) div 1024), word_of_nat ((a * 4096 + b * 64 + c) div 4)]"
| "b64_group (a # b # c # d # vs) =
     (let n = a * 262144 + b * 4096 + c * 64 + d in
      map_option (\<lambda>bs. [word_of_nat (n div 65536), word_of_nat (n div 256), word_of_nat n] @ bs) (b64_group vs))"

definition RawStd_Decode :: "string \<Rightarrow> byte list option" where
  "RawStd_Decode s =
     (if list_all (\<lambda>c. b64_value c \<noteq> None) s then b64_group (map (\<lambda>c. the (b64_value c)) s) else None)"

text \<open>\<open>strings.TrimRight(s, "=")\<close> and \<open>strings.IndexByte\<close>.\<close>

definition TrimRight :: "char \<Rightarrow> string \<Rightarrow> string" where
  "TrimRight c s = rev (dropWhile (\<lambda>x. x = c) (rev s))"

definition byteSequence :: "string \<Rightarrow> nat \<Rightarrow> syntax_error + (item \<times> nat)" where
  "byteSequence s i =
     (let pos = i; i = i + 1; colon = skip_while (\<lambda>c. c \<noteq> CHR '':'') s i in
      if colon \<ge> length s then Inl (SyntaxError pos)
      else
        let content = substr s i colon; i = colon + 1 in
        if \<not> list_all (\<lambda>c. isAlpha c \<or> isDigit c \<or> c = CHR ''+'' \<or> c = CHR ''/'' \<or> c = CHR ''='') content
        then Inl (SyntaxError pos)
        else
          (case RawStd_Decode (TrimRight (CHR ''='') content) of
             None \<Rightarrow> Inl (SyntaxError pos)
           | Some b \<Rightarrow> Inr (bytes_item b, i)))"

definition parse_boolean :: "string \<Rightarrow> nat \<Rightarrow> syntax_error + (item \<times> nat)" where
  "parse_boolean s i =
     (let i = i + 1 in
      if peek s i = CHR ''1'' then Inr (boolean_item True, i + 1)
      else if peek s i = CHR ''0'' then Inr (boolean_item False, i + 1)
      else Inl (SyntaxError i))"

definition date :: "string \<Rightarrow> nat \<Rightarrow> syntax_error + (item \<times> nat)" where
  "date s i =
     (let pos = i; i = i + 1 in
      case number s i of
        Inl e \<Rightarrow> Inl e
      | Inr (n, i) \<Rightarrow>
          if Kind n \<noteq> KindInteger then Inl (SyntaxError pos) else Inr (date_item (Integer n), i))"

text \<open>\<open>utf8.ValidString\<close>: the encodings of RFC 3629, without surrogates and overlong forms.\<close>

definition utf8_cont :: "nat \<Rightarrow> nat \<Rightarrow> char \<Rightarrow> bool" where
  "utf8_cont lo hi c \<longleftrightarrow> lo \<le> of_char c \<and> of_char c \<le> hi"

fun valid_utf8 :: "string \<Rightarrow> bool" where
  "valid_utf8 [] \<longleftrightarrow> True"
| "valid_utf8 (a # s) \<longleftrightarrow>
     (let n = of_char a :: nat in
      if n < 0x80 then valid_utf8 s
      else
        (case s of
           [] \<Rightarrow> False
         | b # s \<Rightarrow>
             if 0xc2 \<le> n \<and> n \<le> 0xdf then utf8_cont 0x80 0xbf b \<and> valid_utf8 s
             else
               (case s of
                  [] \<Rightarrow> False
                | c # s \<Rightarrow>
                    if n = 0xe0 then utf8_cont 0xa0 0xbf b \<and> utf8_cont 0x80 0xbf c \<and> valid_utf8 s
                    else if n = 0xed then utf8_cont 0x80 0x9f b \<and> utf8_cont 0x80 0xbf c \<and> valid_utf8 s
                    else if 0xe1 \<le> n \<and> n \<le> 0xef then utf8_cont 0x80 0xbf b \<and> utf8_cont 0x80 0xbf c \<and> valid_utf8 s
                    else
                      (case s of
                         [] \<Rightarrow> False
                       | d # s \<Rightarrow>
                           (if n = 0xf0 then utf8_cont 0x90 0xbf b
                            else if n = 0xf4 then utf8_cont 0x80 0x8f b
                            else 0xf1 \<le> n \<and> n \<le> 0xf3 \<and> utf8_cont 0x80 0xbf b) \<and>
                           utf8_cont 0x80 0xbf c \<and> utf8_cont 0x80 0xbf d \<and> valid_utf8 s))))"

function display_loop :: "string \<Rightarrow> nat \<Rightarrow> nat \<Rightarrow> string \<Rightarrow> syntax_error + (item \<times> nat)" where
  "display_loop s pos i b =
     (if i < length s then
        (let c = s ! i in
         if c < CHR 0x20 \<or> c \<ge> CHR 0x7f then Inl (SyntaxError i)
         else if c = CHR ''%'' then
           (if i + 3 > length s then Inl (SyntaxError (i + 1))
            else
              let hi = unhex (s ! (i + 1)); lo = unhex (s ! (i + 2)) in
              if hi < 0 \<or> lo < 0 then Inl (SyntaxError (i + 1))
              else display_loop s pos (i + 3) (b @ [char_of (nat (16 * hi + lo))]))
         else if c = CHR 0x22 then
           (if \<not> valid_utf8 b then Inl (SyntaxError pos)
            else Inr (text_item KindDisplayString b, i + 1))
         else display_loop s pos (i + 1) (b @ [c]))
      else Inl (SyntaxError i))"
  by pat_completeness auto
termination by (relation "measure (\<lambda>(s, pos, i, b). length s - i)") auto

declare display_loop.simps [simp del]

definition displayString :: "string \<Rightarrow> nat \<Rightarrow> syntax_error + (item \<times> nat)" where
  "displayString s i =
     (if peek s i \<noteq> CHR ''%'' \<or> peek s (i + 1) \<noteq> CHR 0x22 then Inl (SyntaxError i)
      else display_loop s i (i + 2) '''')"

definition bareItem :: "string \<Rightarrow> nat \<Rightarrow> syntax_error + (item \<times> nat)" where
  "bareItem s i =
     (let c = peek s i in
      if c = CHR ''-'' \<or> isDigit c then number s i
      else if c = CHR 0x22 then parse_text s i
      else if isAlpha c \<or> c = CHR ''*'' then token s i
      else if c = CHR '':'' then byteSequence s i
      else if c = CHR ''?'' then parse_boolean s i
      else if c = CHR ''@'' then date s i
      else if c = CHR ''%'' then displayString s i
      else Inl (SyntaxError i))"

subsection \<open>Progress\<close>

text \<open>Every parser that succeeds has moved on and is still in the string; the loops below end by it.\<close>

lemma peek_nonzero: "peek s i \<noteq> CHR 0x00 \<Longrightarrow> i < length s \<and> peek s i = s ! i"
  by (auto simp: peek_def split: if_splits)

lemma not_nul [simp]: "\<not> isDigit CHR 0x00" "\<not> isLCAlpha CHR 0x00" "\<not> isAlpha CHR 0x00" "\<not> isTChar CHR 0x00"
  by (simp_all add: isDigit_def isLCAlpha_def isAlpha_def isTChar_def less_eq_char_def)

lemma peek_test: "test (peek s i) \<Longrightarrow> \<not> test CHR 0x00 \<Longrightarrow> i < length s \<and> test (s ! i)"
  by (auto simp: peek_def split: if_splits)

lemma skip_while_Suc: "i < length s \<Longrightarrow> test (s ! i) \<Longrightarrow> skip_while test s i = skip_while test s (i + 1)"
  by (subst skip_while.simps) simp

lemma parse_key_progress:
  assumes "parse_key s i = Inr (k, j)"
  shows "i < j \<and> j \<le> length s"
proof -
  let ?t = "\<lambda>c. isLCAlpha c \<or> c = CHR ''*''"
  have c: "?t (peek s i)" and j: "j = skip_while is_key_char s i"
    using assms by (auto simp: parse_key_def Let_def split: if_splits)
  have i: "i < length s \<and> is_key_char (s ! i)"
    using peek_test [of ?t, OF c] by (auto simp: is_key_char_def)
  then show ?thesis
    using skip_while_ge [of "i + 1" is_key_char s] skip_while_le [of i s is_key_char] j skip_while_Suc [of i s is_key_char]
    by simp
qed

lemma number_loop_ge: "i \<le> fst (number_loop s i point)"
  by (induction s i point rule: number_loop.induct) (subst number_loop.simps, auto)

lemma number_loop_le: "i \<le> length s \<Longrightarrow> fst (number_loop s i point) \<le> length s"
  by (induction s i point rule: number_loop.induct) (subst number_loop.simps, auto)

lemma number_progress:
  assumes "number s i = Inr (it, j)"
  shows "i < j \<and> j \<le> length s"
proof -
  let ?i = "if peek s i = CHR ''-'' then i + 1 else i"
  have d: "isDigit (peek s ?i)" and j: "j = fst (number_loop s ?i None)"
    using assms by (auto simp: number_def Let_def split: if_splits prod.splits option.splits)
  have i: "?i < length s \<and> isDigit (s ! ?i)" using peek_test [of isDigit, OF d] by simp
  then have "number_loop s ?i None = number_loop s (?i + 1) None" by (subst number_loop.simps) simp
  then show ?thesis
    using number_loop_ge [of "?i + 1" s None] number_loop_le [of "?i + 1" s None] i j by (auto split: if_splits)
qed

lemma text_loop_progress: "text_loop s i start b = Inr (it, j) \<Longrightarrow> i < j \<and> j \<le> length s"
proof (induction s i start b rule: text_loop.induct)
  case (1 s i start b)
  from "1.prems" show ?case
    using "1.IH"
    by (subst (asm) text_loop.simps) (force simp: Let_def split: if_splits)
qed

lemma display_loop_progress: "display_loop s pos i b = Inr (it, j) \<Longrightarrow> i < j \<and> j \<le> length s"
proof (induction s pos i b rule: display_loop.induct)
  case (1 s pos i b)
  from "1.prems" show ?case
    using "1.IH"
    by (subst (asm) display_loop.simps) (force simp: Let_def split: if_splits)
qed

lemma bareItem_progress:
  assumes "bareItem s i = Inr (it, j)"
  shows "i < j \<and> j \<le> length s"
proof -
  let ?c = "peek s i"
  have i: "i < length s" using assms by (auto simp: bareItem_def peek_def split: if_splits)
  consider "number s i = Inr (it, j)" | "parse_text s i = Inr (it, j)" | "token s i = Inr (it, j)"
    | "byteSequence s i = Inr (it, j)" | "parse_boolean s i = Inr (it, j)" | "date s i = Inr (it, j)"
    | "displayString s i = Inr (it, j)"
    using assms by (auto simp: bareItem_def Let_def split: if_splits)
  then show ?thesis
  proof cases
    case 1 then show ?thesis by (rule number_progress)
  next
    case 2 then show ?thesis using text_loop_progress by (fastforce simp: parse_text_def)
  next
    case 3 then show ?thesis
      using i skip_while_ge [of "i + 1" isTChar s] skip_while_le [of "i + 1" s isTChar]
      by (auto simp: token_def Let_def)
  next
    case 4 then show ?thesis
      using skip_while_ge [of "i + 1" "\<lambda>c. c \<noteq> CHR '':''" s]
      by (auto simp: byteSequence_def Let_def not_le split: if_splits option.splits)
  next
    case 5 then have "peek s (i + 1) \<noteq> CHR 0x00 \<and> j = i + 2"
      by (auto simp: parse_boolean_def Let_def split: if_splits)
    then show ?thesis using peek_nonzero [of s "i + 1"] by auto
  next
    case 6 then show ?thesis
      using number_progress by (fastforce simp: date_def Let_def split: sum.splits prod.splits if_splits)
  next
    case 7 then show ?thesis
      using display_loop_progress by (fastforce simp: displayString_def split: if_splits)
  qed
qed

subsection \<open>Parameters, lists and dictionaries\<close>

text \<open>The value of a parameter: a bare item after an equals sign, or else true.\<close>

definition param_value :: "string \<Rightarrow> nat \<Rightarrow> syntax_error + (item \<times> nat)" where
  "param_value s i = (if peek s i = CHR ''='' then bareItem s (i + 1) else Inr (boolean_item True, i))"

lemma param_value_progress: "param_value s i = Inr (it, j) \<Longrightarrow> i \<le> j \<and> (i \<le> length s \<longrightarrow> j \<le> length s)"
  using bareItem_progress [of s "i + 1"] by (fastforce simp: param_value_def split: if_splits)

lemma params_key_progress:
  assumes "peek s i = CHR '';''" "parse_key s (skipSP s (Suc i)) = Inr (k, i1)"
  shows "i < i1" "i1 \<le> length s"
proof -
  have "Suc i \<le> skipSP s (Suc i)" by (simp add: skipSP_def skip_while_ge)
  with parse_key_progress [OF assms(2)] show "i < i1" "i1 \<le> length s" by simp_all
qed

function params_loop :: "string \<Rightarrow> nat \<Rightarrow> params \<Rightarrow> key_index \<Rightarrow> syntax_error + (params \<times> nat)" where
  "params_loop s i ps idx =
     (if peek s i = CHR '';'' then
        (case parse_key s (skipSP s (Suc i)) of
           Inl e \<Rightarrow> Inl e
         | Inr (k, i1) \<Rightarrow>
             (case param_value s i1 of
                Inl e \<Rightarrow> Inl e
              | Inr (v, i2) \<Rightarrow>
                  params_loop s i2 (fst (setKeyed ps idx (k, v))) (snd (setKeyed ps idx (k, v)))))
      else Inr (ps, i))"
  by pat_completeness auto
termination
proof (relation "measure (\<lambda>(s, i, ps, idx). length s - i)", goal_cases)
  case (2 s i ps idx y k i1 z v i2)
  then show ?case
    using params_key_progress [of s i k i1] param_value_progress [of s i1 v i2] by auto
qed simp

declare params_loop.simps [simp del]

definition parse_params :: "string \<Rightarrow> nat \<Rightarrow> syntax_error + (params \<times> nat)" where
  "parse_params s i = params_loop s i [] None"

definition parse_item :: "string \<Rightarrow> nat \<Rightarrow> syntax_error + (item \<times> nat)" where
  "parse_item s i =
     (case bareItem s i of
        Inl e \<Rightarrow> Inl e
      | Inr (it, i) \<Rightarrow>
          (case parse_params s i of Inl e \<Rightarrow> Inl e | Inr (ps, i) \<Rightarrow> Inr (with_params ps it, i)))"

lemma params_loop_progress:
  "params_loop s i ps idx = Inr (ps', j) \<Longrightarrow> i \<le> j \<and> (i \<le> length s \<longrightarrow> j \<le> length s)"
proof (induction s i ps idx rule: params_loop.induct)
  case (1 s i ps idx)
  show ?case
  proof (cases "peek s i = CHR '';''")
    case True
    with "1.prems" obtain k i1 v i2 where k: "parse_key s (skipSP s (Suc i)) = Inr (k, i1)" "param_value s i1 = Inr (v, i2)"
      "params_loop s i2 (fst (setKeyed ps idx (k, v))) (snd (setKeyed ps idx (k, v))) = Inr (ps', j)"
      by (auto simp: params_loop.simps [of s i] split: sum.splits)
    from "1.IH" [OF True k(1) refl k(2) refl k(3)] params_key_progress [OF True k(1)] param_value_progress [OF k(2)]
    show ?thesis by auto
  next
    case False
    with "1.prems" show ?thesis by (auto simp: params_loop.simps [of s i])
  qed
qed

lemma parse_params_progress:
  "parse_params s i = Inr (ps, j) \<Longrightarrow> i \<le> j \<and> (i \<le> length s \<longrightarrow> j \<le> length s)"
  unfolding parse_params_def by (rule params_loop_progress)

lemma parse_item_progress: "parse_item s i = Inr (it, j) \<Longrightarrow> i < j \<and> j \<le> length s"
  using bareItem_progress parse_params_progress by (fastforce simp: parse_item_def split: sum.splits prod.splits)

lemma skipSP_item: "parse_item s (skipSP s i) = Inr (it, j) \<Longrightarrow> i < j \<and> j \<le> length s"
  using parse_item_progress [of s "skipSP s i" it j] skip_while_ge [of i "\<lambda>c. c = CHR '' ''" s]
  by (auto simp: skipSP_def)

function inner_loop :: "string \<Rightarrow> nat \<Rightarrow> item list \<Rightarrow> syntax_error + (item \<times> nat)" where
  "inner_loop s i xs =
     (if i < length s then
        (if peek s (skipSP s i) = CHR '')'' then
           (case parse_params s (skipSP s i + 1) of
              Inl e \<Rightarrow> Inl e
            | Inr (ps, i1) \<Rightarrow> Inr (list_item xs ps, i1))
         else
           (case parse_item s (skipSP s i) of
              Inl e \<Rightarrow> Inl e
            | Inr (it, i1) \<Rightarrow>
                if i1 < length s \<and> peek s i1 \<noteq> CHR '' '' \<and> peek s i1 \<noteq> CHR '')'' then Inl (SyntaxError i1)
                else inner_loop s i1 (xs @ [it])))
      else Inl (SyntaxError i))"
  by pat_completeness auto
termination
  by (relation "measure (\<lambda>(s, i, xs). length s - i)") (auto dest!: skipSP_item)

declare inner_loop.simps [simp del]

definition innerList :: "string \<Rightarrow> nat \<Rightarrow> syntax_error + (item \<times> nat)" where
  "innerList s i = inner_loop s (i + 1) []"

definition itemOrInnerList :: "string \<Rightarrow> nat \<Rightarrow> syntax_error + (item \<times> nat)" where
  "itemOrInnerList s i = (if peek s i = CHR ''('' then innerList s i else parse_item s i)"

lemma inner_loop_progress: "inner_loop s i xs = Inr (it, j) \<Longrightarrow> i < j \<and> j \<le> length s"
proof (induction s i xs rule: inner_loop.induct)
  case (1 s i xs)
  have sp: "i \<le> skipSP s i" by (simp add: skipSP_def skip_while_ge)
  have i: "i < length s" using "1.prems" by (auto simp: inner_loop.simps [of s i] split: if_splits)
  show ?case
  proof (cases "peek s (skipSP s i) = CHR '')''")
    case True
    with "1.prems" i obtain ps where "parse_params s (skipSP s i + 1) = Inr (ps, j)"
      by (auto simp: inner_loop.simps [of s i] split: sum.splits)
    from parse_params_progress [OF this] sp peek_nonzero [of s "skipSP s i"] True show ?thesis by auto
  next
    case False
    with "1.prems" i obtain it1 i1 where it1: "parse_item s (skipSP s i) = Inr (it1, i1)"
      "\<not> (i1 < length s \<and> peek s i1 \<noteq> CHR '' '' \<and> peek s i1 \<noteq> CHR '')'')"
      "inner_loop s i1 (xs @ [it1]) = Inr (it, j)"
      by (auto simp: inner_loop.simps [of s i] split: sum.splits if_splits)
    from "1.IH" [OF i False it1(1) refl it1(2,3)] skipSP_item [OF it1(1)] show ?thesis by simp
  qed
qed

text \<open>The value of a dictionary member.\<close>

definition member_value :: "string \<Rightarrow> nat \<Rightarrow> syntax_error + (item \<times> nat)" where
  "member_value s i =
     (if peek s i = CHR ''='' then itemOrInnerList s (i + 1)
      else
        (case parse_params s i of
           Inl e \<Rightarrow> Inl e
         | Inr (ps, i) \<Rightarrow> Inr (with_params ps (boolean_item True), i)))"

lemma itemOrInnerList_progress: "itemOrInnerList s i = Inr (it, j) \<Longrightarrow> i < j \<and> j \<le> length s"
  using parse_item_progress [of s i it j] inner_loop_progress [of s "i + 1" "[]" it j]
  by (auto simp: itemOrInnerList_def innerList_def split: if_splits)

lemma member_value_progress: "member_value s i = Inr (it, j) \<Longrightarrow> i \<le> j \<and> (i \<le> length s \<longrightarrow> j \<le> length s)"
  using itemOrInnerList_progress [of s "i + 1" it j] parse_params_progress
  by (fastforce simp: member_value_def split: if_splits sum.splits prod.splits)

lemma dictionary_progress:
  assumes "parse_key s i = Inr (k, i1)" "member_value s i1 = Inr (v, i2)"
  shows "i < i2" "i2 \<le> length s"
  using parse_key_progress [OF assms(1)] member_value_progress [OF assms(2)] by auto

lemma skipOWS_ge: "i \<le> skipOWS s i"
  by (simp add: skipOWS_def skip_while_ge)

function dictionary_loop :: "string \<Rightarrow> nat \<Rightarrow> dictionary \<Rightarrow> key_index \<Rightarrow> syntax_error + dictionary" where
  "dictionary_loop s i d idx =
     (if i < length s then
        (case parse_key s i of
           Inl e \<Rightarrow> Inl e
         | Inr (k, i1) \<Rightarrow>
             (case member_value s i1 of
                Inl e \<Rightarrow> Inl e
              | Inr (v, i2) \<Rightarrow>
                  (if skipOWS s i2 \<ge> length s then Inr (fst (setKeyed d idx (k, v)))
                   else if peek s (skipOWS s i2) \<noteq> CHR '','' then Inl (SyntaxError (skipOWS s i2))
                   else if skipOWS s (skipOWS s i2 + 1) \<ge> length s then Inl (SyntaxError (skipOWS s (skipOWS s i2 + 1)))
                   else dictionary_loop s (skipOWS s (skipOWS s i2 + 1))
                          (fst (setKeyed d idx (k, v))) (snd (setKeyed d idx (k, v))))))
      else Inr d)"
  by pat_completeness auto
termination
proof (relation "measure (\<lambda>(s, i, d, idx). length s - i)", goal_cases)
  case (2 s i d idx y k i1 z v i2)
  have "i2 \<le> skipOWS s i2" "skipOWS s i2 + 1 \<le> skipOWS s (skipOWS s i2 + 1)" by (rule skipOWS_ge)+
  with dictionary_progress [of s i k i1 v i2] 2 show ?case by simp
qed simp

declare dictionary_loop.simps [simp del]

definition ParseDictionary :: "string \<Rightarrow> syntax_error + dictionary" where
  "ParseDictionary s = dictionary_loop s (skipSP s 0) [] None"

end
