(* ===== verification/SfvProps.thy ===== *)
theory SfvProps
  imports Sfv "HOL-Library.AList"
begin

text \<open>
  The properties of the structured-field parser: the index of \<open>setKeyed\<close> changes nothing but time,
  what is accepted is well-formed (numbers in range, keys and tokens in their alphabets, no nested
  lists, no repeated keys), and an error points into the field.
\<close>

subsection \<open>Keyed lists\<close>

text \<open>What \<open>setKeyed\<close> does, without the index: the last value at the first position.\<close>

definition set_ref :: "(string \<times> 'a) list \<Rightarrow> string \<times> 'a \<Rightarrow> (string \<times> 'a) list" where
  "set_ref xs e = AList.update (fst e) (snd e) xs"

lemma find_key_Cons: "find_key k i (x # xs) = (if fst x = k then Some i else find_key k (Suc i) xs)"
  by (cases x) simp

lemma find_key_None: "find_key k i xs = None \<longleftrightarrow> k \<notin> fst ` set xs"
  by (induction xs arbitrary: i) (auto simp: find_key_Cons simp del: find_key.simps(2))

lemma find_key_Some:
  "find_key k i xs = Some j \<Longrightarrow> \<exists>n. j = i + n \<and> n < length xs \<and> fst (xs ! n) = k \<and>
     (\<forall>v. AList.update k v xs = xs[n := (k, v)])"
proof (induction xs arbitrary: i)
  case (Cons x xs)
  show ?case
  proof (cases "fst x = k")
    case True
    with Cons.prems show ?thesis by (intro exI [of _ 0]) (cases x, auto)
  next
    case False
    with Cons.prems have "find_key k (Suc i) xs = Some j" by (simp only: find_key_Cons if_False)
    from Cons.IH [OF this] obtain n where "j = Suc i + n" "n < length xs" "fst (xs ! n) = k"
      "\<forall>v. AList.update k v xs = xs[n := (k, v)]" by blast
    with False show ?thesis by (intro exI [of _ "Suc n"]) (cases x, auto)
  qed
qed simp

lemma update_append: "k \<notin> fst ` set xs \<Longrightarrow> AList.update k v xs = xs @ [(k, v)]"
  by (induction xs) auto

lemma map_of_index_of: "map_of (index_of i xs) k = find_key k i xs"
  by (induction i xs rule: index_of.induct) auto

lemma find_key_keys: "map fst xs = map fst ys \<Longrightarrow> find_key k i xs = find_key k i ys"
  by (induction xs arbitrary: i ys) (auto simp: find_key_Cons simp del: find_key.simps(2))

lemma find_key_update: "n < length xs \<Longrightarrow> fst (xs ! n) = fst e \<Longrightarrow> find_key k i (xs[n := e]) = find_key k i xs"
  by (rule find_key_keys) (metis list_update_id map_update)

lemma find_key_append: "find_key k i (xs @ [e]) =
    (case find_key k i xs of Some j \<Rightarrow> Some j | None \<Rightarrow> if fst e = k then Some (i + length xs) else None)"
  by (induction xs arbitrary: i) (simp_all add: find_key_Cons split: option.split del: find_key.simps(2))

definition index_ok :: "(string \<times> 'a) list \<Rightarrow> key_index \<Rightarrow> bool" where
  "index_ok xs idx \<longleftrightarrow> (case idx of None \<Rightarrow> True | Some m \<Rightarrow> \<forall>k. map_of m k = find_key k 0 xs)"

lemma setKeyed_ref:
  assumes "index_ok xs idx"
  shows "fst (setKeyed xs idx e) = set_ref xs e \<and> index_ok (fst (setKeyed xs idx e)) (snd (setKeyed xs idx e))"
proof -
  obtain k v where e: "e = (k, v)" by (cases e)
  show ?thesis
  proof (cases "find_key k 0 xs")
    case None
    then have "AList.update k v xs = xs @ [e]" by (simp add: update_append e find_key_None)
    with None assms show ?thesis
      by (cases idx) (auto simp: setKeyed_def set_ref_def e index_ok_def map_of_index_of find_key_append Let_def
          split: option.splits)
  next
    case (Some j)
    then have f: "j < length xs" "fst (xs ! j) = k" and u: "AList.update k v xs = xs[j := e]"
      using find_key_Some [OF Some] by (auto simp: e)
    have "find_key k' 0 (xs[j := e]) = find_key k' 0 xs" for k'
      using f by (simp add: e find_key_update)
    with Some assms u show ?thesis
      by (cases idx) (auto simp: setKeyed_def set_ref_def e index_ok_def)
  qed
qed

fun set_all :: "(string \<times> 'a) list \<Rightarrow> (string \<times> 'a) list \<Rightarrow> key_index \<Rightarrow> (string \<times> 'a) list \<times> key_index" where
  "set_all [] xs idx = (xs, idx)"
| "set_all (e # es) xs idx = (case setKeyed xs idx e of (xs, idx) \<Rightarrow> set_all es xs idx)"

lemma set_all_ref: "index_ok xs idx \<Longrightarrow> fst (set_all es xs idx) = foldl set_ref xs es"
proof (induction es arbitrary: xs idx)
  case (Cons e es)
  obtain xs' idx' where s: "setKeyed xs idx e = (xs', idx')" by fastforce
  have "index_ok xs' idx'" "xs' = set_ref xs e"
    using setKeyed_ref [OF Cons.prems, of e] unfolding s fst_conv snd_conv by blast+
  with Cons.IH [of xs' idx'] s show ?case by simp
qed simp

lemma set_ref_distinct: "distinct (map fst xs) \<Longrightarrow> distinct (map fst (set_ref xs e))"
  by (simp add: set_ref_def distinct_update)

lemma map_of_set_ref: "map_of (set_ref xs e) = (map_of xs)(fst e \<mapsto> snd e)"
  by (simp add: set_ref_def update_conv')

lemma foldl_set_ref: "map_of (foldl set_ref xs es) k = (map_of xs ++ map_of (rev es)) k"
  by (induction es arbitrary: xs) (auto simp: map_of_set_ref map_add_def split: option.splits)

lemma Dictionary_Get_map_of: "Dictionary_Get k d = (case map_of d k of None \<Rightarrow> (zero_item, False) | Some v \<Rightarrow> (v, True))"
  by (induction d) auto

lemma set_set_ref: "x \<in> set (set_ref xs e) \<Longrightarrow> x = e \<or> x \<in> set xs"
  unfolding set_ref_def by (induction xs) (auto split: if_splits)

subsection \<open>Well-formed values\<close>

definition token_ok :: "string \<Rightarrow> bool" where
  "token_ok t \<longleftrightarrow> t \<noteq> [] \<and> (isAlpha (hd t) \<or> hd t = CHR ''*'') \<and> list_all isTChar t"

definition key_ok :: "string \<Rightarrow> bool" where
  "key_ok k \<longleftrightarrow> k \<noteq> [] \<and> (isLCAlpha (hd k) \<or> hd k = CHR ''*'') \<and> list_all is_key_char k"

definition printable :: "char \<Rightarrow> bool" where
  "printable c \<longleftrightarrow> CHR 0x20 \<le> c \<and> c < CHR 0x7f"

definition bare_ok :: "item \<Rightarrow> bool" where
  "bare_ok it \<longleftrightarrow> List it = [] \<and>
     (case Kind it of
        KindInteger \<Rightarrow> \<bar>Integer it\<bar> < 10 ^ 15
      | KindDecimal \<Rightarrow> \<bar>Thousandths it\<bar> < 10 ^ 15
      | KindString \<Rightarrow> list_all printable (Text it)
      | KindToken \<Rightarrow> token_ok (Text it)
      | KindByteSequence \<Rightarrow> True
      | KindBoolean \<Rightarrow> True
      | KindDate \<Rightarrow> \<bar>Integer it\<bar> < 10 ^ 15
      | KindDisplayString \<Rightarrow> valid_utf8 (Text it)
      | _ \<Rightarrow> False)"

definition params_ok :: "params \<Rightarrow> bool" where
  "params_ok ps \<longleftrightarrow> distinct (map fst ps) \<and>
     list_all (\<lambda>(k, v). key_ok k \<and> bare_ok v \<and> Params v = []) ps"

definition item_ok :: "item \<Rightarrow> bool" where
  "item_ok it \<longleftrightarrow> bare_ok it \<and> params_ok (Params it)"

definition member_ok :: "item \<Rightarrow> bool" where
  "member_ok it \<longleftrightarrow> item_ok it \<or>
     Kind it = KindInnerList \<and> list_all item_ok (List it) \<and> params_ok (Params it)"

definition dictionary_ok :: "dictionary \<Rightarrow> bool" where
  "dictionary_ok d \<longleftrightarrow> distinct (map fst d) \<and> list_all (\<lambda>(k, v). key_ok k \<and> member_ok v) d"

text \<open>Digits.\<close>

lemma digit_value_bounds: "isDigit c \<Longrightarrow> 0 \<le> digit_value c \<and> digit_value c \<le> 9"
proof -
  assume "isDigit c"
  then have "48 \<le> (of_char c :: nat) \<and> (of_char c :: nat) \<le> 57" by (simp add: isDigit_def less_eq_char_def)
  then have "int 48 \<le> int (of_char c) \<and> int (of_char c) \<le> int 57" unfolding of_nat_le_iff .
  then have "(48::int) \<le> of_char c \<and> of_char c \<le> (57::int)"
    unfolding of_nat_of_char by simp
  then show ?thesis by (simp add: digit_value_def)
qed

lemma digits_snoc: "digits (s @ [c]) = digits s * 10 + digit_value c"
  by (simp add: digits_def)

lemma digits_bounds: "list_all isDigit s \<Longrightarrow> 0 \<le> digits s \<and> digits s < 10 ^ length s"
proof (induction s rule: rev_induct)
  case (snoc c s)
  then have "0 \<le> digits s" "digits s < 10 ^ length s" "0 \<le> digit_value c" "digit_value c \<le> 9"
    using digit_value_bounds by simp_all
  then show ?case by (simp add: digits_snoc)
qed (simp add: digits_def)

lemma digits_small: "list_all isDigit s \<Longrightarrow> length s \<le> n \<Longrightarrow> 0 \<le> digits s \<and> digits s < 10 ^ n"
proof -
  assume "list_all isDigit s" "length s \<le> n"
  then have "0 \<le> digits s" "digits s < 10 ^ length s" "10 ^ length s \<le> (10::int) ^ n"
    using digits_bounds [of s] by (simp_all add: power_increasing)
  then show ?thesis by (blast intro: order.strict_trans2)
qed

text \<open>Between its bounds the scan has digits, and a point where it says.\<close>

definition scanned :: "string \<Rightarrow> nat \<Rightarrow> nat \<Rightarrow> nat option \<Rightarrow> bool" where
  "scanned s i j p \<longleftrightarrow> i \<le> j \<and> j \<le> length s \<and> (\<forall>n. i \<le> n \<and> n < j \<and> p \<noteq> Some n \<longrightarrow> isDigit (s ! n)) \<and>
     (\<forall>k. p = Some k \<longrightarrow> k < j)"

lemma number_loop_scanned:
  "scanned s a i p \<Longrightarrow> (\<And>k. p = Some k \<Longrightarrow> a \<le> k) \<Longrightarrow>
     (case number_loop s i p of (j, p') \<Rightarrow> scanned s a j p' \<and> (\<forall>k. p' = Some k \<longrightarrow> a \<le> k))"
proof (induction s i p rule: number_loop.induct)
  case (1 s i p)
  consider (digit) "i < length s" "isDigit (s ! i)"
    | (point) "i < length s" "\<not> isDigit (s ! i)" "s ! i = CHR ''.'' \<and> p = None"
    | (stop) "number_loop s i p = (i, p)"
    using number_loop.simps [of s i p] by metis
  then show ?case
  proof cases
    case digit
    then have "scanned s a (i + 1) p" using "1.prems"(1) by (auto simp: scanned_def less_Suc_eq)
    from "1.IH"(1) [OF digit this "1.prems"(2)] digit show ?thesis by (subst number_loop.simps) simp
  next
    case point
    then have "scanned s a (i + 1) (Some i)" using "1.prems"(1) by (auto simp: scanned_def less_Suc_eq)
    from "1.IH"(2) [OF point this] "1.prems"(1) point show ?thesis
      by (subst number_loop.simps) (simp add: scanned_def)
  next
    case stop
    with "1.prems" show ?thesis by simp
  qed
qed

lemma substr_digits:
  "(\<And>n. a \<le> n \<Longrightarrow> n < b \<Longrightarrow> isDigit (s ! n)) \<Longrightarrow> list_all isDigit (substr s a b)"
  by (auto simp: list_all_iff dest!: set_substr)

subsection \<open>Bare items are well-formed\<close>

lemma take_substr: "p \<le> b \<Longrightarrow> take (p - a) (substr s a b) = substr s a p"
  by (simp add: substr_def min_def)

lemma drop_substr: "a \<le> p \<Longrightarrow> drop (p - a) (substr s a b) = substr s p b"
  by (simp add: substr_def drop_take)

lemma scale_bound:
  assumes "0 \<le> d" "d < 10 ^ n" "0 < n" "n \<le> 3"
  shows "0 \<le> d * ((\<lambda>x. x div 10) ^^ n) (1000::int) \<and> d * ((\<lambda>x. x div 10) ^^ n) 1000 < 1000"
proof -
  consider "n = 1" | "n = 2" | "n = 3" using assms by linarith
  then show ?thesis using assms by cases (simp_all add: eval_nat_numeral)
qed

lemma decimal_bound:
  assumes "0 \<le> w" "w < 10 ^ 12" "0 \<le> (d::int)" "d < 1000" "m = -1 \<or> m = 1"
  shows "\<bar>m * (w * 1000 + d)\<bar> < 10 ^ 15"
  using assms by auto

lemma number_ok:
  assumes "number s i = Inr (it, j)"
  shows "bare_ok it \<and> Params it = []"
proof -
  define a where "a = (if peek s i = CHR ''-'' then i + 1 else i)"
  define m :: int where "m = (if peek s i = CHR ''-'' then -1 else 1)"
  have m: "m = -1 \<or> m = 1" by (simp add: m_def)
  have d: "isDigit (peek s a)" using assms by (auto simp: number_def Let_def a_def split: if_splits)
  then have "a < length s" using peek_test [of isDigit] by simp
  then have "scanned s a a None" by (auto simp: scanned_def)
  from number_loop_scanned [OF this] obtain p where
    l: "number_loop s a None = (fst (number_loop s a None), p)" and
    sc: "scanned s a (fst (number_loop s a None)) p" "\<And>k. p = Some k \<Longrightarrow> a \<le> k"
    by (auto split: prod.splits)
  define b where "b = fst (number_loop s a None)"
  note l = l [folded b_def] and sc = sc [folded b_def]
  show ?thesis
  proof (cases p)
    case None
    with sc(1) have "list_all isDigit (substr s a b)" by (intro substr_digits) (auto simp: scanned_def)
    moreover from assms None l have "length (substr s a b) \<le> 15" "it = integer_item (m * digits (substr s a b))"
      by (auto simp: number_def Let_def a_def m_def split: if_splits)
    ultimately show ?thesis using digits_small [of "substr s a b" 15] m
      by (auto simp: bare_ok_def integer_item_def)
  next
    case (Some k)
    with sc have k: "a \<le> k" "k < b" by (auto simp: scanned_def)
    let ?w = "substr s a k" and ?f = "substr s (k + 1) b"
    from sc(1) Some have w: "list_all isDigit ?w" by (intro substr_digits) (auto simp: scanned_def)
    from sc(1) Some k have f: "list_all isDigit ?f" by (intro substr_digits) (auto simp: scanned_def)
    have wf: "take (k - a) (substr s a b) = ?w" "drop (k - a + 1) (substr s a b) = ?f"
      using k take_substr [of k b a s] drop_substr [of a "k + 1" s b] by (simp_all add: Suc_diff_le)
    from assms Some l
    have "\<not> length (take (k - a) (substr s a b)) > 12 \<and> length (drop (k - a + 1) (substr s a b)) \<noteq> 0 \<and>
        \<not> length (drop (k - a + 1) (substr s a b)) > 3 \<and>
        it = decimal_item (m * (digits (take (k - a) (substr s a b)) * 1000 +
               digits (drop (k - a + 1) (substr s a b)) *
               ((\<lambda>x. x div 10) ^^ length (drop (k - a + 1) (substr s a b))) 1000))"
      by (auto simp: number_def Let_def a_def m_def simp del: length_take length_drop length_0_conv split: if_splits)
    then have "length ?w \<le> 12" "0 < length ?f" "length ?f \<le> 3"
      "it = decimal_item (m * (digits ?w * 1000 + digits ?f * ((\<lambda>x. x div 10) ^^ length ?f) 1000))"
      unfolding wf by simp_all
    with digits_small [OF w, of 12] digits_bounds [OF f] scale_bound [of "digits ?f" "length ?f"]
      decimal_bound [OF _ _ _ _ m] show ?thesis
      by (simp add: bare_ok_def decimal_item_def)
  qed
qed

lemma substr_snoc: "a \<le> i \<Longrightarrow> i < length s \<Longrightarrow> substr s a (Suc i) = substr s a i @ [s ! i]"
  by (simp add: substr_def Suc_diff_le take_Suc_conv_app_nth)

lemma printable_octet: "\<not> (c < CHR 0x20 \<or> c \<ge> CHR 0x7f) \<Longrightarrow> printable c"
  by (auto simp: printable_def not_le)

lemma text_loop_ok:
  "text_loop s i start b = Inr (it, j) \<Longrightarrow> start \<le> i \<Longrightarrow> list_all printable b \<Longrightarrow>
     list_all printable (substr s start i) \<Longrightarrow> bare_ok it \<and> Params it = []"
proof (induction s i start b rule: text_loop.induct)
  case (1 s i start b)
  have i: "i < length s" using "1.prems"(1) by (auto simp: text_loop.simps [of s i] split: if_splits)
  consider (escape) "s ! i = CHR 0x5c" | (quote) "s ! i = CHR 0x22"
    | (other) "s ! i \<noteq> CHR 0x5c" "s ! i \<noteq> CHR 0x22" by metis
  then show ?case
  proof cases
    case escape
    with "1.prems"(1) i have e: "\<not> i + 1 \<ge> length s" "\<not> (s ! (i + 1) \<noteq> CHR 0x22 \<and> s ! (i + 1) \<noteq> CHR 0x5c)"
      "text_loop s (i + 1 + 1) (i + 1 + 1) ((b @ substr s start i) @ [s ! (i + 1)]) = Inr (it, j)"
      by (auto simp: text_loop.simps [of s i] Let_def split: if_splits)
    have "printable (s ! (i + 1))" using e(2) by (auto simp: printable_def)
    moreover have "substr s (i + 1 + 1) (i + 1 + 1) = []" by (simp add: substr_def)
    ultimately show ?thesis using "1.IH"(1) [OF i escape refl refl e(1,2,3)] "1.prems"(3,4) by simp
  next
    case quote
    with "1.prems" i show ?thesis
      by (auto simp: text_loop.simps [of s i] bare_ok_def text_item_def split: if_splits)
  next
    case other
    with "1.prems"(1) i have o: "\<not> (s ! i < CHR 0x20 \<or> s ! i \<ge> CHR 0x7f)" "text_loop s (i + 1) start b = Inr (it, j)"
      by (auto simp: text_loop.simps [of s i] split: if_splits)
    from "1.IH"(2) [OF i other o] "1.prems" i printable_octet [OF o(1)] show ?thesis
      by (simp add: substr_snoc)
  qed
qed

lemma display_loop_ok: "display_loop s pos i b = Inr (it, j) \<Longrightarrow> bare_ok it \<and> Params it = []"
proof (induction s pos i b rule: display_loop.induct)
  case (1 s pos i b)
  from "1.prems" show ?case
    using "1.IH" by (subst (asm) display_loop.simps)
      (fastforce simp: Let_def bare_ok_def text_item_def split: if_splits)
qed

lemma isAlpha_isTChar: "isAlpha c \<or> c = CHR ''*'' \<Longrightarrow> isTChar c"
  by (auto simp: isTChar_def)

lemma run_ok:
  assumes "i < length s" "test (s ! i)" "j = skip_while test s i"
  shows "substr s i j \<noteq> [] \<and> hd (substr s i j) = s ! i \<and> list_all test (substr s i j)"
proof -
  have "i < j" using assms skip_while_ge [of "i + 1" test s] skip_while_Suc [of i s test] by simp
  moreover have "j \<le> length s" using assms skip_while_le [of i s test] by simp
  ultimately have "substr s i j \<noteq> []" "hd (substr s i j) = s ! i"
    by (simp_all add: substr_def hd_drop_conv_nth)
  moreover have "list_all test (substr s i j)"
    using skip_while_all [of i _ test s] assms(3) by (auto simp: list_all_iff dest!: set_substr)
  ultimately show ?thesis by simp
qed

lemma token_ok_token:
  assumes "token s i = Inr (it, j)" "isAlpha (peek s i) \<or> peek s i = CHR ''*''"
  shows "bare_ok it \<and> Params it = []"
proof -
  let ?t = "\<lambda>c. isAlpha c \<or> c = CHR ''*''"
  have i: "i < length s" "?t (s ! i)" using peek_test [of ?t s i] assms(2) by auto
  then have t: "isTChar (s ! i)" using isAlpha_isTChar by blast
  with i assms have j: "j = skip_while isTChar s i" and it: "it = text_item KindToken (substr s i j)"
    by (auto simp: token_def Let_def skip_while_Suc)
  from run_ok [of i s isTChar, OF i(1) t j] i it show ?thesis by (simp add: bare_ok_def text_item_def token_ok_def)
qed

lemma key_ok_key:
  assumes "parse_key s i = Inr (k, j)"
  shows "key_ok k"
proof -
  let ?t = "\<lambda>c. isLCAlpha c \<or> c = CHR ''*''"
  have "?t (peek s i)" and j: "j = skip_while is_key_char s i" and k: "k = substr s i j"
    using assms by (auto simp: parse_key_def Let_def split: if_splits)
  then have i: "i < length s" "?t (s ! i)" using peek_test [of ?t s i] by auto
  then have t: "is_key_char (s ! i)" by (auto simp: is_key_char_def)
  from run_ok [of i s is_key_char, OF i(1) t j] i k show ?thesis by (simp add: key_ok_def)
qed

lemma bareItem_ok:
  assumes "bareItem s i = Inr (it, j)"
  shows "bare_ok it \<and> Params it = []"
proof -
  consider "number s i = Inr (it, j)" | "parse_text s i = Inr (it, j)"
    | "token s i = Inr (it, j)" "isAlpha (peek s i) \<or> peek s i = CHR ''*''"
    | "byteSequence s i = Inr (it, j)" | "parse_boolean s i = Inr (it, j)" | "date s i = Inr (it, j)"
    | "displayString s i = Inr (it, j)"
    using assms by (auto simp: bareItem_def Let_def split: if_splits)
  then show ?thesis
  proof cases
    case 1 then show ?thesis by (rule number_ok)
  next
    case 2 then show ?thesis using text_loop_ok [of s "i + 1" "i + 1"] by (simp add: parse_text_def substr_def)
  next
    case 3 then show ?thesis by (rule token_ok_token)
  next
    case 4 then show ?thesis
      by (auto simp: byteSequence_def Let_def bytes_item_def bare_ok_def split: if_splits option.splits)
  next
    case 5 then show ?thesis
      by (auto simp: parse_boolean_def Let_def boolean_item_def bare_ok_def split: if_splits)
  next
    case 6 then show ?thesis
      using number_ok [of s "i + 1"] by (fastforce simp: date_def Let_def date_item_def bare_ok_def split: sum.splits if_splits)
  next
    case 7 then show ?thesis using display_loop_ok by (auto simp: displayString_def split: if_splits)
  qed
qed

subsection \<open>Dictionaries are well-formed\<close>

lemma keyed_ok:
  assumes "list_all P xs" "P e" "distinct (map fst xs)"
  shows "list_all P (set_ref xs e) \<and> distinct (map fst (set_ref xs e))"
  using assms set_set_ref [of _ xs e] set_ref_distinct [of xs e] by (auto simp: list_all_iff)

lemma params_loop_ok:
  "params_loop s i ps idx = Inr (ps', j) \<Longrightarrow> params_ok ps \<Longrightarrow> index_ok ps idx \<Longrightarrow> params_ok ps'"
proof (induction s i ps idx rule: params_loop.induct)
  case (1 s i ps idx)
  show ?case
  proof (cases "peek s i = CHR '';''")
    case True
    with "1.prems" obtain k i1 v i2 where k: "parse_key s (skipSP s (Suc i)) = Inr (k, i1)" "param_value s i1 = Inr (v, i2)"
      "params_loop s i2 (fst (setKeyed ps idx (k, v))) (snd (setKeyed ps idx (k, v))) = Inr (ps', j)"
      by (auto simp: params_loop.simps [of s i] split: sum.splits)
    have "bare_ok v \<and> Params v = []"
      using k(2) bareItem_ok [of s "i1 + 1" v i2]
      by (auto simp: param_value_def boolean_item_def bare_ok_def split: if_splits)
    then have "params_ok (set_ref ps (k, v))"
      using "1.prems"(2) key_ok_key [OF k(1)] keyed_ok [of "\<lambda>(k, v). key_ok k \<and> bare_ok v \<and> Params v = []" ps "(k, v)"]
      by (simp add: params_ok_def)
    moreover have st: "fst (setKeyed ps idx (k, v)) = set_ref ps (k, v)"
      "index_ok (fst (setKeyed ps idx (k, v))) (snd (setKeyed ps idx (k, v)))"
      using setKeyed_ref [OF "1.prems"(3), of "(k, v)"] by blast+
    ultimately show ?thesis
      using "1.IH" [OF True k(1) refl k(2) refl k(3)] by (simp only:)
  next
    case False
    with "1.prems" show ?thesis by (auto simp: params_loop.simps [of s i])
  qed
qed

lemma parse_params_ok: "parse_params s i = Inr (ps, j) \<Longrightarrow> params_ok ps"
  using params_loop_ok [of s i "[]" None ps j] by (simp add: parse_params_def params_ok_def index_ok_def)

lemma bare_ok_with_params [simp]: "bare_ok (with_params ps it) \<longleftrightarrow> bare_ok it"
  by (cases "Kind it") (simp_all add: bare_ok_def with_params_def)

lemma Params_with_params [simp]: "Params (with_params ps it) = ps"
  by (simp add: with_params_def)

lemma parse_item_ok:
  assumes "parse_item s i = Inr (it, j)"
  shows "item_ok it"
proof -
  from assms obtain b i1 ps where "bareItem s i = Inr (b, i1)" "parse_params s i1 = Inr (ps, j)" "it = with_params ps b"
    by (auto simp: parse_item_def split: sum.splits)
  with bareItem_ok parse_params_ok show ?thesis by (auto simp: item_ok_def)
qed

lemma inner_loop_ok: "inner_loop s i xs = Inr (it, j) \<Longrightarrow> list_all item_ok xs \<Longrightarrow> member_ok it"
proof (induction s i xs rule: inner_loop.induct)
  case (1 s i xs)
  have i: "i < length s" using "1.prems" by (auto simp: inner_loop.simps [of s i] split: if_splits)
  show ?case
  proof (cases "peek s (skipSP s i) = CHR '')''")
    case True
    with "1.prems" i obtain ps where "parse_params s (skipSP s i + 1) = Inr (ps, j)" "it = list_item xs ps"
      by (auto simp: inner_loop.simps [of s i] split: sum.splits)
    with parse_params_ok "1.prems"(2) show ?thesis by (auto simp: member_ok_def list_item_def)
  next
    case False
    with "1.prems" i obtain it1 i1 where it1: "parse_item s (skipSP s i) = Inr (it1, i1)"
      "\<not> (i1 < length s \<and> peek s i1 \<noteq> CHR '' '' \<and> peek s i1 \<noteq> CHR '')'')"
      "inner_loop s i1 (xs @ [it1]) = Inr (it, j)"
      by (auto simp: inner_loop.simps [of s i] split: sum.splits if_splits)
    from "1.IH" [OF i False it1(1) refl it1(2,3)] parse_item_ok [OF it1(1)] "1.prems"(2) show ?thesis by simp
  qed
qed

lemma bare_ok_boolean [simp]: "bare_ok (boolean_item b)"
  by (simp add: boolean_item_def bare_ok_def)

lemma member_value_ok: "member_value s i = Inr (v, j) \<Longrightarrow> member_ok v"
  using inner_loop_ok [of s "i + 2" "[]" v j] parse_item_ok [of s "i + 1" v j] parse_params_ok [of s i _ j]
  by (auto simp: member_value_def itemOrInnerList_def innerList_def member_ok_def item_ok_def
      split: if_splits sum.splits)

lemma dictionary_loop_ok:
  "dictionary_loop s i d idx = Inr d' \<Longrightarrow> dictionary_ok d \<Longrightarrow> index_ok d idx \<Longrightarrow> dictionary_ok d'"
proof (induction s i d idx rule: dictionary_loop.induct)
  case (1 s i d idx)
  show ?case
  proof (cases "i < length s")
    case True
    with "1.prems"(1) obtain k i1 v i2 where k: "parse_key s i = Inr (k, i1)" "member_value s i1 = Inr (v, i2)"
      by (auto simp: dictionary_loop.simps [of s i] split: sum.splits)
    let ?d = "fst (setKeyed d idx (k, v))" and ?idx = "snd (setKeyed d idx (k, v))"
    let ?j = "skipOWS s i2" and ?n = "skipOWS s (skipOWS s i2 + 1)"
    have st: "?d = set_ref d (k, v)" "index_ok ?d ?idx"
      using setKeyed_ref [OF "1.prems"(3), of "(k, v)"] by blast+
    then have ok: "dictionary_ok ?d" "index_ok ?d ?idx"
      using keyed_ok [of "\<lambda>(k, v). key_ok k \<and> member_ok v" d "(k, v)"] "1.prems"(2)
        key_ok_key [OF k(1)] member_value_ok [OF k(2)]
      by (auto simp: dictionary_ok_def)
    consider (last) "?d = d'" | (again) "\<not> ?j \<ge> length s" "\<not> peek s ?j \<noteq> CHR '',''" "\<not> ?n \<ge> length s"
      "dictionary_loop s ?n ?d ?idx = Inr d'"
      using "1.prems"(1) True k by (auto simp: dictionary_loop.simps [of s i] split: if_splits)
    then show ?thesis
    proof cases
      case last
      with ok show ?thesis by simp
    next
      case again
      from "1.IH" [OF True k(1) refl k(2) refl again ok] show ?thesis .
    qed
  next
    case False
    with "1.prems" show ?thesis by (simp add: dictionary_loop.simps [of s i])
  qed
qed

subsection \<open>Errors point into the field\<close>

definition within :: "string \<Rightarrow> syntax_error + 'a \<Rightarrow> bool" where
  "within s r \<longleftrightarrow> (case r of Inl (SyntaxError n) \<Rightarrow> n \<le> length s | Inr _ \<Rightarrow> True)"

lemma within_simps [simp]: "within s (Inl (SyntaxError n)) \<longleftrightarrow> n \<le> length s" "within s (Inr x)"
  by (simp_all add: within_def)

lemma within_Inl: "within s (Inl e :: syntax_error + 'a) \<Longrightarrow> within s (Inl e :: syntax_error + 'b)"
  by (simp add: within_def)

lemma within_if: "within s (if c then a else b) \<longleftrightarrow> (if c then within s a else within s b)"
  by simp

lemma within_point:
  "within s (case r of (j, p) \<Rightarrow> (case p of None \<Rightarrow> f j | Some k \<Rightarrow> g j k)) \<longleftrightarrow>
   (case r of (j, p) \<Rightarrow> (case p of None \<Rightarrow> within s (f j) | Some k \<Rightarrow> within s (g j k)))"
  by (simp split: prod.split option.split)

lemma within_sum:
  "within s r \<Longrightarrow> (\<And>x. r = Inr x \<Longrightarrow> within s (f x)) \<Longrightarrow> within s (case r of Inl e \<Rightarrow> Inl e | Inr x \<Rightarrow> f x)"
  by (auto simp: within_def split: sum.splits)

lemma text_loop_within: "i \<le> length s \<Longrightarrow> within s (text_loop s i start b)"
proof (induction s i start b rule: text_loop.induct)
  case (1 s i start b)
  then show ?case by (subst text_loop.simps) (simp add: Let_def)
qed

lemma display_loop_within: "i \<le> length s \<Longrightarrow> pos \<le> length s \<Longrightarrow> within s (display_loop s pos i b)"
proof (induction s pos i b rule: display_loop.induct)
  case (1 s pos i b)
  then show ?case by (subst display_loop.simps) (simp add: Let_def not_less)
qed

lemma peek_inside: "peek s i = c \<Longrightarrow> c \<noteq> CHR 0x00 \<Longrightarrow> i < length s"
  by (auto simp: peek_def split: if_splits)

lemma number_within: "i \<le> length s \<Longrightarrow> within s (number s i)"
  using peek_inside [of s i "CHR ''-''"]
  by (cases "peek s i = CHR ''-''") (simp_all add: number_def Let_def within_point within_if split: prod.split option.split)

lemma displayString_within: "i \<le> length s \<Longrightarrow> within s (displayString s i)"
  using display_loop_within [of "i + 2" s i "''''"] peek_inside [of s "i + 1" "CHR 0x22"]
  by (auto simp: displayString_def)

lemma byteSequence_within: "i \<le> length s \<Longrightarrow> within s (byteSequence s i)"
  by (simp add: byteSequence_def Let_def split: option.splits)

lemma parse_boolean_within: "i < length s \<Longrightarrow> within s (parse_boolean s i)"
  by (simp add: parse_boolean_def Let_def)

lemma date_within: "i < length s \<Longrightarrow> within s (date s i)"
  using number_within [of "i + 1" s] by (auto simp: date_def Let_def intro!: within_sum)

lemma bareItem_within: "i \<le> length s \<Longrightarrow> within s (bareItem s i)"
  using peek_inside [of s i, OF refl] number_within [of i s] text_loop_within [of "i + 1" s "i + 1" "''''"]
    byteSequence_within [of i s] parse_boolean_within [of i s] date_within [of i s] displayString_within [of i s]
  by (auto simp: bareItem_def Let_def parse_text_def token_def)

lemma parse_key_within: "i \<le> length s \<Longrightarrow> within s (parse_key s i)"
  by (simp add: parse_key_def Let_def)

lemma param_value_within: "i \<le> length s \<Longrightarrow> within s (param_value s i)"
  using peek_inside [of s i "CHR ''=''"] bareItem_within [of "i + 1" s] by (auto simp: param_value_def)

lemma skipSP_le: "i \<le> length s \<Longrightarrow> skipSP s i \<le> length s"
  by (simp add: skipSP_def skip_while_le)

lemma skipOWS_le: "i \<le> length s \<Longrightarrow> skipOWS s i \<le> length s"
  by (simp add: skipOWS_def skip_while_le)

lemma params_loop_within: "i \<le> length s \<Longrightarrow> within s (params_loop s i ps idx)"
proof (induction s i ps idx rule: params_loop.induct)
  case (1 s i ps idx)
  show ?case
  proof (cases "peek s i = CHR '';''")
    case True
    then have "Suc i \<le> length s" using peek_nonzero [of s i] by simp
    then have key: "within s (parse_key s (skipSP s (Suc i)))" by (intro parse_key_within skipSP_le)
    show ?thesis
    proof (subst params_loop.simps, simp only: True if_True simp_thms, rule within_sum [OF key], clarify,
        rule within_sum [OF param_value_within], goal_cases)
      case (1 k i1)
      then show ?case by (auto dest: parse_key_progress)
    next
      case (2 k i1 x)
      obtain v i2 where x: "x = (v, i2)" by (cases x)
      have "i2 \<le> length s" using 2 x by (auto dest: parse_key_progress param_value_progress)
      then show ?case using "1.IH" [OF True 2(1) refl 2(2) [unfolded x] refl] by (simp add: x)
    qed
  qed (simp add: params_loop.simps [of s i])
qed

lemma parse_params_within: "i \<le> length s \<Longrightarrow> within s (parse_params s i)"
  by (simp add: parse_params_def params_loop_within)

lemma parse_item_within: "i \<le> length s \<Longrightarrow> within s (parse_item s i)"
  by (auto simp: parse_item_def intro!: within_sum bareItem_within parse_params_within dest!: bareItem_progress)

lemma inner_loop_within: "i \<le> length s \<Longrightarrow> within s (inner_loop s i xs)"
proof (induction s i xs rule: inner_loop.induct)
  case (1 s i xs)
  have sp: "skipSP s i \<le> length s" using "1.prems" by (rule skipSP_le)
  show ?case
  proof (cases "i < length s \<and> peek s (skipSP s i) \<noteq> CHR '')''")
    case True
    then have r: "inner_loop s i xs = (case parse_item s (skipSP s i) of
              Inl e \<Rightarrow> Inl e
            | Inr (it, i1) \<Rightarrow>
                if i1 < length s \<and> peek s i1 \<noteq> CHR '' '' \<and> peek s i1 \<noteq> CHR '')'' then Inl (SyntaxError i1)
                else inner_loop s i1 (xs @ [it]))"
      by (subst inner_loop.simps) simp
    show ?thesis
      unfolding r
    proof (rule within_sum [OF parse_item_within [OF sp]], clarify)
      fix it i1
      assume p: "parse_item s (skipSP s i) = Inr (it, i1)"
      then have "i1 \<le> length s" by (auto dest: parse_item_progress)
      with "1.IH" [OF conjunct1 [OF True] conjunct2 [OF True] p refl]
      show "within s (if i1 < length s \<and> peek s i1 \<noteq> CHR '' '' \<and> peek s i1 \<noteq> CHR '')'' then Inl (SyntaxError i1)
                else inner_loop s i1 (xs @ [it]))" by simp
    qed
  next
    case False
    with "1.prems" sp parse_params_within [of "skipSP s i + 1" s] peek_nonzero [of s "skipSP s i"] show ?thesis
      by (subst inner_loop.simps) (auto intro!: within_sum)
  qed
qed

lemma member_value_within: "i \<le> length s \<Longrightarrow> within s (member_value s i)"
  using peek_nonzero [of s i] peek_nonzero [of s "i + 1"] inner_loop_within [of "i + 2" s "[]"]
    parse_item_within [of "i + 1" s] parse_params_within [of i s]
  by (auto simp: member_value_def itemOrInnerList_def innerList_def intro!: within_sum)

lemma dictionary_loop_within: "i \<le> length s \<Longrightarrow> within s (dictionary_loop s i d idx)"
proof (induction s i d idx rule: dictionary_loop.induct)
  case (1 s i d idx)
  show ?case
  proof (cases "i < length s")
    case True
    show ?thesis
    proof (subst dictionary_loop.simps, simp only: True if_True, rule within_sum [OF parse_key_within [OF "1.prems"]],
        clarify, rule within_sum [OF member_value_within], goal_cases)
      case (1 k i1)
      then show ?case by (auto dest: parse_key_progress)
    next
      case (2 k i1 x)
      obtain v i2 where x: "x = (v, i2)" by (cases x)
      with 2 have "i2 \<le> length s" using dictionary_progress by blast
      then have j: "skipOWS s i2 \<le> length s" by (rule skipOWS_le)
      then have n: "skipOWS s (skipOWS s i2 + 1) \<le> length s" if "\<not> skipOWS s i2 \<ge> length s"
        using that by (intro skipOWS_le) simp
      show ?case
        using j n "1.IH" [OF True 2(1) refl 2(2) [unfolded x] refl] by (simp add: x)
    qed
  qed (simp add: dictionary_loop.simps [of s i])
qed

subsection \<open>The properties\<close>

lemma index_ok_None [simp]: "index_ok xs None"
  by (simp add: index_ok_def)

lemma keys_set_ref: "map fst (set_ref xs e) = (if fst e \<in> fst ` set xs then map fst xs else map fst xs @ [fst e])"
  unfolding set_ref_def by (induction xs) auto

text \<open>The keys of a list in the order of their first occurrences.\<close>

definition first_keys :: "(string \<times> 'a) list \<Rightarrow> string list" where
  "first_keys es = rev (remdups (rev (map fst es)))"

lemma keys_foldl_set_ref: "map fst (foldl set_ref [] es) = first_keys es"
proof (induction es rule: rev_induct)
  case (snoc e es)
  then have "fst ` set (foldl set_ref [] es) = fst ` set es"
    by (metis first_keys_def list.set_map set_remdups set_rev)
  with snoc show ?case by (simp add: keys_set_ref first_keys_def)
qed (simp add: first_keys_def)

text \<open>Adding entries one by one with \<open>setKeyed\<close>, which starts to use an index from key to position
  when the list has sixteen entries, gives the list that overwriting without an index gives: the
  keys are in the order in which they first occurred, and \<open>Dictionary.Get\<close> finds for each key
  the value it was given last.\<close>

theorem setKeyed_equals_overwriting:
  "fst (set_all es [] None) = foldl set_ref [] es \<and>
   map fst (fst (set_all es [] None)) = first_keys es \<and>
   Dictionary_Get key (fst (set_all es [] None)) =
     (case map_of (rev es) key of None \<Rightarrow> (zero_item, False) | Some v \<Rightarrow> (v, True))"
  using set_all_ref [of "[]" None es] keys_foldl_set_ref [of es]
  by (simp add: Dictionary_Get_map_of foldl_set_ref)

text \<open>C20: A dictionary that \<open>ParseDictionary\<close> accepts is well-formed: its keys are distinct and in the
  alphabet of keys; integers, dates and decimals (in thousandths) are below \<open>10^15\<close> in absolute
  value, so that they fit the code's \<open>int64\<close>; strings are printable, tokens are in their
  alphabet, display strings are UTF-8; inner lists hold items and never lists; parameters have
  distinct keys and bare items as values.\<close>

theorem ParseDictionary_well_formed:
  assumes "ParseDictionary s = Inr d"
  shows "dictionary_ok d"
  using dictionary_loop_ok [OF assms [unfolded ParseDictionary_def]] by (simp add: dictionary_ok_def)

definition sample_value :: string where
  "sample_value = ''a=(1 tk;p=-2.5);q, b;x, a=@-12''"

theorem ParseDictionary_well_formed_witness:
  "\<exists>d. ParseDictionary sample_value = Inr d \<and> length d = 2 \<and> dictionary_ok d"
proof -
  obtain d where d: "ParseDictionary sample_value = Inr d" "length d = 2"
  proof -
    have "(case ParseDictionary sample_value of Inr d \<Rightarrow> length d = 2 | Inl _ \<Rightarrow> False)" by code_simp
    then show thesis using that by (auto split: sum.splits)
  qed
  from d ParseDictionary_well_formed [OF d(1)] show ?thesis by blast
qed

text \<open>The offset in a syntax error of \<open>ParseDictionary\<close> is an index of the field value or its
  length: the parser never runs past the end, whatever the value.\<close>

theorem syntax_error_is_inside:
  assumes "ParseDictionary s = Inl (SyntaxError n)"
  shows "n \<le> length s"
  using dictionary_loop_within [of "skipSP s 0" s "[]" None] assms skipSP_le [of 0 s]
  by (simp add: ParseDictionary_def)

theorem syntax_error_is_inside_witness:
  "ParseDictionary ''u=1,'' = Inl (SyntaxError 4) \<and> 4 \<le> length ''u=1,''"
proof -
  have "ParseDictionary ''u=1,'' = Inl (SyntaxError 4)" by code_simp
  from this syntax_error_is_inside [OF this] show ?thesis by blast
qed

end
