(* ===== verification/Priority.thy ===== *)
theory Priority
  imports SfvProps Store
begin

text \<open>
  \<^verbatim>\<open>internal/priority\<close>: the priority parameters of RFC 9218 (\<open>priority.go\<close>) and the priorities
  buffered for streams that have not been opened (\<open>pending.go\<close>).
\<close>

subsection \<open>Priority parameters (priority.go)\<close>

definition keyUrgency :: string where [simp]: "keyUrgency = ''u''"
definition keyIncremental :: string where [simp]: "keyIncremental = ''i''"
definition DefaultUrgency :: nat where [simp]: "DefaultUrgency = 3"
definition MaxUrgency :: nat where [simp]: "MaxUrgency = 7"

record priority =
  pr_urgency :: byte
  pr_hasUrgency :: bool
  pr_incremental :: bool
  pr_hasIncremental :: bool

definition no_priority :: priority where
  "no_priority = \<lparr>pr_urgency = 0, pr_hasUrgency = False, pr_incremental = False, pr_hasIncremental = False\<rparr>"

definition Urgency :: "priority \<Rightarrow> nat" where
  "Urgency p = (if \<not> pr_hasUrgency p then DefaultUrgency else unat (pr_urgency p))"

definition Incremental :: "priority \<Rightarrow> bool" where
  "Incremental p = pr_incremental p"

definition HasUrgency :: "priority \<Rightarrow> bool" where
  "HasUrgency p = pr_hasUrgency p"

definition HasIncremental :: "priority \<Rightarrow> bool" where
  "HasIncremental p = pr_hasIncremental p"

text \<open>\<open>None\<close> is the panic.\<close>

definition WithUrgency :: "priority \<Rightarrow> int \<Rightarrow> priority option" where
  "WithUrgency p u =
     (if u < 0 \<or> u > int MaxUrgency then None
      else Some (p\<lparr>pr_urgency := word_of_int u, pr_hasUrgency := True\<rparr>))"

definition WithIncremental :: "priority \<Rightarrow> bool \<Rightarrow> priority" where
  "WithIncremental p i = p\<lparr>pr_incremental := i, pr_hasIncremental := True\<rparr>"

definition Merge :: "priority \<Rightarrow> priority \<Rightarrow> priority" where
  "Merge p over =
     (let p = (if pr_hasUrgency over then p\<lparr>pr_urgency := pr_urgency over, pr_hasUrgency := True\<rparr> else p);
          p = (if pr_hasIncremental over
               then p\<lparr>pr_incremental := pr_incremental over, pr_hasIncremental := True\<rparr> else p)
      in p)"

definition Field :: "priority \<Rightarrow> string" where
  "Field p =
     (let b = '''';
          b = (if pr_hasUrgency p then b @ keyUrgency @ ''='' @ [char_of_byte (48 + pr_urgency p)] else b);
          b = (if pr_hasIncremental p then
                 (let b = (if length b > 0 then b @ '', '' else b); b = b @ keyIncremental
                  in if \<not> pr_incremental p then b @ ''=?0'' else b)
               else b)
      in b)"

text \<open>\<open>Parse\<close> returns the parameters and, beside them, the error.\<close>

definition Parse :: "string \<Rightarrow> priority \<times> syntax_error option" where
  "Parse field =
     (case ParseDictionary field of
        Inl e \<Rightarrow> (no_priority, Some e)
      | Inr d \<Rightarrow>
          (let p = no_priority;
               p = (case Dictionary_Get keyUrgency d of (it, ok) \<Rightarrow>
                      if ok \<and> Kind it = KindInteger \<and> Integer it \<ge> 0 \<and> Integer it \<le> int MaxUrgency
                      then p\<lparr>pr_urgency := word_of_int (Integer it), pr_hasUrgency := True\<rparr> else p);
               p = (case Dictionary_Get keyIncremental d of (it, ok) \<Rightarrow>
                      if ok \<and> Kind it = KindBoolean
                      then p\<lparr>pr_incremental := Boolean it, pr_hasIncremental := True\<rparr> else p)
           in (p, None)))"

subsection \<open>Buffered priorities (pending.go)\<close>

type_synonym pending = "priority store"

definition Put :: "u32 \<Rightarrow> priority \<Rightarrow> pending \<Rightarrow> pending" where
  "Put sid params p = store_put sid params p"

definition Take :: "u32 \<Rightarrow> pending \<Rightarrow> (priority \<times> bool) \<times> pending" where
  "Take sid p =
     (case store_get p sid of
        Some params \<Rightarrow> ((params, True), store_delete sid p)
      | None \<Rightarrow> ((no_priority, False), p))"

definition Held :: "u32 \<Rightarrow> pending \<Rightarrow> bool" where
  "Held sid p \<longleftrightarrow> store_get p sid \<noteq> None"

definition Pending_Len :: "pending \<Rightarrow> nat" where
  "Pending_Len p = length p"

definition Prune :: "u32 \<Rightarrow> pending \<Rightarrow> nat \<times> pending" where
  "Prune below p =
     (length (List.filter (\<lambda>e. fst e < below) p), List.filter (\<lambda>e. \<not> fst e < below) p)"

subsection \<open>The parameters\<close>

text \<open>What every operation keeps: an urgency in range, and zero values for absent parameters.\<close>

definition priority_ok :: "priority \<Rightarrow> bool" where
  "priority_ok p \<longleftrightarrow> unat (pr_urgency p) \<le> MaxUrgency \<and> (\<not> pr_hasUrgency p \<longrightarrow> pr_urgency p = 0) \<and>
     (\<not> pr_hasIncremental p \<longrightarrow> \<not> pr_incremental p)"

lemma priority_ok_zero [simp]: "priority_ok no_priority"
  by (simp add: priority_ok_def no_priority_def)

lemma urgency_octet: "0 \<le> u \<Longrightarrow> u \<le> 7 \<Longrightarrow> unat (word_of_int u :: byte) \<le> 7"
proof -
  assume u: "0 \<le> u" "u \<le> 7"
  then have "(word_of_int u :: byte) = word_of_nat (nat u)" by simp
  then have "unat (word_of_int u :: byte) = nat u mod 256" by (simp only: unat_of_nat) simp
  with u show ?thesis by simp
qed

lemma priority_ok_WithUrgency: "priority_ok p \<Longrightarrow> WithUrgency p u = Some q \<Longrightarrow> priority_ok q"
  by (auto simp: priority_ok_def WithUrgency_def urgency_octet split: if_splits)

lemma priority_ok_WithIncremental: "priority_ok p \<Longrightarrow> priority_ok (WithIncremental p i)"
  by (simp add: priority_ok_def WithIncremental_def)

lemma priority_ok_Merge: "priority_ok p \<Longrightarrow> priority_ok q \<Longrightarrow> priority_ok (Merge p q)"
  by (simp add: priority_ok_def Merge_def)

lemma priority_ok_Parse: "priority_ok (fst (Parse s))"
  by (auto simp: Parse_def priority_ok_def no_priority_def urgency_octet Let_def split: sum.split prod.split)

lemma Urgency_le: "priority_ok p \<Longrightarrow> Urgency p \<le> MaxUrgency"
  by (auto simp: Urgency_def priority_ok_def)

lemma Merge_resolves:
  "Urgency (Merge p q) = (if pr_hasUrgency q then Urgency q else Urgency p) \<and>
   (priority_ok q \<longrightarrow> Incremental (Merge p q) = (if pr_hasIncremental q then Incremental q else Incremental p))"
  by (simp add: Merge_def Urgency_def Incremental_def)

lemma Merge_assoc: "Merge (Merge p q) r = Merge p (Merge q r)"
  by (simp add: Merge_def)

text \<open>All the values.\<close>

definition all_priorities :: "priority list" where
  "all_priorities =
     List.concat (map (\<lambda>(u, hu). map (\<lambda>(i, hi).
       \<lparr>pr_urgency = u, pr_hasUrgency = hu, pr_incremental = i, pr_hasIncremental = hi\<rparr>)
       [(False, False), (False, True), (True, True)])
       ((0, False) # map (\<lambda>u. (u, True)) [0, 1, 2, 3, 4, 5, 6, 7]))"

lemma priority_values:
  assumes "priority_ok p"
  shows "p \<in> set all_priorities"
proof -
  obtain u hu i hi where p: "p = \<lparr>pr_urgency = u, pr_hasUrgency = hu, pr_incremental = i, pr_hasIncremental = hi\<rparr>"
    by (cases p) auto
  have "unat u \<le> 7" using assms by (simp add: p priority_ok_def)
  then have "unat u \<in> {0, 1, 2, 3, 4, 5, 6, 7}" by auto
  then have "u \<in> {0, 1, 2, 3, 4, 5, 6, 7}"
    by (elim insertE emptyE) (simp_all add: word_unat_eq_iff)
  with assms show ?thesis
    by (cases hu; cases hi; cases i) (auto simp: p priority_ok_def all_priorities_def)
qed

lemma Parse_Field_all: "list_all (\<lambda>p. Parse (Field p) = (p, None)) all_priorities"
  by code_simp

text \<open>C21: \<open>Parse\<close> reads back what \<open>Field\<close> writes: for every priority that the package can build, with its
  urgency and incremental parameters present or absent, the field value parses, without an error,
  to the same parameters.\<close>

theorem Parse_Field:
  assumes "priority_ok p"
  shows "Parse (Field p) = (p, None)"
  using Parse_Field_all priority_values [OF assms] by (auto simp: list_all_iff)

theorem Parse_Field_witness:
  "Parse (Field (WithIncremental no_priority False)) = (WithIncremental no_priority False, None)"
  by (rule Parse_Field [OF priority_ok_WithIncremental [OF priority_ok_zero]])

end
