(* ===== verification/Request.thy ===== *)
theory Request
  imports H2 Priority
begin

text \<open>
  \<^verbatim>\<open>internal/request\<close>: the validation of a request's header section and of a trailer section
  (RFC 9113 section 8). Every refusal is a stream error of type \<open>PROTOCOL_ERROR\<close> on the request's
  stream; its message is a diagnostic and is not kept. A Go string is a list of octets.
\<close>

subsection \<open>Octets and field lines (fields.go)\<close>

definition malformed :: "u32 \<Rightarrow> error" where
  "malformed sid = StreamError sid ProtocolError"

definition is_upper :: "char \<Rightarrow> bool" where
  "is_upper c \<longleftrightarrow> CHR ''A'' \<le> c \<and> c \<le> CHR ''Z''"

definition bad_name_octet :: "char \<Rightarrow> bool" where
  "bad_name_octet c \<longleftrightarrow> is_upper c \<or> c \<le> CHR 0x20 \<or> c \<ge> CHR 0x7f \<or> c = CHR '':''"

definition bad_value_octet :: "char \<Rightarrow> bool" where
  "bad_value_octet c \<longleftrightarrow> c = CHR 0x00 \<or> c = CHR 0x0a \<or> c = CHR 0x0d"

definition is_blank :: "char \<Rightarrow> bool" where
  "is_blank c \<longleftrightarrow> c = CHR '' '' \<or> c = CHR 0x09"

definition checkField :: "u32 \<Rightarrow> field \<Rightarrow> error option" where
  "checkField sid f =
     (if Name f = '''' then Some (malformed sid)
      else
        let name = (if hd (Name f) = CHR '':'' then tl (Name f) else Name f) in
        if list_ex bad_name_octet name then Some (malformed sid)
        else if list_ex bad_value_octet (Value f) then Some (malformed sid)
        else if length (Value f) > 0 \<and> is_blank (hd (Value f)) then Some (malformed sid)
        else if length (Value f) > 0 \<and> is_blank (last (Value f)) then Some (malformed sid)
        else None)"

definition asciiLowerByte :: "char \<Rightarrow> char" where
  "asciiLowerByte c = (if is_upper c then char_of (of_char c + 32 :: nat) else c)"

definition asciiEqualFold :: "string \<Rightarrow> string \<Rightarrow> bool" where
  "asciiEqualFold s t \<longleftrightarrow> length s = length t \<and> list_all2 (\<lambda>a b. asciiLowerByte a = asciiLowerByte b) s t"

definition asciiLower :: "string \<Rightarrow> string" where
  "asciiLower s = (if \<not> list_ex is_upper s then s else map asciiLowerByte s)"

definition checkRegular :: "u32 \<Rightarrow> field \<Rightarrow> error option" where
  "checkRegular sid f =
     (if Name f \<in> set [''connection'', ''proxy-connection'', ''keep-alive'', ''transfer-encoding'', ''upgrade'']
      then Some (malformed sid)
      else if Name f = ''te'' \<and> \<not> asciiEqualFold (Value f) ''trailers'' then Some (malformed sid)
      else None)"

definition tokenChar :: "char \<Rightarrow> bool" where
  "tokenChar c \<longleftrightarrow> (CHR ''a'' \<le> c \<and> c \<le> CHR ''z'') \<or> is_upper c \<or> (CHR ''0'' \<le> c \<and> c \<le> CHR ''9'') \<or>
     c \<in> set ''!#$%&*+-.^_|~'' \<or> c = CHR 0x27 \<or> c = CHR 0x60"

definition validToken :: "string \<Rightarrow> bool" where
  "validToken s \<longleftrightarrow> s \<noteq> '''' \<and> list_all tokenChar s"

definition validScheme :: "string \<Rightarrow> bool" where
  "validScheme s \<longleftrightarrow> s \<noteq> '''' \<and>
     (case s of [] \<Rightarrow> False
      | c # cs \<Rightarrow> ((CHR ''a'' \<le> c \<and> c \<le> CHR ''z'') \<or> is_upper c) \<and>
          list_all (\<lambda>c. (CHR ''a'' \<le> c \<and> c \<le> CHR ''z'') \<or> is_upper c \<or> (CHR ''0'' \<le> c \<and> c \<le> CHR ''9'') \<or>
            c \<in> set ''+-.'') cs)"

text \<open>The octet is only used in the message.\<close>

definition controlOctet :: "string \<Rightarrow> bool" where
  "controlOctet s \<longleftrightarrow> list_ex (\<lambda>c. c \<le> CHR 0x20 \<or> c = CHR 0x7f) s"

definition isHTTPScheme :: "string \<Rightarrow> bool" where
  "isHTTPScheme scheme \<longleftrightarrow> asciiEqualFold scheme ''http'' \<or> asciiEqualFold scheme ''https''"

text \<open>\<open>strings.TrimSuffix\<close>.\<close>

definition TrimSuffix :: "string \<Rightarrow> string \<Rightarrow> string" where
  "TrimSuffix s suffix =
     (if length suffix \<le> length s \<and> drop (length s - length suffix) s = suffix
      then take (length s - length suffix) s else s)"

definition normalizeAuthority :: "string \<Rightarrow> string \<Rightarrow> string" where
  "normalizeAuthority scheme authority =
     (let a = asciiLower authority in
      if asciiEqualFold scheme ''http'' then TrimSuffix a '':80''
      else if asciiEqualFold scheme ''https'' then TrimSuffix a '':443''
      else a)"

definition sameAuthority :: "string \<Rightarrow> string \<Rightarrow> string \<Rightarrow> bool" where
  "sameAuthority scheme authority host \<longleftrightarrow> normalizeAuthority scheme authority = normalizeAuthority scheme host"

datatype clen_error = NotDecimal | TooLarge

text \<open>The digits have been checked when \<open>strconv.ParseUint\<close> is called with a size of 63 bits.\<close>

definition parseContentLength :: "string \<Rightarrow> clen_error + int" where
  "parseContentLength s =
     (if s = '''' then Inl NotDecimal
      else if list_ex (\<lambda>c. c < CHR ''0'' \<or> c > CHR ''9'') s then Inl NotDecimal
      else if digits s \<ge> 2 ^ 63 then Inl TooLarge
      else Inr (digits s))"

subsection \<open>The request (request.go)\<close>

definition hasMethod :: byte where [simp]: "hasMethod = 1"
definition hasScheme :: byte where [simp]: "hasScheme = 2"
definition hasAuthority :: byte where [simp]: "hasAuthority = 4"
definition hasPath :: byte where [simp]: "hasPath = 8"

definition NoContentLength :: int where [simp]: "NoContentLength = -1"

record request =
  rq_Method :: string
  rq_Scheme :: string
  rq_Authority :: string
  rq_Path :: string
  rq_Fields :: "field list"
  rq_ContentLength :: int
  rq_Priority :: priority

definition new_request :: request where
  "new_request = \<lparr>rq_Method = '''', rq_Scheme = '''', rq_Authority = '''', rq_Path = '''', rq_Fields = [],
     rq_ContentLength = NoContentLength, rq_Priority = no_priority\<rparr>"

text \<open>\<open>pseudo\<close>: the bit, and the assignment to the destination; \<open>None\<close> for zero and nil.\<close>

definition pseudo :: "string \<Rightarrow> (byte \<times> (string \<Rightarrow> request \<Rightarrow> request)) option" where
  "pseudo name =
     (if name = '':method'' then Some (hasMethod, \<lambda>v. rq_Method_update (\<lambda>_. v))
      else if name = '':scheme'' then Some (hasScheme, \<lambda>v. rq_Scheme_update (\<lambda>_. v))
      else if name = '':authority'' then Some (hasAuthority, \<lambda>v. rq_Authority_update (\<lambda>_. v))
      else if name = '':path'' then Some (hasPath, \<lambda>v. rq_Path_update (\<lambda>_. v))
      else None)"

definition checkAuthority :: "u32 \<Rightarrow> request \<Rightarrow> error option" where
  "checkAuthority sid r =
     (if rq_Authority r = '''' then None
      else if controlOctet (rq_Authority r) then Some (malformed sid)
      else if list_ex (\<lambda>c. c \<in> set ''/?#'') (rq_Authority r) then Some (malformed sid)
      else if isHTTPScheme (rq_Scheme r) \<and> CHR ''@'' \<in> set (rq_Authority r) then Some (malformed sid)
      else None)"

definition checkConnect :: "u32 \<Rightarrow> byte \<Rightarrow> request \<Rightarrow> error option" where
  "checkConnect sid seen r =
     (if seen AND hasScheme \<noteq> 0 then Some (malformed sid)
      else if seen AND hasPath \<noteq> 0 then Some (malformed sid)
      else if seen AND hasAuthority = 0 \<or> rq_Authority r = '''' then Some (malformed sid)
      else checkAuthority sid r)"

definition checkPath :: "u32 \<Rightarrow> request \<Rightarrow> error option" where
  "checkPath sid r =
     (if rq_Path r = '''' then Some (malformed sid)
      else if controlOctet (rq_Path r) then Some (malformed sid)
      else if \<not> isHTTPScheme (rq_Scheme r) then None
      else if rq_Path r = ''*'' then
        (if rq_Method r \<noteq> ''OPTIONS'' then Some (malformed sid) else None)
      else if hd (rq_Path r) \<noteq> CHR ''/'' then Some (malformed sid)
      else None)"

definition checkControlData :: "u32 \<Rightarrow> byte \<Rightarrow> request \<Rightarrow> error option" where
  "checkControlData sid seen r =
     (if seen AND hasMethod = 0 then Some (malformed sid)
      else if \<not> validToken (rq_Method r) then Some (malformed sid)
      else if rq_Method r = ''CONNECT'' then checkConnect sid seen r
      else if seen AND hasScheme = 0 then Some (malformed sid)
      else if \<not> validScheme (rq_Scheme r) then Some (malformed sid)
      else if seen AND hasPath = 0 then Some (malformed sid)
      else (case checkPath sid r of Some e \<Rightarrow> Some e | None \<Rightarrow> checkAuthority sid r))"

definition resolveAuthority :: "u32 \<Rightarrow> byte \<Rightarrow> string \<Rightarrow> nat \<Rightarrow> request \<Rightarrow> error + request" where
  "resolveAuthority sid seen host hosts r =
     (if hosts > 1 then Inl (malformed sid)
      else if seen AND hasAuthority = 0 then
        (let r = r\<lparr>rq_Authority := host\<rparr> in
         case checkAuthority sid r of Some e \<Rightarrow> Inl e | None \<Rightarrow> Inr r)
      else if hosts = 1 \<and> \<not> sameAuthority (rq_Scheme r) (rq_Authority r) host then Inl (malformed sid)
      else Inr r)"

definition setContentLength :: "u32 \<Rightarrow> string \<Rightarrow> nat \<Rightarrow> bool \<Rightarrow> request \<Rightarrow> error + request" where
  "setContentLength sid clen clens endStream r =
     (if clens = 0 then Inr r
      else if clens > 1 then Inl (malformed sid)
      else
        (case parseContentLength clen of
           Inl _ \<Rightarrow> Inl (malformed sid)
         | Inr n \<Rightarrow>
             (let r = r\<lparr>rq_ContentLength := n\<rparr> in
              if endStream \<and> n \<noteq> 0 then Inl (malformed sid) else Inr r)))"

definition setPriority :: "nat \<Rightarrow> string \<Rightarrow> request \<Rightarrow> request" where
  "setPriority prios value r = (if prios = 0 then r else r\<lparr>rq_Priority := fst (Parse value)\<rparr>)"

text \<open>The variables of \<open>Parse\<close>'s loop.\<close>

record parse_state =
  ps_r :: request
  ps_seen :: byte
  ps_regular :: bool
  ps_clen :: string
  ps_clens :: nat
  ps_host :: string
  ps_hosts :: nat
  ps_prio :: string
  ps_prios :: nat

definition new_parse :: parse_state where
  "new_parse = \<lparr>ps_r = new_request, ps_seen = 0, ps_regular = False, ps_clen = '''', ps_clens = 0,
     ps_host = '''', ps_hosts = 0, ps_prio = '''', ps_prios = 0\<rparr>"

definition is_pseudo :: "field \<Rightarrow> bool" where
  "is_pseudo f \<longleftrightarrow> Name f \<noteq> '''' \<and> hd (Name f) = CHR '':''"

definition parse_field :: "u32 \<Rightarrow> field \<Rightarrow> parse_state \<Rightarrow> error + parse_state" where
  "parse_field sid f st =
     (case checkField sid f of
        Some e \<Rightarrow> Inl e
      | None \<Rightarrow>
          if is_pseudo f then
            (if ps_regular st then Inl (malformed sid)
             else
               (case pseudo (Name f) of
                  None \<Rightarrow> Inl (malformed sid)
                | Some (flag, dst) \<Rightarrow>
                    if ps_seen st AND flag \<noteq> 0 then Inl (malformed sid)
                    else Inr (st\<lparr>ps_seen := ps_seen st OR flag, ps_r := dst (Value f) (ps_r st)\<rparr>)))
          else
            (let st = st\<lparr>ps_regular := True\<rparr> in
             case checkRegular sid f of
               Some e \<Rightarrow> Inl e
             | None \<Rightarrow>
                 (let st =
                    (if Name f = ''content-length'' then st\<lparr>ps_clen := Value f, ps_clens := ps_clens st + 1\<rparr>
                     else if Name f = ''host'' then st\<lparr>ps_host := Value f, ps_hosts := ps_hosts st + 1\<rparr>
                     else if Name f = ''priority'' then
                       (let st = (if ps_prios st > 0 then st\<lparr>ps_prio := ps_prio st @ '', ''\<rparr> else st)
                        in st\<lparr>ps_prio := ps_prio st @ Value f, ps_prios := ps_prios st + 1\<rparr>)
                     else st)
                  in Inr (st\<lparr>ps_r := (ps_r st)\<lparr>rq_Fields := rq_Fields (ps_r st) @ [f]\<rparr>\<rparr>))))"

fun parse_fields :: "u32 \<Rightarrow> field list \<Rightarrow> parse_state \<Rightarrow> error + parse_state" where
  "parse_fields sid [] st = Inr st"
| "parse_fields sid (f # fs) st =
     (case parse_field sid f st of Inl e \<Rightarrow> Inl e | Inr st \<Rightarrow> parse_fields sid fs st)"

definition Request_Parse :: "u32 \<Rightarrow> field list \<Rightarrow> bool \<Rightarrow> error + request" where
  "Request_Parse sid flds endStream =
     (case parse_fields sid flds new_parse of
        Inl e \<Rightarrow> Inl e
      | Inr st \<Rightarrow>
          (case checkControlData sid (ps_seen st) (ps_r st) of
             Some e \<Rightarrow> Inl e
           | None \<Rightarrow>
               (case resolveAuthority sid (ps_seen st) (ps_host st) (ps_hosts st) (ps_r st) of
                  Inl e \<Rightarrow> Inl e
                | Inr r \<Rightarrow>
                    (case setContentLength sid (ps_clen st) (ps_clens st) endStream r of
                       Inl e \<Rightarrow> Inl e
                     | Inr r \<Rightarrow> Inr (setPriority (ps_prios st) (ps_prio st) r)))))"

fun ValidateTrailers :: "u32 \<Rightarrow> field list \<Rightarrow> error option" where
  "ValidateTrailers sid [] = None"
| "ValidateTrailers sid (f # fs) =
     (case checkField sid f of
        Some e \<Rightarrow> Some e
      | None \<Rightarrow>
          if is_pseudo f then Some (malformed sid)
          else (case checkRegular sid f of Some e \<Rightarrow> Some e | None \<Rightarrow> ValidateTrailers sid fs))"

end
