(* ===== verification/RequestProps.thy ===== *)
theory RequestProps
  imports Request
begin

text \<open>
  What \<open>internal/request\<close> accepts, stated without its loop: RFC 9113 section 8 as a predicate on the
  list of field lines, and the request as a function of that list.
\<close>

subsection \<open>The specification\<close>

text \<open>Field lines: sections 8.2.1 and 8.2.2.\<close>

definition name_ok :: "string \<Rightarrow> bool" where
  "name_ok n \<longleftrightarrow> n \<noteq> '''' \<and> list_all (\<lambda>c. CHR 0x20 < c \<and> c < CHR 0x7f \<and> \<not> is_upper c) n \<and> CHR '':'' \<notin> set (tl n)"

definition value_ok :: "string \<Rightarrow> bool" where
  "value_ok v \<longleftrightarrow> CHR 0x00 \<notin> set v \<and> CHR 0x0a \<notin> set v \<and> CHR 0x0d \<notin> set v \<and>
     (v \<noteq> '''' \<longrightarrow> \<not> is_blank (hd v) \<and> \<not> is_blank (last v))"

definition line_ok :: "field \<Rightarrow> bool" where
  "line_ok f \<longleftrightarrow> name_ok (Name f) \<and> value_ok (Value f)"

definition hop_by_hop :: "string set" where
  "hop_by_hop = {''connection'', ''proxy-connection'', ''keep-alive'', ''transfer-encoding'', ''upgrade''}"

definition regular_ok :: "field \<Rightarrow> bool" where
  "regular_ok f \<longleftrightarrow> \<not> is_pseudo f \<and> Name f \<notin> hop_by_hop \<and>
     (Name f = ''te'' \<longrightarrow> asciiEqualFold (Value f) ''trailers'')"

lemma checkField_iff: "checkField sid f = (if line_ok f then None else Some (malformed sid))"
proof -
  have "\<not> list_ex bad_name_octet (if hd (Name f) = CHR '':'' then tl (Name f) else Name f) \<longleftrightarrow> name_ok (Name f)"
    if n: "Name f \<noteq> ''''"
  proof -
    obtain c cs where f: "Name f = c # cs" using n by (cases "Name f") auto
    show ?thesis
      by (auto simp: f name_ok_def bad_name_octet_def list_ex_iff list_all_iff not_le is_upper_def)
  qed
  moreover have "\<not> list_ex bad_value_octet (Value f) \<and> \<not> (length (Value f) > 0 \<and> is_blank (hd (Value f))) \<and>
      \<not> (length (Value f) > 0 \<and> is_blank (last (Value f))) \<longleftrightarrow> value_ok (Value f)"
    by (auto simp: value_ok_def bad_value_octet_def list_ex_iff)
  ultimately show ?thesis
    by (auto simp: checkField_def line_ok_def Let_def name_ok_def)
qed

lemma checkRegular_iff:
  "\<not> is_pseudo f \<Longrightarrow> checkRegular sid f = (if regular_ok f then None else Some (malformed sid))"
  by (auto simp: checkRegular_def regular_ok_def hop_by_hop_def)

text \<open>The two parts of a header section, and what a name has for a value.\<close>

abbreviation pseudo_part :: "field list \<Rightarrow> field list" where
  "pseudo_part fs \<equiv> List.filter is_pseudo fs"

abbreviation regular_part :: "field list \<Rightarrow> field list" where
  "regular_part fs \<equiv> List.filter (\<lambda>f. \<not> is_pseudo f) fs"

abbreviation pseudo_value :: "field list \<Rightarrow> string \<Rightarrow> string option" where
  "pseudo_value fs k \<equiv> map_of (map (\<lambda>f. (Name f, Value f)) (pseudo_part fs)) k"

definition line_values :: "string \<Rightarrow> field list \<Rightarrow> string list" where
  "line_values k fs = map Value (List.filter (\<lambda>f. Name f = k) (regular_part fs))"

definition pseudo_names :: "string list" where
  "pseudo_names = ['':method'', '':scheme'', '':authority'', '':path'']"

definition section_ok :: "field list \<Rightarrow> bool" where
  "section_ok fs \<longleftrightarrow> list_all line_ok fs \<and> fs = pseudo_part fs @ regular_part fs \<and>
     distinct (map Name (pseudo_part fs)) \<and> set (map Name (pseudo_part fs)) \<subseteq> set pseudo_names \<and>
     list_all regular_ok (regular_part fs)"

text \<open>Control data: sections 8.3.1 and 8.5.\<close>

definition authority_ok :: "string \<Rightarrow> string \<Rightarrow> bool" where
  "authority_ok scheme a \<longleftrightarrow> a = '''' \<or>
     (\<not> controlOctet a \<and> set a \<inter> set ''/?#'' = {} \<and> (isHTTPScheme scheme \<longrightarrow> CHR ''@'' \<notin> set a))"

definition path_ok :: "string \<Rightarrow> string \<Rightarrow> string \<Rightarrow> bool" where
  "path_ok method scheme p \<longleftrightarrow> p \<noteq> '''' \<and> \<not> controlOctet p \<and>
     (isHTTPScheme scheme \<longrightarrow> p = ''*'' \<and> method = ''OPTIONS'' \<or> p \<noteq> ''*'' \<and> hd p = CHR ''/'')"

definition or_empty :: "string option \<Rightarrow> string" where
  "or_empty v = (case v of None \<Rightarrow> '''' | Some s \<Rightarrow> s)"

definition connect_ok :: "field list \<Rightarrow> bool" where
  "connect_ok fs \<longleftrightarrow> pseudo_value fs '':scheme'' = None \<and> pseudo_value fs '':path'' = None \<and>
     or_empty (pseudo_value fs '':authority'') \<noteq> '''' \<and> authority_ok '''' (or_empty (pseudo_value fs '':authority''))"

definition target_ok :: "string \<Rightarrow> field list \<Rightarrow> bool" where
  "target_ok method fs \<longleftrightarrow>
     (case (pseudo_value fs '':scheme'', pseudo_value fs '':path'') of
        (Some scheme, Some p) \<Rightarrow> validScheme scheme \<and> path_ok method scheme p \<and>
          authority_ok scheme (or_empty (pseudo_value fs '':authority''))
      | _ \<Rightarrow> False)"

definition control_ok :: "field list \<Rightarrow> bool" where
  "control_ok fs \<longleftrightarrow>
     (case pseudo_value fs '':method'' of
        None \<Rightarrow> False
      | Some m \<Rightarrow> validToken m \<and> (if m = ''CONNECT'' then connect_ok fs else target_ok m fs))"

text \<open>The authority: \<open>Host\<close> stands in for \<open>:authority\<close>, or agrees with it.\<close>

definition host_ok :: "field list \<Rightarrow> bool" where
  "host_ok fs \<longleftrightarrow> length (line_values ''host'' fs) \<le> 1 \<and>
     (case pseudo_value fs '':authority'' of
        None \<Rightarrow> list_all (authority_ok (or_empty (pseudo_value fs '':scheme''))) (line_values ''host'' fs)
      | Some a \<Rightarrow> list_all (sameAuthority (or_empty (pseudo_value fs '':scheme'')) a) (line_values ''host'' fs))"

text \<open>The declared length: a decimal below \<open>2^63\<close>, and zero when there is no content (section 8.1.1).\<close>

definition declared_length :: "field list \<Rightarrow> int" where
  "declared_length fs = (case line_values ''content-length'' fs of [] \<Rightarrow> NoContentLength | v # _ \<Rightarrow> digits v)"

definition length_ok :: "field list \<Rightarrow> bool \<Rightarrow> bool" where
  "length_ok fs no_content \<longleftrightarrow>
     (case line_values ''content-length'' fs of
        [] \<Rightarrow> True
      | [v] \<Rightarrow> v \<noteq> '''' \<and> list_all isDigit v \<and> digits v < 2 ^ 63 \<and> (no_content \<longrightarrow> digits v = 0)
      | _ \<Rightarrow> False)"

definition request_ok :: "field list \<Rightarrow> bool \<Rightarrow> bool" where
  "request_ok fs no_content \<longleftrightarrow> section_ok fs \<and> control_ok fs \<and> host_ok fs \<and> length_ok fs no_content"

fun joined :: "string list \<Rightarrow> string" where
  "joined [] = ''''"
| "joined [v] = v"
| "joined (v # w # vs) = v @ '', '' @ joined (w # vs)"

definition request_of :: "field list \<Rightarrow> request" where
  "request_of fs =
     \<lparr>rq_Method = or_empty (pseudo_value fs '':method''), rq_Scheme = or_empty (pseudo_value fs '':scheme''),
      rq_Authority = (case pseudo_value fs '':authority'' of Some a \<Rightarrow> a | None \<Rightarrow> concat (line_values ''host'' fs)),
      rq_Path = or_empty (pseudo_value fs '':path''), rq_Fields = regular_part fs,
      rq_ContentLength = declared_length fs,
      rq_Priority = (if line_values ''priority'' fs = [] then no_priority else fst (Parse (joined (line_values ''priority'' fs))))\<rparr>"

subsection \<open>The loop\<close>

definition flag :: "string \<Rightarrow> byte" where
  "flag n = (case pseudo n of None \<Rightarrow> 0 | Some (b, _) \<Rightarrow> b)"

definition seen_flags :: "string list \<Rightarrow> byte" where
  "seen_flags ns = foldl (\<lambda>w n. w OR flag n) 0 ns"

lemma seen_flags_simps [simp]:
  "seen_flags [] = 0"
  "seen_flags (ns @ [n]) = seen_flags ns OR flag n"
  by (simp_all add: seen_flags_def)

lemma flag_names: "k \<in> set pseudo_names \<Longrightarrow> n \<in> set pseudo_names \<Longrightarrow> flag n AND flag k \<noteq> 0 \<longleftrightarrow> n = k"
  by (auto simp: pseudo_names_def pseudo_def flag_def)

lemma pseudo_known:
  "pseudo '':method'' = Some (flag '':method'', \<lambda>v. rq_Method_update (\<lambda>_. v))"
  "pseudo '':scheme'' = Some (flag '':scheme'', \<lambda>v. rq_Scheme_update (\<lambda>_. v))"
  "pseudo '':authority'' = Some (flag '':authority'', \<lambda>v. rq_Authority_update (\<lambda>_. v))"
  "pseudo '':path'' = Some (flag '':path'', \<lambda>v. rq_Path_update (\<lambda>_. v))"
  by (simp_all add: pseudo_def flag_def)

lemma pseudo_unknown: "n \<notin> set pseudo_names \<Longrightarrow> pseudo n = None"
  by (auto simp: pseudo_def pseudo_names_def)

lemma seen_flags_in:
  "k \<in> set pseudo_names \<Longrightarrow> set ns \<subseteq> set pseudo_names \<Longrightarrow> seen_flags ns AND flag k \<noteq> 0 \<longleftrightarrow> k \<in> set ns"
proof (induction ns rule: rev_induct)
  case (snoc n ns)
  have "(seen_flags ns OR flag n) AND flag k = (seen_flags ns AND flag k) OR (flag n AND flag k)"
    by (rule bit.conj_disj_distrib2)
  then have "(seen_flags ns OR flag n) AND flag k \<noteq> 0 \<longleftrightarrow> seen_flags ns AND flag k \<noteq> 0 \<or> flag n AND flag k \<noteq> 0"
    by (simp add: or_eq_0_iff)
  with snoc flag_names [of k n] show ?case by auto
qed simp

definition last_or_empty :: "string list \<Rightarrow> string" where
  "last_or_empty vs = (if vs = [] then '''' else last vs)"

text \<open>The variables after the lines \<open>fs\<close>.\<close>

definition parsed :: "field list \<Rightarrow> parse_state" where
  "parsed fs =
     \<lparr>ps_r = \<lparr>rq_Method = or_empty (pseudo_value fs '':method''), rq_Scheme = or_empty (pseudo_value fs '':scheme''),
        rq_Authority = or_empty (pseudo_value fs '':authority''), rq_Path = or_empty (pseudo_value fs '':path''),
        rq_Fields = regular_part fs, rq_ContentLength = NoContentLength, rq_Priority = no_priority\<rparr>,
      ps_seen = seen_flags (map Name (pseudo_part fs)), ps_regular = (regular_part fs \<noteq> []),
      ps_clen = last_or_empty (line_values ''content-length'' fs), ps_clens = length (line_values ''content-length'' fs),
      ps_host = last_or_empty (line_values ''host'' fs), ps_hosts = length (line_values ''host'' fs),
      ps_prio = joined (line_values ''priority'' fs), ps_prios = length (line_values ''priority'' fs)\<rparr>"

lemma joined_snoc: "joined (vs @ [v]) = (if vs = [] then v else joined vs @ '', '' @ v)"
  by (induction vs rule: joined.induct) auto

lemma parse_fields_snoc:
  "parse_fields sid (fs @ [f]) st = (case parse_fields sid fs st of Inl e \<Rightarrow> Inl e | Inr st \<Rightarrow> parse_field sid f st)"
  by (induction fs arbitrary: st) (simp_all split: sum.split)

lemma section_ok_snoc_pseudo:
  "is_pseudo f \<Longrightarrow> section_ok (fs @ [f]) \<longleftrightarrow> section_ok fs \<and> line_ok f \<and> regular_part fs = [] \<and>
     Name f \<in> set pseudo_names \<and> Name f \<notin> set (map Name (pseudo_part fs))"
proof -
  assume f: "is_pseudo f"
  have "fs @ [f] = (pseudo_part fs @ [f]) @ regular_part fs \<longleftrightarrow> fs = pseudo_part fs @ regular_part fs \<and> regular_part fs = []"
  proof (cases "regular_part fs" rule: rev_exhaust)
    case (snoc ys y)
    then have "y \<in> set (regular_part fs)" by simp
    then have "\<not> is_pseudo y" by simp
    with f snoc show ?thesis by auto
  qed auto
  with f show ?thesis by (auto simp: section_ok_def)
qed

lemma section_ok_snoc_regular:
  "\<not> is_pseudo f \<Longrightarrow> section_ok (fs @ [f]) \<longleftrightarrow> section_ok fs \<and> line_ok f \<and> regular_ok f"
  by (auto simp: section_ok_def)

lemma parsed_Nil: "parsed [] = new_parse"
  by (simp add: parsed_def new_parse_def new_request_def line_values_def or_empty_def last_or_empty_def)

lemma pseudo_value_None: "pseudo_value fs k = None \<longleftrightarrow> k \<notin> set (map Name (pseudo_part fs))"
  by (auto simp: map_of_eq_None_iff image_image)

lemma parse_field_pseudo:
  assumes "section_ok fs" "is_pseudo f"
  shows "parse_field sid f (parsed fs) = (if section_ok (fs @ [f]) then Inr (parsed (fs @ [f])) else Inl (malformed sid))"
proof (cases "line_ok f \<and> regular_part fs = [] \<and> Name f \<in> set pseudo_names")
  case True
  have ns: "set (map Name (pseudo_part fs)) \<subseteq> set pseudo_names" using assms(1) by (simp add: section_ok_def)
  have sub: "ps_seen (parsed fs) AND flag (Name f) \<noteq> 0 \<longleftrightarrow> Name f \<in> set (map Name (pseudo_part fs))"
    using seen_flags_in [OF _ ns] True by (simp add: parsed_def)
  from True have name: "Name f = '':method'' \<or> Name f = '':scheme'' \<or> Name f = '':authority'' \<or> Name f = '':path''"
    by (auto simp: pseudo_names_def)
  show ?thesis
  proof (cases "Name f \<in> set (map Name (pseudo_part fs))")
    case rep: True
    then have "\<not> section_ok (fs @ [f])" "ps_seen (parsed fs) AND flag (Name f) \<noteq> 0"
      using sub section_ok_snoc_pseudo [OF assms(2), of fs] by simp_all
    moreover have "\<not> ps_regular (parsed fs)" using True by (simp add: parsed_def)
    ultimately show ?thesis
      using True assms name by (elim disjE) (simp_all add: parse_field_def checkField_iff pseudo_known)
  next
    case False
    then have none: "pseudo_value fs (Name f) = None" by (simp add: pseudo_value_None del: map_of_eq_None_iff)
    have "section_ok (fs @ [f])" "ps_seen (parsed fs) AND flag (Name f) = 0" "\<not> ps_regular (parsed fs)"
      using True False sub section_ok_snoc_pseudo [OF assms(2), of fs] assms(1) by (simp_all add: parsed_def)
    moreover from none name assms(2)
    have "(parsed fs)\<lparr>ps_seen := ps_seen (parsed fs) OR flag (Name f),
        ps_r := snd (the (pseudo (Name f))) (Value f) (ps_r (parsed fs))\<rparr> = parsed (fs @ [f])"
      by (elim disjE)
         (auto simp: parsed_def pseudo_known line_values_def or_empty_def map_add_def split: option.split)
    ultimately show ?thesis
      using True assms name by (elim disjE) (simp_all add: parse_field_def checkField_iff pseudo_known)
  qed
next
  case False
  then show ?thesis
    using assms section_ok_snoc_pseudo [OF assms(2), of fs] pseudo_unknown [of "Name f"]
    by (auto simp: parse_field_def checkField_iff parsed_def)
qed

lemma parse_field_regular:
  assumes "section_ok fs" "\<not> is_pseudo f"
  shows "parse_field sid f (parsed fs) = (if section_ok (fs @ [f]) then Inr (parsed (fs @ [f])) else Inl (malformed sid))"
  using assms section_ok_snoc_regular [OF assms(2), of fs]
  by (auto simp: parse_field_def checkField_iff checkRegular_iff parsed_def line_values_def last_or_empty_def
      joined_snoc Let_def)

lemma section_ok_prefix: "section_ok (fs @ [f]) \<Longrightarrow> section_ok fs"
  by (cases "is_pseudo f") (auto simp: section_ok_snoc_pseudo section_ok_snoc_regular)

lemma parse_fields_spec:
  "parse_fields sid fs new_parse = (if section_ok fs then Inr (parsed fs) else Inl (malformed sid))"
proof (induction fs rule: rev_induct)
  case Nil
  show ?case by (simp add: parsed_Nil section_ok_def)
next
  case (snoc f fs)
  then show ?case
    using parse_field_pseudo [of fs f sid] parse_field_regular [of fs f sid] section_ok_prefix [of fs f]
    by (cases "is_pseudo f") (auto simp: parse_fields_snoc)
qed

subsection \<open>The checks after the loop\<close>

lemma seen_parsed:
  assumes "section_ok fs" "k \<in> set pseudo_names"
  shows "seen_flags (map Name (pseudo_part fs)) AND flag k = 0 \<longleftrightarrow> pseudo_value fs k = None"
  using seen_flags_in [of k "map Name (pseudo_part fs)"] assms
  by (simp add: pseudo_value_None section_ok_def del: map_of_eq_None_iff) blast

lemma has_flags:
  "hasMethod = flag '':method''" "hasScheme = flag '':scheme''" "hasAuthority = flag '':authority''"
  "hasPath = flag '':path''"
  by (simp_all add: flag_def pseudo_def)

lemma checkAuthority_iff:
  "checkAuthority sid r = (if authority_ok (rq_Scheme r) (rq_Authority r) then None else Some (malformed sid))"
  by (auto simp: checkAuthority_def authority_ok_def list_ex_iff)

lemma checkPath_iff:
  "checkPath sid r = (if path_ok (rq_Method r) (rq_Scheme r) (rq_Path r) then None else Some (malformed sid))"
  by (auto simp: checkPath_def path_ok_def)

lemma checkControlData_iff:
  assumes "section_ok fs"
  shows "checkControlData sid (ps_seen (parsed fs)) (ps_r (parsed fs)) =
    (if control_ok fs then None else Some (malformed sid))"
proof -
  have s: "k \<in> set pseudo_names \<Longrightarrow> ps_seen (parsed fs) AND flag k = 0 \<longleftrightarrow> pseudo_value fs k = None" for k
    using seen_parsed [OF assms] by (simp add: parsed_def)
  have n: "'':method'' \<in> set pseudo_names" "'':scheme'' \<in> set pseudo_names" "'':authority'' \<in> set pseudo_names"
    "'':path'' \<in> set pseudo_names"
    by (simp_all add: pseudo_names_def)
  have r: "rq_Method (ps_r (parsed fs)) = or_empty (pseudo_value fs '':method'')"
    "rq_Scheme (ps_r (parsed fs)) = or_empty (pseudo_value fs '':scheme'')"
    "rq_Authority (ps_r (parsed fs)) = or_empty (pseudo_value fs '':authority'')"
    "rq_Path (ps_r (parsed fs)) = or_empty (pseudo_value fs '':path'')"
    by (simp_all add: parsed_def)
  show ?thesis
    unfolding checkControlData_def checkConnect_def has_flags control_ok_def connect_ok_def target_ok_def
      checkAuthority_iff checkPath_iff r
    using s [OF n(1)] s [OF n(2)] s [OF n(3)] s [OF n(4)]
    by (cases "pseudo_value fs '':method''"; cases "pseudo_value fs '':scheme''"; cases "pseudo_value fs '':path''";
        cases "pseudo_value fs '':authority''") (simp_all add: or_empty_def)
qed

lemma resolveAuthority_iff:
  assumes "section_ok fs"
  shows "resolveAuthority sid (ps_seen (parsed fs)) (ps_host (parsed fs)) (ps_hosts (parsed fs)) (ps_r (parsed fs)) =
    (if host_ok fs then Inr ((ps_r (parsed fs))\<lparr>rq_Authority := rq_Authority (request_of fs)\<rparr>) else Inl (malformed sid))"
proof (cases "length (line_values ''host'' fs) \<le> 1")
  case True
  have s: "ps_seen (parsed fs) AND flag '':authority'' = 0 \<longleftrightarrow> pseudo_value fs '':authority'' = None"
    using seen_parsed [OF assms, of "'':authority''"] by (simp add: parsed_def pseudo_names_def)
  have r: "ps_host (parsed fs) = last_or_empty (line_values ''host'' fs)" "ps_hosts (parsed fs) = length (line_values ''host'' fs)"
    "rq_Scheme (ps_r (parsed fs)) = or_empty (pseudo_value fs '':scheme'')"
    "rq_Authority (ps_r (parsed fs)) = or_empty (pseudo_value fs '':authority'')"
    "rq_Authority (request_of fs) = (case pseudo_value fs '':authority'' of Some a \<Rightarrow> a | None \<Rightarrow> concat (line_values ''host'' fs))"
    by (simp_all add: parsed_def request_of_def)
  have same: "(ps_r (parsed fs))\<lparr>rq_Authority := a\<rparr> = ps_r (parsed fs)" if "a = or_empty (pseudo_value fs '':authority'')" for a
    using that by (simp add: parsed_def)
  from True consider "line_values ''host'' fs = []" | h where "line_values ''host'' fs = [h]"
    by (cases "line_values ''host'' fs") auto
  then show ?thesis
  proof cases
    case 1
    then show ?thesis
      by (cases "pseudo_value fs '':authority''")
         (simp_all add: resolveAuthority_def has_flags s host_ok_def r checkAuthority_iff Let_def last_or_empty_def
           or_empty_def same authority_ok_def del: hasAuthority_def)
  next
    case 2
    then show ?thesis
      by (cases "pseudo_value fs '':authority''")
         (simp_all add: resolveAuthority_def has_flags s host_ok_def r checkAuthority_iff Let_def last_or_empty_def
           or_empty_def same authority_ok_def del: hasAuthority_def)
  qed
next
  case False
  then show ?thesis by (auto simp: resolveAuthority_def host_ok_def parsed_def)
qed

lemma parseContentLength_iff:
  "parseContentLength v = Inr n \<longleftrightarrow> v \<noteq> '''' \<and> list_all isDigit v \<and> digits v < 2 ^ 63 \<and> n = digits v"
proof -
  have "list_ex (\<lambda>c. c < CHR ''0'' \<or> c > CHR ''9'') v \<longleftrightarrow> \<not> list_all isDigit v"
    by (auto simp: list_ex_iff list_all_iff isDigit_def not_less not_le)
  then show ?thesis by (auto simp: parseContentLength_def)
qed

lemma setContentLength_iff:
  "setContentLength sid (ps_clen (parsed fs)) (ps_clens (parsed fs)) es r =
    (if length_ok fs es then Inr (if line_values ''content-length'' fs = [] then r else r\<lparr>rq_ContentLength := declared_length fs\<rparr>)
     else Inl (malformed sid))"
proof -
  consider "line_values ''content-length'' fs = []" | v where "line_values ''content-length'' fs = [v]"
    | v w vs where "line_values ''content-length'' fs = v # w # vs"
    by (cases "line_values ''content-length'' fs" rule: remdups_adj.cases) auto
  then show ?thesis
  proof cases
    case (2 v)
    show ?thesis
    proof (cases "parseContentLength v")
      case (Inl e)
      then have "\<not> (v \<noteq> '''' \<and> list_all isDigit v \<and> digits v < 2 ^ 63)" using parseContentLength_iff [of v "digits v"] by auto
      with 2 Inl show ?thesis by (auto simp: setContentLength_def parsed_def length_ok_def last_or_empty_def)
    next
      case (Inr n)
      with 2 show ?thesis
        using parseContentLength_iff [of v n]
        by (auto simp: setContentLength_def parsed_def length_ok_def last_or_empty_def declared_length_def Let_def)
    qed
  qed (simp_all add: setContentLength_def parsed_def length_ok_def)
qed

lemma Request_Parse_spec:
  "Request_Parse sid fs es = (if request_ok fs es then Inr (request_of fs) else Inl (malformed sid))"
proof (cases "section_ok fs \<and> control_ok fs \<and> host_ok fs \<and> length_ok fs es")
  case True
  then have "Request_Parse sid fs es = Inr (setPriority (ps_prios (parsed fs)) (ps_prio (parsed fs))
     (if line_values ''content-length'' fs = [] then (ps_r (parsed fs))\<lparr>rq_Authority := rq_Authority (request_of fs)\<rparr>
      else (ps_r (parsed fs))\<lparr>rq_Authority := rq_Authority (request_of fs), rq_ContentLength := declared_length fs\<rparr>))"
    by (simp add: Request_Parse_def parse_fields_spec checkControlData_iff resolveAuthority_iff setContentLength_iff)
  also have "\<dots> = Inr (request_of fs)"
    by (simp add: setPriority_def parsed_def request_of_def declared_length_def)
  finally show ?thesis using True by (simp add: request_ok_def)
next
  case False
  then show ?thesis
    by (auto simp: Request_Parse_def parse_fields_spec checkControlData_iff resolveAuthority_iff
        setContentLength_iff request_ok_def)
qed

lemma ValidateTrailers_spec:
  "ValidateTrailers sid fs = (if list_all line_ok fs \<and> list_all regular_ok fs then None else Some (malformed sid))"
  by (induction fs) (auto simp: checkField_iff checkRegular_iff regular_ok_def split: option.split)

subsection \<open>The property\<close>

text \<open>C22: \<open>Parse\<close> accepts a header section exactly when it satisfies the rules of RFC 9113 section 8, as
  \<open>request_ok\<close> states them without the code's loop, bit set and order of checks: well-formed
  field lines, the pseudo-header fields first, defined and not repeated, no hop-by-hop fields,
  the control data that the method requires, one authority, and one declared length that agrees
  with an empty body. It then returns exactly the request that the lines describe, and otherwise a
  stream error of type \<open>PROTOCOL_ERROR\<close> on that stream. A trailer section is accepted
  exactly when its lines are well-formed regular lines.\<close>

theorem request_validation_exact:
  "Request_Parse sid fs es = (if request_ok fs es then Inr (request_of fs) else Inl (StreamError sid ProtocolError)) \<and>
   ValidateTrailers sid fs = (if list_all line_ok fs \<and> list_all regular_ok fs then None
     else Some (StreamError sid ProtocolError))"
  using Request_Parse_spec [of sid fs es] ValidateTrailers_spec [of sid fs] by (simp add: malformed_def)

definition sample_lines :: "field list" where
  "sample_lines =
     map (\<lambda>(n, v). \<lparr>Name = n, Value = v, Sensitive = False\<rparr>)
       [('':method'', ''GET''), ('':scheme'', ''https''), ('':path'', ''/a''), ('':authority'', ''example.org''),
        (''host'', ''Example.org:443''), (''priority'', ''u=1'')]"

theorem request_validation_exact_witness:
  "\<exists>r. Request_Parse 1 sample_lines True = Inr r \<and> Urgency (rq_Priority r) = 1 \<and>
     Request_Parse 1 (rev sample_lines) True = Inl (StreamError 1 ProtocolError)"
proof -
  have "request_ok sample_lines True" "\<not> request_ok (rev sample_lines) True"
    "Urgency (rq_Priority (request_of sample_lines)) = 1"
    by code_simp+
  then show ?thesis
    using request_validation_exact [of 1 sample_lines True] request_validation_exact [of 1 "rev sample_lines" True] by simp
qed

end
