(* ===== verification/Response.thy ===== *)
theory Response
  imports Request Hpack FrameWire
begin

text \<open>
  \<^verbatim>\<open>internal/response\<close>: the checks on a response's field lists (fields.go), the encoder that a
  connection's streams share (encoder.go) and the writer of one stream's response (writer.go).

  The connection's write half and its flow-control credit are interfaces: \<open>wh_Enqueue\<close>,
  \<open>wh_MaxFrameSize\<close> and \<open>wh_Reserve\<close> are functions on a state \<open>'e\<close> of theirs, in which everything
  that other goroutines do meanwhile is included. A call that blocks and is released is one such function step. The
  codec is the HPACK encoder that the server hands to \<open>NewEncoder\<close>. Errors are the package's
  sentinels; the reasons they are wrapped with are diagnostics and are not kept.
\<close>

subsection \<open>The field lists (fields.go)\<close>

definition ErrMalformedResponse :: error where
  "ErrMalformedResponse = Sentinel ''response: malformed response''"

datatype resp_section = SectionHeader | SectionTrailer

definition pseudoStatus :: string where [simp]: "pseudoStatus = '':status''"

definition checkFieldLine :: "field \<Rightarrow> error option" where
  "checkFieldLine f =
     (if Name f = '''' then Some ErrMalformedResponse
      else
        let name = (if hd (Name f) = CHR '':'' then tl (Name f) else Name f) in
        if list_ex (\<lambda>c. is_upper c \<or> c \<le> CHR 0x20 \<or> c \<ge> CHR 0x7f \<or> c = CHR '':'') name then Some ErrMalformedResponse
        else if list_ex (\<lambda>c. c = CHR 0x00 \<or> c = CHR 0x0a \<or> c = CHR 0x0d) (Value f) then Some ErrMalformedResponse
        else if length (Value f) > 0 \<and> (let c = hd (Value f) in c = CHR '' '' \<or> c = CHR 0x09) then Some ErrMalformedResponse
        else if length (Value f) > 0 \<and> (let c = last (Value f) in c = CHR '' '' \<or> c = CHR 0x09) then Some ErrMalformedResponse
        else None)"

definition resp_checkRegular :: "field \<Rightarrow> error option" where
  "resp_checkRegular f =
     (if Name f \<in> set [''connection'', ''proxy-connection'', ''keep-alive'', ''transfer-encoding'', ''upgrade'', ''te'']
      then Some ErrMalformedResponse else None)"

definition is_digit :: "char \<Rightarrow> bool" where
  "is_digit c \<longleftrightarrow> CHR ''0'' \<le> c \<and> c \<le> CHR ''9''"

definition checkStatus :: "string \<Rightarrow> error option" where
  "checkStatus v =
     (if length v \<noteq> 3 then Some ErrMalformedResponse
      else if list_ex (\<lambda>c. \<not> is_digit c) v then Some ErrMalformedResponse
      else if hd v < CHR ''1'' \<or> hd v > CHR ''5'' then Some ErrMalformedResponse
      else None)"

text \<open>The loop of \<open>checkSection\<close>, with the two flags it keeps, and the check after it.\<close>

fun checkSection_loop :: "resp_section \<Rightarrow> field list \<Rightarrow> bool \<Rightarrow> bool \<Rightarrow> error option" where
  "checkSection_loop kind [] status regular =
     (if kind = SectionHeader \<and> \<not> status then Some ErrMalformedResponse else None)"
| "checkSection_loop kind (f # fs) status regular =
     (case checkFieldLine f of
        Some e \<Rightarrow> Some e
      | None \<Rightarrow>
          if take 1 (Name f) \<noteq> '':'' then
            (case resp_checkRegular f of
               Some e \<Rightarrow> Some e
             | None \<Rightarrow> checkSection_loop kind fs status True)
          else if regular then Some ErrMalformedResponse
          else if kind = SectionTrailer then Some ErrMalformedResponse
          else if Name f \<noteq> pseudoStatus then Some ErrMalformedResponse
          else if status then Some ErrMalformedResponse
          else (case checkStatus (Value f) of
                  Some e \<Rightarrow> Some e
                | None \<Rightarrow> checkSection_loop kind fs True regular))"

definition checkSection :: "resp_section \<Rightarrow> field list \<Rightarrow> error option" where
  "checkSection kind fs = checkSection_loop kind fs False False"

subsection \<open>The encoder (encoder.go)\<close>

record 'e write_half =
  wh_Enqueue :: "frame \<Rightarrow> 'e \<Rightarrow> error option \<times> 'e"
  wh_MaxFrameSize :: "'e \<Rightarrow> u32"
  wh_Reserve :: "u32 \<Rightarrow> int \<Rightarrow> 'e \<Rightarrow> (error + int) \<times> 'e"

definition resp_fieldOverhead :: int where [simp]: "resp_fieldOverhead = 32"

definition noHeaderListLimit :: int where [simp]: "noHeaderListLimit = -1"

definition ErrHeaderListTooLarge :: error where
  "ErrHeaderListTooLarge = Sentinel ''response: header list exceeds the peer's SETTINGS_MAX_HEADER_LIST_SIZE''"

record encoder =
  en_codec :: codec
  en_maxList :: int

definition NewEncoder :: encoder where
  "NewEncoder = \<lparr>en_codec = NewCodec, en_maxList = noHeaderListLimit\<rparr>"

definition enc_SetMaxDynamicTableSize :: "int \<Rightarrow> encoder \<Rightarrow> encoder" where
  "enc_SetMaxDynamicTableSize n enc = enc\<lparr>en_codec := SetMaxDynamicTableSize n (en_codec enc)\<rparr>"

definition enc_SetMaxHeaderListSize :: "u32 \<Rightarrow> encoder \<Rightarrow> encoder" where
  "enc_SetMaxHeaderListSize n enc = enc\<lparr>en_maxList := uint n\<rparr>"

definition checkListSize :: "field list \<Rightarrow> encoder \<Rightarrow> error option" where
  "checkListSize fs enc =
     (if en_maxList enc = noHeaderListLimit then None
      else if (\<Sum>f\<leftarrow>fs. int (length (Name f)) + int (length (Value f)) + resp_fieldOverhead) > en_maxList enc
      then Some ErrHeaderListTooLarge
      else None)"

definition splitAt :: "u32 \<Rightarrow> nat" where
  "splitAt cap =
     (let max = unat cap in
      if max < unat DefaultMaxFrameSize then unat DefaultMaxFrameSize else max)"

lemma splitAt_pos [simp]: "0 < splitAt cap"
  by (simp add: splitAt_def Let_def)

definition headers_of :: "u32 \<Rightarrow> bool \<Rightarrow> bool \<Rightarrow> byte list \<Rightarrow> frame" where
  "headers_of i endStream endHeaders fragment =
     HeadersFrame \<lparr>hf_StreamID = i, hf_EndStream = endStream, hf_EndHeaders = endHeaders, hf_Fragment = fragment,
       hf_Priority = False, hf_Exclusive = False, hf_StreamDependency = 0, hf_Weight = 0, hf_Padded = False, hf_PadLen = 0\<rparr>"

text \<open>The loop of \<open>writeSection\<close> over the rest of a block; \<open>cap\<close> is the frame cap that \<open>splitAt\<close> read.\<close>

function write_rest :: "'e write_half \<Rightarrow> u32 \<Rightarrow> u32 \<Rightarrow> byte list \<Rightarrow> 'e \<Rightarrow> error option \<times> 'e" where
  "write_rest wh i cap rest e =
     (if length rest > 0 then
        let n = min (length rest) (splitAt cap) in
        case wh_Enqueue wh (ContinuationFrame \<lparr>cf_StreamID = i, cf_EndHeaders = (n = length rest),
                                              cf_Fragment = take n rest\<rparr>) e of
          (Some x, e) \<Rightarrow> (Some x, e)
        | (None, e) \<Rightarrow> write_rest wh i cap (drop n rest) e
      else (None, e))"
  by auto

termination
  by (relation "measure (\<lambda>(wh, i, cap, rest, e). length rest)") (auto simp: min_def)

declare write_rest.simps [simp del]

definition writeSection ::
  "'e write_half \<Rightarrow> u32 \<Rightarrow> field list \<Rightarrow> bool \<Rightarrow> encoder \<times> 'e \<Rightarrow> error option \<times> encoder \<times> 'e" where
  "writeSection wh i fs endStream s =
     (case s of (enc, e) \<Rightarrow>
       (case checkListSize fs enc of
          Some x \<Rightarrow> (Some x, enc, e)
        | None \<Rightarrow>
            (case Codec_Encode (en_codec enc) fs of (block, codec) \<Rightarrow>
              (let enc = enc\<lparr>en_codec := codec\<rparr>;
                   cap = wh_MaxFrameSize wh e;
                   n = min (length block) (splitAt cap)
               in case wh_Enqueue wh (headers_of i endStream (n = length block) (take n block)) e of
                    (Some x, e) \<Rightarrow> (Some x, enc, e)
                  | (None, e) \<Rightarrow> (case write_rest wh i cap (drop n block) e of (r, e) \<Rightarrow> (r, enc, e))))))"

text \<open>A nil identifier is a panic of the caller.\<close>

definition WriteHeaders ::
  "'e write_half \<Rightarrow> u32 \<Rightarrow> field list \<Rightarrow> bool \<Rightarrow> encoder \<times> 'e \<Rightarrow> error option \<times> encoder \<times> 'e" where
  "WriteHeaders wh i fs endStream s =
     (if i = 0 then (Some Panic, s)
      else (case checkSection SectionHeader fs of
              Some x \<Rightarrow> (Some x, s)
            | None \<Rightarrow> writeSection wh i fs endStream s))"

definition WriteTrailers ::
  "'e write_half \<Rightarrow> u32 \<Rightarrow> field list \<Rightarrow> encoder \<times> 'e \<Rightarrow> error option \<times> encoder \<times> 'e" where
  "WriteTrailers wh i fs s =
     (if i = 0 then (Some Panic, s)
      else (case checkSection SectionTrailer fs of
              Some x \<Rightarrow> (Some x, s)
            | None \<Rightarrow> writeSection wh i fs True s))"

subsection \<open>The writer of one response (writer.go)\<close>

definition ErrNoHeader :: error where
  "ErrNoHeader = Sentinel ''response: no header section has been written''"

definition ErrHeaderWritten :: error where
  "ErrHeaderWritten = Sentinel ''response: the header section has already been written''"

definition ErrDone :: error where
  "ErrDone = Sentinel ''response: the response has already been ended''"

definition ErrInformationalEnd :: error where
  "ErrInformationalEnd = Sentinel ''response: an informational response cannot end the stream''"

record resp_writer =
  rw_id :: u32
  rw_wroteHeader :: bool
  rw_closed :: bool

definition resp_NewWriter :: "u32 \<Rightarrow> error + resp_writer" where
  "resp_NewWriter i =
     (if i = 0 then Inl Panic else Inr \<lparr>rw_id = i, rw_wroteHeader = False, rw_closed = False\<rparr>)"

fun informational :: "field list \<Rightarrow> bool" where
  "informational [] = False"
| "informational (f # fs) = (if Name f = pseudoStatus then take 1 (Value f) = ''1'' else informational fs)"

type_synonym 'e resp_state = "resp_writer \<times> encoder \<times> 'e"

definition writeHeader ::
  "'e write_half \<Rightarrow> field list \<Rightarrow> bool \<Rightarrow> 'e resp_state \<Rightarrow> error option \<times> 'e resp_state" where
  "writeHeader wh fs endStream s =
     (case s of (w, s) \<Rightarrow>
       if rw_closed w then (Some ErrDone, w, s)
       else if rw_wroteHeader w then (Some ErrHeaderWritten, w, s)
       else
         (case checkSection SectionHeader fs of
            Some x \<Rightarrow> (Some x, w, s)
          | None \<Rightarrow>
              let interim = informational fs in
              if endStream \<and> interim then (Some ErrInformationalEnd, w, s)
              else
                let w = w\<lparr>rw_wroteHeader := \<not> interim, rw_closed := endStream\<rparr> in
                (case writeSection wh (rw_id w) fs endStream s of (r, s) \<Rightarrow> (r, w, s))))"

definition WriteHeader :: "'e write_half \<Rightarrow> field list \<Rightarrow> 'e resp_state \<Rightarrow> error option \<times> 'e resp_state" where
  "WriteHeader wh fs s = writeHeader wh fs False s"

definition WriteBodylessHeader :: "'e write_half \<Rightarrow> field list \<Rightarrow> 'e resp_state \<Rightarrow> error option \<times> 'e resp_state" where
  "WriteBodylessHeader wh fs s = writeHeader wh fs True s"

definition data_of_body :: "u32 \<Rightarrow> bool \<Rightarrow> byte list \<Rightarrow> frame" where
  "data_of_body i endStream p =
     DataFrame \<lparr>df_StreamID = i, df_EndStream = endStream, df_Data = p, df_Padded = False, df_PadLen = 0\<rparr>"

text \<open>One turn of the loop of \<open>Write\<close>: the count of octets that were sent, or the error. The slice
  \<open>p[:n]\<close> panics when credit grants more than was asked for.\<close>

definition write_chunk :: "'e write_half \<Rightarrow> u32 \<Rightarrow> byte list \<Rightarrow> 'e \<Rightarrow> (error + nat) \<times> 'e" where
  "write_chunk wh i p e =
     (case wh_Reserve wh i (int (min (length p) (splitAt (wh_MaxFrameSize wh e)))) e of
        (Inl x, e) \<Rightarrow> (Inl x, e)
      | (Inr n, e) \<Rightarrow>
          if n < 0 \<or> n > int (length p) then (Inl Panic, e)
          else (case wh_Enqueue wh (data_of_body i False (take (nat n) p)) e of
                  (Some x, e) \<Rightarrow> (Inl x, e)
                | (None, e) \<Rightarrow> (Inr (nat n), e)))"

text \<open>The loop; \<open>None\<close> is a loop that does not end, as when credit grants nothing for ever.\<close>

partial_function (option) Write_loop ::
  "'e write_half \<Rightarrow> u32 \<Rightarrow> byte list \<Rightarrow> nat \<Rightarrow> 'e \<Rightarrow> ((nat \<times> error option) \<times> 'e) option" where
  "Write_loop wh i p sent e =
     (if length p > 0 then
        (case write_chunk wh i p e of
           (Inl x, e) \<Rightarrow> Some ((sent, Some x), e)
         | (Inr n, e) \<Rightarrow> Write_loop wh i (drop n p) (sent + n) e)
      else Some ((sent, None), e))"

declare Write_loop.simps [code]

definition Write :: "'e write_half \<Rightarrow> byte list \<Rightarrow> 'e resp_state \<Rightarrow> ((nat \<times> error option) \<times> 'e resp_state) option" where
  "Write wh p s =
     (case s of (w, enc, e) \<Rightarrow>
       if rw_closed w then Some ((0, Some ErrDone), w, enc, e)
       else if \<not> rw_wroteHeader w then Some ((0, Some ErrNoHeader), w, enc, e)
       else map_option (\<lambda>(r, e). (r, w, enc, e)) (Write_loop wh (rw_id w) p 0 e))"

definition resp_Close :: "'e write_half \<Rightarrow> 'e resp_state \<Rightarrow> error option \<times> 'e resp_state" where
  "resp_Close wh s =
     (case s of (w, enc, e) \<Rightarrow>
       if rw_closed w then (None, w, enc, e)
       else if \<not> rw_wroteHeader w then (Some ErrNoHeader, w, enc, e)
       else
         let w = w\<lparr>rw_closed := True\<rparr> in
         (case wh_Enqueue wh (data_of_body (rw_id w) True []) e of (r, e) \<Rightarrow> (r, w, enc, e)))"

definition Trailers :: "'e write_half \<Rightarrow> field list \<Rightarrow> 'e resp_state \<Rightarrow> error option \<times> 'e resp_state" where
  "Trailers wh fs s =
     (case s of (w, s) \<Rightarrow>
       if rw_closed w then (Some ErrDone, w, s)
       else if \<not> rw_wroteHeader w then (Some ErrNoHeader, w, s)
       else
         (case checkSection SectionTrailer fs of
            Some x \<Rightarrow> (Some x, w, s)
          | None \<Rightarrow>
              let w = w\<lparr>rw_closed := True\<rparr> in
              (case writeSection wh (rw_id w) fs True s of (r, s) \<Rightarrow> (r, w, s))))"

end
