(* ===== verification/Scheduler.thy ===== *)
theory Scheduler
  imports FrameWire Priority
begin

text \<open>
  \<^verbatim>\<open>internal/server/scheduler.go\<close>: the frames that wait to be written on one connection, and the choice
  of the next one. A \<open>*streamQueue\<close> is in one map under one key, and is that entry; a method that
  goes on with a queue that it has taken out of the map has it as an argument. \<open>None\<close> is a panic
  of the Go runtime (a nil map entry, an index out of range). The push counter \<open>seq\<close> is a natural
  number: \<open>2^64\<close> pushes are out of reach.
\<close>

definition numBands :: nat where [simp]: "numBands = MaxUrgency + 1"

definition nonIncrementalTurn :: u32 where [simp]: "nonIncrementalTurn = 0"

record queued =
  qd_f :: frame
  qd_seq :: nat

record lane_item =
  it_frames :: "frame list"
  it_stream :: u32
  it_seq :: nat

record stream_queue =
  sq_data :: "queued list"
  sq_band :: nat
  sq_inc :: bool

record band =
  bn_ring :: "u32 list"
  bn_nonInc :: "u32 list"

record scheduler =
  sc_seq :: nat
  sc_lane :: "lane_item list"
  sc_pinned :: "frame list"
  sc_runs :: "lane_item store"
  sc_streams :: "stream_queue store"
  sc_bands :: "band list"
  sc_prio :: "priority store"
  sc_n :: int
  sc_blocked :: int

definition newScheduler :: scheduler where
  "newScheduler =
     \<lparr>sc_seq = 0, sc_lane = [], sc_pinned = [], sc_runs = [], sc_streams = [],
      sc_bands = replicate numBands \<lparr>bn_ring = [], bn_nonInc = []\<rparr>, sc_prio = [], sc_n = 0, sc_blocked = 0\<rparr>"

definition sched_Len :: "scheduler \<Rightarrow> int" where
  "sched_Len s = sc_n s"

definition ContinuesBlock :: "frame \<Rightarrow> scheduler \<Rightarrow> bool" where
  "ContinuesBlock f s \<longleftrightarrow> Frame_Type f = TypeContinuation \<and> store_get (sc_runs s) (Frame_Stream f) \<noteq> None"

definition MidBlock :: "scheduler \<Rightarrow> bool" where
  "MidBlock s \<longleftrightarrow> length (sc_pinned s) > 0"

definition endsBlock :: "frame \<Rightarrow> bool" where
  "endsBlock f \<longleftrightarrow> Frame_Flags f AND FlagEndHeaders \<noteq> 0"

definition opensBlock :: "frame \<Rightarrow> bool" where
  "opensBlock f \<longleftrightarrow> (if Frame_Type f = TypeHeaders \<or> Frame_Type f = TypePushPromise then \<not> endsBlock f else False)"

fun lowest :: "u32 list \<Rightarrow> u32 option" where
  "lowest [] = None"
| "lowest (i # ids) = Some (foldl min i ids)"

definition rotate_ring :: "u32 list \<Rightarrow> u32 list" where
  "rotate_ring r = (if length r < 2 then r else tl r @ [hd r])"

fun removeID :: "u32 list \<Rightarrow> u32 \<Rightarrow> u32 list" where
  "removeID [] i = []"
| "removeID (j # ids) i = (if j = i then ids else j # removeID ids i)"

text \<open>\<open>removeItem\<close> is only called with index 0: the tail.\<close>

definition on_band :: "nat \<Rightarrow> (band \<Rightarrow> band) \<Rightarrow> scheduler \<Rightarrow> scheduler option" where
  "on_band u g s = (if u < length (sc_bands s) then Some (s\<lparr>sc_bands := (sc_bands s)[u := g (sc_bands s ! u)]\<rparr>) else None)"

definition priority_of :: "scheduler \<Rightarrow> u32 \<Rightarrow> priority" where
  "priority_of s i = (case store_get (sc_prio s) i of None \<Rightarrow> no_priority | Some p \<Rightarrow> p)"

definition enter :: "u32 \<Rightarrow> stream_queue \<Rightarrow> scheduler \<Rightarrow> scheduler option" where
  "enter i q s =
     (let p = priority_of s i;
          q = q\<lparr>sq_band := Urgency p, sq_inc := Incremental p\<rparr>;
          s = s\<lparr>sc_streams := store_put i q (sc_streams s)\<rparr>
      in on_band (sq_band q)
           (\<lambda>b. if sq_inc q then b\<lparr>bn_ring := bn_ring b @ [i]\<rparr>
                else let b = b\<lparr>bn_nonInc := bn_nonInc b @ [i]\<rparr> in
                     if length (bn_nonInc b) = 1 then b\<lparr>bn_ring := bn_ring b @ [nonIncrementalTurn]\<rparr> else b) s)"

definition leave :: "u32 \<Rightarrow> stream_queue \<Rightarrow> scheduler \<Rightarrow> scheduler option" where
  "leave i q s =
     on_band (sq_band q)
       (\<lambda>b. if sq_inc q then b\<lparr>bn_ring := removeID (bn_ring b) i\<rparr>
            else let b = b\<lparr>bn_nonInc := removeID (bn_nonInc b) i\<rparr> in
                 if length (bn_nonInc b) = 0 then b\<lparr>bn_ring := removeID (bn_ring b) nonIncrementalTurn\<rparr> else b) s"

definition SetPriority :: "u32 \<Rightarrow> priority \<Rightarrow> scheduler \<Rightarrow> scheduler option" where
  "SetPriority i p s =
     (if i = nonIncrementalTurn then Some s
      else
        let s = s\<lparr>sc_prio := store_put i p (sc_prio s)\<rparr> in
        case store_get (sc_streams s) i of
          None \<Rightarrow> Some s
        | Some q \<Rightarrow>
            if sq_band q = Urgency p \<and> sq_inc q = Incremental p then Some s
            else (case leave i q s of None \<Rightarrow> None | Some s \<Rightarrow> enter i q s))"

definition sched_Forget :: "u32 \<Rightarrow> scheduler \<Rightarrow> scheduler" where
  "sched_Forget i s = s\<lparr>sc_prio := store_delete i (sc_prio s)\<rparr>"

definition push_data :: "frame \<Rightarrow> scheduler \<Rightarrow> scheduler option" where
  "push_data f s =
     (let i = Frame_Stream f;
          q = (case store_get (sc_streams s) i of None \<Rightarrow> \<lparr>sq_data = [], sq_band = 0, sq_inc = False\<rparr> | Some q \<Rightarrow> q);
          q = q\<lparr>sq_data := sq_data q @ [\<lparr>qd_f = f, qd_seq = sc_seq s\<rparr>]\<rparr>;
          s = s\<lparr>sc_streams := store_put i q (sc_streams s), sc_n := sc_n s + 1\<rparr>
      in if length (sq_data q) = 1 then enter i q s else Some s)"

definition push_other :: "frame \<Rightarrow> scheduler \<Rightarrow> scheduler" where
  "push_other f s =
     (let i = Frame_Stream f in
      case store_get (sc_runs s) i of
        Some r \<Rightarrow>
          (let r = r\<lparr>it_frames := it_frames r @ [f]\<rparr>;
               s = s\<lparr>sc_runs := store_put i r (sc_runs s), sc_blocked := sc_blocked s + 1\<rparr>
           in if endsBlock f then
                s\<lparr>sc_runs := store_delete i (sc_runs s),
                  sc_blocked := sc_blocked s - int (length (it_frames r)),
                  sc_n := sc_n s + int (length (it_frames r)),
                  sc_lane := sc_lane s @ [r]\<rparr>
              else s)
      | None \<Rightarrow>
          if opensBlock f then
            s\<lparr>sc_runs := store_put i \<lparr>it_frames = [f], it_stream = i, it_seq = sc_seq s\<rparr> (sc_runs s),
              sc_blocked := sc_blocked s + 1\<rparr>
          else
            s\<lparr>sc_lane := sc_lane s @ [\<lparr>it_frames = [f], it_stream = i, it_seq = sc_seq s\<rparr>], sc_n := sc_n s + 1\<rparr>)"

definition Push :: "frame \<Rightarrow> scheduler \<Rightarrow> scheduler option" where
  "Push f s =
     (let s = s\<lparr>sc_seq := sc_seq s + 1\<rparr> in
      if Frame_Type f = TypeData \<and> Frame_Stream f \<noteq> nonIncrementalTurn then push_data f s
      else Some (push_other f s))"

definition unpin :: "scheduler \<Rightarrow> (frame \<times> scheduler) option" where
  "unpin s =
     (case sc_pinned s of
        [] \<Rightarrow> None
      | f # fs \<Rightarrow> Some (f, s\<lparr>sc_pinned := fs, sc_n := sc_n s - 1\<rparr>))"

definition take_data :: "u32 \<Rightarrow> stream_queue \<Rightarrow> scheduler \<Rightarrow> (frame \<times> stream_queue \<times> scheduler) option" where
  "take_data i q s =
     (case sq_data q of
        [] \<Rightarrow> None
      | x # xs \<Rightarrow>
          (let q = q\<lparr>sq_data := xs\<rparr>;
               s = s\<lparr>sc_n := sc_n s - 1\<rparr>
           in Some (qd_f x, q,
                s\<lparr>sc_streams := (if length xs = 0 then store_delete i (sc_streams s)
                                 else store_put i q (sc_streams s))\<rparr>)))"

definition outOfTurn :: "u32 \<Rightarrow> stream_queue \<Rightarrow> scheduler \<Rightarrow> (frame \<times> scheduler) option" where
  "outOfTurn i q s =
     (case take_data i q s of
        None \<Rightarrow> None
      | Some (f, q, s) \<Rightarrow>
          if length (sq_data q) = 0 then (case leave i q s of None \<Rightarrow> None | Some s \<Rightarrow> Some (f, s)) else Some (f, s))"

definition serve :: "nat \<Rightarrow> scheduler \<Rightarrow> (frame \<times> scheduler) option" where
  "serve u s =
     (if u \<ge> length (sc_bands s) then None
      else
        (case bn_ring (sc_bands s ! u) of
           [] \<Rightarrow> None
         | turn # _ \<Rightarrow>
             (case (if turn = nonIncrementalTurn then lowest (bn_nonInc (sc_bands s ! u)) else Some turn) of
                None \<Rightarrow> None
              | Some i \<Rightarrow>
                  (case store_get (sc_streams s) i of
                     None \<Rightarrow> None
                   | Some q \<Rightarrow>
                       (case take_data i q s of
                          None \<Rightarrow> None
                        | Some (f, q, s) \<Rightarrow>
                            if length (sq_data q) > 0 then
                              (case on_band u (\<lambda>b. b\<lparr>bn_ring := rotate_ring (bn_ring b)\<rparr>) s of
                                 None \<Rightarrow> None | Some s \<Rightarrow> Some (f, s))
                            else
                              (case leave i q s of
                                 None \<Rightarrow> None
                               | Some s \<Rightarrow>
                                   if turn = nonIncrementalTurn \<and> length (bn_nonInc (sc_bands s ! u)) > 0 then
                                     (case on_band u (\<lambda>b. b\<lparr>bn_ring := rotate_ring (bn_ring b)\<rparr>) s of
                                        None \<Rightarrow> None | Some s \<Rightarrow> Some (f, s))
                                   else Some (f, s)))))))"

fun first_band :: "nat \<Rightarrow> band list \<Rightarrow> nat option" where
  "first_band u [] = None"
| "first_band u (b # bs) = (if length (bn_ring b) > 0 then Some u else first_band (u + 1) bs)"

text \<open>The result of \<open>Pop\<close>: a frame or none, and the scheduler after it.\<close>

definition Pop :: "scheduler \<Rightarrow> (frame option \<times> scheduler) option" where
  "Pop s =
     (if length (sc_pinned s) > 0 then map_option (\<lambda>(f, s). (Some f, s)) (unpin s)
      else
        (case sc_lane s of
           hd_item # rest \<Rightarrow>
             (case store_get (sc_streams s) (it_stream hd_item) of
                Some q \<Rightarrow>
                  (case sq_data q of
                     [] \<Rightarrow> None
                   | x # _ \<Rightarrow>
                       if qd_seq x < it_seq hd_item
                       then map_option (\<lambda>(f, s). (Some f, s)) (outOfTurn (it_stream hd_item) q s)
                       else map_option (\<lambda>(f, s). (Some f, s)) (unpin (s\<lparr>sc_lane := rest, sc_pinned := it_frames hd_item\<rparr>)))
              | None \<Rightarrow> map_option (\<lambda>(f, s). (Some f, s)) (unpin (s\<lparr>sc_lane := rest, sc_pinned := it_frames hd_item\<rparr>)))
         | [] \<Rightarrow>
             (case first_band 0 (sc_bands s) of
                Some u \<Rightarrow> map_option (\<lambda>(f, s). (Some f, s)) (serve u s)
              | None \<Rightarrow> Some (None, s))))"

end
