(* ===== verification/SchedOk.thy ===== *)
theory SchedOk
  imports Scheduler
begin

text \<open>
  The invariant of the scheduler: the rings of the eight bands hold exactly the streams that have DATA
  waiting, each once and in the band and the kind that its queue records; the counts are right; and
  every frame is where its type and stream say. With it no operation panics.
\<close>

subsection \<open>The rings\<close>

text \<open>Where a stream with DATA waits: its band, and whether it is incremental.\<close>

type_synonym places = "u32 \<Rightarrow> (nat \<times> bool) option"

definition band_fits :: "places \<Rightarrow> nat \<Rightarrow> band \<Rightarrow> bool" where
  "band_fits W u b \<longleftrightarrow> distinct (bn_ring b) \<and> distinct (bn_nonInc b) \<and>
     (\<forall>i. i \<noteq> 0 \<longrightarrow> (i \<in> set (bn_ring b) \<longleftrightarrow> W i = Some (u, True))) \<and>
     (\<forall>i. i \<in> set (bn_nonInc b) \<longleftrightarrow> W i = Some (u, False)) \<and>
     (0 \<in> set (bn_ring b) \<longleftrightarrow> bn_nonInc b \<noteq> [])"

definition rings_fit :: "places \<Rightarrow> band list \<Rightarrow> bool" where
  "rings_fit W bs \<longleftrightarrow> length bs = numBands \<and> W 0 = None \<and> (\<forall>u<numBands. band_fits W u (bs ! u))"

definition enter_band :: "u32 \<Rightarrow> bool \<Rightarrow> band \<Rightarrow> band" where
  "enter_band i inc b =
     (if inc then b\<lparr>bn_ring := bn_ring b @ [i]\<rparr>
      else let b = b\<lparr>bn_nonInc := bn_nonInc b @ [i]\<rparr> in
           if length (bn_nonInc b) = 1 then b\<lparr>bn_ring := bn_ring b @ [nonIncrementalTurn]\<rparr> else b)"

definition leave_band :: "u32 \<Rightarrow> bool \<Rightarrow> band \<Rightarrow> band" where
  "leave_band i inc b =
     (if inc then b\<lparr>bn_ring := removeID (bn_ring b) i\<rparr>
      else let b = b\<lparr>bn_nonInc := removeID (bn_nonInc b) i\<rparr> in
           if length (bn_nonInc b) = 0 then b\<lparr>bn_ring := removeID (bn_ring b) nonIncrementalTurn\<rparr> else b)"

definition rotate_band :: "band \<Rightarrow> band" where
  "rotate_band b = b\<lparr>bn_ring := rotate_ring (bn_ring b)\<rparr>"

lemma removeID_remove1 [simp]: "removeID ids i = remove1 i ids"
  by (induction ids) auto

lemma set_rotate_ring [simp]: "set (rotate_ring r) = set r"
  by (cases r) (auto simp: rotate_ring_def)

lemma distinct_rotate_ring [simp]: "distinct (rotate_ring r) = distinct r"
  by (cases r) (auto simp: rotate_ring_def)

lemma enter_band_fits:
  "band_fits W u b \<Longrightarrow> W i = None \<Longrightarrow> i \<noteq> 0 \<Longrightarrow> band_fits (W(i \<mapsto> (u, inc))) u (enter_band i inc b)"
proof -
  assume a: "band_fits W u b" "W i = None" "i \<noteq> 0"
  then have "i \<notin> set (bn_ring b)" "i \<notin> set (bn_nonInc b)" by (auto simp: band_fits_def)
  with a show ?thesis by (cases "bn_nonInc b = []") (auto simp: band_fits_def enter_band_def)
qed

lemma leave_band_fits:
  "band_fits W u b \<Longrightarrow> W i = Some (u, inc) \<Longrightarrow> i \<noteq> 0 \<Longrightarrow> band_fits (W(i := None)) u (leave_band i inc b)"
proof -
  assume a: "band_fits W u b" "W i = Some (u, inc)" "i \<noteq> 0"
  have "remove1 i xs = [] \<Longrightarrow> j \<in> set xs \<Longrightarrow> j = i" for j and xs :: "u32 list"
    by (cases xs) (auto split: if_splits)
  with a show ?thesis by (cases inc) (auto simp: band_fits_def leave_band_def Let_def)
qed

lemma rotate_band_fits: "band_fits W u (rotate_band b) \<longleftrightarrow> band_fits W u b"
  by (simp add: band_fits_def rotate_band_def)

lemma band_fits_other:
  "band_fits W u b \<Longrightarrow> (\<And>j. W' j \<noteq> W j \<Longrightarrow> (\<forall>k. W j \<noteq> Some (u, k)) \<and> (\<forall>k. W' j \<noteq> Some (u, k))) \<Longrightarrow> band_fits W' u b"
  unfolding band_fits_def by (metis (full_types))

lemma enter_fits:
  assumes "rings_fit W bs" "W i = None" "i \<noteq> 0" "u < numBands"
  shows "rings_fit (W(i \<mapsto> (u, inc))) (bs[u := enter_band i inc (bs ! u)])"
  unfolding rings_fit_def
proof (intro conjI allI impI)
  fix v assume v: "v < numBands"
  show "band_fits (W(i \<mapsto> (u, inc))) v (bs[u := enter_band i inc (bs ! u)] ! v)"
  proof (cases "v = u")
    case True
    with assms v show ?thesis by (auto simp: rings_fit_def intro: enter_band_fits)
  next
    case False
    have "band_fits W v (bs ! v)" using assms(1) v by (simp add: rings_fit_def)
    then have "band_fits (W(i \<mapsto> (u, inc))) v (bs ! v)"
      by (rule band_fits_other) (use False assms(2) in \<open>auto split: if_splits\<close>)
    with False show ?thesis by simp
  qed
qed (use assms in \<open>auto simp: rings_fit_def\<close>)

lemma leave_fits:
  assumes "rings_fit W bs" "W i = Some (u, inc)" "i \<noteq> 0" "u < numBands"
  shows "rings_fit (W(i := None)) (bs[u := leave_band i inc (bs ! u)])"
  unfolding rings_fit_def
proof (intro conjI allI impI)
  fix v assume v: "v < numBands"
  show "band_fits (W(i := None)) v (bs[u := leave_band i inc (bs ! u)] ! v)"
  proof (cases "v = u")
    case True
    with assms v show ?thesis by (auto simp: rings_fit_def intro: leave_band_fits)
  next
    case False
    have "band_fits W v (bs ! v)" using assms(1) v by (simp add: rings_fit_def)
    then have "band_fits (W(i := None)) v (bs ! v)"
      by (rule band_fits_other) (use False assms(2) in \<open>auto split: if_splits\<close>)
    with False show ?thesis by simp
  qed
qed (use assms in \<open>auto simp: rings_fit_def\<close>)

lemma rotate_fits: "rings_fit W bs \<Longrightarrow> u < numBands \<Longrightarrow> rings_fit W (bs[u := rotate_band (bs ! u)])"
  by (auto simp: rings_fit_def nth_list_update rotate_band_fits)

subsection \<open>The invariant\<close>

definition places_of :: "scheduler \<Rightarrow> places" where
  "places_of s i = map_option (\<lambda>q. (sq_band q, sq_inc q)) (store_get (sc_streams s) i)"

definition queue_ok :: "nat \<Rightarrow> u32 \<Rightarrow> stream_queue \<Rightarrow> bool" where
  "queue_ok n i q \<longleftrightarrow> i \<noteq> 0 \<and> sq_data q \<noteq> [] \<and> sq_band q < numBands \<and> sorted_wrt (<) (map qd_seq (sq_data q)) \<and>
     list_all (\<lambda>x. Frame_Type (qd_f x) = TypeData \<and> Frame_Stream (qd_f x) = i \<and> qd_seq x \<le> n) (sq_data q)"

definition run_ok :: "nat \<Rightarrow> u32 \<Rightarrow> lane_item \<Rightarrow> bool" where
  "run_ok n i r \<longleftrightarrow> it_stream r = i \<and> it_frames r \<noteq> [] \<and> list_all (\<lambda>f. Frame_Stream f = i) (it_frames r) \<and> it_seq r \<le> n"

definition frames_in :: "('a \<Rightarrow> 'b list) \<Rightarrow> 'a store \<Rightarrow> int" where
  "frames_in g m = (\<Sum>x\<leftarrow>m. int (length (g (snd x))))"

definition sched_ok :: "scheduler \<Rightarrow> bool" where
  "sched_ok s \<longleftrightarrow> rings_fit (places_of s) (sc_bands s) \<and>
     store_ok (sc_streams s) \<and> all_entries (queue_ok (sc_seq s)) (sc_streams s) \<and>
     store_ok (sc_runs s) \<and> all_entries (run_ok (sc_seq s)) (sc_runs s) \<and>
     list_all (\<lambda>r. run_ok (sc_seq s) (it_stream r) r) (sc_lane s) \<and>
     all_entries (\<lambda>_. priority_ok) (sc_prio s) \<and>
     sc_n s = int (length (sc_pinned s)) + (\<Sum>r\<leftarrow>sc_lane s. int (length (it_frames r))) + frames_in sq_data (sc_streams s) \<and>
     sc_blocked s = frames_in it_frames (sc_runs s)"

text \<open>\<open>frames_in\<close> under the store operations.\<close>

lemma frames_in_put:
  "store_ok m \<Longrightarrow> frames_in g (store_put k v m) =
     frames_in g m + int (length (g v)) - (case store_get m k of None \<Rightarrow> 0 | Some w \<Rightarrow> int (length (g w)))"
  unfolding frames_in_def store_ok_def by (induction m) (auto split: option.split)

lemma frames_in_delete:
  "store_ok m \<Longrightarrow> frames_in g (store_delete k m) =
     frames_in g m - (case store_get m k of None \<Rightarrow> 0 | Some w \<Rightarrow> int (length (g w)))"
  unfolding frames_in_def store_ok_def
proof (induction m)
  case (Cons x m)
  then show ?case
    by (cases "fst x = k") (auto simp: delete_id split: option.split dest: map_of_SomeD)
qed simp

lemma frames_in_nonneg [simp]: "0 \<le> frames_in g m"
  unfolding frames_in_def by (intro sum_list_nonneg) auto

lemma newScheduler_ok: "sched_ok newScheduler"
  by (auto simp: sched_ok_def newScheduler_def rings_fit_def band_fits_def places_of_def frames_in_def nth_Cons'
      simp del: replicate.simps)

subsection \<open>The operations keep it\<close>

lemma sched_okD:
  assumes "sched_ok s"
  shows "rings_fit (places_of s) (sc_bands s)" "store_ok (sc_streams s)" "store_ok (sc_runs s)"
    "\<And>i q. store_get (sc_streams s) i = Some q \<Longrightarrow> queue_ok (sc_seq s) i q"
    "\<And>i r. store_get (sc_runs s) i = Some r \<Longrightarrow> run_ok (sc_seq s) i r"
    "\<And>r. r \<in> set (sc_lane s) \<Longrightarrow> run_ok (sc_seq s) (it_stream r) r"
    "length (sc_bands s) = numBands"
  using assms by (auto simp: sched_ok_def all_entries_def list_all_iff rings_fit_def)

lemma queue_ok_mono: "queue_ok n i q \<Longrightarrow> n \<le> m \<Longrightarrow> queue_ok m i q"
  by (auto simp: queue_ok_def list_all_iff)

lemma run_ok_mono: "run_ok n i r \<Longrightarrow> n \<le> m \<Longrightarrow> run_ok m i r"
  by (auto simp: run_ok_def)

lemma sched_ok_tick: "sched_ok s \<Longrightarrow> sched_ok (s\<lparr>sc_seq := Suc (sc_seq s)\<rparr>)"
  by (auto simp: sched_ok_def places_of_def [abs_def] list_all_iff
      elim!: all_entries_mono intro: queue_ok_mono run_ok_mono)

lemma priority_of_ok: "sched_ok s \<Longrightarrow> priority_ok (priority_of s i)"
  by (auto simp: sched_ok_def priority_of_def all_entries_def split: option.split)

lemma on_band_Some: "u < length (sc_bands s) \<Longrightarrow> on_band u g s = Some (s\<lparr>sc_bands := (sc_bands s)[u := g (sc_bands s ! u)]\<rparr>)"
  by (simp add: on_band_def)

lemma enter_Some:
  assumes "Urgency (priority_of s i) < length (sc_bands s)"
  shows "enter i q s = Some (s\<lparr>sc_streams := store_put i (q\<lparr>sq_band := Urgency (priority_of s i), sq_inc := Incremental (priority_of s i)\<rparr>) (sc_streams s),
     sc_bands := (sc_bands s)[Urgency (priority_of s i) :=
       enter_band i (Incremental (priority_of s i)) (sc_bands s ! Urgency (priority_of s i))]\<rparr>)"
  using assms by (simp add: enter_def Let_def on_band_Some enter_band_def)

lemma leave_Some:
  assumes "sq_band q < length (sc_bands s)"
  shows "leave i q s = Some (s\<lparr>sc_bands := (sc_bands s)[sq_band q := leave_band i (sq_inc q) (sc_bands s ! sq_band q)]\<rparr>)"
  using assms by (simp add: leave_def on_band_Some leave_band_def)

lemma places_put:
  "places_of (s\<lparr>sc_streams := store_put i q m\<rparr>) = (places_of (s\<lparr>sc_streams := m\<rparr>))(i \<mapsto> (sq_band q, sq_inc q))"
  by (auto simp: places_of_def fun_eq_iff)

lemma places_delete: "places_of (s\<lparr>sc_streams := store_delete i m\<rparr>) = (places_of (s\<lparr>sc_streams := m\<rparr>))(i := None)"
  by (auto simp: places_of_def fun_eq_iff)

lemma places_frame [simp]:
  "places_of (s\<lparr>sc_bands := x1\<rparr>) = places_of s" "places_of (s\<lparr>sc_n := x2\<rparr>) = places_of s"
  "places_of (s\<lparr>sc_seq := x3\<rparr>) = places_of s" "places_of (s\<lparr>sc_lane := x4\<rparr>) = places_of s"
  "places_of (s\<lparr>sc_pinned := x5\<rparr>) = places_of s" "places_of (s\<lparr>sc_runs := x6\<rparr>) = places_of s"
  "places_of (s\<lparr>sc_prio := x7\<rparr>) = places_of s" "places_of (s\<lparr>sc_blocked := x8\<rparr>) = places_of s"
  by (simp_all add: places_of_def [abs_def])

lemma sched_Forget_ok: "sched_ok s \<Longrightarrow> sched_ok (sched_Forget i s)"
  by (simp add: sched_ok_def sched_Forget_def)

lemma band_less: "priority_ok p \<Longrightarrow> Urgency p < numBands"
  using Urgency_le [of p] by simp

lemma SetPriority_ok:
  assumes "sched_ok s" "priority_ok p"
  shows "\<exists>s'. SetPriority i p s = Some s' \<and> sched_ok s' \<and>
    (\<forall>j. map_option sq_data (store_get (sc_streams s') j) = map_option sq_data (store_get (sc_streams s) j)) \<and>
    sc_lane s' = sc_lane s \<and> sc_pinned s' = sc_pinned s \<and> sc_runs s' = sc_runs s \<and> sc_n s' = sc_n s \<and> sc_seq s' = sc_seq s"
proof (cases "i = 0")
  case True
  with assms show ?thesis by (simp add: SetPriority_def)
next
  case i: False
  let ?s = "s\<lparr>sc_prio := store_put i p (sc_prio s)\<rparr>"
  have ok: "sched_ok ?s" using assms by (simp add: sched_ok_def)
  show ?thesis
  proof (cases "store_get (sc_streams s) i")
    case None
    with ok i show ?thesis by (simp add: SetPriority_def)
  next
    case (Some q)
    let ?q = "q\<lparr>sq_band := Urgency p, sq_inc := Incremental p\<rparr>"
    let ?l = "(sc_bands s)[sq_band q := leave_band i (sq_inc q) (sc_bands s ! sq_band q)]"
    have q: "queue_ok (sc_seq s) i q" using sched_okD(4) [OF assms(1) Some] .
    then have b: "sq_band q < numBands" by (simp add: queue_ok_def)
    have len: "length (sc_bands s) = numBands" using sched_okD(7) [OF assms(1)] .
    have l: "rings_fit ((places_of s)(i := None)) ?l"
      by (rule leave_fits) (use sched_okD(1) [OF assms(1)] Some i b in \<open>auto simp: places_of_def\<close>)
    have e: "rings_fit ((places_of s)(i \<mapsto> (Urgency p, Incremental p)))
        (?l[Urgency p := enter_band i (Incremental p) (?l ! Urgency p)])"
      using enter_fits [OF l _ i band_less [OF assms(2)]] by simp
    show ?thesis
    proof (cases "sq_band q = Urgency p \<and> sq_inc q = Incremental p")
      case True
      with ok i Some show ?thesis by (simp add: SetPriority_def)
    next
      case False
      have p: "priority_of (?s\<lparr>sc_bands := ?l\<rparr>) i = p" by (simp add: priority_of_def)
      have "SetPriority i p s = Some (?s\<lparr>sc_streams := store_put i ?q (sc_streams s),
          sc_bands := ?l[Urgency p := enter_band i (Incremental p) (?l ! Urgency p)]\<rparr>)"
        using False i Some b len band_less [OF assms(2)] p
        by (cases "sq_band q = Urgency p") (simp_all add: SetPriority_def leave_Some enter_Some Let_def del: numBands_def)
      moreover have "queue_ok (sc_seq s) i ?q" using q band_less [OF assms(2)] by (simp add: queue_ok_def)
      ultimately show ?thesis
        using ok e sched_okD(2) [OF assms(1)] Some
        by (simp add: sched_ok_def places_put frames_in_put)
    qed
  qed
qed

lemma push_data_ok:
  assumes "sched_ok s" "Frame_Type f = TypeData" "Frame_Stream f \<noteq> 0"
    "\<And>q. store_get (sc_streams s) (Frame_Stream f) = Some q \<Longrightarrow> list_all (\<lambda>x. qd_seq x < sc_seq s) (sq_data q)"
  shows "\<exists>s'. push_data f s = Some s' \<and> sched_ok s' \<and>
    map_option sq_data (store_get (sc_streams s') (Frame_Stream f)) =
      Some ((case store_get (sc_streams s) (Frame_Stream f) of None \<Rightarrow> [] | Some q \<Rightarrow> sq_data q) @
            [\<lparr>qd_f = f, qd_seq = sc_seq s\<rparr>]) \<and>
    (\<forall>j. j \<noteq> Frame_Stream f \<longrightarrow> store_get (sc_streams s') j = store_get (sc_streams s) j) \<and>
    sc_lane s' = sc_lane s \<and> sc_pinned s' = sc_pinned s \<and> sc_runs s' = sc_runs s \<and> sc_seq s' = sc_seq s"
proof (cases "store_get (sc_streams s) (Frame_Stream f)")
  case None
  let ?i = "Frame_Stream f"
  let ?x = "\<lparr>qd_f = f, qd_seq = sc_seq s\<rparr>"
  let ?q = "\<lparr>sq_data = [?x], sq_band = 0, sq_inc = False\<rparr>"
  let ?s = "s\<lparr>sc_streams := store_put ?i ?q (sc_streams s), sc_n := sc_n s + 1\<rparr>"
  let ?p = "priority_of s ?i"
  have p: "priority_of ?s ?i = ?p" by (simp add: priority_of_def)
  have b: "Urgency ?p < numBands" using band_less [OF priority_of_ok [OF assms(1)]] .
  have len: "length (sc_bands s) = numBands" using sched_okD(7) [OF assms(1)] .
  have "enter ?i ?q ?s = Some (?s\<lparr>sc_streams := store_put ?i (?q\<lparr>sq_band := Urgency ?p, sq_inc := Incremental ?p\<rparr>) (sc_streams s),
     sc_bands := (sc_bands s)[Urgency ?p := enter_band ?i (Incremental ?p) (sc_bands s ! Urgency ?p)]\<rparr>)"
    using enter_Some [of ?s ?i ?q] b len p by (simp del: numBands_def)
  moreover have "rings_fit ((places_of s)(?i \<mapsto> (Urgency ?p, Incremental ?p)))
     ((sc_bands s)[Urgency ?p := enter_band ?i (Incremental ?p) (sc_bands s ! Urgency ?p)])"
    by (rule enter_fits) (use sched_okD(1) [OF assms(1)] None assms(3) b in \<open>auto simp: places_of_def\<close>)
  ultimately show ?thesis
    using assms None b sched_okD(2) [OF assms(1)]
    by (auto simp: push_data_def Let_def sched_ok_def places_put frames_in_put queue_ok_def)
next
  case (Some q)
  let ?i = "Frame_Stream f"
  have "queue_ok (sc_seq s) ?i q" using sched_okD(4) [OF assms(1) Some] .
  with assms Some sched_okD(2) [OF assms(1)] show ?thesis
    by (auto simp: push_data_def Let_def sched_ok_def places_put frames_in_put queue_ok_def sorted_wrt_append
        list_all_iff places_of_def fun_upd_idem)
qed

lemma push_other_ok:
  assumes "sched_ok s"
  shows "sched_ok (push_other f s)"
proof (cases "store_get (sc_runs s) (Frame_Stream f)")
  case None
  with assms sched_okD(3) [OF assms] show ?thesis
    by (simp add: push_other_def Let_def sched_ok_def run_ok_def frames_in_put)
next
  case (Some r)
  let ?r = "r\<lparr>it_frames := it_frames r @ [f]\<rparr>"
  have "run_ok (sc_seq s) (Frame_Stream f) r" using sched_okD(5) [OF assms Some] .
  then have r: "run_ok (sc_seq s) (Frame_Stream f) ?r" "it_stream ?r = Frame_Stream f" by (simp_all add: run_ok_def)
  with assms Some sched_okD(3) [OF assms] show ?thesis
    by (simp add: push_other_def Let_def sched_ok_def frames_in_put frames_in_delete)
qed

subsection \<open>Taking DATA\<close>

definition data_of :: "scheduler \<Rightarrow> u32 \<Rightarrow> queued list" where
  "data_of s i = (case store_get (sc_streams s) i of None \<Rightarrow> [] | Some q \<Rightarrow> sq_data q)"

text \<open>What taking a frame from a stream's queue leaves alone.\<close>

definition took :: "u32 \<Rightarrow> scheduler \<Rightarrow> scheduler \<Rightarrow> bool" where
  "took i s s' \<longleftrightarrow> data_of s' i = tl (data_of s i) \<and> (\<forall>j. j \<noteq> i \<longrightarrow> data_of s' j = data_of s j) \<and>
     sc_lane s' = sc_lane s \<and> sc_pinned s' = sc_pinned s \<and> sc_runs s' = sc_runs s \<and> sc_n s' = sc_n s - 1 \<and>
     sc_seq s' = sc_seq s \<and> sc_prio s' = sc_prio s \<and>
     (\<forall>j x. places_of s' j = Some x \<longrightarrow> places_of s j = Some x)"

lemma queue_ok_tl: "queue_ok n i q \<Longrightarrow> tl (sq_data q) \<noteq> [] \<Longrightarrow> queue_ok n i (q\<lparr>sq_data := tl (sq_data q)\<rparr>)"
  by (cases "sq_data q") (auto simp: queue_ok_def)

lemma take_data_Some:
  "sq_data q \<noteq> [] \<Longrightarrow> take_data i q s =
    Some (qd_f (hd (sq_data q)), q\<lparr>sq_data := tl (sq_data q)\<rparr>,
      s\<lparr>sc_n := sc_n s - 1, sc_streams := (if tl (sq_data q) = [] then store_delete i (sc_streams s)
         else store_put i (q\<lparr>sq_data := tl (sq_data q)\<rparr>) (sc_streams s))\<rparr>)"
  by (cases "sq_data q") (simp_all add: take_data_def Let_def)

lemma take_more_ok:
  assumes "sched_ok s" "store_get (sc_streams s) i = Some q" "tl (sq_data q) \<noteq> []"
  shows "\<exists>s'. take_data i q s = Some (qd_f (hd (sq_data q)), q\<lparr>sq_data := tl (sq_data q)\<rparr>, s') \<and> sched_ok s' \<and>
    took i s s' \<and> sc_bands s' = sc_bands s \<and> places_of s' = places_of s"
proof -
  have q: "queue_ok (sc_seq s) i q" "sq_data q \<noteq> []" using assms sched_okD(4) by (auto simp: queue_ok_def)
  let ?s = "s\<lparr>sc_n := sc_n s - 1, sc_streams := store_put i (q\<lparr>sq_data := tl (sq_data q)\<rparr>) (sc_streams s)\<rparr>"
  have p: "places_of (s\<lparr>sc_n := n, sc_streams := store_put i (q\<lparr>sq_data := xs\<rparr>) (sc_streams s)\<rparr>) = places_of s" for n xs
    using assms(2) by (auto simp: places_put places_of_def fun_eq_iff)
  have "sched_ok ?s"
    using assms queue_ok_tl [OF q(1) assms(3)] q(2) sched_okD(2) [OF assms(1)]
    by (cases "sq_data q") (simp_all add: sched_ok_def p frames_in_put)
  moreover have "took i s ?s" using assms(2) by (simp add: took_def data_of_def p)
  ultimately show ?thesis using p assms(3) by (simp add: take_data_Some q)
qed

lemma take_last_ok:
  assumes "sched_ok s" "store_get (sc_streams s) i = Some q" "tl (sq_data q) = []"
  shows "\<exists>s1 s'. take_data i q s = Some (qd_f (hd (sq_data q)), q\<lparr>sq_data := []\<rparr>, s1) \<and>
    leave i (q\<lparr>sq_data := []\<rparr>) s1 = Some s' \<and> sched_ok s' \<and> took i s s' \<and>
    sc_bands s' = (sc_bands s)[sq_band q := leave_band i (sq_inc q) (sc_bands s ! sq_band q)]"
proof -
  have q: "queue_ok (sc_seq s) i q" "sq_data q \<noteq> []" "sq_band q < numBands" "i \<noteq> 0" using assms sched_okD(4) by (auto simp: queue_ok_def)
  let ?s = "s\<lparr>sc_n := sc_n s - 1, sc_streams := store_delete i (sc_streams s)\<rparr>"
  let ?b = "(sc_bands s)[sq_band q := leave_band i (sq_inc q) (sc_bands s ! sq_band q)]"
  have l: "leave i (q\<lparr>sq_data := []\<rparr>) ?s = Some (?s\<lparr>sc_bands := ?b\<rparr>)"
    using leave_Some [of "q\<lparr>sq_data := []\<rparr>" ?s i] q(3) sched_okD(7) [OF assms(1)] by simp
  have "rings_fit ((places_of s)(i := None)) ?b"
    by (rule leave_fits) (use sched_okD(1) [OF assms(1)] assms(2) q in \<open>auto simp: places_of_def\<close>)
  then have "sched_ok (?s\<lparr>sc_bands := ?b\<rparr>)"
    using assms q(2) sched_okD(2) [OF assms(1)]
    by (cases "sq_data q") (simp_all add: sched_ok_def places_delete frames_in_delete)
  moreover have "took i s (?s\<lparr>sc_bands := ?b\<rparr>)" using assms(2,3) by (simp add: took_def data_of_def places_of_def)
  ultimately show ?thesis using l assms(3) by (simp add: take_data_Some q)
qed

lemma outOfTurn_ok:
  assumes "sched_ok s" "store_get (sc_streams s) i = Some q"
  shows "\<exists>s'. outOfTurn i q s = Some (qd_f (hd (sq_data q)), s') \<and> sched_ok s' \<and> took i s s'"
proof (cases "tl (sq_data q) = []")
  case True
  from take_last_ok [OF assms this] show ?thesis by (auto simp: outOfTurn_def)
next
  case False
  from take_more_ok [OF assms this] False show ?thesis by (auto simp: outOfTurn_def)
qed

text \<open>The stream that a band serves: the one at the front of the ring, or the lowest of the group.\<close>

definition served :: "nat \<Rightarrow> u32 \<Rightarrow> scheduler \<Rightarrow> bool" where
  "served u i s \<longleftrightarrow> bn_ring (sc_bands s ! u) \<noteq> [] \<and>
     (if hd (bn_ring (sc_bands s ! u)) = 0 then i \<in> set (bn_nonInc (sc_bands s ! u)) \<and>
        (\<forall>j\<in>set (bn_nonInc (sc_bands s ! u)). i \<le> j)
      else i = hd (bn_ring (sc_bands s ! u)))"

lemma lowest_Some: "ids \<noteq> [] \<Longrightarrow> \<exists>i. lowest ids = Some i \<and> i \<in> set ids \<and> (\<forall>j\<in>set ids. i \<le> j)"
proof (cases ids)
  case (Cons i0 ids0)
  have "foldl min a ids0 \<in> insert a (set ids0) \<and> (\<forall>j\<in>insert a (set ids0). foldl min a ids0 \<le> j)" for a :: u32
  proof (induction ids0 arbitrary: a)
    case (Cons b bs)
    from Cons.IH [of "min a b"] show ?case by (auto simp: min_def split: if_splits)
  qed simp
  from this [of i0] Cons show ?thesis by auto
qed simp

definition advanced :: "nat \<Rightarrow> scheduler \<Rightarrow> scheduler \<Rightarrow> bool" where
  "advanced u s s' \<longleftrightarrow>
     (bn_ring (sc_bands s' ! u) = rotate_ring (bn_ring (sc_bands s ! u)) \<or>
      bn_ring (sc_bands s' ! u) = tl (bn_ring (sc_bands s ! u))) \<and>
     (\<forall>v. v \<noteq> u \<longrightarrow> sc_bands s' ! v = sc_bands s ! v)"

lemma took_bands [simp]: "took i s (s'\<lparr>sc_bands := bs\<rparr>) \<longleftrightarrow> took i s s'"
  by (simp add: took_def data_of_def)

lemma rotate_ok: "sched_ok s \<Longrightarrow> u < numBands \<Longrightarrow> sched_ok (s\<lparr>sc_bands := (sc_bands s)[u := rotate_band (sc_bands s ! u)]\<rparr>)"
  using rotate_fits [of "places_of s" "sc_bands s" u] by (simp add: sched_ok_def)

lemma rotate_Some: "u < length (sc_bands s) \<Longrightarrow> on_band u (\<lambda>b. b\<lparr>bn_ring := rotate_ring (bn_ring b)\<rparr>) s =
    Some (s\<lparr>sc_bands := (sc_bands s)[u := rotate_band (sc_bands s ! u)]\<rparr>)"
  by (simp add: on_band_Some rotate_band_def)

lemma serve_ok:
  assumes "sched_ok s" "u < numBands" "bn_ring (sc_bands s ! u) \<noteq> []"
  shows "\<exists>i q s'. served u i s \<and> store_get (sc_streams s) i = Some q \<and> sq_band q = u \<and>
    serve u s = Some (qd_f (hd (sq_data q)), s') \<and> sched_ok s' \<and> took i s s' \<and> advanced u s s'"
proof -
  let ?b = "sc_bands s ! u"
  obtain turn rest where ring: "bn_ring ?b = turn # rest" using assms(3) by (cases "bn_ring ?b") auto
  have fits: "band_fits (places_of s) u ?b" using sched_okD(1) [OF assms(1)] assms(2) by (simp add: rings_fit_def)
  have len: "length (sc_bands s) = numBands" using sched_okD(7) [OF assms(1)] .
  have "\<exists>i. (if turn = 0 then lowest (bn_nonInc ?b) else Some turn) = Some i \<and> served u i s \<and>
     places_of s i = Some (u, turn \<noteq> 0)"
  proof (cases "turn = 0")
    case True
    then have "bn_nonInc ?b \<noteq> []" using fits ring by (auto simp: band_fits_def)
    from lowest_Some [OF this] True fits ring show ?thesis by (auto simp: served_def band_fits_def)
  next
    case False
    with fits ring show ?thesis by (auto simp: served_def band_fits_def)
  qed
  then obtain i where i: "(if turn = 0 then lowest (bn_nonInc ?b) else Some turn) = Some i" "served u i s"
    "places_of s i = Some (u, turn \<noteq> 0)" by blast
  then obtain q where q: "store_get (sc_streams s) i = Some q" "sq_band q = u" "sq_inc q \<longleftrightarrow> turn \<noteq> 0"
    by (auto simp: places_of_def)
  have picked: "(if turn = nonIncrementalTurn then lowest (bn_nonInc ?b) else Some turn) = Some i" using i(1) by simp
  show ?thesis
  proof (cases "tl (sq_data q) = []")
    case False
    obtain s1 where s1: "take_data i q s = Some (qd_f (hd (sq_data q)), q\<lparr>sq_data := tl (sq_data q)\<rparr>, s1)" "sched_ok s1"
      "took i s s1" "sc_bands s1 = sc_bands s"
      using take_more_ok [OF assms(1) q(1) False] by blast
    have "serve u s = Some (qd_f (hd (sq_data q)), s1\<lparr>sc_bands := (sc_bands s1)[u := rotate_band (sc_bands s1 ! u)]\<rparr>)"
      using assms(2) len ring picked q(1) s1(1,4) False by (simp add: serve_def rotate_Some del: nonIncrementalTurn_def)
    moreover have "advanced u s (s1\<lparr>sc_bands := (sc_bands s1)[u := rotate_band (sc_bands s1 ! u)]\<rparr>)"
      using s1(4) assms(2) len by (simp add: advanced_def rotate_band_def)
    ultimately show ?thesis using i(2) q rotate_ok [OF s1(2) assms(2)] s1(3) by auto
  next
    case True
    obtain s1 s2 where s1: "take_data i q s = Some (qd_f (hd (sq_data q)), q\<lparr>sq_data := []\<rparr>, s1)"
      "leave i (q\<lparr>sq_data := []\<rparr>) s1 = Some s2" "sched_ok s2" "took i s s2"
      "sc_bands s2 = (sc_bands s)[u := leave_band i (sq_inc q) ?b]"
      using take_last_ok [OF assms(1) q(1) True] q(2) by auto
    have b2: "sc_bands s2 ! u = leave_band i (sq_inc q) ?b" "length (sc_bands s2) = numBands"
      using s1(5) assms(2) len by simp_all
    show ?thesis
    proof (cases "turn = 0 \<and> bn_nonInc (sc_bands s2 ! u) \<noteq> []")
      case again: True
      have "serve u s = Some (qd_f (hd (sq_data q)), s2\<lparr>sc_bands := (sc_bands s2)[u := rotate_band (sc_bands s2 ! u)]\<rparr>)"
        using assms(2) len ring picked q(1) s1(1,2) b2(2) again i(1) by (simp add: serve_def rotate_Some)
      moreover have "advanced u s (s2\<lparr>sc_bands := (sc_bands s2)[u := rotate_band (sc_bands s2 ! u)]\<rparr>)"
        using s1(5) b2 assms(2) len again q(3)
        by (auto simp: advanced_def rotate_band_def leave_band_def Let_def split: if_splits)
      ultimately show ?thesis using i(2) q rotate_ok [OF s1(3) assms(2)] s1(4) by auto
    next
      case stop: False
      have "serve u s = Some (qd_f (hd (sq_data q)), s2)"
        using assms(2) len ring picked q(1) s1(1,2) stop by (auto simp: serve_def simp del: nonIncrementalTurn_def) simp_all
      moreover have "advanced u s s2"
        using s1(5) b2 assms(2) len stop q(3) ring i(1)
        by (auto simp: advanced_def leave_band_def Let_def nth_list_update split: if_splits)
      ultimately show ?thesis using i(2) q s1(3,4) by auto
    qed
  qed
qed

lemma first_band_Some:
  "first_band k bs = Some u \<Longrightarrow> k \<le> u \<and> u < k + length bs \<and> bn_ring (bs ! (u - k)) \<noteq> [] \<and> (\<forall>v<u - k. bn_ring (bs ! v) = [])"
proof (induction k bs rule: first_band.induct)
  case (2 k b bs)
  show ?case
  proof (cases "bn_ring b = []")
    case True
    with 2 have "k + 1 \<le> u \<and> u < k + 1 + length bs \<and> bn_ring (bs ! (u - (k + 1))) \<noteq> [] \<and> (\<forall>v<u - (k + 1). bn_ring (bs ! v) = [])"
      by simp
    with True show ?thesis by (auto simp: nth_Cons' Suc_diff_le)
  qed (use 2 in auto)
qed simp

lemma first_band_None: "first_band k bs = None \<Longrightarrow> b \<in> set bs \<Longrightarrow> bn_ring b = []"
  by (induction k bs rule: first_band.induct) (auto split: if_splits)

end
