(* ===== verification/SchedOrder.thy ===== *)
theory SchedOrder
  imports SchedOk
begin

text \<open>
  What the scheduler promises to the goroutines that write frames and to the peer that reads them:
  it is a set of queues, one per stream, of which \<open>Pop\<close> takes the front of some queue, and a field
  block is never interrupted.
\<close>

subsection \<open>The branches of \<open>Pop\<close>\<close>

lemma Pop_cases [consumes 1, case_names none pinned item forced data]:
  assumes "sched_ok s"
  obtains
    (none) "Pop s = Some (None, s)" "sc_pinned s = []" "sc_lane s = []" "\<And>i. data_of s i = []" "sc_n s = 0"
  | (pinned) f fs where "sc_pinned s = f # fs" "Pop s = Some (Some f, s\<lparr>sc_pinned := fs, sc_n := sc_n s - 1\<rparr>)"
  | (item) it rest f fs where "sc_pinned s = []" "sc_lane s = it # rest" "it_frames it = f # fs"
      "\<And>x. x \<in> set (data_of s (it_stream it)) \<Longrightarrow> it_seq it \<le> qd_seq x"
      "Pop s = Some (Some f, s\<lparr>sc_lane := rest, sc_pinned := fs, sc_n := sc_n s - 1\<rparr>)"
  | (forced) it rest x xs s' where "sc_pinned s = []" "sc_lane s = it # rest" "data_of s (it_stream it) = x # xs"
      "qd_seq x < it_seq it" "Pop s = Some (Some (qd_f x), s')" "took (it_stream it) s s'" "sched_ok s'"
  | (data) u i q s' where "sc_pinned s = []" "sc_lane s = []" "first_band 0 (sc_bands s) = Some u" "served u i s"
      "store_get (sc_streams s) i = Some q" "sq_band q = u" "Pop s = Some (Some (qd_f (hd (sq_data q))), s')"
      "sched_ok s'" "took i s s'" "advanced u s s'"
proof (cases "sc_pinned s")
  case (Cons f fs)
  then show ?thesis using pinned by (simp add: Pop_def unpin_def)
next
  case p: Nil
  show ?thesis
  proof (cases "sc_lane s")
    case (Cons it rest)
    have "run_ok (sc_seq s) (it_stream it) it" using sched_okD(6) [OF assms] Cons by simp
    then obtain f fs where fr: "it_frames it = f # fs" by (cases "it_frames it") (auto simp: run_ok_def)
    show ?thesis
    proof (cases "store_get (sc_streams s) (it_stream it)")
      case None
      with p Cons fr item [of it rest f fs] show ?thesis by (simp add: Pop_def unpin_def data_of_def)
    next
      case (Some q)
      have q: "queue_ok (sc_seq s) (it_stream it) q" using sched_okD(4) [OF assms Some] .
      then obtain x xs where d: "sq_data q = x # xs" by (cases "sq_data q") (auto simp: queue_ok_def)
      show ?thesis
      proof (cases "qd_seq x < it_seq it")
        case True
        obtain s' where "outOfTurn (it_stream it) q s = Some (qd_f x, s')" "sched_ok s'" "took (it_stream it) s s'"
          using outOfTurn_ok [OF assms Some] d by auto
        with p Cons Some d True forced [of it rest x xs s'] show ?thesis by (simp add: Pop_def data_of_def)
      next
        case False
        have "it_seq it \<le> qd_seq y" if "y \<in> set (x # xs)" for y
          using q d False that by (auto simp: queue_ok_def)
        with p Cons fr Some d False item [of it rest f fs] show ?thesis by (simp add: Pop_def unpin_def data_of_def)
      qed
    qed
  next
    case l: Nil
    show ?thesis
    proof (cases "first_band 0 (sc_bands s)")
      case None
      then have ring: "bn_ring (sc_bands s ! u) = []" if "u < numBands" for u
        using first_band_None [OF None, of "sc_bands s ! u"] that sched_okD(7) [OF assms] by simp
      have str: "store_get (sc_streams s) i = None" for i
      proof (rule ccontr)
        assume "store_get (sc_streams s) i \<noteq> None"
        then obtain q where q: "store_get (sc_streams s) i = Some q" by auto
        then have b: "sq_band q < numBands" "i \<noteq> 0" using sched_okD(4) [OF assms q] by (simp_all add: queue_ok_def)
        have "band_fits (places_of s) (sq_band q) (sc_bands s ! sq_band q)"
          using sched_okD(1) [OF assms] b(1) by (simp add: rings_fit_def)
        with ring [OF b(1)] q b(2) show False
          by (cases "sq_inc q") (auto simp: band_fits_def places_of_def)
      qed
      then have e: "sc_streams s = []" by (metis list.exhaust map_of_eq_empty_iff ext)
      have "sc_n s = 0" using assms p l e by (simp add: sched_ok_def frames_in_def)
      with None p l str none show ?thesis by (simp add: Pop_def data_of_def)
    next
      case (Some u)
      have "u < numBands" "bn_ring (sc_bands s ! u) \<noteq> []"
        using first_band_Some [OF Some] sched_okD(7) [OF assms] by simp_all
      from serve_ok [OF assms this] p l Some data show ?thesis by (auto simp: Pop_def)
    qed
  qed
qed

lemma sched_ok_pinned:
  "sched_ok s \<Longrightarrow> sc_pinned s = f # fs \<Longrightarrow> sched_ok (s\<lparr>sc_pinned := fs, sc_n := sc_n s - 1\<rparr>)"
  by (simp add: sched_ok_def)

lemma sched_ok_item:
  "sched_ok s \<Longrightarrow> sc_pinned s = [] \<Longrightarrow> sc_lane s = it # rest \<Longrightarrow> it_frames it = f # fs \<Longrightarrow>
     sched_ok (s\<lparr>sc_lane := rest, sc_pinned := fs, sc_n := sc_n s - 1\<rparr>)"
  by (simp add: sched_ok_def)

lemma Pop_ok:
  assumes "sched_ok s"
  shows "\<exists>r s'. Pop s = Some (r, s') \<and> sched_ok s' \<and> sc_runs s' = sc_runs s \<and> sc_seq s' = sc_seq s \<and>
    (r = None \<longleftrightarrow> sc_n s = 0) \<and> sc_n s' = sc_n s - (if r = None then 0 else 1)"
  using assms
proof (cases rule: Pop_cases)
  case (pinned f fs)
  moreover from this assms have "0 < sc_n s"
    by (auto simp: sched_ok_def intro!: add_pos_nonneg sum_list_nonneg)
  ultimately show ?thesis using sched_ok_pinned [OF assms pinned(1)] by simp
next
  case (item it rest f fs)
  moreover from this assms have "0 < sc_n s"
    by (auto simp: sched_ok_def intro!: add_pos_nonneg sum_list_nonneg)
  ultimately show ?thesis using sched_ok_item [OF assms item(1,2,3)] by simp
next
  case (forced it rest x xs s')
  then have "it_frames it \<noteq> []" using sched_okD(6) [OF assms, of it] by (simp add: run_ok_def)
  with forced assms have "0 < sc_n s"
    by (auto simp: sched_ok_def intro!: add_pos_nonneg sum_list_nonneg)
  with forced show ?thesis by (auto simp: took_def)
next
  case (data u i q s')
  have "sq_data q \<noteq> []" using sched_okD(4) [OF assms data(5)] by (simp add: queue_ok_def)
  then have "0 < frames_in sq_data (sc_streams s)"
    using frames_in_delete [OF sched_okD(2) [OF assms], of sq_data i] data(5)
      frames_in_nonneg [of sq_data "store_delete i (sc_streams s)"] by (cases "sq_data q") auto
  with data assms have "0 < sc_n s" by (simp add: sched_ok_def)
  with data show ?thesis by (auto simp: took_def)
qed (use assms in simp)

subsection \<open>Field blocks (RFC 9113 sections 4.3 and 6.10)\<close>

text \<open>The stream of the block that is open, after a frame; \<open>None\<close> where the frame may not come.\<close>

definition block_step :: "u32 option \<Rightarrow> frame \<Rightarrow> u32 option option" where
  "block_step b f =
     (case b of
        None \<Rightarrow>
          if Frame_Type f = TypeContinuation then None
          else if opensBlock f then Some (Some (Frame_Stream f)) else Some None
      | Some i \<Rightarrow>
          if Frame_Type f = TypeContinuation \<and> Frame_Stream f = i
          then Some (if endsBlock f then None else Some i) else None)"

fun blocks_from :: "u32 option \<Rightarrow> frame list \<Rightarrow> u32 option option" where
  "blocks_from b [] = Some b"
| "blocks_from b (f # fs) = (case block_step b f of None \<Rightarrow> None | Some b \<Rightarrow> blocks_from b fs)"

definition blocks_intact :: "frame list \<Rightarrow> bool" where
  "blocks_intact fs \<longleftrightarrow> blocks_from None fs \<noteq> None"

lemma blocks_from_append:
  "blocks_from b (fs @ gs) = (case blocks_from b fs of None \<Rightarrow> None | Some b \<Rightarrow> blocks_from b gs)"
  by (induction fs arbitrary: b) (auto split: option.split)

lemma block_step_data: "Frame_Type f = TypeData \<Longrightarrow> block_step b f = (if b = None then Some None else None)"
  by (auto simp: block_step_def opensBlock_def split: option.split)

subsection \<open>Each stream's queue\<close>

abbreviation on :: "u32 \<Rightarrow> frame list \<Rightarrow> frame list" where
  "on i fs \<equiv> List.filter (\<lambda>f. Frame_Stream f = i) fs"

text \<open>The frames of a stream in the lane and in its queue, in the order in which they were pushed.\<close>

fun in_order :: "lane_item list \<Rightarrow> queued list \<Rightarrow> frame list" where
  "in_order [] ds = map qd_f ds"
| "in_order (it # its) [] = concat (map it_frames (it # its))"
| "in_order (it # its) (d # ds) =
     (if qd_seq d < it_seq it then qd_f d # in_order (it # its) ds else it_frames it @ in_order its (d # ds))"

definition run_frames :: "scheduler \<Rightarrow> u32 \<Rightarrow> frame list" where
  "run_frames s i = (case store_get (sc_runs s) i of None \<Rightarrow> [] | Some r \<Rightarrow> it_frames r)"

definition lane_of :: "scheduler \<Rightarrow> u32 \<Rightarrow> lane_item list" where
  "lane_of s i = List.filter (\<lambda>r. it_stream r = i) (sc_lane s)"

text \<open>The abstract state: what each stream has pushed and not got back.\<close>

definition held :: "scheduler \<Rightarrow> u32 \<Rightarrow> frame list" where
  "held s i = on i (sc_pinned s) @ in_order (lane_of s i) (data_of s i) @ run_frames s i"

lemma in_order_Nil [simp]: "in_order its [] = concat (map it_frames its)"
  by (cases its) simp_all

lemma in_order_one:
  "\<forall>it\<in>set its. it_seq it < qd_seq d \<Longrightarrow> in_order its [d] = concat (map it_frames its) @ [qd_f d]"
  by (induction its) auto

lemma in_order_last:
  "\<forall>d\<in>set ds. qd_seq d < it_seq it \<Longrightarrow> in_order [it] ds = map qd_f ds @ it_frames it"
  by (induction ds) auto

lemma in_order_data:
  "\<forall>it\<in>set its. it_seq it < qd_seq d \<Longrightarrow> in_order its (ds @ [d]) = in_order its ds @ [qd_f d]"
  by (induction its ds rule: in_order.induct) (auto simp: in_order_one)

lemma in_order_item:
  "\<forall>d\<in>set ds. qd_seq d < it_seq it \<Longrightarrow> in_order (its @ [it]) ds = in_order its ds @ it_frames it"
  by (induction its ds rule: in_order.induct) (auto simp: in_order_last)

lemma in_order_first_item:
  "(\<And>d. d \<in> set ds \<Longrightarrow> it_seq it \<le> qd_seq d) \<Longrightarrow> in_order (it # its) ds = it_frames it @ in_order its ds"
  by (cases ds) (auto simp: not_less [symmetric])

subsection \<open>The invariant of a history\<close>

datatype sched_op = SPush frame | SPop | SSetPriority u32 priority | SForget u32

fun sched_apply :: "sched_op \<Rightarrow> scheduler \<Rightarrow> (frame option \<times> scheduler) option" where
  "sched_apply (SPush f) s = map_option (Pair None) (Push f s)"
| "sched_apply SPop s = Pop s"
| "sched_apply (SSetPriority i p) s = map_option (Pair None) (SetPriority i p s)"
| "sched_apply (SForget i) s = Some (None, sched_Forget i s)"

text \<open>A run: the frames popped, and the scheduler after it.\<close>

fun sched_run :: "sched_op list \<Rightarrow> scheduler \<Rightarrow> (frame list \<times> scheduler) option" where
  "sched_run [] s = Some ([], s)"
| "sched_run (op # ops) s =
     (case sched_apply op s of
        None \<Rightarrow> None
      | Some (r, s) \<Rightarrow> map_option (\<lambda>(fs, s). ((case r of None \<Rightarrow> fs | Some f \<Rightarrow> f # fs), s)) (sched_run ops s))"

fun pushed :: "sched_op list \<Rightarrow> frame list" where
  "pushed [] = []"
| "pushed (SPush f # ops) = f # pushed ops"
| "pushed (_ # ops) = pushed ops"

lemma pushed_append [simp]: "pushed (xs @ ys) = pushed xs @ pushed ys"
  by (induction xs rule: pushed.induct) simp_all

fun params_valid :: "sched_op \<Rightarrow> bool" where
  "params_valid (SSetPriority i p) = priority_ok p"
| "params_valid _ = True"

lemma sched_run_snoc:
  "sched_run (ops @ [op]) s =
     (case sched_run ops s of
        None \<Rightarrow> None
      | Some (fs, s) \<Rightarrow>
          (case sched_apply op s of None \<Rightarrow> None | Some (r, s) \<Rightarrow> Some (fs @ (case r of None \<Rightarrow> [] | Some f \<Rightarrow> [f]), s)))"
  by (induction ops arbitrary: s) (auto split: option.splits prod.splits)

text \<open>\<open>P\<close> are the frames pushed and \<open>O\<close> the frames popped so far.\<close>

definition order_ok :: "frame list \<Rightarrow> frame list \<Rightarrow> scheduler \<Rightarrow> bool" where
  "order_ok P Q s \<longleftrightarrow> sched_ok s \<and>
     (\<forall>i. on i P = on i Q @ held s i) \<and>
     (\<forall>i. blocks_from None (on i P) = Some (if store_get (sc_runs s) i = None then None else Some i)) \<and>
     (\<forall>i r. store_get (sc_runs s) i = Some r \<longrightarrow> blocks_from None (it_frames r) = Some (Some i) \<and>
        (\<forall>x\<in>set (data_of s i). qd_seq x < it_seq r)) \<and>
     (\<forall>r\<in>set (sc_lane s). blocks_from None (it_frames r) = Some None) \<and>
     (\<exists>b. blocks_from None Q = Some b \<and> blocks_from b (sc_pinned s) = Some None)"

lemma order_ok_new: "order_ok [] [] newScheduler"
proof -
  have "sc_runs newScheduler = []" "sc_lane newScheduler = []" "sc_pinned newScheduler = []" "sc_streams newScheduler = []"
    by (simp_all add: newScheduler_def)
  then show ?thesis
    by (simp add: order_ok_def newScheduler_ok held_def lane_of_def data_of_def run_frames_def)
qed

lemma data_seq_le: "sched_ok s \<Longrightarrow> x \<in> set (data_of s i) \<Longrightarrow> qd_seq x \<le> sc_seq s"
proof (cases "store_get (sc_streams s) i")
  case (Some q)
  moreover assume "sched_ok s" "x \<in> set (data_of s i)"
  ultimately show ?thesis using sched_okD(4) [of s i q] by (auto simp: data_of_def queue_ok_def list_all_iff)
qed (simp add: data_of_def)

lemma lane_seq_le: "sched_ok s \<Longrightarrow> r \<in> set (sc_lane s) \<Longrightarrow> it_seq r \<le> sc_seq s"
  using sched_okD(6) [of s r] by (simp add: run_ok_def)

lemma view_frame [simp]:
  "data_of (s\<lparr>sc_seq := n\<rparr>) = data_of s" "data_of (s\<lparr>sc_runs := r\<rparr>) = data_of s"
  "data_of (s\<lparr>sc_blocked := k\<rparr>) = data_of s" "data_of (s\<lparr>sc_lane := l\<rparr>) = data_of s"
  "data_of (s\<lparr>sc_n := k\<rparr>) = data_of s" "data_of (s\<lparr>sc_pinned := fs\<rparr>) = data_of s"
  "lane_of (s\<lparr>sc_seq := n\<rparr>) = lane_of s"
  "run_frames (s\<lparr>sc_seq := n\<rparr>) = run_frames s"
  by (simp_all add: fun_eq_iff data_of_def lane_of_def run_frames_def)

definition open_at :: "scheduler \<Rightarrow> u32 \<Rightarrow> u32 option" where
  "open_at s i = (if store_get (sc_runs s) i = None then None else Some i)"

lemma order_ok_pushI:
  assumes "order_ok P Q s" "sched_ok s'" "\<And>j. held s' j = held s j @ (if j = Frame_Stream f then [f] else [])"
    "block_step (open_at s (Frame_Stream f)) f = Some (open_at s' (Frame_Stream f))"
    "\<And>j. j \<noteq> Frame_Stream f \<Longrightarrow> open_at s' j = open_at s j"
    "\<And>j r. store_get (sc_runs s') j = Some r \<Longrightarrow> blocks_from None (it_frames r) = Some (Some j) \<and>
        (\<forall>x\<in>set (data_of s' j). qd_seq x < it_seq r)"
    "\<And>r. r \<in> set (sc_lane s') \<Longrightarrow> blocks_from None (it_frames r) = Some None"
    "sc_pinned s' = sc_pinned s"
  shows "order_ok (P @ [f]) Q s'"
  unfolding order_ok_def
proof (intro conjI allI ballI impI)
  fix i
  have p: "on i P = on i Q @ held s i" "blocks_from None (on i P) = Some (open_at s i)"
    using assms(1) by (auto simp: order_ok_def open_at_def)
  from p(1) show "on i (P @ [f]) = on i Q @ held s' i" by (simp add: assms(3))
  from p(2) assms(4,5) show "blocks_from None (on i (P @ [f])) = Some (if store_get (sc_runs s') i = None then None else Some i)"
    unfolding open_at_def [symmetric] by (cases "Frame_Stream f = i") (auto simp: blocks_from_append)
next
  show "\<exists>b. blocks_from None Q = Some b \<and> blocks_from b (sc_pinned s') = Some None"
    using assms(1,8) by (simp add: order_ok_def)
qed (use assms(2,6,7) in auto)

lemma order_ok_push_data:
  assumes "order_ok P Q s" "Frame_Type f = TypeData" "Frame_Stream f \<noteq> 0" "blocks_from None (on (Frame_Stream f) (P @ [f])) \<noteq> None"
  shows "\<exists>s'. Push f s = Some s' \<and> order_ok (P @ [f]) Q s'"
proof -
  let ?i = "Frame_Stream f" and ?t = "s\<lparr>sc_seq := Suc (sc_seq s)\<rparr>"
  have ok: "sched_ok s" and st: "blocks_from None (on ?i P) = Some (if store_get (sc_runs s) ?i = None then None else Some ?i)"
    using assms(1) by (auto simp: order_ok_def)
  have run: "store_get (sc_runs s) ?i = None"
    using assms(4) st block_step_data [OF assms(2)] by (auto simp: blocks_from_append split: if_splits)
  have "list_all (\<lambda>x. qd_seq x < sc_seq ?t) (sq_data q)" if "store_get (sc_streams ?t) ?i = Some q" for q
    using data_seq_le [OF ok, of _ ?i] that by (auto simp: list_all_iff data_of_def le_imp_less_Suc)
  from push_data_ok [OF sched_ok_tick [OF ok] assms(2,3) this] obtain s' where s': "push_data f ?t = Some s'" "sched_ok s'"
    "map_option sq_data (store_get (sc_streams s') ?i) = Some (data_of s ?i @ [\<lparr>qd_f = f, qd_seq = Suc (sc_seq s)\<rparr>])"
    "\<forall>j. j \<noteq> ?i \<longrightarrow> store_get (sc_streams s') j = store_get (sc_streams s) j"
    "sc_lane s' = sc_lane s" "sc_pinned s' = sc_pinned s" "sc_runs s' = sc_runs s"
    by (auto simp: data_of_def)
  have d: "data_of s' j = (if j = ?i then data_of s j @ [\<lparr>qd_f = f, qd_seq = Suc (sc_seq s)\<rparr>] else data_of s j)" for j
    using s'(3,4) by (auto simp: data_of_def)
  have "\<forall>r\<in>set (lane_of s ?i). it_seq r < Suc (sc_seq s)"
    using lane_seq_le [OF ok] by (auto simp: lane_of_def le_imp_less_Suc)
  then have h: "held s' j = held s j @ (if j = ?i then [f] else [])" for j
    using run by (auto simp: held_def d s'(5,6) lane_of_def run_frames_def s'(7) in_order_data)
  have "Push f s = Some s'" using assms(2,3) s'(1) by (simp add: Push_def)
  moreover have "order_ok (P @ [f]) Q s'"
    by (rule order_ok_pushI [OF assms(1) s'(2) h])
       (use assms(1) s'(5,6,7) d run block_step_data [OF assms(2)] in \<open>auto simp: order_ok_def open_at_def\<close>)
  ultimately show ?thesis by blast
qed

lemma order_ok_push_other:
  assumes "order_ok P Q s" "blocks_from None (on (Frame_Stream f) (P @ [f])) \<noteq> None"
  shows "order_ok (P @ [f]) Q (push_other f (s\<lparr>sc_seq := Suc (sc_seq s)\<rparr>))"
proof -
  let ?i = "Frame_Stream f" and ?t = "s\<lparr>sc_seq := Suc (sc_seq s)\<rparr>"
  let ?s = "push_other f ?t"
  have ok: "sched_ok s" and st: "blocks_from None (on ?i P) = Some (if store_get (sc_runs s) ?i = None then None else Some ?i)"
    using assms(1) by (auto simp: order_ok_def)
  have ok': "sched_ok ?s" using push_other_ok [OF sched_ok_tick [OF ok]] .
  have step: "block_step (if store_get (sc_runs s) ?i = None then None else Some ?i) f \<noteq> None"
    using assms(2) st by (auto simp: blocks_from_append split: option.splits)
  have data: "\<forall>d\<in>set (data_of s ?i). qd_seq d < Suc (sc_seq s)" using data_seq_le [OF ok] by (auto simp: le_imp_less_Suc)
  show ?thesis
  proof (cases "store_get (sc_runs s) ?i")
    case None
    then have nc: "Frame_Type f \<noteq> TypeContinuation" using step by (auto simp: block_step_def)
    show ?thesis
    proof (cases "opensBlock f")
      case True
      let ?r = "\<lparr>it_frames = [f], it_stream = ?i, it_seq = Suc (sc_seq s)\<rparr>"
      have s: "?s = ?t\<lparr>sc_runs := store_put ?i ?r (sc_runs s), sc_blocked := sc_blocked s + 1\<rparr>"
        using None True by (simp add: push_other_def Let_def)
      have h: "held ?s j = held s j @ (if j = ?i then [f] else [])" for j
        using None unfolding s by (auto simp: held_def lane_of_def run_frames_def)
      have b: "block_step None f = Some (Some ?i)" using nc True by (simp add: block_step_def)
      show ?thesis
        by (rule order_ok_pushI [OF assms(1) ok' h])
           (use assms(1) b data None in \<open>auto simp: order_ok_def open_at_def s blocks_from_append split: if_splits\<close>)
    next
      case False
      let ?r = "\<lparr>it_frames = [f], it_stream = ?i, it_seq = Suc (sc_seq s)\<rparr>"
      have s: "?s = ?t\<lparr>sc_lane := sc_lane s @ [?r], sc_n := sc_n s + 1\<rparr>"
        using None False by (simp add: push_other_def Let_def)
      have h: "held ?s j = held s j @ (if j = ?i then [f] else [])" for j
        using None in_order_item [of "data_of s ?i" ?r "lane_of s ?i"] data unfolding s
        by (auto simp: held_def lane_of_def run_frames_def)
      have b: "block_step None f = Some None" using nc False by (simp add: block_step_def)
      show ?thesis
        by (rule order_ok_pushI [OF assms(1) ok' h])
           (use assms(1) b data None in \<open>auto simp: order_ok_def open_at_def s blocks_from_append split: if_splits\<close>)
    qed
  next
    case (Some r)
    then have c: "Frame_Type f = TypeContinuation" using step by (auto simp: block_step_def split: if_splits)
    let ?r = "r\<lparr>it_frames := it_frames r @ [f]\<rparr>"
    have r: "blocks_from None (it_frames r) = Some (Some ?i)" "\<forall>x\<in>set (data_of s ?i). qd_seq x < it_seq r" "it_stream r = ?i"
      using assms(1) Some sched_okD(5) [OF ok Some] by (auto simp: order_ok_def run_ok_def)
    show ?thesis
    proof (cases "endsBlock f")
      case True
      have s: "?s = ?t\<lparr>sc_runs := store_delete ?i (store_put ?i ?r (sc_runs s)),
          sc_blocked := sc_blocked s + 1 - int (length (it_frames ?r)),
          sc_n := sc_n s + int (length (it_frames ?r)), sc_lane := sc_lane s @ [?r]\<rparr>"
        using Some True by (simp add: push_other_def Let_def)
      have h: "held ?s j = held s j @ (if j = ?i then [f] else [])" for j
        using Some in_order_item [of "data_of s ?i" ?r "lane_of s ?i"] r unfolding s
        by (auto simp: held_def lane_of_def run_frames_def)
      have b: "block_step (Some ?i) f = Some None" using c True by (simp add: block_step_def)
      show ?thesis
        by (rule order_ok_pushI [OF assms(1) ok' h])
           (use assms(1) b data r Some in \<open>auto simp: order_ok_def open_at_def s blocks_from_append split: if_splits\<close>)
    next
      case False
      have s: "?s = ?t\<lparr>sc_runs := store_put ?i ?r (sc_runs s), sc_blocked := sc_blocked s + 1\<rparr>"
        using Some False by (simp add: push_other_def Let_def)
      have h: "held ?s j = held s j @ (if j = ?i then [f] else [])" for j
        using Some unfolding s by (auto simp: held_def lane_of_def run_frames_def)
      have b: "block_step (Some ?i) f = Some (Some ?i)" using c False by (simp add: block_step_def)
      show ?thesis
        by (rule order_ok_pushI [OF assms(1) ok' h])
           (use assms(1) b data r Some in \<open>auto simp: order_ok_def open_at_def s blocks_from_append split: if_splits\<close>)
    qed
  qed
qed

lemma order_ok_popI:
  assumes "order_ok P Q s" "sched_ok s'" "\<And>j. held s j = (if j = Frame_Stream f then [f] else []) @ held s' j"
    "sc_runs s' = sc_runs s" "\<And>j. set (data_of s' j) \<subseteq> set (data_of s j)" "set (sc_lane s') \<subseteq> set (sc_lane s)"
    "\<And>b. blocks_from b (sc_pinned s) = Some None \<Longrightarrow> \<exists>b'. block_step b f = Some b' \<and> blocks_from b' (sc_pinned s') = Some None"
  shows "order_ok P (Q @ [f]) s'"
proof -
  obtain b where b: "blocks_from None Q = Some b" "blocks_from b (sc_pinned s) = Some None"
    using assms(1) by (auto simp: order_ok_def)
  from assms(7) [OF b(2)] b(1) have "\<exists>b. blocks_from None (Q @ [f]) = Some b \<and> blocks_from b (sc_pinned s') = Some None"
    by (auto simp: blocks_from_append)
  moreover have "on j P = on j (Q @ [f]) @ held s' j" for j using assms(1,3) by (auto simp: order_ok_def)
  moreover have "blocks_from None (on j P) = Some (if store_get (sc_runs s') j = None then None else Some j)" for j
    using assms(1) unfolding order_ok_def assms(4) by blast
  ultimately show ?thesis
    using assms(1,2,4,5,6) unfolding order_ok_def by (metis (no_types, lifting) subsetD)
qed

lemma queue_frames:
  "sched_ok s \<Longrightarrow> x \<in> set (data_of s i) \<Longrightarrow> Frame_Type (qd_f x) = TypeData \<and> Frame_Stream (qd_f x) = i"
proof (cases "store_get (sc_streams s) i")
  case (Some q)
  moreover assume "sched_ok s" "x \<in> set (data_of s i)"
  ultimately show ?thesis using sched_okD(4) [of s i q] by (auto simp: data_of_def queue_ok_def list_all_iff)
qed (simp add: data_of_def)

lemma took_held:
  assumes "took i s s'" "data_of s i = x # xs" "sc_pinned s = []" "sched_ok s"
    "lane_of s i = [] \<or> qd_seq x < it_seq (hd (lane_of s i))"
  shows "held s j = (if j = Frame_Stream (qd_f x) then [qd_f x] else []) @ held s' j"
proof -
  have "Frame_Stream (qd_f x) = i" using queue_frames [OF assms(4), of x i] assms(2) by simp
  moreover have "in_order (lane_of s i) (x # xs) = qd_f x # in_order (lane_of s i) xs"
    using assms(5) by (cases "lane_of s i") auto
  ultimately show ?thesis
    using assms(1,2,3) by (auto simp: took_def held_def lane_of_def run_frames_def)
qed

lemma order_ok_took:
  assumes "order_ok P Q s" "sched_ok s'" "took i s s'" "data_of s i = x # xs" "sc_pinned s = []"
    "lane_of s i = [] \<or> qd_seq x < it_seq (hd (lane_of s i))"
  shows "order_ok P (Q @ [qd_f x]) s'"
proof (rule order_ok_popI [OF assms(1,2)])
  have ok: "sched_ok s" using assms(1) by (simp add: order_ok_def)
  show "held s j = (if j = Frame_Stream (qd_f x) then [qd_f x] else []) @ held s' j" for j
    by (rule took_held [OF assms(3,4,5) ok assms(6)])
  show "sc_runs s' = sc_runs s" "set (sc_lane s') \<subseteq> set (sc_lane s)" using assms(3) by (simp_all add: took_def)
  show "set (data_of s' j) \<subseteq> set (data_of s j)" for j
    using assms(3) by (cases "j = i") (auto simp: took_def assms(4))
  show "\<exists>b'. block_step b (qd_f x) = Some b' \<and> blocks_from b' (sc_pinned s') = Some None"
    if "blocks_from b (sc_pinned s) = Some None" for b
    using that assms(3,5) block_step_data [of "qd_f x" b] queue_frames [OF ok, of x i] assms(4)
    by (simp add: took_def)
qed

lemma order_ok_Pop:
  assumes "order_ok P Q s" "Pop s = Some (r, s')"
  shows "order_ok P (Q @ (case r of None \<Rightarrow> [] | Some f \<Rightarrow> [f])) s'"
proof -
  have ok: "sched_ok s" using assms(1) by (simp add: order_ok_def)
  then show ?thesis
  proof (cases rule: Pop_cases)
    case none
    with assms show ?thesis by simp
  next
    case (pinned f fs)
    have "order_ok P (Q @ [f]) (s\<lparr>sc_pinned := fs, sc_n := sc_n s - 1\<rparr>)"
      by (rule order_ok_popI [OF assms(1) sched_ok_pinned [OF ok pinned(1)]])
         (auto simp: held_def pinned(1) lane_of_def run_frames_def split: option.splits)
    with assms(2) pinned(2) show ?thesis by auto
  next
    case (item it rest f fs)
    have "run_ok (sc_seq s) (it_stream it) it" using sched_okD(6) [OF ok] item(2) by simp
    then have st: "Frame_Stream f = it_stream it" "\<And>g. g \<in> set fs \<Longrightarrow> Frame_Stream g = it_stream it"
      by (auto simp: run_ok_def item(3) list_all_iff)
    have fs: "on j fs = (if j = it_stream it then fs else [])" for j using st(2) by (auto intro: filter_True filter_False)
    have "blocks_from None (it_frames it) = Some None" using assms(1) item(2) by (simp add: order_ok_def)
    then have b: "\<exists>b'. block_step None f = Some b' \<and> blocks_from b' fs = Some None"
      by (auto simp: item(3) split: option.splits)
    have first: "in_order (it # xs) (data_of s (it_stream it)) = (f # fs) @ in_order xs (data_of s (it_stream it))" for xs
      using in_order_first_item [of "data_of s (it_stream it)" it xs] item(4) item(3) by simp
    have "order_ok P (Q @ [f]) (s\<lparr>sc_lane := rest, sc_pinned := fs, sc_n := sc_n s - 1\<rparr>)"
      by (rule order_ok_popI [OF assms(1) sched_ok_item [OF ok item(1,2,3)]])
         (use b first in \<open>auto simp: held_def item(1,2) lane_of_def run_frames_def st(1) fs\<close>)
    with assms(2) item(5) show ?thesis by auto
  next
    case (forced it rest x xs t)
    have "lane_of s (it_stream it) = it # lane_of (s\<lparr>sc_lane := rest\<rparr>) (it_stream it)" by (simp add: lane_of_def forced(2))
    with order_ok_took [OF assms(1) forced(7,6,3,1)] forced(4,5) assms(2) show ?thesis by simp
  next
    case (data u i q t)
    have q: "data_of s i = sq_data q" "sq_data q \<noteq> []"
      using sched_okD(4) [OF ok data(5)] data(5) by (simp_all add: data_of_def queue_ok_def)
    then obtain x xs where x: "sq_data q = x # xs" by (cases "sq_data q") auto
    with q(1) have "data_of s i = x # xs" by simp
    from order_ok_took [OF assms(1) data(8,9) this data(1)] data(2,7) assms(2) x show ?thesis by (simp add: lane_of_def)
  qed
qed

lemma order_ok_same:
  assumes "order_ok P Q s" "sched_ok s'" "\<And>j. data_of s' j = data_of s j" "sc_lane s' = sc_lane s"
    "sc_pinned s' = sc_pinned s" "sc_runs s' = sc_runs s"
  shows "order_ok P Q s'"
proof -
  have h: "held s' j = held s j" for j using assms(3-6) by (simp add: held_def lane_of_def run_frames_def)
  from assms(1) show ?thesis unfolding order_ok_def h assms(3-6) using assms(2) by blast
qed

text \<open>The hypothesis on the goroutines that push: each stream's own frames respect its blocks.\<close>

definition streams_intact :: "frame list \<Rightarrow> bool" where
  "streams_intact P \<longleftrightarrow> (\<forall>i. blocks_intact (on i P))"

lemma streams_intact_snoc: "streams_intact (P @ [f]) \<Longrightarrow> streams_intact P"
  unfolding streams_intact_def blocks_intact_def
proof
  fix i
  assume "\<forall>i. blocks_from None (on i (P @ [f])) \<noteq> None"
  then have "blocks_from None (on i (P @ [f])) \<noteq> None" by blast
  then show "blocks_from None (on i P) \<noteq> None"
    by (cases "Frame_Stream f = i") (auto simp: blocks_from_append split: option.splits)
qed

text \<open>What one operation adds to the frames pushed and popped.\<close>

abbreviation popped_by :: "frame option \<Rightarrow> frame list" where
  "popped_by r \<equiv> (case r of None \<Rightarrow> [] | Some f \<Rightarrow> [f])"

lemma order_ok_apply:
  assumes "order_ok P Q s" "params_valid op"
    and "\<And>f. op = SPush f \<Longrightarrow> blocks_from None (on (Frame_Stream f) (P @ [f])) \<noteq> None"
  shows "\<exists>r s'. sched_apply op s = Some (r, s') \<and> order_ok (P @ pushed [op]) (Q @ popped_by r) s'"
proof -
  have ok: "sched_ok s" using assms(1) by (simp add: order_ok_def)
  show ?thesis
  proof (cases op)
    case (SPush f)
    have "\<exists>s'. Push f s = Some s' \<and> order_ok (P @ [f]) Q s'"
    proof (cases "Frame_Type f = TypeData \<and> Frame_Stream f \<noteq> 0")
      case True
      then show ?thesis using order_ok_push_data [OF assms(1) _ _ assms(3) [OF SPush]] by simp
    next
      case False
      then show ?thesis using order_ok_push_other [OF assms(1) assms(3) [OF SPush]] by (auto simp: Push_def)
    qed
    with SPush show ?thesis by auto
  next
    case SPop
    obtain x s' where p: "Pop s = Some (x, s')" using Pop_ok [OF ok] by blast
    with SPop order_ok_Pop [OF assms(1) p] show ?thesis by simp
  next
    case (SSetPriority i p)
    with assms(2) have "priority_ok p" by simp
    from SetPriority_ok [OF ok this, of i] obtain s' where s': "SetPriority i p s = Some s'" "sched_ok s'"
      "\<And>j. map_option sq_data (store_get (sc_streams s') j) = map_option sq_data (store_get (sc_streams s) j)"
      "sc_lane s' = sc_lane s" "sc_pinned s' = sc_pinned s" "sc_runs s' = sc_runs s" by blast
    have "data_of s' j = data_of s j" for j using s'(3) [of j] by (auto simp: data_of_def split: option.splits)
    from order_ok_same [OF assms(1) s'(2) this s'(4,5,6)] SSetPriority s'(1) show ?thesis by simp
  next
    case (SForget i)
    have "order_ok P Q (sched_Forget i s)"
      by (rule order_ok_same [OF assms(1) sched_Forget_ok [OF ok]]) (simp_all add: sched_Forget_def data_of_def)
    with SForget show ?thesis by simp
  qed
qed

lemma streams_intact_push:
  "streams_intact (P @ [f]) \<Longrightarrow> blocks_from None (on (Frame_Stream f) (P @ [f])) \<noteq> None"
  unfolding streams_intact_def blocks_intact_def by blast

lemma sched_run_order:
  "list_all params_valid ops \<Longrightarrow> streams_intact (pushed ops) \<Longrightarrow>
     \<exists>Q s. sched_run ops newScheduler = Some (Q, s) \<and> order_ok (pushed ops) Q s"
proof (induction ops rule: rev_induct)
  case Nil
  show ?case by (simp add: order_ok_new)
next
  case (snoc op ops)
  have "streams_intact (pushed ops)"
    using snoc.prems(2) by (cases op) (auto dest: streams_intact_snoc)
  with snoc obtain Q s where r: "sched_run ops newScheduler = Some (Q, s)" "order_ok (pushed ops) Q s" by auto
  have "blocks_from None (on (Frame_Stream f) (pushed ops @ [f])) \<noteq> None" if "op = SPush f" for f
    using streams_intact_push snoc.prems(2) that by simp
  then have "\<exists>x s'. sched_apply op s = Some (x, s') \<and> order_ok (pushed ops @ pushed [op]) (Q @ popped_by x) s'"
    using snoc.prems(1) by (intro order_ok_apply [OF r(2)]) auto
  with r(1) show ?case by (auto simp: sched_run_snoc)
qed

end
