(* ===== verification/SchedProps.thy ===== *)
theory SchedProps
  imports SchedOrder
begin

text \<open>The properties of the write scheduler: order, field blocks, urgency and fair turns.\<close>

lemma priority_ok_apply:
  assumes "sched_ok s" "params_valid op"
  shows "\<exists>r s'. sched_apply op s = Some (r, s') \<and> sched_ok s'"
proof (cases op)
  case (SPush f)
  show ?thesis
  proof (cases "Frame_Type f = TypeData \<and> Frame_Stream f \<noteq> 0")
    case True
    have "list_all (\<lambda>x. qd_seq x < Suc (sc_seq s)) (sq_data q)" if "store_get (sc_streams s) (Frame_Stream f) = Some q" for q
      using data_seq_le [OF assms(1), of _ "Frame_Stream f"] that by (auto simp: list_all_iff data_of_def le_imp_less_Suc)
    then show ?thesis
      using push_data_ok [OF sched_ok_tick [OF assms(1)], of f] True SPush by (auto simp: Push_def)
  next
    case False
    then show ?thesis using push_other_ok [OF sched_ok_tick [OF assms(1)]] SPush by (auto simp: Push_def)
  qed
next
  case SPop
  then show ?thesis using Pop_ok [OF assms(1)] by auto
next
  case (SSetPriority i p)
  with assms(2) have "priority_ok p" by simp
  from SetPriority_ok [OF assms(1) this, of i] SSetPriority show ?thesis by auto
next
  case (SForget i)
  then show ?thesis using sched_Forget_ok [OF assms(1)] by simp
qed

lemma sched_run_ok:
  "sched_ok s \<Longrightarrow> list_all params_valid ops \<Longrightarrow> \<exists>Q s'. sched_run ops s = Some (Q, s') \<and> sched_ok s'"
proof (induction ops arbitrary: s)
  case (Cons op ops)
  then obtain r s1 where "sched_apply op s = Some (r, s1)" "sched_ok s1" using priority_ok_apply [of s op] by auto
  with Cons.IH [of s1] Cons.prems show ?case by auto
qed simp

subsection \<open>Turns within a band\<close>

definition place :: "u32 \<Rightarrow> u32 list \<Rightarrow> nat" where
  "place x r = length (takeWhile (\<lambda>y. y \<noteq> x) r)"

lemma place_append: "x \<in> set r \<Longrightarrow> place x (r @ ys) = place x r"
  by (simp add: place_def takeWhile_append1)

lemma place_remove1: "place x (remove1 j r) \<le> place x r \<or> x = j"
  by (induction r) (auto simp: place_def)

lemma place_front: "x \<in> set r \<Longrightarrow> x \<noteq> hd r \<Longrightarrow>
    Suc (place x (tl r)) = place x r \<and> Suc (place x (rotate_ring r)) = place x r"
  by (cases r) (auto simp: place_def rotate_ring_def takeWhile_append1 intro: arg_cong [of _ _ length])

lemma place_less: "x \<in> set r \<Longrightarrow> place x r < length r"
  by (induction r) (auto simp: place_def)

abbreviation ring :: "nat \<Rightarrow> scheduler \<Rightarrow> u32 list" where
  "ring u s \<equiv> bn_ring (sc_bands s ! u)"

lemma ring_enter:
  "bn_ring (enter_band i inc b) = bn_ring b \<or> (\<exists>y. bn_ring (enter_band i inc b) = bn_ring b @ [y])"
  by (auto simp: enter_band_def Let_def)

lemma ring_leave:
  "bn_ring (leave_band i inc b) = bn_ring b \<or> bn_ring (leave_band i inc b) = remove1 (if inc then i else 0) (bn_ring b)"
  by (auto simp: leave_band_def Let_def)

lemma place_enter: "x \<in> set (bn_ring b) \<Longrightarrow> place x (bn_ring (enter_band i inc b)) = place x (bn_ring b)"
  using ring_enter [of i inc b] by (auto simp: place_append)

lemma place_leave:
  assumes "distinct (bn_ring b)" "x \<in> set (bn_ring (leave_band i inc b))"
  shows "place x (bn_ring (leave_band i inc b)) \<le> place x (bn_ring b)"
  using ring_leave [of i inc b] assms place_remove1 [of x "if inc then i else 0" "bn_ring b"] by fastforce

lemma ring_distinct: "sched_ok s \<Longrightarrow> u < numBands \<Longrightarrow> distinct (ring u s)"
  using sched_okD(1) [of s] by (simp add: rings_fit_def band_fits_def)

text \<open>The participant whose turn \<open>Pop\<close> uses in a band, if any.\<close>

definition turn_taken :: "nat \<Rightarrow> sched_op \<Rightarrow> scheduler \<Rightarrow> u32 list" where
  "turn_taken u op s =
     (if op = SPop \<and> sc_pinned s = [] \<and> sc_lane s = [] \<and> first_band 0 (sc_bands s) = Some u then [hd (ring u s)] else [])"

lemma ring_Push:
  assumes "sched_ok s" "Push f s = Some s'" "x \<in> set (ring u s)" "u < numBands"
  shows "place x (ring u s') = place x (ring u s)"
proof (cases "Frame_Type f = TypeData \<and> Frame_Stream f \<noteq> 0")
  case True
  let ?t = "s\<lparr>sc_seq := Suc (sc_seq s)\<rparr>" and ?i = "Frame_Stream f"
  let ?p = "priority_of s ?i"
  have p: "push_data f ?t = Some s'" using assms(2) True by (simp add: Push_def)
  show ?thesis
  proof (cases "store_get (sc_streams s) ?i")
    case None
    let ?q = "\<lparr>sq_data = [\<lparr>qd_f = f, qd_seq = Suc (sc_seq s)\<rparr>], sq_band = 0, sq_inc = False\<rparr>"
    let ?s = "?t\<lparr>sc_streams := store_put ?i ?q (sc_streams s), sc_n := sc_n s + 1\<rparr>"
    have pr: "priority_of ?s ?i = ?p" by (simp add: priority_of_def)
    have b: "Urgency ?p < length (sc_bands ?s)"
      using band_less [OF priority_of_ok [OF assms(1)]] sched_okD(7) [OF assms(1)] by simp
    have "sc_bands s' = (sc_bands s)[Urgency ?p := enter_band ?i (Incremental ?p) (sc_bands s ! Urgency ?p)]"
      using p None enter_Some [of ?s ?i ?q] b pr by (auto simp: push_data_def Let_def)
    with assms(3) b show ?thesis by (cases "u = Urgency ?p") (simp_all add: place_enter)
  next
    case (Some q)
    then have "sq_data q \<noteq> []" using sched_okD(4) [OF assms(1) Some] by (simp add: queue_ok_def)
    with p Some have "sc_bands s' = sc_bands s" by (auto simp: push_data_def Let_def)
    then show ?thesis by simp
  qed
next
  case False
  then have "s' = push_other f (s\<lparr>sc_seq := Suc (sc_seq s)\<rparr>)" using assms(2) by (auto simp: Push_def)
  then have "sc_bands s' = sc_bands s" by (simp add: push_other_def Let_def split: option.split)
  then show ?thesis by simp
qed

lemma ring_SetPriority:
  assumes "sched_ok s" "priority_ok p" "SetPriority i p s = Some s'" "x \<in> set (ring u s)" "x \<in> set (ring u s')" "u < numBands"
  shows "place x (ring u s') \<le> place x (ring u s)"
proof (cases "i = 0 \<or> store_get (sc_streams s) i = None")
  case True
  with assms(3) have "sc_bands s' = sc_bands s" by (auto simp: SetPriority_def Let_def split: if_splits)
  then show ?thesis by simp
next
  case False
  then obtain q where q: "store_get (sc_streams s) i = Some q" "i \<noteq> 0" by auto
  show ?thesis
  proof (cases "sq_band q = Urgency p \<and> sq_inc q = Incremental p")
    case True
    with q assms(3) have "sc_bands s' = sc_bands s" by (auto simp: SetPriority_def Let_def)
    then show ?thesis by simp
  next
    case moved: False
    let ?s = "s\<lparr>sc_prio := store_put i p (sc_prio s)\<rparr>"
    let ?l = "(sc_bands s)[sq_band q := leave_band i (sq_inc q) (sc_bands s ! sq_band q)]"
    have b: "sq_band q < length (sc_bands s)" "Urgency p < length (sc_bands s)"
      using sched_okD(4) [OF assms(1) q(1)] sched_okD(7) [OF assms(1)] band_less [OF assms(2)] by (simp_all add: queue_ok_def)
    have pr: "priority_of (?s\<lparr>sc_bands := ?l\<rparr>) i = p" by (simp add: priority_of_def)
    have bands: "sc_bands s' = ?l[Urgency p := enter_band i (Incremental p) (?l ! Urgency p)]"
      using assms(3) q moved b pr leave_Some [of q ?s i] enter_Some [of "?s\<lparr>sc_bands := ?l\<rparr>" i q]
      by (auto simp: SetPriority_def Let_def)
    have fits: "band_fits (places_of s) (sq_band q) (sc_bands s ! sq_band q)"
      using sched_okD(1) [OF assms(1)] b(1) sched_okD(7) [OF assms(1)] by (simp add: rings_fit_def)
    have d: "distinct (ring u s)" using ring_distinct [OF assms(1,6)] .
    have pl: "places_of s i = Some (sq_band q, sq_inc q)" using q(1) by (simp add: places_of_def)
    show ?thesis
    proof (cases "x \<in> set (bn_ring (?l ! u))")
      case True
      then have "place x (bn_ring (?l ! u)) \<le> place x (ring u s)"
        using d place_leave [of "sc_bands s ! u" x i "sq_inc q"] b by (cases "u = sq_band q") simp_all
      moreover have "place x (ring u s') = place x (bn_ring (?l ! u))"
        using True b by (cases "u = Urgency p") (simp_all add: bands place_enter)
      ultimately show ?thesis by simp
    next
      case gone: False
      then have u: "u = sq_band q" using assms(4) by (cases "u = sq_band q") simp_all
      have x: "x = (if sq_inc q then i else 0)"
      proof (rule ccontr)
        assume "x \<noteq> (if sq_inc q then i else 0)"
        then have "x \<in> set (bn_ring (leave_band i (sq_inc q) (sc_bands s ! u)))"
          using assms(4) ring_leave [of i "sq_inc q" "sc_bands s ! u"] by auto
        with gone u b show False by simp
      qed
      have inr: "x \<in> set (bn_ring (enter_band i (Incremental p) (?l ! u)))" "u = Urgency p"
        using gone assms(5) b by (auto simp: bands nth_list_update split: if_splits)
      then have ne: "sq_inc q \<noteq> Incremental p" using moved u by auto
      have "x \<notin> set (bn_ring (enter_band i (Incremental p) (?l ! u)))"
      proof (cases "sq_inc q")
        case True
        with gone x ne q(2) show ?thesis by (auto simp: enter_band_def Let_def)
      next
        case False
        with gone x ne q(2) show ?thesis by (auto simp: enter_band_def Let_def)
      qed
      with inr(1) show ?thesis by simp
    qed
  qed
qed

lemma ring_took:
  assumes "sched_ok s" "outOfTurn i q s = Some (f, s')" "store_get (sc_streams s) i = Some q" "u < numBands"
    "x \<in> set (ring u s')"
  shows "place x (ring u s') \<le> place x (ring u s)"
proof (cases "tl (sq_data q) = []")
  case True
  from take_last_ok [OF assms(1,3) this] assms(2)
  have "sc_bands s' = (sc_bands s)[sq_band q := leave_band i (sq_inc q) (sc_bands s ! sq_band q)]"
    by (auto simp: outOfTurn_def)
  moreover have "sq_band q < length (sc_bands s)"
    using sched_okD(4) [OF assms(1,3)] sched_okD(7) [OF assms(1)] by (simp add: queue_ok_def)
  ultimately show ?thesis
    using assms(5) place_leave [OF ring_distinct [OF assms(1,4)], of x i "sq_inc q"] by (cases "u = sq_band q") simp_all
next
  case False
  from take_more_ok [OF assms(1,3) this] False assms(2) have "sc_bands s' = sc_bands s" by (auto simp: outOfTurn_def)
  then show ?thesis by simp
qed

lemma ring_Pop:
  assumes "sched_ok s" "Pop s = Some (r, s')" "u < numBands" "x \<in> set (ring u s)" "x \<in> set (ring u s')"
    "x \<notin> set (turn_taken u SPop s)"
  shows "place x (ring u s') + length (turn_taken u SPop s) \<le> place x (ring u s)"
proof (cases "sc_pinned s = [] \<and> sc_lane s = []")
  case True
  show ?thesis
  proof (cases "first_band 0 (sc_bands s)")
    case None
    with True assms(2) have "s' = s" by (simp add: Pop_def)
    with None show ?thesis by (simp add: turn_taken_def)
  next
    case (Some v)
    have v: "v < numBands" "ring v s \<noteq> []" using first_band_Some [OF Some] sched_okD(7) [OF assms(1)] by simp_all
    have "advanced v s s'" using serve_ok [OF assms(1) v] True Some assms(2) by (auto simp: Pop_def)
    with True Some assms(4,5,6) place_front [of x "ring u s"] show ?thesis
      by (cases "u = v") (auto simp: advanced_def turn_taken_def)
  qed
next
  case False
  then have t: "turn_taken u SPop s = []" by (auto simp: turn_taken_def)
  show ?thesis
  proof (cases "sc_pinned s = []")
    case pin: True
    with False obtain it rest where lane: "sc_lane s = it # rest" by (cases "sc_lane s") auto
    show ?thesis
    proof (cases "\<exists>q x xs. store_get (sc_streams s) (it_stream it) = Some q \<and> sq_data q = x # xs \<and> qd_seq x < it_seq it")
      case True
      then obtain q f where "store_get (sc_streams s) (it_stream it) = Some q" "outOfTurn (it_stream it) q s = Some (f, s')"
        using assms(2) pin lane by (auto simp: Pop_def)
      from ring_took [OF assms(1) this(2,1) assms(3,5)] t show ?thesis by simp
    next
      case no: False
      then have "sc_bands s' = sc_bands s"
        using assms(2) pin lane by (auto simp: Pop_def unpin_def split: option.splits list.splits if_splits)
      with t show ?thesis by simp
    qed
  next
    case False
    then have "sc_bands s' = sc_bands s" using assms(2) by (auto simp: Pop_def unpin_def split: list.splits)
    with t show ?thesis by simp
  qed
qed

lemma ring_step:
  assumes "sched_ok s" "params_valid op" "u < numBands" "sched_apply op s = Some (r, s')"
    "x \<in> set (ring u s)" "x \<in> set (ring u s')" "x \<notin> set (turn_taken u op s)"
  shows "place x (ring u s') + length (turn_taken u op s) \<le> place x (ring u s)"
proof (cases op)
  case (SPush f)
  then show ?thesis using assms ring_Push [OF assms(1) _ assms(5,3), of f s'] by (auto simp: turn_taken_def)
next
  case SPop
  then show ?thesis using assms ring_Pop [OF assms(1) _ assms(3,5,6)] by simp
next
  case (SSetPriority i p)
  then show ?thesis using assms ring_SetPriority [OF assms(1) _ _ assms(5,6,3), of p i] by (auto simp: turn_taken_def)
next
  case (SForget i)
  with assms have "sc_bands s' = sc_bands s" by (auto simp: sched_Forget_def)
  with SForget show ?thesis by (simp add: turn_taken_def)
qed

text \<open>The turns that are used in a band during a run, and whether a participant is in the band throughout.\<close>

fun turns :: "nat \<Rightarrow> sched_op list \<Rightarrow> scheduler \<Rightarrow> u32 list" where
  "turns u [] s = []"
| "turns u (op # ops) s =
     turn_taken u op s @ (case sched_apply op s of None \<Rightarrow> [] | Some (_, s) \<Rightarrow> turns u ops s)"

fun competes :: "nat \<Rightarrow> u32 \<Rightarrow> sched_op list \<Rightarrow> scheduler \<Rightarrow> bool" where
  "competes u x [] s \<longleftrightarrow> x \<in> set (ring u s)"
| "competes u x (op # ops) s \<longleftrightarrow> x \<in> set (ring u s) \<and>
     (case sched_apply op s of None \<Rightarrow> False | Some (_, s) \<Rightarrow> competes u x ops s)"

lemma competes_in: "competes u x ops s \<Longrightarrow> x \<in> set (ring u s)"
  by (cases ops) auto

lemma turns_bound:
  "sched_ok s \<Longrightarrow> list_all params_valid ops \<Longrightarrow> u < numBands \<Longrightarrow> competes u x ops s \<Longrightarrow> x \<notin> set (turns u ops s) \<Longrightarrow>
     length (turns u ops s) \<le> place x (ring u s)"
proof (induction ops arbitrary: s)
  case (Cons op ops)
  obtain r s1 where s1: "sched_apply op s = Some (r, s1)" "sched_ok s1"
    using priority_ok_apply [of s op] Cons.prems(1,2) by auto
  have c: "competes u x ops s1" "x \<notin> set (turns u ops s1)" "x \<notin> set (turn_taken u op s)"
    using Cons.prems(4,5) s1(1) by auto
  have "length (turns u ops s1) \<le> place x (ring u s1)"
    using Cons.IH [OF s1(2) _ Cons.prems(3) c(1,2)] Cons.prems(2) by simp
  moreover have "place x (ring u s1) + length (turn_taken u op s) \<le> place x (ring u s)"
    using ring_step [OF Cons.prems(1) _ Cons.prems(3) s1(1) competes_in [OF Cons.prems(4)] competes_in [OF c(1)] c(3)]
      Cons.prems(2) by simp
  ultimately show ?case using s1(1) by simp
qed simp

subsection \<open>Streams wait where the peer's last signal puts them\<close>

text \<open>What the scheduler holds of a stream's priority: the default, unless it was forgotten (\<open>F\<close>) and not given again.\<close>

definition holds_prio :: "u32 set \<Rightarrow> scheduler \<Rightarrow> u32 \<Rightarrow> priority \<Rightarrow> bool" where
  "holds_prio F s i p \<longleftrightarrow> (case store_get (sc_prio s) i of Some q \<Rightarrow> p = q | None \<Rightarrow> i \<notin> F \<and> p = no_priority)"

definition placed_ok :: "u32 set \<Rightarrow> scheduler \<Rightarrow> bool" where
  "placed_ok F s \<longleftrightarrow> (\<forall>i p x. holds_prio F s i p \<longrightarrow> places_of s i = Some x \<longrightarrow> x = (Urgency p, Incremental p))"

lemma placed_sub:
  "placed_ok F s \<Longrightarrow> sc_prio s' = sc_prio s \<Longrightarrow> (\<And>j x. places_of s' j = Some x \<Longrightarrow> places_of s j = Some x) \<Longrightarrow> placed_ok F s'"
  unfolding placed_ok_def holds_prio_def by metis

lemma placed_Push:
  assumes "sched_ok s" "placed_ok F s" "Push f s = Some s'"
  shows "placed_ok F s'"
proof (cases "Frame_Type f = TypeData \<and> Frame_Stream f \<noteq> 0")
  case True
  let ?t = "s\<lparr>sc_seq := Suc (sc_seq s)\<rparr>" and ?i = "Frame_Stream f"
  let ?p = "priority_of s ?i"
  have p: "push_data f ?t = Some s'" using assms(3) True by (simp add: Push_def)
  show ?thesis
  proof (cases "store_get (sc_streams s) ?i")
    case None
    let ?q = "\<lparr>sq_data = [\<lparr>qd_f = f, qd_seq = Suc (sc_seq s)\<rparr>], sq_band = 0, sq_inc = False\<rparr>"
    let ?s = "?t\<lparr>sc_streams := store_put ?i ?q (sc_streams s), sc_n := sc_n s + 1\<rparr>"
    have pr: "priority_of ?s ?i = ?p" by (simp add: priority_of_def)
    have b: "Urgency ?p < length (sc_bands ?s)"
      using band_less [OF priority_of_ok [OF assms(1)]] sched_okD(7) [OF assms(1)] by simp
    have s': "sc_prio s' = sc_prio s" "places_of s' = (places_of s)(?i \<mapsto> (Urgency ?p, Incremental ?p))"
      using p None enter_Some [of ?s ?i ?q] b pr by (auto simp: push_data_def Let_def places_put)
    show ?thesis
      using assms(2) unfolding placed_ok_def holds_prio_def s' by (auto simp: priority_of_def split: option.splits)
  next
    case (Some q)
    then have "sq_data q \<noteq> []" using sched_okD(4) [OF assms(1) Some] by (simp add: queue_ok_def)
    with p Some have "sc_prio s' = sc_prio s" "places_of s' = (places_of s)(?i \<mapsto> (sq_band q, sq_inc q))"
      by (auto simp: push_data_def Let_def places_put)
    moreover have "places_of s (Frame_Stream f) = Some (sq_band q, sq_inc q)" using Some by (simp add: places_of_def)
    ultimately have "sc_prio s' = sc_prio s" "places_of s' = places_of s" by (auto simp: fun_eq_iff)
    with assms(2) show ?thesis by (simp add: placed_ok_def holds_prio_def)
  qed
next
  case False
  then have "s' = push_other f (s\<lparr>sc_seq := Suc (sc_seq s)\<rparr>)" using assms(3) by (auto simp: Push_def)
  then have "sc_prio s' = sc_prio s" "places_of s' = places_of s"
    by (simp_all add: push_other_def Let_def split: option.split)
  then show ?thesis using assms(2) by (simp add: placed_ok_def holds_prio_def)
qed

lemma placed_Pop:
  assumes "sched_ok s" "placed_ok F s" "Pop s = Some (r, s')"
  shows "placed_ok F s'"
  using assms(1)
proof (cases rule: Pop_cases)
  case (pinned f fs)
  with assms show ?thesis by (auto intro!: placed_sub [OF assms(2)])
next
  case (item it rest f fs)
  with assms show ?thesis by (auto intro!: placed_sub [OF assms(2)])
next
  case (forced it rest x xs t)
  with assms show ?thesis by (auto simp: took_def intro!: placed_sub [OF assms(2)])
next
  case (data u i q t)
  with assms show ?thesis by (auto simp: took_def intro!: placed_sub [OF assms(2)])
qed (use assms in simp)

lemma placed_put:
  assumes "placed_ok F s" "\<And>x. places_of s i = Some x \<Longrightarrow> x = (Urgency p, Incremental p)"
  shows "placed_ok F (s\<lparr>sc_prio := store_put i p (sc_prio s)\<rparr>)"
  unfolding placed_ok_def
proof (intro allI impI)
  fix j q x
  assume h: "holds_prio F (s\<lparr>sc_prio := store_put i p (sc_prio s)\<rparr>) j q"
    "places_of (s\<lparr>sc_prio := store_put i p (sc_prio s)\<rparr>) j = Some x"
  then have x: "places_of s j = Some x" by simp
  show "x = (Urgency q, Incremental q)"
  proof (cases "j = i")
    case True
    with h(1) x assms(2) show ?thesis by (simp add: holds_prio_def)
  next
    case False
    with h(1) have "holds_prio F s j q" by (simp add: holds_prio_def)
    with x assms(1) show ?thesis unfolding placed_ok_def by blast
  qed
qed

lemma placed_delete:
  assumes "placed_ok F s"
  shows "placed_ok (insert i F) (s\<lparr>sc_prio := store_delete i (sc_prio s)\<rparr>)"
  unfolding placed_ok_def
proof (intro allI impI)
  fix j q x
  assume h: "holds_prio (insert i F) (s\<lparr>sc_prio := store_delete i (sc_prio s)\<rparr>) j q"
    "places_of (s\<lparr>sc_prio := store_delete i (sc_prio s)\<rparr>) j = Some x"
  from h(1) have "holds_prio F s j q" by (cases "j = i") (simp_all add: holds_prio_def split: option.splits)
  moreover have "places_of s j = Some x" using h(2) by simp
  ultimately show "x = (Urgency q, Incremental q)" using assms unfolding placed_ok_def by blast
qed

lemma placed_SetPriority:
  assumes "sched_ok s" "placed_ok F s" "priority_ok p" "SetPriority i p s = Some s'"
  shows "placed_ok F s'"
proof (cases "i = 0 \<or> store_get (sc_streams s) i = None")
  case True
  with assms(2,4) show ?thesis
    by (cases "i = 0") (auto simp: SetPriority_def Let_def places_of_def intro!: placed_put)
next
  case False
  then obtain q where q: "store_get (sc_streams s) i = Some q" "i \<noteq> 0" by auto
  show ?thesis
  proof (cases "sq_band q = Urgency p \<and> sq_inc q = Incremental p")
    case True
    with q assms(2,4) show ?thesis by (auto simp: SetPriority_def Let_def places_of_def intro!: placed_put)
  next
    case moved: False
    let ?s = "s\<lparr>sc_prio := store_put i p (sc_prio s)\<rparr>"
    let ?l = "(sc_bands s)[sq_band q := leave_band i (sq_inc q) (sc_bands s ! sq_band q)]"
    have b: "sq_band q < length (sc_bands s)" "Urgency p < length (sc_bands s)"
      using sched_okD(4) [OF assms(1) q(1)] sched_okD(7) [OF assms(1)] band_less [OF assms(3)] by (simp_all add: queue_ok_def)
    have pr: "priority_of (?s\<lparr>sc_bands := ?l\<rparr>) i = p" by (simp add: priority_of_def)
    have "sc_prio s' = store_put i p (sc_prio s)" "places_of s' = (places_of s)(i \<mapsto> (Urgency p, Incremental p))"
      using assms(4) q moved b pr leave_Some [of q ?s i] enter_Some [of "?s\<lparr>sc_bands := ?l\<rparr>" i q]
      by (auto simp: SetPriority_def Let_def places_put)
    with assms(2) show ?thesis by (auto simp: placed_ok_def holds_prio_def split: if_splits option.splits)
  qed
qed

text \<open>The streams that were ever forgotten, and the priority that a stream was given last and that was not forgotten since.\<close>

fun forgotten :: "sched_op list \<Rightarrow> u32 set" where
  "forgotten [] = {}"
| "forgotten (SForget i # ops) = insert i (forgotten ops)"
| "forgotten (_ # ops) = forgotten ops"

definition gave :: "u32 \<Rightarrow> sched_op \<Rightarrow> priority option \<Rightarrow> priority option" where
  "gave i op g =
     (case op of
        SSetPriority j p \<Rightarrow> if j = i then Some p else g
      | SForget j \<Rightarrow> if j = i then None else g
      | _ \<Rightarrow> g)"

definition given :: "u32 \<Rightarrow> sched_op list \<Rightarrow> priority option" where
  "given i ops = foldl (\<lambda>g op. gave i op g) None ops"

lemma given_snoc: "given i (ops @ [op]) = gave i op (given i ops)"
  by (simp add: given_def)

lemma forgotten_append [simp]: "forgotten (xs @ ys) = forgotten xs \<union> forgotten ys"
  by (induction xs rule: forgotten.induct) auto

lemma placed_apply:
  assumes "sched_ok s" "placed_ok F s" "params_valid op" "sched_apply op s = Some (r, s')"
  shows "placed_ok (F \<union> forgotten [op]) s'"
proof (cases op)
  case (SPush f) then show ?thesis using placed_Push assms by auto
next
  case SPop then show ?thesis using placed_Pop assms by auto
next
  case (SSetPriority i p) then show ?thesis using placed_SetPriority assms by auto
next
  case (SForget i) then show ?thesis using assms placed_delete [of F s i] by (auto simp: sched_Forget_def)
qed

lemma serve_prio: "serve u s = Some (f, s') \<Longrightarrow> sc_prio s' = sc_prio s"
  by (auto simp: serve_def take_data_def leave_def on_band_def Let_def split: if_splits option.splits list.splits)

lemma Pop_prio: "Pop s = Some (r, s') \<Longrightarrow> sc_prio s' = sc_prio s"
  by (auto simp: Pop_def unpin_def outOfTurn_def take_data_def leave_def on_band_def Let_def dest: serve_prio
      split: if_splits option.splits list.splits)

lemma sched_apply_prio:
  assumes "sched_apply op s = Some (r, s')" "i \<noteq> 0"
  shows "store_get (sc_prio s') i = gave i op (store_get (sc_prio s) i)"
proof (cases op)
  case (SPush f)
  with assms(1) show ?thesis
    by (auto simp: gave_def Push_def push_data_def push_other_def enter_def on_band_def Let_def split: if_splits option.splits)
next
  case SPop
  with assms(1) Pop_prio show ?thesis by (auto simp: gave_def)
next
  case (SSetPriority j p)
  with assms show ?thesis
    by (auto simp: gave_def SetPriority_def leave_def enter_def on_band_def Let_def split: if_splits option.splits)
next
  case (SForget j)
  with assms show ?thesis by (auto simp: gave_def sched_Forget_def)
qed

lemma sched_run_placed:
  "list_all params_valid ops \<Longrightarrow> sched_run ops newScheduler = Some (Q, s) \<Longrightarrow>
     sched_ok s \<and> placed_ok (forgotten ops) s \<and> (\<forall>i. i \<noteq> 0 \<longrightarrow> store_get (sc_prio s) i = given i ops)"
proof (induction ops arbitrary: s Q rule: rev_induct)
  case Nil
  then have s: "s = newScheduler" by simp
  have "places_of newScheduler i = None" "store_get (sc_prio newScheduler) i = None" for i
    by (simp_all add: places_of_def newScheduler_def)
  then show ?case by (simp add: s newScheduler_ok placed_ok_def given_def)
next
  case (snoc op ops)
  obtain Q1 s1 r where s1: "sched_run ops newScheduler = Some (Q1, s1)" "sched_apply op s1 = Some (r, s)"
    using snoc.prems(2) by (auto simp: sched_run_snoc split: option.splits prod.splits)
  from snoc.IH [OF _ s1(1)] snoc.prems(1) have ih: "sched_ok s1" "placed_ok (forgotten ops) s1"
    "\<And>i. i \<noteq> 0 \<Longrightarrow> store_get (sc_prio s1) i = given i ops" by auto
  from priority_ok_apply [OF ih(1), of op] s1(2) snoc.prems(1) have "sched_ok s" by auto
  with placed_apply [OF ih(1,2) _ s1(2)] snoc.prems(1) sched_apply_prio [OF s1(2)] ih(3) show ?case
    by (simp add: given_snoc)
qed

subsection \<open>The properties\<close>

text \<open>Over any sequence of pushes, pops and priority signals in which each stream's own frames
  respect its field blocks, the scheduler never panics, and it is a set of first-in first-out queues, one
  per stream: what a stream pushed is what has been popped for it followed by what is held
  for it, so nothing is lost, duplicated, or reordered within a stream, whatever the peer's priority
  signals do in between.\<close>

theorem scheduler_refines_stream_queues:
  assumes "list_all params_valid ops" "streams_intact (pushed ops)"
  shows "\<exists>Q s. sched_run ops newScheduler = Some (Q, s) \<and> (\<forall>i. on i (pushed ops) = on i Q @ held s i)"
  using sched_run_order [OF assms] by (auto simp: order_ok_def)

text \<open>Under the same hypothesis field blocks leave whole, whoever pushes what in between: in the
  sequence of all frames popped, nothing comes between the frame that opens a field block and the one
  that ends it but the CONTINUATION frames of that stream (RFC 9113 section 6.10).\<close>

theorem field_blocks_leave_whole:
  assumes "list_all params_valid ops" "streams_intact (pushed ops)" "sched_run ops newScheduler = Some (Q, s)"
  shows "blocks_intact Q"
  using sched_run_order [OF assms(1,2)] assms(3) by (auto simp: order_ok_def blocks_intact_def)

text \<open>C23: \<open>Pop\<close> finds nothing exactly when \<open>Len\<close> is zero, so no frame is ever stuck. When it has no other
  frame to write, it takes DATA of a stream with the smallest urgency among all the streams that have
  DATA waiting, and if that stream is not incremental, the one with the lowest identifier among those
  that are not incremental at that urgency. A stream waits at the urgency and in the mode of the signal that was given last in the history
  (\<open>given\<close>, a function of the calls alone), be it before or after its DATA came; one that was never given any and never forgotten, at the default; where a stream with
  DATA waiting was forgotten, nothing is claimed until the next signal.\<close>

theorem urgency_is_respected:
  assumes "list_all params_valid ops" "sched_run ops newScheduler = Some (Q, s)" "Pop s = Some (r, s')"
  shows "(r = None \<longleftrightarrow> sched_Len s = 0) \<and>
    (sc_pinned s = [] \<and> sc_lane s = [] \<and> r \<noteq> None \<longrightarrow>
      (\<exists>i q. store_get (sc_streams s) i = Some q \<and> r = Some (qd_f (hd (sq_data q))) \<and>
        (\<forall>j q'. store_get (sc_streams s) j = Some q' \<longrightarrow> sq_band q \<le> sq_band q' \<and>
           (\<not> sq_inc q \<and> \<not> sq_inc q' \<and> sq_band q' = sq_band q \<longrightarrow> i \<le> j)))) \<and>
    (\<forall>i q. store_get (sc_streams s) i = Some q \<longrightarrow>
      (case given i ops of
         Some p \<Rightarrow> sq_band q = Urgency p \<and> sq_inc q = Incremental p
       | None \<Rightarrow> SForget i \<notin> set ops \<longrightarrow> sq_band q = 3 \<and> \<not> sq_inc q))"
proof (intro conjI impI)
  have ok: "sched_ok s" and placed: "placed_ok (forgotten ops) s"
    and prio: "\<And>i. i \<noteq> 0 \<Longrightarrow> store_get (sc_prio s) i = given i ops"
    using sched_run_placed [OF assms(1,2)] by auto
  show "r = None \<longleftrightarrow> sched_Len s = 0" using Pop_ok [OF ok] assms(3) by (auto simp: sched_Len_def)
  have never: "SForget i \<notin> set ops \<Longrightarrow> i \<notin> forgotten ops" for i
    by (induction ops rule: forgotten.induct) auto
  have default: "Urgency no_priority = 3" "\<not> Incremental no_priority" by code_simp+
  show "\<forall>i q. store_get (sc_streams s) i = Some q \<longrightarrow>
      (case given i ops of
         Some p \<Rightarrow> sq_band q = Urgency p \<and> sq_inc q = Incremental p
       | None \<Rightarrow> SForget i \<notin> set ops \<longrightarrow> sq_band q = 3 \<and> \<not> sq_inc q)"
  proof (intro allI impI)
    fix i q assume q: "store_get (sc_streams s) i = Some q"
    have "i \<noteq> 0" using sched_okD(4) [OF ok q] by (simp add: queue_ok_def)
    moreover have place: "places_of s i = Some (sq_band q, sq_inc q)" using q by (simp add: places_of_def)
    have "sq_band q = Urgency p \<and> sq_inc q = Incremental p" if "holds_prio (forgotten ops) s i p" for p
      using placed that place unfolding placed_ok_def by blast
    ultimately show "case given i ops of
         Some p \<Rightarrow> sq_band q = Urgency p \<and> sq_inc q = Incremental p
       | None \<Rightarrow> SForget i \<notin> set ops \<longrightarrow> sq_band q = 3 \<and> \<not> sq_inc q"
      using prio never default by (auto simp: holds_prio_def split: option.splits)
  qed
  assume e: "sc_pinned s = [] \<and> sc_lane s = [] \<and> r \<noteq> None"
  from ok show "\<exists>i q. store_get (sc_streams s) i = Some q \<and> r = Some (qd_f (hd (sq_data q))) \<and>
        (\<forall>j q'. store_get (sc_streams s) j = Some q' \<longrightarrow> sq_band q \<le> sq_band q' \<and>
           (\<not> sq_inc q \<and> \<not> sq_inc q' \<and> sq_band q' = sq_band q \<longrightarrow> i \<le> j))"
  proof (cases rule: Pop_cases)
    case (data u i q t)
    have fb: "u < numBands" "\<And>v. v < u \<Longrightarrow> ring v s = []" using first_band_Some [OF data(3)] sched_okD(7) [OF ok] by auto
    have waits: "sq_band q' < numBands" "band_fits (places_of s) (sq_band q') (sc_bands s ! sq_band q')" "j \<noteq> 0"
      "places_of s j = Some (sq_band q', sq_inc q')" if "store_get (sc_streams s) j = Some q'" for j q'
      using sched_okD(4) [OF ok that] sched_okD(1) [OF ok] that by (simp_all add: queue_ok_def rings_fit_def places_of_def)
    have "u \<le> sq_band q'" if "store_get (sc_streams s) j = Some q'" for j q'
      using waits [OF that] fb(2) [of "sq_band q'"] by (cases "sq_inc q'") (auto simp: band_fits_def not_less [symmetric])
    moreover have "i \<le> j" if "store_get (sc_streams s) j = Some q'" "\<not> sq_inc q" "\<not> sq_inc q'" "sq_band q' = u" for j q'
    proof -
      have "hd (ring u s) = 0" using data(4,5,6) waits [OF data(5)] that(2) by (auto simp: served_def band_fits_def split: if_splits)
      moreover have "j \<in> set (bn_nonInc (sc_bands s ! u))" using waits [OF that(1)] that(3,4) by (auto simp: band_fits_def)
      ultimately show ?thesis using data(4) by (auto simp: served_def)
    qed
    ultimately have "\<forall>j q'. store_get (sc_streams s) j = Some q' \<longrightarrow> sq_band q \<le> sq_band q' \<and>
           (\<not> sq_inc q \<and> \<not> sq_inc q' \<and> sq_band q' = sq_band q \<longrightarrow> i \<le> j)"
      using data(6) by blast
    moreover have "r = Some (qd_f (hd (sq_data q)))" using data(7) assms(3) by simp
    ultimately show ?thesis using data(5) by blast
  qed (use e assms(3) in auto)
qed

text \<open>C24: Within an urgency the turns are fair: a participant (an incremental stream, or the group of
  streams that are not incremental) that stays in the band while \<open>n\<close> turns of the band are used, where
  \<open>n\<close> is at least the number of participants when it started to wait, has had one of them; this
  holds whatever is pushed, forgotten and reprioritised meanwhile.\<close>

theorem turns_are_fair:
  assumes "list_all params_valid before" "sched_run before newScheduler = Some (Q, s)" "u < numBands"
    "list_all params_valid ops" "competes u x ops s" "length (ring u s) \<le> length (turns u ops s)"
  shows "x \<in> set (turns u ops s)"
proof (rule ccontr)
  have ok: "sched_ok s" using sched_run_ok [OF newScheduler_ok assms(1)] assms(2) by auto
  assume "x \<notin> set (turns u ops s)"
  from turns_bound [OF ok assms(4,3,5) this] place_less [OF competes_in [OF assms(5)]] assms(6) show False by simp
qed

subsection \<open>Sample runs\<close>

definition sample_data :: "u32 \<Rightarrow> byte \<Rightarrow> frame" where
  "sample_data i x = DataFrame \<lparr>df_StreamID = i, df_EndStream = False, df_Data = [x], df_Padded = False, df_PadLen = 0\<rparr>"

definition sample_headers :: "u32 \<Rightarrow> bool \<Rightarrow> frame" where
  "sample_headers i e = HeadersFrame \<lparr>hf_StreamID = i, hf_EndStream = False, hf_EndHeaders = e, hf_Fragment = [],
     hf_Priority = False, hf_Exclusive = False, hf_StreamDependency = 0, hf_Weight = 0, hf_Padded = False, hf_PadLen = 0\<rparr>"

definition sample_continuation :: "u32 \<Rightarrow> frame" where
  "sample_continuation i = ContinuationFrame \<lparr>cf_StreamID = i, cf_EndHeaders = True, cf_Fragment = []\<rparr>"

definition sample_credit :: "u32 \<Rightarrow> frame" where
  "sample_credit i = WindowUpdateFrame \<lparr>wf_StreamID = i, wf_Increment = 1\<rparr>"

definition urgent :: priority where
  "urgent = \<lparr>pr_urgency = 1, pr_hasUrgency = True, pr_incremental = True, pr_hasIncremental = True\<rparr>"

lemma streams_intact_on:
  "streams_intact P \<longleftrightarrow> (\<forall>i\<in>set (map Frame_Stream P). blocks_intact (on i P))"
proof -
  have "on i P = []" if "i \<notin> set (map Frame_Stream P)" for i
    using that by (induction P) auto
  moreover have "blocks_intact []" by (simp add: blocks_intact_def)
  ultimately show ?thesis unfolding streams_intact_def by metis
qed

text \<open>Two streams: the second one's response opens while the first one's field block is incomplete,
  and its DATA overtakes once the peer has raised its urgency.\<close>

definition sample_run :: "sched_op list" where
  "sample_run = [SPush (sample_headers 1 False), SPush (sample_headers 3 True), SPop, SPush (sample_continuation 1),
     SPush (sample_data 1 7), SPush (sample_data 3 8), SPush (sample_data 1 9), SPop, SPop, SSetPriority 3 urgent,
     SPush (sample_data 3 6)]"

lemma sample_run_ok:
  "list_all params_valid sample_run" "streams_intact (pushed sample_run)"
  unfolding streams_intact_on by code_simp+

definition sample_sched :: scheduler where
  "sample_sched = (case sched_run sample_run newScheduler of None \<Rightarrow> newScheduler | Some (Q, s) \<Rightarrow> s)"

lemma sample_run_eq:
  "sched_run sample_run newScheduler =
     Some ([sample_headers 3 True, sample_headers 1 False, sample_continuation 1], sample_sched)"
  by code_simp

lemma scheduler_refines_stream_queues_witness:
  "on 1 (pushed sample_run) =
     on 1 [sample_headers 3 True, sample_headers 1 False, sample_continuation 1] @ held sample_sched 1 \<and>
   held sample_sched 1 = [sample_data 1 7, sample_data 1 9]"
proof
  show "on 1 (pushed sample_run) =
      on 1 [sample_headers 3 True, sample_headers 1 False, sample_continuation 1] @ held sample_sched 1"
    using scheduler_refines_stream_queues [OF sample_run_ok] sample_run_eq by auto
  show "held sample_sched 1 = [sample_data 1 7, sample_data 1 9]" by code_simp
qed

lemma field_blocks_leave_whole_witness:
  "blocks_intact [sample_headers 3 True, sample_headers 1 False, sample_continuation 1]"
  using field_blocks_leave_whole [OF sample_run_ok sample_run_eq] .

lemma sample_sched_Pop:
  "Pop sample_sched = Some (Some (sample_data 3 8), snd (the (Pop sample_sched)))"
proof -
  have "map_option fst (Pop sample_sched) = Some (Some (sample_data 3 8))" by code_simp
  then show ?thesis by auto
qed

lemma urgency_is_respected_witness:
  "(\<exists>i q. store_get (sc_streams sample_sched) i = Some q \<and> Some (sample_data 3 8) = Some (qd_f (hd (sq_data q))) \<and>
      (\<forall>j q'. store_get (sc_streams sample_sched) j = Some q' \<longrightarrow> sq_band q \<le> sq_band q' \<and>
           (\<not> sq_inc q \<and> \<not> sq_inc q' \<and> sq_band q' = sq_band q \<longrightarrow> i \<le> j))) \<and>
   Urgency (priority_of sample_sched 3) = 1 \<and> Urgency (priority_of sample_sched 1) = 3"
proof
  have "sc_pinned sample_sched = []" "sc_lane sample_sched = []" by code_simp+
  with urgency_is_respected [OF sample_run_ok(1) sample_run_eq sample_sched_Pop]
  show "\<exists>i q. store_get (sc_streams sample_sched) i = Some q \<and> Some (sample_data 3 8) = Some (qd_f (hd (sq_data q))) \<and>
      (\<forall>j q'. store_get (sc_streams sample_sched) j = Some q' \<longrightarrow> sq_band q \<le> sq_band q' \<and>
           (\<not> sq_inc q \<and> \<not> sq_inc q' \<and> sq_band q' = sq_band q \<longrightarrow> i \<le> j))" by blast
  show "Urgency (priority_of sample_sched 3) = 1 \<and> Urgency (priority_of sample_sched 1) = 3" by code_simp
qed

lemma turns_are_fair_witness:
  "3 \<in> set (turns 1 [SPop, SForget 1] sample_sched)"
  using turns_are_fair [OF sample_run_ok(1) sample_run_eq, of 1 "[SPop, SForget 1]" 3]
  by code_simp

text \<open>Without the hypothesis of \<open>field_blocks_leave_whole\<close> the conclusion fails: \<open>Push\<close> puts any frame of a
  stream other than DATA into the stream's open block, so a WINDOW_UPDATE that the connection
  grants while a field block is incomplete leaves between HEADERS and CONTINUATION.\<close>

lemma interrupted_block:
  "map_option fst (sched_run [SPush (sample_headers 1 False), SPush (sample_credit 1), SPush (sample_continuation 1),
      SPop, SPop, SPop] newScheduler) = Some [sample_headers 1 False, sample_credit 1, sample_continuation 1]"
  "\<not> blocks_intact [sample_headers 1 False, sample_credit 1, sample_continuation 1]"
  by code_simp+

end
