(* ===== verification/FieldOrder.thy ===== *)
theory FieldOrder
  imports SchedProps "HOL-Library.Sublist"
begin

text \<open>
  The order of field blocks across streams. HPACK makes it part of the protocol: the peer decodes the
  blocks of all streams with one table, in the order in which they arrive. The scheduler reorders DATA
  only; when the frames of field blocks are pushed one block after the other, as the encoder's lock
  makes them, they leave in the order in which they were pushed.
\<close>

definition field_frame :: "frame \<Rightarrow> bool" where
  "field_frame f \<longleftrightarrow> Frame_Type f = TypeHeaders \<or> Frame_Type f = TypePushPromise \<or> Frame_Type f = TypeContinuation"

definition fields_of :: "frame list \<Rightarrow> frame list" where
  "fields_of = List.filter field_frame"

lemma fields_of_simps [simp]:
  "fields_of [] = []"
  "fields_of (f # fs) = (if field_frame f then f # fields_of fs else fields_of fs)"
  "fields_of (fs @ gs) = fields_of fs @ fields_of gs"
  by (simp_all add: fields_of_def)

lemma fields_of_prefix: "prefix fs gs \<Longrightarrow> prefix (fields_of fs) (fields_of gs)"
  by (auto simp: prefix_def)

lemma block_step_field: "opensBlock f \<Longrightarrow> field_frame f" "\<not> field_frame f \<Longrightarrow> block_step b f = (if b = None then Some None else None)"
  by (auto simp: opensBlock_def field_frame_def block_step_def split: option.split if_splits)

definition open_runs :: "scheduler \<Rightarrow> frame list" where
  "open_runs s = concat (map (\<lambda>x. it_frames (snd x)) (sc_runs s))"

definition one_run :: "scheduler \<Rightarrow> u32 option \<Rightarrow> bool" where
  "one_run s b \<longleftrightarrow> (case b of None \<Rightarrow> sc_runs s = [] | Some i \<Rightarrow> \<exists>r. sc_runs s = [(i, r)])"

definition field_order :: "frame list \<Rightarrow> frame list \<Rightarrow> scheduler \<Rightarrow> bool" where
  "field_order P Q s \<longleftrightarrow>
     (\<exists>b. blocks_from None (fields_of P) = Some b \<and> one_run s b) \<and>
     fields_of (Q @ sc_pinned s @ concat (map it_frames (sc_lane s)) @ open_runs s) = fields_of P"

lemma field_order_new: "field_order [] [] newScheduler"
  by (simp add: field_order_def newScheduler_def one_run_def open_runs_def)

lemma field_order_same:
  assumes "field_order P Q s" "sc_runs s' = sc_runs s"
    "fields_of (Q' @ sc_pinned s' @ concat (map it_frames (sc_lane s'))) =
     fields_of (Q @ sc_pinned s @ concat (map it_frames (sc_lane s)))"
  shows "field_order P Q' s'"
proof -
  have "one_run s' = one_run s" "open_runs s' = open_runs s" unfolding one_run_def [abs_def] open_runs_def assms(2) by (rule refl)+
  with assms(1,3) show ?thesis
    by (simp add: field_order_def append_assoc [symmetric] del: append_assoc)
qed

lemma push_data_same:
  assumes "Push f s = Some s'" "Frame_Type f = TypeData \<and> Frame_Stream f \<noteq> nonIncrementalTurn"
  shows "sc_runs s' = sc_runs s \<and> sc_lane s' = sc_lane s \<and> sc_pinned s' = sc_pinned s"
  using assms by (auto simp: Push_def push_data_def enter_def on_band_def Let_def split: if_splits option.splits)

lemma field_order_Push:
  assumes "field_order P Q s" "order_ok P Q s" "Push f s = Some s'"
    "blocks_from None (on (Frame_Stream f) (P @ [f])) \<noteq> None" "blocks_from None (fields_of (P @ [f])) \<noteq> None"
  shows "field_order (P @ [f]) Q s'"
proof (cases "Frame_Type f = TypeData \<and> Frame_Stream f \<noteq> nonIncrementalTurn")
  case True
  then have "\<not> field_frame f" by (auto simp: field_frame_def)
  moreover have "field_order P Q s'" using push_data_same [OF assms(3) True] by (intro field_order_same [OF assms(1)]) auto
  ultimately show ?thesis by (simp add: field_order_def)
next
  case False
  let ?i = "Frame_Stream f" and ?t = "s\<lparr>sc_seq := Suc (sc_seq s)\<rparr>"
  have s': "s' = push_other f ?t" using assms(3) False by (auto simp: Push_def Let_def split: if_splits)
  obtain b where b: "blocks_from None (fields_of P) = Some b" "one_run s b"
    and eq: "fields_of (Q @ sc_pinned s @ concat (map it_frames (sc_lane s)) @ open_runs s) = fields_of P"
    using assms(1) by (auto simp: field_order_def)
  have st: "block_step (if store_get (sc_runs s) ?i = None then None else Some ?i) f \<noteq> None"
    using assms(2,4) by (auto simp: order_ok_def blocks_from_append split: option.splits)
  show ?thesis
  proof (cases "field_frame f")
    case no: False
    then have r: "store_get (sc_runs s) ?i = None" "\<not> opensBlock f"
      using st block_step_field [of f] by (auto split: if_splits)
    with no b eq show ?thesis
      by (auto simp: s' push_other_def Let_def field_order_def one_run_def open_runs_def split: option.splits)
  next
    case yes: True
    have fs: "block_step b f \<noteq> None"
      using assms(5) b(1) yes by (auto simp: blocks_from_append split: option.splits)
    show ?thesis
    proof (cases b)
      case None
      then have r: "sc_runs s = []" using b(2) by (simp add: one_run_def)
      have nc: "Frame_Type f \<noteq> TypeContinuation" using fs None by (auto simp: block_step_def)
      show ?thesis
        using yes b eq None r nc
        by (auto simp: s' push_other_def Let_def field_order_def one_run_def open_runs_def blocks_from_append block_step_def)
    next
      case (Some j)
      then obtain r where r: "sc_runs s = [(j, r)]" using b(2) by (auto simp: one_run_def)
      have c: "Frame_Type f = TypeContinuation" "?i = j" using fs Some by (auto simp: block_step_def split: if_splits)
      show ?thesis
        using yes b eq Some r c
        by (auto simp: s' push_other_def Let_def field_order_def one_run_def open_runs_def blocks_from_append block_step_def)
    qed
  qed
qed

lemma field_order_Pop:
  assumes "field_order P Q s" "order_ok P Q s" "Pop s = Some (r, s')"
  shows "field_order P (Q @ popped_by r) s'"
proof -
  have ok: "sched_ok s" using assms(2) by (simp add: order_ok_def)
  have data: "\<not> field_frame (qd_f x)" if x: "x \<in> set (data_of s i)" for x i
  proof -
    obtain q where "store_get (sc_streams s) i = Some q" "x \<in> set (sq_data q)"
      using x by (cases "store_get (sc_streams s) i") (auto simp: data_of_def)
    with sched_okD(4) [OF ok] have "Frame_Type (qd_f x) = TypeData" by (auto simp: queue_ok_def list_all_iff)
    then show ?thesis by (simp add: field_frame_def)
  qed
  from ok show ?thesis
  proof (cases rule: Pop_cases)
    case none
    with assms show ?thesis by simp
  next
    case (pinned f fs)
    with assms(3) show ?thesis by (intro field_order_same [OF assms(1)]) auto
  next
    case (item it rest f fs)
    with assms(3) show ?thesis by (intro field_order_same [OF assms(1)]) auto
  next
    case (forced it rest x xs s1)
    then have "\<not> field_frame (qd_f x)" using data [of x "it_stream it"] by simp
    with forced assms(3) show ?thesis by (intro field_order_same [OF assms(1)]) (auto simp: took_def)
  next
    case (data u i q s1)
    have "sq_data q \<noteq> []" using sched_okD(4) [OF ok data(5)] by (simp add: queue_ok_def)
    then have "\<not> field_frame (qd_f (hd (sq_data q)))" using \<open>\<And>x i. x \<in> set (data_of s i) \<Longrightarrow> \<not> field_frame (qd_f x)\<close> [of _ i] data(5)
      by (simp add: data_of_def)
    with data assms(3) show ?thesis by (intro field_order_same [OF assms(1)]) (auto simp: took_def)
  qed
qed


lemma field_order_apply:
  assumes "field_order P Q s" "order_ok P Q s" "params_valid op" "sched_apply op s = Some (r, s')"
    and "\<And>f. op = SPush f \<Longrightarrow> blocks_from None (on (Frame_Stream f) (P @ [f])) \<noteq> None \<and>
      blocks_from None (fields_of (P @ [f])) \<noteq> None"
  shows "field_order (P @ pushed [op]) (Q @ popped_by r) s'"
proof (cases op)
  case (SPush f)
  with assms(4,5) field_order_Push [OF assms(1,2), of f s'] show ?thesis by auto
next
  case SPop
  with assms(4) field_order_Pop [OF assms(1,2)] show ?thesis by simp
next
  case (SSetPriority i p)
  with assms(4) have "SetPriority i p s = Some s'" "r = None" by auto
  then have "sc_runs s' = sc_runs s" "sc_lane s' = sc_lane s" "sc_pinned s' = sc_pinned s"
    by (auto simp: SetPriority_def leave_def enter_def on_band_def Let_def split: if_splits option.splits)
  with SSetPriority \<open>r = None\<close> show ?thesis by (auto intro!: field_order_same [OF assms(1)])
next
  case (SForget i)
  with assms(4) show ?thesis by (auto simp: sched_Forget_def intro!: field_order_same [OF assms(1)])
qed

subsection \<open>The order across streams with the order within each\<close>

definition sched_good :: "frame list \<Rightarrow> frame list \<Rightarrow> scheduler \<Rightarrow> bool" where
  "sched_good P Q s \<longleftrightarrow> sched_ok s \<and>
     (streams_intact P \<longrightarrow> order_ok P Q s \<and> (blocks_from None (fields_of P) \<noteq> None \<longrightarrow> field_order P Q s))"

lemma sched_goodD:
  assumes "sched_good P Q s"
  shows "sched_ok s" "streams_intact P \<Longrightarrow> order_ok P Q s"
    "streams_intact P \<Longrightarrow> blocks_from None (fields_of P) \<noteq> None \<Longrightarrow> field_order P Q s"
  using assms unfolding sched_good_def by blast+

lemma sched_good_new: "sched_good [] [] newScheduler"
  by (simp add: sched_good_def order_ok_new field_order_new newScheduler_ok)

lemma sched_good_apply:
  assumes "sched_good P Q s" "params_valid op"
  shows "\<exists>r s'. sched_apply op s = Some (r, s') \<and> sched_good (P @ pushed [op]) (Q @ popped_by r) s'"
proof -
  obtain r s' where s': "sched_apply op s = Some (r, s')" "sched_ok s'"
    using priority_ok_apply [OF sched_goodD(1) [OF assms(1)] assms(2)] by auto
  have "order_ok (P @ pushed [op]) (Q @ popped_by r) s' \<and>
      (blocks_from None (fields_of (P @ pushed [op])) \<noteq> None \<longrightarrow> field_order (P @ pushed [op]) (Q @ popped_by r) s')"
    if intact: "streams_intact (P @ pushed [op])"
  proof -
    have "streams_intact P" using intact by (cases op) (auto dest: streams_intact_snoc)
    note g = sched_goodD(2,3) [OF assms(1) this]
    have push: "blocks_from None (on (Frame_Stream f) (P @ [f])) \<noteq> None" if "op = SPush f" for f
      using intact streams_intact_push that by simp
    from order_ok_apply [OF g(1) assms(2) push] s'(1) have o: "order_ok (P @ pushed [op]) (Q @ popped_by r) s'" by auto
    have "field_order (P @ pushed [op]) (Q @ popped_by r) s'" if b: "blocks_from None (fields_of (P @ pushed [op])) \<noteq> None"
    proof -
      have "blocks_from None (fields_of P) \<noteq> None" using b by (auto simp: blocks_from_append split: option.splits)
      moreover have "blocks_from None (fields_of (P @ [f])) \<noteq> None" if "op = SPush f" for f using b that by simp
      ultimately show ?thesis using g assms(2) push s'(1) by (intro field_order_apply) auto
    qed
    with o show ?thesis by blast
  qed
  with s' show ?thesis unfolding sched_good_def by blast
qed

text \<open>The field frames that left are a first part of those that were pushed.\<close>

lemma field_order_left:
  assumes "sched_good P Q s" "streams_intact P" "blocks_from None (fields_of P) \<noteq> None"
  shows "prefix (fields_of Q) (fields_of P)"
  using sched_goodD(3) [OF assms] unfolding field_order_def by (metis fields_of_simps(3) prefixI)

end
