(* ===== verification/ResponseOk.thy ===== *)
theory ResponseOk
  imports Response FieldOrder HpackSync
begin

text \<open>
  The responses of all the streams of a connection. \<open>write_contract\<close>'s counterpart for a response is
  the locale \<open>sending_half\<close>: what the encoder and the writers rely on of the frame queue and of the
  send half of flow control. Inside it, what the streams' calls hand over is a sequence of items
  (sections, DATA, ends), whose order on each stream is that of an HTTP message and whose field blocks are
  in the order in which the encoder made them.
\<close>

subsection \<open>The frames of a section\<close>

definition continuation_of :: "u32 \<Rightarrow> bool \<Rightarrow> byte list \<Rightarrow> frame" where
  "continuation_of i endHeaders fragment =
     ContinuationFrame \<lparr>cf_StreamID = i, cf_EndHeaders = endHeaders, cf_Fragment = fragment\<rparr>"

function cont_frames :: "u32 \<Rightarrow> u32 \<Rightarrow> byte list \<Rightarrow> frame list" where
  "cont_frames i cap rest =
     (if rest = [] then []
      else let n = min (length rest) (splitAt cap) in
           continuation_of i (n = length rest) (take n rest) # cont_frames i cap (drop n rest))"
  by auto

termination
  by (relation "measure (\<lambda>(i, cap, rest). length rest)") (auto simp: min_def)

declare cont_frames.simps [simp del]

lemma cont_frames_Nil [simp]: "cont_frames i cap [] = []"
  by (simp add: cont_frames.simps)

definition section_frames :: "u32 \<Rightarrow> bool \<Rightarrow> u32 \<Rightarrow> byte list \<Rightarrow> frame list" where
  "section_frames i endStream cap block =
     (let n = min (length block) (splitAt cap) in
      headers_of i endStream (n = length block) (take n block) # cont_frames i cap (drop n block))"

lemma frame_facts [simp]:
  "Frame_Stream (continuation_of i b x) = i" "Frame_Type (continuation_of i b x) = TypeContinuation"
  "endsBlock (continuation_of i b x) = b"
  "Frame_Stream (headers_of i e b x) = i" "Frame_Type (headers_of i e b x) = TypeHeaders"
  "endsBlock (headers_of i e b x) = b"
  "Frame_Stream (data_of_body i e p) = i" "Frame_Type (data_of_body i e p) = TypeData"
  by (cases b; cases e; simp add: continuation_of_def headers_of_def data_of_body_def endsBlock_def Continuation_Flags_def
      Headers_Flags_def set_flag_def)+

lemma cont_frames_stream: "f \<in> set (cont_frames i cap rest) \<Longrightarrow> Frame_Stream f = i \<and> field_frame f"
proof (induction i cap rest rule: cont_frames.induct)
  case (1 i cap rest)
  then show ?case
    by (cases "rest = []") (auto simp: cont_frames.simps [of i cap rest] Let_def field_frame_def)
qed

text \<open>The fragments of a sequence of field frames, put together to blocks; a last block that is not complete is left out.\<close>

fun fragment_of :: "frame \<Rightarrow> byte list" where
  "fragment_of (HeadersFrame f) = hf_Fragment f"
| "fragment_of (ContinuationFrame f) = cf_Fragment f"
| "fragment_of _ = []"

fun assemble :: "byte list \<Rightarrow> frame list \<Rightarrow> byte list list" where
  "assemble acc [] = []"
| "assemble acc (f # fs) =
     (if endsBlock f then (acc @ fragment_of f) # assemble [] fs else assemble (acc @ fragment_of f) fs)"

fun left_over :: "byte list \<Rightarrow> frame list \<Rightarrow> byte list" where
  "left_over acc [] = acc"
| "left_over acc (f # fs) = (if endsBlock f then left_over [] fs else left_over (acc @ fragment_of f) fs)"

lemma assemble_append: "assemble acc (fs @ gs) = assemble acc fs @ assemble (left_over acc fs) gs"
  by (induction acc fs rule: assemble.induct) auto

lemma left_over_append: "left_over acc (fs @ gs) = left_over (left_over acc fs) gs"
  by (induction acc fs rule: left_over.induct) auto

lemma assemble_prefix: "prefix fs gs \<Longrightarrow> prefix (assemble acc fs) (assemble acc gs)"
  by (auto simp: prefix_def assemble_append)

lemma fragment_of_simps [simp]:
  "fragment_of (continuation_of i b x) = x" "fragment_of (headers_of i e b x) = x"
  by (simp_all add: continuation_of_def headers_of_def)

lemma cont_frames_assemble:
  "rest \<noteq> [] \<Longrightarrow> assemble acc (cont_frames i cap rest) = [acc @ rest] \<and> left_over acc (cont_frames i cap rest) = []"
proof (induction i cap rest arbitrary: acc rule: cont_frames.induct)
  case (1 i cap rest)
  let ?n = "min (length rest) (splitAt cap)"
  show ?case
  proof (cases "?n = length rest")
    case True
    with 1(2) show ?thesis by (simp add: cont_frames.simps [of i cap rest] Let_def)
  next
    case False
    then have "drop ?n rest \<noteq> []" by auto
    from 1(1) [OF 1(2) refl this] 1(2) False show ?thesis
      by (simp add: cont_frames.simps [of i cap rest] Let_def)
  qed
qed

lemma section_frames_assemble:
  "assemble [] (section_frames i e cap block) = [block] \<and> left_over [] (section_frames i e cap block) = []"
proof (cases "length block \<le> splitAt cap")
  case True
  then show ?thesis by (simp add: section_frames_def Let_def)
next
  case False
  with cont_frames_assemble [of "drop (splitAt cap) block" "take (splitAt cap) block" i cap] show ?thesis
    by (simp add: section_frames_def Let_def)
qed

lemma cont_frames_blocks:
  "rest \<noteq> [] \<Longrightarrow> prefix gs (cont_frames i cap rest) \<Longrightarrow>
     blocks_from (Some i) gs = Some (if gs = cont_frames i cap rest then None else Some i)"
proof (induction i cap rest arbitrary: gs rule: cont_frames.induct)
  case (1 i cap rest)
  let ?n = "min (length rest) (splitAt cap)"
  show ?case
  proof (cases gs)
    case Nil
    with 1(2) show ?thesis by (simp add: cont_frames.simps [of i cap rest] Let_def)
  next
    case (Cons g hs)
    with 1(2,3) have g: "g = continuation_of i (?n = length rest) (take ?n rest)" "prefix hs (cont_frames i cap (drop ?n rest))"
      by (simp_all add: cont_frames.simps [of i cap rest] Let_def)
    show ?thesis
    proof (cases "?n = length rest")
      case True
      with g(2) have "hs = []" by (simp add:)
      with Cons g(1) True 1(2) show ?thesis
        by (simp add: block_step_def cont_frames.simps [of i cap rest] Let_def)
    next
      case False
      then have "drop ?n rest \<noteq> []" by auto
      moreover from False have "splitAt cap < length rest" by auto
      ultimately show ?thesis using 1(1) [OF 1(2) refl _ g(2)] Cons g(1) False 1(2)
        by (simp add: block_step_def cont_frames.simps [of i cap rest] Let_def)
    qed
  qed
qed

lemma section_frames_blocks:
  assumes "prefix gs (section_frames i e cap block)" "gs \<noteq> []"
  shows "blocks_from None gs = Some (if gs = section_frames i e cap block then None else Some i)"
proof -
  let ?n = "min (length block) (splitAt cap)"
  obtain hs where hs: "gs = headers_of i e (?n = length block) (take ?n block) # hs" "prefix hs (cont_frames i cap (drop ?n block))"
    using assms by (cases gs) (simp_all add: section_frames_def Let_def)
  show ?thesis
  proof (cases "?n = length block")
    case True
    with hs show ?thesis
      by (simp add: block_step_def opensBlock_def section_frames_def Let_def)
  next
    case False
    then have "drop ?n block \<noteq> []" "splitAt cap < length block" by auto
    with cont_frames_blocks [OF this(1) hs(2)] False hs show ?thesis
      by (simp add: block_step_def opensBlock_def section_frames_def Let_def)
  qed
qed

lemma section_frames_stream: "f \<in> set (section_frames i e cap block) \<Longrightarrow> Frame_Stream f = i \<and> field_frame f"
  using cont_frames_stream [of f i cap] by (auto simp: section_frames_def Let_def field_frame_def)

lemma section_frames_nonempty [simp]: "section_frames i e cap block \<noteq> []"
  by (simp add: section_frames_def Let_def)

end
