(* ===== verification/ResponseRun.thy ===== *)
theory ResponseRun
  imports ResponseOk HpackProps
begin

text \<open>
  The responses of all the streams of a connection, as a run of the calls that the handlers make. A
  handler's \<open>Write\<close> is a sequence of turns of its loop, because the other handlers go on between them; every
  other call is one step, because it holds the encoder's lock.
\<close>

subsection \<open>Runs\<close>

datatype resp_op =
    RHeader u32 "field list" bool
  | RChunk u32 "byte list"
  | RClose u32
  | RTrailers u32 "field list"
  | RSetList u32
  | RSetTable int

record 'e resp_conn =
  rc_writers :: "resp_writer store"
  rc_enc :: encoder
  rc_env :: 'e

definition rc_writer :: "u32 \<Rightarrow> 'e resp_conn \<Rightarrow> resp_writer" where
  "rc_writer i c =
     (case store_get (rc_writers c) i of
        None \<Rightarrow> \<lparr>rw_id = i, rw_wroteHeader = False, rw_closed = False\<rparr>
      | Some w \<Rightarrow> w)"

definition rc_put :: "u32 \<Rightarrow> 'e resp_state \<Rightarrow> 'e resp_conn \<Rightarrow> 'e resp_conn" where
  "rc_put i s c =
     (case s of (w, enc, e) \<Rightarrow> c\<lparr>rc_writers := store_put i w (rc_writers c), rc_enc := enc, rc_env := e\<rparr>)"

abbreviation rc_state :: "u32 \<Rightarrow> 'e resp_conn \<Rightarrow> 'e resp_state" where
  "rc_state i c \<equiv> (rc_writer i c, rc_enc c, rc_env c)"

text \<open>A turn of the loop of \<open>Write\<close>, after the two tests that precede the loop.\<close>

definition chunk_step :: "'e write_half \<Rightarrow> byte list \<Rightarrow> 'e resp_state \<Rightarrow> error option \<times> 'e resp_state" where
  "chunk_step wh p s =
     (case s of (w, enc, e) \<Rightarrow>
       if rw_closed w then (Some ErrDone, w, enc, e)
       else if \<not> rw_wroteHeader w then (Some ErrNoHeader, w, enc, e)
       else if length p = 0 then (None, w, enc, e)
       else (case write_chunk wh (rw_id w) p e of
               (Inl x, e) \<Rightarrow> (Some x, w, enc, e)
             | (Inr n, e) \<Rightarrow> (None, w, enc, e)))"

fun resp_step :: "'e write_half \<Rightarrow> resp_op \<Rightarrow> 'e resp_conn \<Rightarrow> error option \<times> 'e resp_conn" where
  "resp_step wh (RHeader i fs b) c = (case writeHeader wh fs b (rc_state i c) of (r, s) \<Rightarrow> (r, rc_put i s c))"
| "resp_step wh (RChunk i p) c = (case chunk_step wh p (rc_state i c) of (r, s) \<Rightarrow> (r, rc_put i s c))"
| "resp_step wh (RClose i) c = (case resp_Close wh (rc_state i c) of (r, s) \<Rightarrow> (r, rc_put i s c))"
| "resp_step wh (RTrailers i fs) c = (case Trailers wh fs (rc_state i c) of (r, s) \<Rightarrow> (r, rc_put i s c))"
| "resp_step wh (RSetList n) c = (None, c\<lparr>rc_enc := enc_SetMaxHeaderListSize n (rc_enc c)\<rparr>)"
| "resp_step wh (RSetTable n) c = (None, c\<lparr>rc_enc := enc_SetMaxDynamicTableSize n (rc_enc c)\<rparr>)"

subsection \<open>What a run hands over\<close>

text \<open>A section with the frame size and the block it was sent with, a piece of content, and an end.\<close>

datatype resp_item =
    ItSection u32 "field list" bool u32 "byte list"
  | ItData u32 "byte list"
  | ItEnd u32

fun item_stream :: "resp_item \<Rightarrow> u32" where
  "item_stream (ItSection i fs e cap block) = i"
| "item_stream (ItData i p) = i"
| "item_stream (ItEnd i) = i"

fun item_frames :: "resp_item \<Rightarrow> frame list" where
  "item_frames (ItSection i fs e cap block) = section_frames i e cap block"
| "item_frames (ItData i p) = [data_of_body i False p]"
| "item_frames (ItEnd i) = [data_of_body i True []]"

abbreviation frames_of :: "resp_item list \<Rightarrow> frame list" where
  "frames_of its \<equiv> concat (map item_frames its)"

definition section_item :: "'e write_half \<Rightarrow> u32 \<Rightarrow> field list \<Rightarrow> bool \<Rightarrow> 'e resp_conn \<Rightarrow> resp_item list" where
  "section_item wh i fs b c =
     (if checkListSize fs (rc_enc c) = None
      then [ItSection i fs b (wh_MaxFrameSize wh (rc_env c)) (fst (Codec_Encode (en_codec (rc_enc c)) fs))] else [])"

text \<open>The octets that a turn of the loop of \<open>Write\<close> asks for, and the content it takes.\<close>

definition want_of :: "'e write_half \<Rightarrow> byte list \<Rightarrow> 'e \<Rightarrow> int" where
  "want_of wh p e = int (min (length p) (splitAt (wh_MaxFrameSize wh e)))"

definition chunk_item :: "u32 \<Rightarrow> byte list \<Rightarrow> error + int \<Rightarrow> resp_item list" where
  "chunk_item i p r =
     (case r of Inl x \<Rightarrow> [] | Inr n \<Rightarrow> if n < 0 \<or> n > int (length p) then [] else [ItData i (take (nat n) p)])"

fun resp_items :: "'e write_half \<Rightarrow> resp_op \<Rightarrow> 'e resp_conn \<Rightarrow> resp_item list" where
  "resp_items wh (RHeader i fs b) c =
     (if \<not> rw_closed (rc_writer i c) \<and> \<not> rw_wroteHeader (rc_writer i c) \<and> checkSection SectionHeader fs = None \<and>
         \<not> (b \<and> informational fs) then section_item wh i fs b c else [])"
| "resp_items wh (RChunk i p) c =
     (if \<not> rw_closed (rc_writer i c) \<and> rw_wroteHeader (rc_writer i c) \<and> 0 < length p then chunk_item i p (fst (wh_Reserve wh i (want_of wh p (rc_env c)) (rc_env c)))
      else [])"
| "resp_items wh (RClose i) c =
     (if \<not> rw_closed (rc_writer i c) \<and> rw_wroteHeader (rc_writer i c) then [ItEnd i] else [])"
| "resp_items wh (RTrailers i fs) c =
     (if \<not> rw_closed (rc_writer i c) \<and> rw_wroteHeader (rc_writer i c) \<and> checkSection SectionTrailer fs = None
      then section_item wh i fs True c else [])"
| "resp_items wh _ c = []"

fun resp_run ::
  "'e write_half \<Rightarrow> resp_op list \<Rightarrow> 'e resp_conn \<Rightarrow> (resp_op \<times> error option) list \<times> resp_item list \<times> 'e resp_conn" where
  "resp_run wh [] c = ([], [], c)"
| "resp_run wh (op # ops) c =
     (case resp_step wh op c of (r, c1) \<Rightarrow>
       (case resp_run wh ops c1 of (rs, its, c2) \<Rightarrow> ((op, r) # rs, resp_items wh op c @ its, c2)))"

definition resp_start :: "'e \<Rightarrow> 'e resp_conn" where
  "resp_start e = \<lparr>rc_writers = [], rc_enc = NewEncoder, rc_env = e\<rparr>"

fun op_stream :: "resp_op \<Rightarrow> u32 option" where
  "op_stream (RHeader i fs b) = Some i"
| "op_stream (RChunk i p) = Some i"
| "op_stream (RClose i) = Some i"
| "op_stream (RTrailers i fs) = Some i"
| "op_stream _ = None"

subsection \<open>The order of a message\<close>

datatype msg_state = MOpen | MBody | MDone

fun msg_step :: "msg_state \<Rightarrow> resp_item \<Rightarrow> msg_state option" where
  "msg_step MOpen (ItSection i fs e cap block) =
     (if checkSection SectionHeader fs \<noteq> None then None
      else if informational fs then (if e then None else Some MOpen)
      else Some (if e then MDone else MBody))"
| "msg_step MBody (ItSection i fs e cap block) =
     (if checkSection SectionTrailer fs = None \<and> e then Some MDone else None)"
| "msg_step MBody (ItData i p) = Some MBody"
| "msg_step MBody (ItEnd i) = Some MDone"
| "msg_step _ _ = None"

fun msg_run :: "msg_state \<Rightarrow> resp_item list \<Rightarrow> msg_state option" where
  "msg_run m [] = Some m"
| "msg_run m (it # its) = (case msg_step m it of None \<Rightarrow> None | Some m \<Rightarrow> msg_run m its)"

lemma msg_run_append: "msg_run m (xs @ ys) = (case msg_run m xs of None \<Rightarrow> None | Some m \<Rightarrow> msg_run m ys)"
  by (induction xs arbitrary: m) (auto split: option.split)

definition writer_msg :: "resp_writer \<Rightarrow> msg_state" where
  "writer_msg w = (if rw_closed w then MDone else if rw_wroteHeader w then MBody else MOpen)"

abbreviation items_on :: "u32 \<Rightarrow> resp_item list \<Rightarrow> resp_item list" where
  "items_on i its \<equiv> List.filter (\<lambda>it. item_stream it = i) its"

subsection \<open>One step\<close>

lemma writeSection_enc:
  "writeSection wh i fs b (enc, e) = (r, enc', e') \<Longrightarrow>
     en_codec enc' = (if checkListSize fs enc = None then snd (Codec_Encode (en_codec enc) fs) else en_codec enc) \<and>
     (checkListSize fs enc \<noteq> None \<longrightarrow> r = Some ErrHeaderListTooLarge)"
  by (auto simp: writeSection_def Let_def checkListSize_def split: prod.splits option.splits if_splits)

lemma writer_step_msg:
  assumes "resp_step wh op c = (r, c')" "op_stream op = Some i" "r \<noteq> Some ErrHeaderListTooLarge"
  shows "msg_run (writer_msg (rc_writer i c)) (resp_items wh op c) = Some (writer_msg (rc_writer i c'))"
proof -
  have put: "rc_writer i (rc_put i (w, enc, e) c) = w" for w enc e
    by (simp add: rc_put_def rc_writer_def)
  show ?thesis
  proof (cases op)
    case (RHeader j fs b)
    then have j: "j = i" using assms(2) by simp
    let ?w = "rc_writer i c"
    show ?thesis
    proof (cases "rw_closed ?w \<or> rw_wroteHeader ?w \<or> checkSection SectionHeader fs \<noteq> None \<or> b \<and> informational fs")
      case True
      then show ?thesis using assms(1) RHeader j
        by (auto simp: writeHeader_def put Let_def split: if_splits option.splits)
    next
      case False
      let ?w' = "?w\<lparr>rw_wroteHeader := \<not> informational fs, rw_closed := b\<rparr>"
      obtain r2 enc2 e2 where s: "writeSection wh (rw_id ?w) fs b (rc_enc c, rc_env c) = (r2, enc2, e2)"
        by (cases "writeSection wh (rw_id ?w) fs b (rc_enc c, rc_env c)") auto
      with False assms(1) RHeader j have "r = r2" "c' = rc_put i (?w', enc2, e2) c"
        by (auto simp: writeHeader_def Let_def)
      moreover from writeSection_enc [OF s] assms(3) this(1) have "checkListSize fs (rc_enc c) = None" by auto
      ultimately show ?thesis using False RHeader j
        by (auto simp: put writer_msg_def section_item_def)
    qed
  next
    case (RChunk j p)
    then have j: "j = i" using assms(2) by simp
    have w: "rc_writer i c' = rc_writer i c"
      using assms(1) RChunk j by (auto simp: chunk_step_def put split: prod.splits sum.splits if_splits)
    show ?thesis unfolding w using RChunk j by (auto simp: writer_msg_def chunk_item_def split: sum.splits)
  next
    case (RClose j)
    then have j: "j = i" using assms(2) by simp
    with RClose assms(1) show ?thesis
      by (auto simp: resp_Close_def put writer_msg_def Let_def split: prod.splits if_splits)
  next
    case (RTrailers j fs)
    then have j: "j = i" using assms(2) by simp
    let ?w = "rc_writer i c"
    show ?thesis
    proof (cases "rw_closed ?w \<or> \<not> rw_wroteHeader ?w \<or> checkSection SectionTrailer fs \<noteq> None")
      case True
      then show ?thesis using assms(1) RTrailers j
        by (auto simp: Trailers_def put Let_def split: if_splits option.splits)
    next
      case False
      let ?w' = "?w\<lparr>rw_closed := True\<rparr>"
      obtain r2 enc2 e2 where s: "writeSection wh (rw_id ?w) fs True (rc_enc c, rc_env c) = (r2, enc2, e2)"
        by (cases "writeSection wh (rw_id ?w) fs True (rc_enc c, rc_env c)") auto
      with False assms(1) RTrailers j have "r = r2" "c' = rc_put i (?w', enc2, e2) c"
        by (auto simp: Trailers_def Let_def)
      moreover from writeSection_enc [OF s] assms(3) this(1) have "checkListSize fs (rc_enc c) = None" by auto
      ultimately show ?thesis using False RTrailers j
        by (auto simp: put writer_msg_def section_item_def)
    qed
  qed (use assms(2) in auto)
qed

lemma chunk_item_stream: "it \<in> set (chunk_item i p r) \<Longrightarrow> item_stream it = i"
  by (auto simp: chunk_item_def split: sum.splits if_splits)

lemma items_op_stream: "it \<in> set (resp_items wh op c) \<Longrightarrow> op_stream op = Some (item_stream it)"
  by (cases op) (auto simp: section_item_def dest: chunk_item_stream split: if_splits)

lemma items_stream: "op_stream op = Some i \<Longrightarrow> items_on i (resp_items wh op c) = resp_items wh op c"
  by (auto simp: filter_id_conv dest: items_op_stream)

lemma items_other: "op_stream op \<noteq> Some i \<Longrightarrow> items_on i (resp_items wh op c) = []"
  by (auto simp: filter_empty_conv dest: items_op_stream)

lemma writer_step_other:
  assumes "resp_step wh op c = (r, c')" "op_stream op \<noteq> Some j"
  shows "rc_writer j c' = rc_writer j c"
proof -
  have "rc_writer j (rc_put i s c) = rc_writer j c" if "i \<noteq> j" for i s
    using that by (cases s) (simp add: rc_put_def rc_writer_def)
  then show ?thesis using assms by (cases op) (auto simp: rc_writer_def split: prod.splits)
qed

lemma run_msg:
  assumes "resp_run wh ops c = (rs, its, c')" "\<And>op r. (op, r) \<in> set rs \<Longrightarrow> op_stream op = Some i \<Longrightarrow> r \<noteq> Some ErrHeaderListTooLarge"
  shows "msg_run (writer_msg (rc_writer i c)) (items_on i its) = Some (writer_msg (rc_writer i c'))"
  using assms
proof (induction ops arbitrary: c rs its)
  case (Cons op ops)
  obtain r c1 rs2 its2 where s: "resp_step wh op c = (r, c1)" "resp_run wh ops c1 = (rs2, its2, c')"
    "rs = (op, r) # rs2" "its = resp_items wh op c @ its2"
    using Cons.prems(1) by (auto split: prod.splits)
  have "msg_run (writer_msg (rc_writer i c)) (items_on i (resp_items wh op c)) = Some (writer_msg (rc_writer i c1))"
  proof (cases "op_stream op = Some i")
    case True
    with Cons.prems(2) s(3) have "r \<noteq> Some ErrHeaderListTooLarge" by auto
    with writer_step_msg [OF s(1) True] items_stream [OF True, of wh c] show ?thesis by simp
  next
    case False
    with writer_step_other [OF s(1) False] items_other [OF False, of wh c] show ?thesis by simp
  qed
  moreover have "msg_run (writer_msg (rc_writer i c1)) (items_on i its2) = Some (writer_msg (rc_writer i c'))"
    using Cons.prems(2) s(3) by (intro Cons.IH [OF s(2)]) auto
  ultimately show ?case using s(4) by (simp add: msg_run_append)
qed simp

subsection \<open>The connection's write half\<close>

text \<open>
  What the responses rely on. \<open>sent e\<close> are the frames of responses that were handed over, and \<open>dead e\<close>
  says that nothing more will be: a frame is refused only then, and credit is granted within what was asked
  for.
\<close>

locale sending_half =
  fixes wh :: "'e write_half" and sent :: "'e \<Rightarrow> frame list" and dead :: "'e \<Rightarrow> bool"
  assumes taken: "wh_Enqueue wh f e = (None, e') \<Longrightarrow> \<not> dead e \<and> sent e' = sent e @ [f]"
    and refused: "wh_Enqueue wh f e = (Some x, e') \<Longrightarrow> dead e' \<and> sent e' = sent e"
    and reserved: "wh_Reserve wh i n e = (r, e') \<Longrightarrow> sent e' = sent e \<and> (dead e \<longrightarrow> dead e')"
    and granted: "wh_Reserve wh i n e = (Inr k, e') \<Longrightarrow> 0 < n \<Longrightarrow> 0 < k \<and> k \<le> n"
begin

text \<open>\<open>hands_over fs e e'\<close>: between \<open>e\<close> and \<open>e'\<close> the frames \<open>fs\<close> were handed over, or a first part of them
  after which the write half is dead.\<close>

definition hands_over :: "frame list \<Rightarrow> 'e \<Rightarrow> 'e \<Rightarrow> bool" where
  "hands_over fs e e' \<longleftrightarrow>
     (\<exists>gs. sent e' = sent e @ gs \<and> prefix gs fs \<and> (gs \<noteq> fs \<longrightarrow> dead e') \<and> (dead e \<longrightarrow> gs = [] \<and> dead e'))"

lemma hands_over_Nil: "sent e' = sent e \<Longrightarrow> (dead e \<longrightarrow> dead e') \<Longrightarrow> hands_over [] e e'"
  by (simp add: hands_over_def)

lemma hands_over_append:
  assumes "hands_over fs e1 e2" "hands_over hs e2 e3"
  shows "hands_over (fs @ hs) e1 e3"
proof -
  obtain gs where g: "sent e2 = sent e1 @ gs" "prefix gs fs" "gs \<noteq> fs \<longrightarrow> dead e2" "dead e1 \<longrightarrow> gs = [] \<and> dead e2"
    using assms(1) by (auto simp: hands_over_def)
  obtain is' where h: "sent e3 = sent e2 @ is'" "prefix is' hs" "is' \<noteq> hs \<longrightarrow> dead e3" "dead e2 \<longrightarrow> is' = [] \<and> dead e3"
    using assms(2) by (auto simp: hands_over_def)
  show ?thesis
  proof (cases "gs = fs")
    case True
    with g h show ?thesis by (intro hands_over_def [THEN iffD2] exI [of _ "gs @ is'"]) auto
  next
    case False
    with g h show ?thesis by (intro hands_over_def [THEN iffD2] exI [of _ gs]) (auto intro: prefix_append)
  qed
qed

lemma hands_over_Enqueue:
  "wh_Enqueue wh f e = (r, e') \<Longrightarrow> hands_over [f] e e' \<and> (r = None \<longrightarrow> sent e' = sent e @ [f]) \<and> (r \<noteq> None \<longrightarrow> dead e' \<and> sent e' = sent e)"
  using taken [of f e e'] refused [of f e _ e']
  by (cases r) (auto simp: hands_over_def)

text \<open>A refusal cuts what a sequence of calls hands over.\<close>

lemma hands_over_cut: "hands_over [] e e' \<Longrightarrow> dead e' \<Longrightarrow> hands_over fs e e'"
  by (auto simp: hands_over_def)

lemma hands_over_dead: "dead e' \<Longrightarrow> sent e' = sent e \<Longrightarrow> hands_over fs e e'"
  by (auto simp: hands_over_def)

lemma write_rest_hands_over:
  "write_rest wh i cap rest e = (r, e') \<Longrightarrow> hands_over (cont_frames i cap rest) e e'"
proof (induction i cap rest arbitrary: e r e' rule: cont_frames.induct)
  case (1 i cap rest)
  let ?n = "min (length rest) (splitAt cap)"
  show ?case
  proof (cases "rest = []")
    case True
    with 1(2) show ?thesis by (simp add: write_rest.simps hands_over_Nil)
  next
    case False
    let ?f = "continuation_of i (?n = length rest) (take ?n rest)"
    obtain q e1 where q: "wh_Enqueue wh ?f e = (q, e1)" by (rule prod.exhaust)
    have fs: "cont_frames i cap rest = [?f] @ cont_frames i cap (drop ?n rest)"
      using False by (simp add: cont_frames.simps [of i cap rest] Let_def)
    have step: "write_rest wh i cap rest e =
        (case q of Some x \<Rightarrow> (Some x, e1) | None \<Rightarrow> write_rest wh i cap (drop ?n rest) e1)"
      using False q unfolding continuation_of_def by (simp add: write_rest.simps [of wh i cap rest] Let_def split: option.split)
    show ?thesis
    proof (cases q)
      case None
      with 1 step False have "hands_over (cont_frames i cap (drop ?n rest)) e1 e'" by auto
      with hands_over_Enqueue [OF q] show ?thesis unfolding fs by (blast intro: hands_over_append)
    next
      case (Some x)
      with 1(2) step hands_over_Enqueue [OF q] show ?thesis by (auto intro: hands_over_dead)
    qed
  qed
qed

lemma writeSection_hands_over:
  assumes "writeSection wh i fs b (enc, e) = (r, enc', e')"
  shows "hands_over (if checkListSize fs enc = None
     then section_frames i b (wh_MaxFrameSize wh e) (fst (Codec_Encode (en_codec enc) fs)) else []) e e'"
proof (cases "checkListSize fs enc")
  case (Some x)
  with assms have "e' = e" by (auto simp: writeSection_def)
  with Some show ?thesis by (simp add: hands_over_Nil)
next
  case None
  obtain block codec where b: "Codec_Encode (en_codec enc) fs = (block, codec)" by (rule prod.exhaust)
  let ?cap = "wh_MaxFrameSize wh e"
  let ?n = "min (length block) (splitAt ?cap)"
  let ?f = "headers_of i b (?n = length block) (take ?n block)"
  obtain q e1 where q: "wh_Enqueue wh ?f e = (q, e1)" by (rule prod.exhaust)
  have fs: "section_frames i b ?cap block = [?f] @ cont_frames i ?cap (drop ?n block)"
    by (simp add: section_frames_def Let_def)
  show ?thesis
  proof (cases q)
    case None
    obtain r2 e2 where w: "write_rest wh i ?cap (drop ?n block) e1 = (r2, e2)" by (rule prod.exhaust)
    with assms \<open>checkListSize fs enc = None\<close> None b q have "e' = e2" by (simp add: writeSection_def Let_def)
    with hands_over_Enqueue [OF q] write_rest_hands_over [OF w] \<open>checkListSize fs enc = None\<close> b show ?thesis
      by (simp add: fs del: append.simps) (blast intro: hands_over_append)
  next
    case (Some x)
    with assms \<open>checkListSize fs enc = None\<close> b q have "e' = e1" by (simp add: writeSection_def Let_def)
    with hands_over_Enqueue [OF q] Some show ?thesis by (auto intro: hands_over_dead)
  qed
qed

lemma write_chunk_hands_over:
  assumes "write_chunk wh i p e = (r, e')" "0 < length p"
  shows "hands_over (frames_of (chunk_item i p (fst (wh_Reserve wh i (want_of wh p e) e)))) e e'"
proof -
  obtain q e1 where q: "wh_Reserve wh i (want_of wh p e) e = (q, e1)" by (rule prod.exhaust)
  have s: "hands_over [] e e1" using reserved [OF q] by (simp add: hands_over_Nil)
  show ?thesis
  proof (cases q)
    case (Inl x)
    with assms(1) q s show ?thesis by (simp add: write_chunk_def want_of_def chunk_item_def)
  next
    case (Inr n)
    have w: "0 < want_of wh p e" "want_of wh p e \<le> int (length p)" using assms(2) by (simp_all add: want_of_def)
    with granted [of i "want_of wh p e" e n e1] q Inr have n: "\<not> (n < 0 \<or> n > int (length p))" by auto
    obtain x e2 where x: "wh_Enqueue wh (data_of_body i False (take (nat n) p)) e1 = (x, e2)" by (rule prod.exhaust)
    have "e' = e2"
      using assms(1) q Inr n x unfolding write_chunk_def want_of_def by (auto split: option.splits)
    with hands_over_append [OF s, of "[data_of_body i False (take (nat n) p)]" e2] hands_over_Enqueue [OF x] q Inr n
    show ?thesis by (simp add: chunk_item_def)
  qed
qed

definition ids_ok :: "'e resp_conn \<Rightarrow> bool" where
  "ids_ok c \<longleftrightarrow> (\<forall>i. rw_id (rc_writer i c) = i)"

lemma ids_put: "ids_ok c \<Longrightarrow> rw_id w = i \<Longrightarrow> ids_ok (rc_put i (w, s) c)"
  by (cases s) (auto simp: ids_ok_def rc_put_def rc_writer_def)

lemma env_put [simp]: "rc_env (rc_put i (w, enc, e) c) = e"
  by (simp add: rc_put_def)

lemma resp_step_hands_over:
  assumes "resp_step wh op c = (r, c')" "ids_ok c"
  shows "hands_over (frames_of (resp_items wh op c)) (rc_env c) (rc_env c') \<and> ids_ok c'"
proof (cases op)
  case (RHeader i fs b)
  let ?w = "rc_writer i c"
  have i: "rw_id ?w = i" using assms(2) by (simp add: ids_ok_def)
  show ?thesis
  proof (cases "rw_closed ?w \<or> rw_wroteHeader ?w \<or> checkSection SectionHeader fs \<noteq> None \<or> b \<and> informational fs")
    case True
    then have "c' = rc_put i (rc_state i c) c" using assms(1) RHeader
      by (auto simp: writeHeader_def Let_def split: if_splits option.splits)
    with True RHeader i show ?thesis by (auto simp: ids_put assms(2) hands_over_Nil)
  next
    case False
    let ?w' = "?w\<lparr>rw_wroteHeader := \<not> informational fs, rw_closed := b\<rparr>"
    obtain r2 enc2 e2 where s: "writeSection wh (rw_id ?w) fs b (rc_enc c, rc_env c) = (r2, enc2, e2)"
      using prod_cases3 by blast
    with False assms(1) RHeader have "c' = rc_put i (?w', enc2, e2) c"
      by (auto simp: writeHeader_def Let_def)
    with writeSection_hands_over [OF s] False RHeader i show ?thesis
      by (auto simp: section_item_def ids_put assms(2) split: if_splits)
  qed
next
  case (RChunk i p)
  let ?w = "rc_writer i c"
  have i: "rw_id ?w = i" using assms(2) by (simp add: ids_ok_def)
  show ?thesis
  proof (cases "rw_closed ?w \<or> \<not> rw_wroteHeader ?w \<or> length p = 0")
    case True
    then have "c' = rc_put i (rc_state i c) c" using assms(1) RChunk
      by (auto simp: chunk_step_def split: if_splits)
    with True RChunk i show ?thesis by (auto simp: ids_put assms(2) hands_over_Nil)
  next
    case False
    obtain q e1 where q: "write_chunk wh i p (rc_env c) = (q, e1)" by (rule prod.exhaust)
    with False assms(1) RChunk i have "c' = rc_put i (?w, rc_enc c, e1) c"
      by (auto simp: chunk_step_def split: sum.splits)
    with write_chunk_hands_over [OF q] False RChunk i show ?thesis
      by (auto simp: ids_put assms(2))
  qed
next
  case (RClose i)
  let ?w = "rc_writer i c"
  have i: "rw_id ?w = i" using assms(2) by (simp add: ids_ok_def)
  obtain q e1 where q: "wh_Enqueue wh (data_of_body i True []) (rc_env c) = (q, e1)" by (rule prod.exhaust)
  with assms(1) RClose i have "c' = (if \<not> rw_closed ?w \<and> rw_wroteHeader ?w then rc_put i (?w\<lparr>rw_closed := True\<rparr>, rc_enc c, e1) c
      else rc_put i (rc_state i c) c)"
    by (auto simp: resp_Close_def Let_def split: if_splits)
  with hands_over_Enqueue [OF q] RClose i show ?thesis by (auto simp: ids_put assms(2) hands_over_Nil)
next
  case (RTrailers i fs)
  let ?w = "rc_writer i c"
  have i: "rw_id ?w = i" using assms(2) by (simp add: ids_ok_def)
  show ?thesis
  proof (cases "rw_closed ?w \<or> \<not> rw_wroteHeader ?w \<or> checkSection SectionTrailer fs \<noteq> None")
    case True
    then have "c' = rc_put i (rc_state i c) c" using assms(1) RTrailers
      by (auto simp: Trailers_def Let_def split: if_splits option.splits)
    with True RTrailers i show ?thesis by (auto simp: ids_put assms(2) hands_over_Nil)
  next
    case False
    let ?w' = "?w\<lparr>rw_closed := True\<rparr>"
    obtain r2 enc2 e2 where s: "writeSection wh (rw_id ?w) fs True (rc_enc c, rc_env c) = (r2, enc2, e2)"
      using prod_cases3 by blast
    with False assms(1) RTrailers have "c' = rc_put i (?w', enc2, e2) c"
      by (auto simp: Trailers_def Let_def)
    with writeSection_hands_over [OF s] False RTrailers i show ?thesis
      by (auto simp: section_item_def ids_put assms(2) split: if_splits)
  qed
next
  case (RSetList n)
  with assms show ?thesis by (auto simp: hands_over_Nil ids_ok_def rc_writer_def)
next
  case (RSetTable n)
  with assms show ?thesis by (auto simp: hands_over_Nil ids_ok_def rc_writer_def)
qed

lemma resp_run_hands_over:
  "resp_run wh ops c = (rs, its, c') \<Longrightarrow> ids_ok c \<Longrightarrow> hands_over (frames_of its) (rc_env c) (rc_env c')"
proof (induction ops arbitrary: c rs its)
  case Nil
  then show ?case by (auto simp: hands_over_Nil)
next
  case (Cons op ops)
  obtain r c1 rs2 its2 where s: "resp_step wh op c = (r, c1)" "resp_run wh ops c1 = (rs2, its2, c')"
    "its = resp_items wh op c @ its2"
    using Cons.prems(1) by (auto split: prod.splits)
  from resp_step_hands_over [OF s(1) Cons.prems(2)] Cons.IH [OF s(2)] s(3) show ?case
    by (auto intro: hands_over_append)
qed

text \<open>\<open>Write\<close> returns: every turn of its loop sends at least an octet.\<close>

lemma Write_loop_returns:
  "\<exists>n r e'. Write_loop wh i p k e = Some ((k + n, r), e') \<and> n \<le> length p \<and> (r = None \<longrightarrow> n = length p) \<and>
     (\<exists>gs. sent e' = sent e @ map (data_of_body i False) gs \<and> concat gs = take n p \<and>
        list_all (\<lambda>g. g \<noteq> []) gs) \<and> (r \<noteq> None \<longrightarrow> n < length p)"
proof (induction "length p" arbitrary: p k e rule: less_induct)
  case less
  show ?case
  proof (cases "p = []")
    case True
    then have "Write_loop wh i p k e = Some ((k + 0, None), e)" by (simp add: Write_loop.simps)
    with True show ?thesis
      by (intro exI [of _ 0] exI [of _ None] exI [of _ e]) (auto intro: exI [of _ "[]"])
  next
    case False
    obtain q e1 where q: "wh_Reserve wh i (want_of wh p e) e = (q, e1)" by (rule prod.exhaust)
    show ?thesis
    proof (cases q)
      case (Inl x)
      then have "Write_loop wh i p k e = Some ((k + 0, Some x), e1)"
        using False q unfolding Write_loop.simps [of wh i p] by (simp add: write_chunk_def want_of_def)
      with reserved [OF q] False show ?thesis
        by (intro exI [of _ 0] exI [of _ "Some x"] exI [of _ e1]) (auto intro: exI [of _ "[]"])
    next
      case (Inr n)
      have w: "0 < want_of wh p e" "want_of wh p e \<le> int (length p)" using False by (simp_all add: want_of_def)
      with granted [of i "want_of wh p e" e n e1] q Inr have n: "0 < n" "n \<le> int (length p)" by auto
      obtain x e2 where x: "wh_Enqueue wh (data_of_body i False (take (nat n) p)) e1 = (x, e2)" by (rule prod.exhaust)
      have c: "write_chunk wh i p e = (case x of None \<Rightarrow> (Inr (nat n), e2) | Some y \<Rightarrow> (Inl y, e2))"
        using q Inr n x unfolding write_chunk_def want_of_def by (auto split: option.splits)
      show ?thesis
      proof (cases x)
        case (Some y)
        then have "Write_loop wh i p k e = Some ((k + 0, Some y), e2)"
          using False c unfolding Write_loop.simps [of wh i p] by simp
        with reserved [OF q] hands_over_Enqueue [OF x] Some False show ?thesis
          by (intro exI [of _ 0] exI [of _ "Some y"] exI [of _ e2]) (auto intro: exI [of _ "[]"])
      next
        case None
        have l: "length (drop (nat n) p) < length p" using n False by simp
        obtain m r e3 gs where m: "Write_loop wh i (drop (nat n) p) (k + nat n) e2 = Some ((k + nat n + m, r), e3)"
          "m \<le> length (drop (nat n) p)" "r = None \<longrightarrow> m = length (drop (nat n) p)"
          "sent e3 = sent e2 @ map (data_of_body i False) gs" "concat gs = take m (drop (nat n) p)" "list_all (\<lambda>g. g \<noteq> []) gs"
          "r \<noteq> None \<longrightarrow> m < length (drop (nat n) p)"
          using less [OF l, of "k + nat n" e2] by blast
        have "Write_loop wh i p k e = Some ((k + (nat n + m), r), e3)"
          using False c None m(1) unfolding Write_loop.simps [of wh i p] by (simp add: add.assoc)
        moreover have "sent e3 = sent e @ map (data_of_body i False) (take (nat n) p # gs)"
          using m(4) reserved [OF q] hands_over_Enqueue [OF x] None by simp
        moreover have "concat (take (nat n) p # gs) = take (nat n + m) p" using m(5) by (simp add: take_add)
        moreover have "take (nat n) p \<noteq> []" using n False by simp
        ultimately show ?thesis using m n
          by (intro exI [of _ "nat n + m"] exI [of _ r] exI [of _ e3] conjI) (auto intro!: exI [of _ "take (nat n) p # gs"])
      qed
    qed
  qed
qed

end

end
