(* ===== verification/FrameQueue.thy ===== *)
theory FrameQueue
  imports FrameWriter Scheduler
begin

text \<open>
  \<^verbatim>\<open>internal/server/writer.go\<close>: the goroutine that owns the write half of a connection, and the queue
  that every other goroutine hands frames to. The mutex makes each method a step; the writer
  goroutine's own code is cut where it takes the mutex or is outside it, and \<open>loop_phase\<close> says
  where it stands. A \<open>cond.Wait\<close> leaves the state as it is and the phase where it is, and each
  step says whether it broadcasts. The \<open>writeTarget\<close> is a parameter, given by its two methods on
  a state of its own.
\<close>

record 'w write_target =
  tg_Write :: "'w sink_write"
  tg_SetWriteDeadline :: "'w \<Rightarrow> io_error option \<times> 'w"

definition defaultQueueDepth :: int where [simp]: "defaultQueueDepth = 32"

definition coalesceHighWater :: nat where [simp]: "coalesceHighWater = unat DefaultMaxFrameSize"

datatype stop_error = ErrWriterStopped | LoopError error

record 'w frame_queue =
  fq_fw :: "'w writer"
  fq_sched :: scheduler
  fq_stopGraceful :: bool
  fq_stopAbrupt :: bool
  fq_gone :: bool
  fq_err :: "error option"

text \<open>The writer goroutine: at \<open>await\<close>, about to buffer a frame, about to take the next frame of its
  burst, about to flush, out of its loop with \<open>stop\<close> still to run, or ended.\<close>

datatype loop_phase = AtAwait | AtQueue frame | AtTake | AtFlush | AtStop | Ended

definition startFrameWriter :: "'w \<Rightarrow> 'w frame_queue" where
  "startFrameWriter target =
     \<lparr>fq_fw = NewWriter target \<lparr>wc_MaxFrameSize = 0, wc_BufferSize = 0\<rparr>, fq_sched = newScheduler,
      fq_stopGraceful = False, fq_stopAbrupt = False, fq_gone = False, fq_err = None\<rparr>"

definition fq_SetMaxFrameSize :: "u32 \<Rightarrow> 'w frame_queue \<Rightarrow> 'w frame_queue" where
  "fq_SetMaxFrameSize n w = w\<lparr>fq_fw := SetMaxFrameSize n (fq_fw w)\<rparr>"

definition fq_MaxFrameSize :: "'w frame_queue \<Rightarrow> u32" where
  "fq_MaxFrameSize w = w_maxFrameSize (fq_fw w)"

definition stoppedErr :: "'w frame_queue \<Rightarrow> stop_error" where
  "stoppedErr w = (case fq_err w of Some e \<Rightarrow> LoopError e | None \<Rightarrow> ErrWriterStopped)"

definition stopped :: "'w frame_queue \<Rightarrow> stop_error option" where
  "stopped w =
     (if fq_gone w then Some (stoppedErr w)
      else if fq_stopGraceful w \<or> fq_stopAbrupt w then Some ErrWriterStopped
      else None)"

definition admits :: "frame \<Rightarrow> 'w frame_queue \<Rightarrow> bool" where
  "admits f w \<longleftrightarrow> ContinuesBlock f (fq_sched w) \<or> sched_Len (fq_sched w) < defaultQueueDepth"

text \<open>One turn of \<open>Enqueue\<close>'s loop: refused, handed over, or back to \<open>cond.Wait\<close>.\<close>

datatype enqueue_result = Refused stop_error | HandedOver | Waits

definition Enqueue :: "frame \<Rightarrow> 'w frame_queue \<Rightarrow> (enqueue_result \<times> 'w frame_queue) option" where
  "Enqueue f w =
     (case stopped w of
        Some e \<Rightarrow> Some (Refused e, w)
      | None \<Rightarrow>
          if admits f w then map_option (\<lambda>s. (HandedOver, w\<lparr>fq_sched := s\<rparr>)) (Push f (fq_sched w))
          else Some (Waits, w))"

definition Prioritize :: "u32 \<Rightarrow> priority \<Rightarrow> 'w frame_queue \<Rightarrow> 'w frame_queue option" where
  "Prioritize i p w = map_option (\<lambda>s. w\<lparr>fq_sched := s\<rparr>) (SetPriority i p (fq_sched w))"

definition fq_Forget :: "u32 \<Rightarrow> 'w frame_queue \<Rightarrow> 'w frame_queue" where
  "fq_Forget i w = w\<lparr>fq_sched := sched_Forget i (fq_sched w)\<rparr>"

definition Shutdown :: "'w frame_queue \<Rightarrow> 'w frame_queue" where
  "Shutdown w = w\<lparr>fq_stopGraceful := True\<rparr>"

definition fq_Close :: "'w frame_queue \<Rightarrow> 'w frame_queue" where
  "fq_Close w = w\<lparr>fq_stopAbrupt := True\<rparr>"

definition fq_stop :: "'w frame_queue \<Rightarrow> 'w frame_queue" where
  "fq_stop w = w\<lparr>fq_gone := True\<rparr>"

text \<open>One turn of \<open>await\<close>'s loop: the loop ends, a frame, or \<open>cond.Wait\<close>.\<close>

datatype await_result = Ends | Takes frame | Sleeps

definition await :: "'w frame_queue \<Rightarrow> (await_result \<times> 'w frame_queue) option" where
  "await w =
     (if fq_stopAbrupt w then Some (Ends, w)
      else (case Pop (fq_sched w) of
              None \<Rightarrow> None
            | Some (Some f, s) \<Rightarrow> Some (Takes f, w\<lparr>fq_sched := s\<rparr>)
            | Some (None, s) \<Rightarrow>
                if fq_stopGraceful w then Some (Ends, w\<lparr>fq_sched := s\<rparr>) else Some (Sleeps, w\<lparr>fq_sched := s\<rparr>)))"

definition takeIf :: "bool \<Rightarrow> 'w frame_queue \<Rightarrow> (frame option \<times> 'w frame_queue) option" where
  "takeIf room w =
     (if \<not> room \<and> \<not> MidBlock (fq_sched w) then Some (None, w)
      else map_option (\<lambda>(f, s). (f, w\<lparr>fq_sched := s\<rparr>)) (Pop (fq_sched w)))"

definition fq_flush :: "'w write_target \<Rightarrow> 'w frame_queue \<Rightarrow> error option \<times> 'w frame_queue" where
  "fq_flush tg w =
     (case tg_SetWriteDeadline tg (w_sink (fq_fw w)) of
        (Some e, sink) \<Rightarrow> (Some (IoError e), w\<lparr>fq_fw := (fq_fw w)\<lparr>w_sink := sink\<rparr>\<rparr>)
      | (None, sink) \<Rightarrow>
          (case Flush (tg_Write tg) ((fq_fw w)\<lparr>w_sink := sink\<rparr>) of (e, fw) \<Rightarrow> (e, w\<lparr>fq_fw := fw\<rparr>)))"

text \<open>\<open>writeBurst\<close>, cut at its calls of \<open>takeIf\<close>: buffering a frame, and taking the next one.\<close>

definition burst_queue :: "frame \<Rightarrow> 'w frame_queue \<Rightarrow> error option \<times> 'w frame_queue" where
  "burst_queue f w = (case Queue f (fq_fw w) of (e, fw) \<Rightarrow> (e, w\<lparr>fq_fw := fw\<rparr>))"

definition burst_take :: "'w frame_queue \<Rightarrow> (frame option \<times> 'w frame_queue) option" where
  "burst_take w = takeIf (Buffered (fq_fw w) < coalesceHighWater) w"

text \<open>\<open>run\<close>: one step of the writer goroutine. The boolean says whether it broadcasts.\<close>

definition loop_step ::
  "'w write_target \<Rightarrow> loop_phase \<times> 'w frame_queue \<Rightarrow> (bool \<times> loop_phase \<times> 'w frame_queue) option" where
  "loop_step tg pw =
     (case pw of (ph, w) \<Rightarrow>
       (case ph of
          AtAwait \<Rightarrow>
            (case await w of
               None \<Rightarrow> None
             | Some (Ends, w) \<Rightarrow> Some (False, AtStop, w)
             | Some (Takes f, w) \<Rightarrow> Some (True, AtQueue f, w)
             | Some (Sleeps, w) \<Rightarrow> Some (False, AtAwait, w))
        | AtQueue f \<Rightarrow>
            (case burst_queue f w of
               (Some e, w) \<Rightarrow> Some (False, AtStop, w\<lparr>fq_err := Some e\<rparr>)
             | (None, w) \<Rightarrow> Some (False, AtTake, w))
        | AtTake \<Rightarrow>
            (case burst_take w of
               None \<Rightarrow> None
             | Some (None, w) \<Rightarrow> Some (False, AtFlush, w)
             | Some (Some f, w) \<Rightarrow> Some (True, AtQueue f, w))
        | AtFlush \<Rightarrow>
            (case fq_flush tg w of
               (Some e, w) \<Rightarrow> Some (False, AtStop, w\<lparr>fq_err := Some e\<rparr>)
             | (None, w) \<Rightarrow> Some (False, AtAwait, w))
        | AtStop \<Rightarrow> Some (True, Ended, fq_stop w)
        | Ended \<Rightarrow> Some (False, Ended, w)))"

text \<open>The steps of all the goroutines of a connection. \<open>Wait\<close> returns when the phase is \<open>Ended\<close>.\<close>

datatype fq_op = QEnqueue frame | QPrioritize u32 priority | QForget u32 | QShutdown | QClose
  | QSetMaxFrameSize u32 | QLoop

fun fq_apply ::
  "'w write_target \<Rightarrow> fq_op \<Rightarrow> loop_phase \<times> 'w frame_queue \<Rightarrow> (bool \<times> loop_phase \<times> 'w frame_queue) option" where
  "fq_apply tg (QEnqueue f) (ph, w) = map_option (\<lambda>(r, w). (r = HandedOver, ph, w)) (Enqueue f w)"
| "fq_apply tg (QPrioritize i p) (ph, w) = map_option (\<lambda>w. (False, ph, w)) (Prioritize i p w)"
| "fq_apply tg (QForget i) (ph, w) = Some (False, ph, fq_Forget i w)"
| "fq_apply tg QShutdown (ph, w) = Some (True, ph, Shutdown w)"
| "fq_apply tg QClose (ph, w) = Some (True, ph, fq_Close w)"
| "fq_apply tg (QSetMaxFrameSize n) (ph, w) = Some (False, ph, fq_SetMaxFrameSize n w)"
| "fq_apply tg QLoop (ph, w) = loop_step tg (ph, w)"

fun fq_run ::
  "'w write_target \<Rightarrow> fq_op list \<Rightarrow> loop_phase \<times> 'w frame_queue \<Rightarrow> (loop_phase \<times> 'w frame_queue) option" where
  "fq_run tg [] pw = Some pw"
| "fq_run tg (op # ops) pw =
     (case fq_apply tg op pw of None \<Rightarrow> None | Some (_, pw) \<Rightarrow> fq_run tg ops pw)"

definition fq_start :: "'w \<Rightarrow> loop_phase \<times> 'w frame_queue" where
  "fq_start target = (AtAwait, startFrameWriter target)"

end
