(* ===== verification/FqOk.thy ===== *)
theory FqOk
  imports FrameQueue FieldOrder
begin

text \<open>
  What the frame queue of \<open>FrameQueue\<close> keeps: the scheduler's order, the frames that reached the
  socket, and where field blocks end. The laws it needs of its scheduler are the locale
  \<open>frame_source\<close>, which the scheduler's model provides.
\<close>

subsection \<open>What a writer needs of the frames' source\<close>

fun pops :: "('s \<Rightarrow> (frame option \<times> 's) option) \<Rightarrow> nat \<Rightarrow> 's \<Rightarrow> (frame list \<times> 's) option" where
  "pops pop 0 s = Some ([], s)"
| "pops pop (Suc n) s =
     (case pop s of
        None \<Rightarrow> None
      | Some (None, s) \<Rightarrow> Some ([], s)
      | Some (Some f, s) \<Rightarrow> map_option (\<lambda>(fs, s). (f # fs, s)) (pops pop n s))"

text \<open>\<open>good P Q s\<close>: the source \<open>s\<close> was given the frames \<open>P\<close> and has handed out \<open>Q\<close>. It may be given any frames; its
  promise about field blocks is for frames that keep those of each stream whole.\<close>

locale frame_source =
  fixes push :: "frame \<Rightarrow> 's \<Rightarrow> 's option"
    and pop :: "'s \<Rightarrow> (frame option \<times> 's) option"
    and waiting :: "'s \<Rightarrow> int"
    and mid_block :: "'s \<Rightarrow> bool"
    and good :: "frame list \<Rightarrow> frame list \<Rightarrow> 's \<Rightarrow> bool"
  assumes push_good: "good P Q s \<Longrightarrow>
      \<exists>s'. push f s = Some s' \<and> good (P @ [f]) Q s' \<and> mid_block s' = mid_block s"
    and pop_good: "good P Q s \<Longrightarrow>
      \<exists>r s'. pop s = Some (r, s') \<and> good P (Q @ popped_by r) s' \<and> (r = None \<longleftrightarrow> waiting s = 0) \<and>
        waiting s' = waiting s - (if r = None then 0 else 1) \<and> (r = None \<longrightarrow> s' = s \<and> \<not> mid_block s)"
    and waiting_nonneg: "good P Q s \<Longrightarrow> 0 \<le> waiting s"
    and whole_blocks: "good P Q s \<Longrightarrow> streams_intact P \<Longrightarrow> \<not> mid_block s \<Longrightarrow> blocks_from None Q = Some None"
    and one_block: "good P Q s \<Longrightarrow> streams_intact P \<Longrightarrow> blocks_from None Q \<noteq> None"
begin

lemma pop_cases [consumes 1, case_names empty popped]:
  assumes "good P Q s"
  obtains "pop s = Some (None, s)" "waiting s = 0" "\<not> mid_block s"
    | f s' where "pop s = Some (Some f, s')" "good P (Q @ [f]) s'" "0 < waiting s" "waiting s' = waiting s - 1"
proof -
  obtain r s' where r: "pop s = Some (r, s')" "good P (Q @ popped_by r) s'" "r = None \<longleftrightarrow> waiting s = 0"
    "waiting s' = waiting s - (if r = None then 0 else 1)" "r = None \<longrightarrow> s' = s \<and> \<not> mid_block s"
    using pop_good [OF assms] by blast
  show thesis
  proof (cases r)
    case None
    with r that(1) show ?thesis by simp
  next
    case (Some f)
    with r that(2) [of f s'] waiting_nonneg [OF assms] show ?thesis by simp
  qed
qed

text \<open>A source that is not pushed to is empty after as many pops as it has frames waiting.\<close>

lemma pops_all:
  "good P Q s \<Longrightarrow> waiting s \<le> int n \<Longrightarrow>
     \<exists>fs s'. pops pop n s = Some (fs, s') \<and> good P (Q @ fs) s' \<and> waiting s' = 0 \<and> int (length fs) = waiting s"
proof (induction n arbitrary: Q s)
  case 0
  then show ?case using waiting_nonneg [OF 0(1)] by simp
next
  case (Suc n)
  from Suc.prems(1) show ?case
  proof (cases rule: pop_cases)
    case empty
    with Suc.prems(1) show ?thesis by simp
  next
    case (popped f s')
    with Suc.IH [OF popped(2)] Suc.prems(2) show ?thesis by fastforce
  qed
qed

end

lemma pinned_Push: "Push f s = Some s' \<Longrightarrow> sc_pinned s' = sc_pinned s"
  by (auto simp: Push_def push_data_def push_other_def enter_def on_band_def Let_def split: if_splits option.splits)

lemma pinned_SetPriority: "SetPriority i p s = Some s' \<Longrightarrow> sc_pinned s' = sc_pinned s"
  by (auto simp: SetPriority_def leave_def enter_def on_band_def Let_def split: if_splits option.splits)

interpretation sched: frame_source Push Pop sched_Len MidBlock sched_good
proof (unfold_locales, goal_cases)
  case (1 P Q s f)
  then have "\<exists>r s'. sched_apply (SPush f) s = Some (r, s') \<and> sched_good (P @ pushed [SPush f]) (Q @ popped_by r) s'"
    by (intro sched_good_apply) auto
  then show ?case using pinned_Push [of f s] by (auto simp: MidBlock_def)
next
  case (2 P Q s)
  have "\<exists>r s'. sched_apply SPop s = Some (r, s') \<and> sched_good (P @ pushed [SPop]) (Q @ popped_by r) s'"
    by (rule sched_good_apply) (use 2 in auto)
  moreover have ok: "sched_ok s" using sched_goodD(1) [OF 2] .
  moreover have "sc_n s = 0 \<Longrightarrow> Pop s = Some (None, s) \<and> sc_pinned s = []"
    using ok Pop_ok [OF ok] by (cases rule: Pop_cases) (auto)
  ultimately show ?case using Pop_ok [OF ok] by (auto simp: sched_Len_def MidBlock_def)
next
  case (3 P Q s)
  then have "sched_ok s" by (rule sched_goodD)
  then show ?case by (auto simp: sched_ok_def sched_Len_def intro!: add_nonneg_nonneg sum_list_nonneg)
next
  case (4 P Q s)
  then show ?case by (auto dest!: sched_goodD(2) simp: order_ok_def MidBlock_def)
next
  case (5 P Q s)
  then show ?case by (auto dest!: sched_goodD(2) simp: order_ok_def)
qed

subsection \<open>The invariant\<close>

definition deadline_contract :: "('w \<Rightarrow> io_error option \<times> 'w) \<Rightarrow> ('w \<Rightarrow> byte list) \<Rightarrow> bool" where
  "deadline_contract deadline delivered \<longleftrightarrow> (\<forall>s. delivered (snd (deadline s)) = delivered s)"

definition target_contract :: "'w write_target \<Rightarrow> ('w \<Rightarrow> byte list) \<Rightarrow> bool" where
  "target_contract tg delivered \<longleftrightarrow>
     write_contract (tg_Write tg) delivered \<and> deadline_contract (tg_SetWriteDeadline tg) delivered"

text \<open>\<open>P\<close> are the frames handed over, \<open>Q\<close> the frames taken from the scheduler, and \<open>W\<close> those that
  \<open>frame.Writer\<close> has taken.\<close>

abbreviation healthy :: "'w frame_queue \<Rightarrow> bool" where
  "healthy w \<equiv> fq_err w = None \<and> w_err (fq_fw w) = None"

abbreviation settled :: "'w frame_queue \<Rightarrow> bool" where
  "settled w \<equiv> w_buf (fq_fw w) = [] \<and> \<not> MidBlock (fq_sched w)"

fun phase_ok :: "frame list \<Rightarrow> frame list \<Rightarrow> loop_phase \<Rightarrow> 'w frame_queue \<Rightarrow> bool" where
  "phase_ok Q W AtAwait w = (Q = W \<and> healthy w \<and> settled w)"
| "phase_ok Q W (AtQueue f) w = (Q = W @ [f] \<and> healthy w)"
| "phase_ok Q W AtTake w = (Q = W \<and> healthy w)"
| "phase_ok Q W AtFlush w = (Q = W \<and> healthy w \<and> \<not> MidBlock (fq_sched w))"
| "phase_ok Q W _ w = (prefix W Q \<and> (fq_err w = None \<longrightarrow> Q = W \<and> healthy w \<and> settled w \<and>
     (fq_stopAbrupt w \<or> fq_stopGraceful w \<and> sched_Len (fq_sched w) = 0)))"

definition fq_ok ::
  "('w \<Rightarrow> byte list) \<Rightarrow> frame list \<Rightarrow> frame list \<Rightarrow> frame list \<Rightarrow> loop_phase \<Rightarrow> 'w frame_queue \<Rightarrow> bool" where
  "fq_ok delivered P Q W ph w \<longleftrightarrow> sched_good P Q (fq_sched w) \<and> writer_ok delivered W (fq_fw w) \<and>
     (fq_gone w \<longleftrightarrow> ph = Ended) \<and> phase_ok Q W ph w"

fun fq_valid :: "fq_op \<Rightarrow> bool" where
  "fq_valid (QPrioritize i p) = priority_ok p"
| "fq_valid _ = True"

fun accepts :: "fq_op \<Rightarrow> bool \<Rightarrow> frame list" where
  "accepts (QEnqueue f) b = (if b then [f] else [])"
| "accepts _ b = []"

fun accepted :: "'w write_target \<Rightarrow> fq_op list \<Rightarrow> loop_phase \<times> 'w frame_queue \<Rightarrow> frame list" where
  "accepted tg [] pw = []"
| "accepted tg (op # ops) pw =
     (case fq_apply tg op pw of None \<Rightarrow> [] | Some (b, pw) \<Rightarrow> accepts op b @ accepted tg ops pw)"

lemma fq_ok_start: "delivered target = [] \<Longrightarrow> fq_ok delivered [] [] [] AtAwait (startFrameWriter target)"
  using sched_good_new
  by (simp add: fq_ok_def startFrameWriter_def NewWriter_ok MidBlock_def)
    (simp add: NewWriter_def Let_def SetMaxFrameSize_def newScheduler_def)

lemma SetMaxFrameSize_writer_ok [simp]:
  "writer_ok delivered W (SetMaxFrameSize n w) = writer_ok delivered W w"
  by (simp add: writer_ok_def)

lemma phase_ok_cong:
  assumes "fq_fw w' = fq_fw w" "fq_err w' = fq_err w"
    "sc_pinned (fq_sched w') = sc_pinned (fq_sched w)"
    "fq_stopAbrupt w \<longrightarrow> fq_stopAbrupt w'" "fq_stopGraceful w \<longrightarrow> fq_stopGraceful w'"
    "fq_stopGraceful w \<longrightarrow> sched_Len (fq_sched w') = sched_Len (fq_sched w)"
    "phase_ok Q W ph w"
  shows "phase_ok Q W ph w'"
  using assms by (cases ph) (auto simp: MidBlock_def)

lemma sched_n_SetPriority: "SetPriority i p s = Some s' \<Longrightarrow> sc_n s' = sc_n s"
  by (auto simp: SetPriority_def leave_def enter_def on_band_def Let_def split: if_splits option.splits)

subsection \<open>The calls of the other goroutines keep it\<close>

lemma Enqueue_ok:
  assumes "fq_ok delivered P Q W ph w"
  shows "\<exists>r w'. Enqueue f w = Some (r, w') \<and> fq_ok delivered (P @ (if r = HandedOver then [f] else [])) Q W ph w'"
proof (cases "stopped w = None \<and> admits f w")
  case True
  with assms obtain s' where s': "Push f (fq_sched w) = Some s'" "sched_good (P @ [f]) Q s'"
    using sched.push_good [of P Q "fq_sched w" f] by (auto simp: fq_ok_def)
  have "phase_ok Q W ph (w\<lparr>fq_sched := s'\<rparr>)"
    by (rule phase_ok_cong [where w = w])
      (use True assms(1) s'(1) pinned_Push [of f] in \<open>auto simp: fq_ok_def stopped_def split: if_splits\<close>)
  with True s' assms(1) show ?thesis by (auto simp: Enqueue_def fq_ok_def)
next
  case False
  with assms(1) show ?thesis by (auto simp: Enqueue_def split: option.splits)
qed

lemma Prioritize_ok:
  assumes "fq_ok delivered P Q W ph w" "priority_ok p"
  shows "\<exists>w'. Prioritize i p w = Some w' \<and> fq_ok delivered P Q W ph w'"
proof -
  have "\<exists>r s'. sched_apply (SSetPriority i p) (fq_sched w) = Some (r, s') \<and>
      sched_good (P @ pushed [SSetPriority i p]) (Q @ popped_by r) s'"
    by (rule sched_good_apply) (use assms in \<open>auto simp: fq_ok_def\<close>)
  then obtain s' where s': "SetPriority i p (fq_sched w) = Some s'" "sched_good P Q s'" by auto
  have "phase_ok Q W ph (w\<lparr>fq_sched := s'\<rparr>)"
    by (rule phase_ok_cong [where w = w])
      (use assms(1) pinned_SetPriority [OF s'(1)] sched_n_SetPriority [OF s'(1)] in \<open>auto simp: fq_ok_def sched_Len_def\<close>)
  with s' assms(1) show ?thesis by (simp add: Prioritize_def fq_ok_def)
qed

lemma Forget_ok:
  assumes "fq_ok delivered P Q W ph w"
  shows "fq_ok delivered P Q W ph (fq_Forget i w)"
proof -
  have "\<exists>r s'. sched_apply (SForget i) (fq_sched w) = Some (r, s') \<and>
      sched_good (P @ pushed [SForget i]) (Q @ popped_by r) s'"
    by (rule sched_good_apply) (use assms in \<open>auto simp: fq_ok_def\<close>)
  moreover have "phase_ok Q W ph (fq_Forget i w)"
    by (rule phase_ok_cong [where w = w]) (use assms in \<open>auto simp: fq_ok_def fq_Forget_def sched_Forget_def sched_Len_def\<close>)
  ultimately show ?thesis using assms by (simp add: fq_ok_def fq_Forget_def)
qed

lemma flags_ok:
  assumes "fq_ok delivered P Q W ph w"
  shows "fq_ok delivered P Q W ph (Shutdown w)" "fq_ok delivered P Q W ph (fq_Close w)"
    "fq_ok delivered P Q W ph (fq_SetMaxFrameSize n w)"
  using assms by (cases ph; auto simp: fq_ok_def Shutdown_def fq_Close_def fq_SetMaxFrameSize_def)+

subsection \<open>The writer goroutine keeps it\<close>

lemma await_cases:
  assumes "sched_good P Q (fq_sched w)"
  obtains "fq_stopAbrupt w" "await w = Some (Ends, w)"
    | "\<not> fq_stopAbrupt w" "fq_stopGraceful w" "sched_Len (fq_sched w) = 0" "\<not> MidBlock (fq_sched w)" "await w = Some (Ends, w)"
    | "\<not> fq_stopAbrupt w" "\<not> fq_stopGraceful w" "sched_Len (fq_sched w) = 0" "\<not> MidBlock (fq_sched w)" "await w = Some (Sleeps, w)"
    | f s where "\<not> fq_stopAbrupt w" "await w = Some (Takes f, w\<lparr>fq_sched := s\<rparr>)" "sched_good P (Q @ [f]) s"
        "sched_Len s = sched_Len (fq_sched w) - 1" "0 < sched_Len (fq_sched w)"
proof (cases "fq_stopAbrupt w")
  case True
  then show ?thesis using that(1) by (simp add: await_def)
next
  case no: False
  from assms show ?thesis
  proof (cases rule: sched.pop_cases)
    case empty
    then show ?thesis using no that(2,3) by (cases "fq_stopGraceful w") (simp_all add: await_def)
  next
    case (popped f s)
    then show ?thesis using no that(4) [of f s] by (simp add: await_def)
  qed
qed

lemma burst_take_cases:
  assumes "sched_good P Q (fq_sched w)"
  obtains "burst_take w = Some (None, w)" "\<not> MidBlock (fq_sched w)"
    | f s where "burst_take w = Some (Some f, w\<lparr>fq_sched := s\<rparr>)" "sched_good P (Q @ [f]) s"
        "sched_Len s = sched_Len (fq_sched w) - 1" "0 < sched_Len (fq_sched w)"
proof (cases "\<not> Buffered (fq_fw w) < coalesceHighWater \<and> \<not> MidBlock (fq_sched w)")
  case True
  then show ?thesis using that(1) by (simp add: burst_take_def takeIf_def)
next
  case take: False
  from assms show ?thesis
  proof (cases rule: sched.pop_cases)
    case empty
    then show ?thesis using take that(1) by (auto simp: burst_take_def takeIf_def)
  next
    case (popped f s)
    then show ?thesis using take that(2) [of f s] by (auto simp: burst_take_def takeIf_def)
  qed
qed

lemma burst_queue_cases:
  assumes "writer_ok delivered W (fq_fw w)" "w_err (fq_fw w) = None"
  obtains "burst_queue f w = (Some (ConnError InternalError), w)"
    | fw where "burst_queue f w = (None, w\<lparr>fq_fw := fw\<rparr>)" "writer_ok delivered (W @ [f]) fw" "w_err fw = None"
proof (cases "fst (Queue f (fq_fw w))")
  case None
  with assms that(2) [of "snd (Queue f (fq_fw w))"] Queue_ok [OF assms(1), of f] show ?thesis
    by (auto simp: burst_queue_def taken_def Queue_unlatched split: prod.splits if_splits)
next
  case (Some e)
  with assms that(1) show ?thesis by (auto simp: burst_queue_def Queue_unlatched split: if_splits)
qed

lemma fq_flush_cases:
  assumes "target_contract tg delivered" "writer_ok delivered W (fq_fw w)" "w_err (fq_fw w) = None"
  obtains e fw where "fq_flush tg w = (Some e, w\<lparr>fq_fw := fw\<rparr>)" "writer_ok delivered W fw"
    | fw where "fq_flush tg w = (None, w\<lparr>fq_fw := fw\<rparr>)" "writer_ok delivered W fw" "w_err fw = None" "w_buf fw = []"
proof -
  obtain r sink where d: "tg_SetWriteDeadline tg (w_sink (fq_fw w)) = (r, sink)" by force
  let ?fw = "(fq_fw w)\<lparr>w_sink := sink\<rparr>"
  have "delivered sink = delivered (w_sink (fq_fw w))"
    using assms(1) d by (auto simp: target_contract_def deadline_contract_def) (metis snd_conv)
  with assms(2,3) have ok: "writer_ok delivered W ?fw" by (simp add: writer_ok_def)
  show ?thesis
  proof (cases r)
    case (Some e)
    with d ok that(1) show ?thesis by (simp add: fq_flush_def)
  next
    case None
    obtain r' fw where f: "Flush (tg_Write tg) ?fw = (r', fw)" by force
    have w: "writer_ok delivered W fw"
      using Flush_ok [of "tg_Write tg" delivered W ?fw] assms(1) ok f by (auto simp: target_contract_def)
    have "w_buf fw = [] \<and> w_err fw = None" if "r' = None"
      using f that assms(3) by (auto simp: Flush_def Let_def split: if_splits prod.splits option.splits)
    with f w d None that show ?thesis by (cases r') (auto simp: fq_flush_def)
  qed
qed

lemma loop_step_ok:
  assumes "target_contract tg delivered" "fq_ok delivered P Q W ph w"
  shows "\<exists>b ph' w' Q' W'. loop_step tg (ph, w) = Some (b, ph', w') \<and> fq_ok delivered P Q' W' ph' w' \<and>
    prefix Q Q' \<and> prefix W W' \<and> fq_stopGraceful w' = fq_stopGraceful w \<and> fq_stopAbrupt w' = fq_stopAbrupt w"
proof -
  have o: "sched_good P Q (fq_sched w)" and wok: "writer_ok delivered W (fq_fw w)" and ph: "phase_ok Q W ph w"
    and gone: "fq_gone w \<longleftrightarrow> ph = Ended"
    using assms(2) by (auto simp: fq_ok_def)
  show ?thesis
  proof (cases ph)
    case AtAwait
    from o show ?thesis
    proof (cases rule: await_cases)
      case (4 f s)
      with AtAwait ph o wok gone show ?thesis
        by (intro exI [of _ True] exI [of _ "AtQueue f"] exI [of _ "w\<lparr>fq_sched := s\<rparr>"] exI [of _ "Q @ [f]"] exI [of _ W])
          (auto simp: loop_step_def fq_ok_def)
    qed (use AtAwait ph o wok gone in \<open>auto simp: loop_step_def fq_ok_def\<close>)
  next
    case (AtQueue f)
    with ph have h: "Q = W @ [f]" "healthy w" by auto
    from wok h(2) [THEN conjunct2] show ?thesis
    proof (cases rule: burst_queue_cases [of delivered W w f, consumes 2])
      case 1
      with AtQueue h o wok gone show ?thesis
        by (intro exI [of _ False] exI [of _ AtStop] exI [of _ "w\<lparr>fq_err := Some (ConnError InternalError)\<rparr>"] exI [of _ Q] exI [of _ W])
          (auto simp: loop_step_def fq_ok_def)
    next
      case (2 fw)
      with AtQueue h o wok gone show ?thesis
        by (intro exI [of _ False] exI [of _ AtTake] exI [of _ "w\<lparr>fq_fw := fw\<rparr>"] exI [of _ Q] exI [of _ Q])
          (auto simp: loop_step_def fq_ok_def)
    qed
  next
    case AtTake
    with ph have h: "Q = W" "healthy w" by auto
    from o show ?thesis
    proof (cases rule: burst_take_cases)
      case 1
      with AtTake h o wok gone show ?thesis by (auto simp: loop_step_def fq_ok_def)
    next
      case (2 f s)
      with AtTake h o wok gone show ?thesis
        by (intro exI [of _ True] exI [of _ "AtQueue f"] exI [of _ "w\<lparr>fq_sched := s\<rparr>"] exI [of _ "Q @ [f]"] exI [of _ W])
          (auto simp: loop_step_def fq_ok_def)
    qed
  next
    case AtFlush
    with ph have h: "Q = W" "healthy w" "\<not> MidBlock (fq_sched w)" by auto
    from assms(1) wok h(2) [THEN conjunct2] show ?thesis
    proof (cases rule: fq_flush_cases [of tg delivered W w, consumes 3])
      case (1 e fw)
      with AtFlush h o wok gone show ?thesis
        by (intro exI [of _ False] exI [of _ AtStop] exI [of _ "w\<lparr>fq_fw := fw, fq_err := Some e\<rparr>"] exI [of _ Q] exI [of _ W])
          (auto simp: loop_step_def fq_ok_def)
    next
      case (2 fw)
      with AtFlush h o wok gone show ?thesis
        by (intro exI [of _ False] exI [of _ AtAwait] exI [of _ "w\<lparr>fq_fw := fw\<rparr>"] exI [of _ Q] exI [of _ W])
          (auto simp: loop_step_def fq_ok_def)
    qed
  next
    case AtStop
    with ph o wok gone show ?thesis
      by (intro exI [of _ True] exI [of _ Ended] exI [of _ "fq_stop w"] exI [of _ Q] exI [of _ W])
        (auto simp: loop_step_def fq_ok_def fq_stop_def)
  next
    case Ended
    with ph o wok gone show ?thesis
      by (intro exI [of _ False] exI [of _ Ended] exI [of _ w] exI [of _ Q] exI [of _ W])
        (auto simp: loop_step_def fq_ok_def)
  qed
qed

subsection \<open>Runs\<close>

lemma blocks_prefix: "blocks_from None (xs @ ys) \<noteq> None \<Longrightarrow> blocks_from None xs \<noteq> None"
  by (auto simp: blocks_from_append split: option.splits)

lemma streams_intact_prefix: "streams_intact (xs @ ys) \<Longrightarrow> streams_intact xs"
  unfolding streams_intact_def blocks_intact_def using blocks_prefix by (metis filter_append)

lemma fq_apply_ok:
  assumes "target_contract tg delivered" "fq_ok delivered P Q W ph w" "fq_valid op"
  shows "\<exists>b ph' w' Q' W'. fq_apply tg op (ph, w) = Some (b, ph', w') \<and> fq_ok delivered (P @ accepts op b) Q' W' ph' w' \<and>
    prefix Q Q' \<and> prefix W W'"
proof (cases op)
  case (QEnqueue f)
  from Enqueue_ok [OF assms(2)] obtain r w' where
    "Enqueue f w = Some (r, w')" "fq_ok delivered (P @ (if r = HandedOver then [f] else [])) Q W ph w'" by blast
  with QEnqueue show ?thesis
    by (intro exI [of _ "r = HandedOver"] exI [of _ ph] exI [of _ w'] exI [of _ Q] exI [of _ W]) auto
next
  case (QPrioritize i p)
  with Prioritize_ok [OF assms(2), of p i] assms(3) show ?thesis by auto
next
  case QLoop
  with loop_step_ok [OF assms(1,2)] show ?thesis by fastforce
qed (use assms(2) Forget_ok flags_ok in \<open>fastforce+\<close>)

lemma Enqueue_handed:
  "stopped w = None \<Longrightarrow> admits f w \<Longrightarrow> Enqueue f w = Some (r, w') \<Longrightarrow> r = HandedOver"
  by (auto simp: Enqueue_def)

end
