(* ===== verification/FqProps.thy ===== *)
theory FqProps
  imports FqOk FrameProps
begin

text \<open>
  The properties of the frame queue: what the peer receives, that a shutdown ends and writes what is
  queued, that no waiting goroutine misses its wake-up, and the bound on the queue.
\<close>

subsection \<open>A shutdown ends\<close>

fun loop_left :: "loop_phase \<Rightarrow> 'w frame_queue \<Rightarrow> nat" where
  "loop_left ph w =
     (let n = 4 * nat (sched_Len (fq_sched w)) in
      case ph of AtQueue f \<Rightarrow> n + 5 | AtTake \<Rightarrow> n + 4 | AtFlush \<Rightarrow> n + 3 | AtAwait \<Rightarrow> n + 2 | AtStop \<Rightarrow> 1 | Ended \<Rightarrow> 0)"

lemma loop_step_less:
  assumes "target_contract tg delivered" "fq_ok delivered P Q W ph w" "fq_stopGraceful w \<or> fq_stopAbrupt w"
    "loop_step tg (ph, w) = Some (b, ph', w')" "ph \<noteq> Ended"
  shows "loop_left ph' w' < loop_left ph w"
proof -
  have o: "sched_good P Q (fq_sched w)" and wok: "writer_ok delivered W (fq_fw w)" and ph: "phase_ok Q W ph w"
    using assms(2) by (auto simp: fq_ok_def)
  show ?thesis
  proof (cases ph)
    case AtAwait
    from o show ?thesis
      by (cases rule: await_cases) (use AtAwait assms(3,4) in \<open>auto simp: loop_step_def Let_def\<close>)
  next
    case (AtQueue f)
    with ph have h: "w_err (fq_fw w) = None" by auto
    from wok h show ?thesis
      by (cases rule: burst_queue_cases [of delivered W w f, consumes 2])
        (use AtQueue assms(3,4) in \<open>auto simp: loop_step_def Let_def\<close>)
  next
    case AtTake
    from o show ?thesis
      by (cases rule: burst_take_cases) (use AtTake assms(3,4) in \<open>auto simp: loop_step_def Let_def\<close>)
  next
    case AtFlush
    with ph have h: "w_err (fq_fw w) = None" by auto
    from assms(1) wok h show ?thesis
      by (cases rule: fq_flush_cases [of tg delivered W w, consumes 3])
        (use AtFlush assms(3,4) in \<open>auto simp: loop_step_def Let_def\<close>)
  qed (use assms(4,5) in \<open>auto simp: loop_step_def Let_def\<close>)
qed

lemma loop_ends:
  assumes "target_contract tg delivered"
  shows "fq_ok delivered P Q W ph w \<Longrightarrow> fq_stopGraceful w \<or> fq_stopAbrupt w \<Longrightarrow> loop_left ph w \<le> n \<Longrightarrow>
    \<exists>w' Q' W'. fq_run tg (replicate n QLoop) (ph, w) = Some (Ended, w') \<and> fq_ok delivered P Q' W' Ended w' \<and>
      fq_stopAbrupt w' = fq_stopAbrupt w"
proof (induction n arbitrary: Q W ph w)
  case 0
  then have "ph = Ended" by (cases ph) (auto simp: Let_def)
  with 0 show ?case by auto
next
  case (Suc n)
  obtain b ph1 w1 Q1 W1 where s: "loop_step tg (ph, w) = Some (b, ph1, w1)" "fq_ok delivered P Q1 W1 ph1 w1"
    "fq_stopGraceful w1 = fq_stopGraceful w" "fq_stopAbrupt w1 = fq_stopAbrupt w"
    using loop_step_ok [OF assms Suc.prems(1)] by blast
  have "loop_left ph1 w1 \<le> n"
  proof (cases "ph = Ended")
    case True
    with s(1) show ?thesis by (auto simp: loop_step_def)
  next
    case False
    from loop_step_less [OF assms Suc.prems(1,2) s(1) False] Suc.prems(3) show ?thesis by linarith
  qed
  with Suc.IH [OF s(2)] Suc.prems(2) s show ?case by auto
qed

lemma held_empty: "sched_good P Q s \<Longrightarrow> sched_Len s = 0 \<Longrightarrow> held s i = run_frames s i"
proof -
  assume o: "sched_good P Q s" and l: "sched_Len s = 0"
  then have ok: "sched_ok s" by (simp add: sched_goodD)
  have "Pop s = Some (None, s)" using sched.pop_good [OF o] l by auto
  with ok show ?thesis
    by (cases rule: Pop_cases) (auto simp: held_def lane_of_def)
qed

subsection \<open>No goroutine misses its wake-up\<close>

definition enqueue_waits :: "frame \<Rightarrow> 'w frame_queue \<Rightarrow> bool" where
  "enqueue_waits f w \<longleftrightarrow> stopped w = None \<and> \<not> admits f w"

definition loop_sleeps :: "loop_phase \<times> 'w frame_queue \<Rightarrow> bool" where
  "loop_sleeps pw \<longleftrightarrow> (case pw of (ph, w) \<Rightarrow>
     ph = AtAwait \<and> \<not> fq_stopAbrupt w \<and> \<not> fq_stopGraceful w \<and> sched_Len (fq_sched w) = 0)"

text \<open>A step that does not broadcast changes nothing that a wait depends on.\<close>

lemma silent_step:
  assumes "target_contract tg delivered" "fq_ok delivered P Q W ph w" "fq_apply tg op (ph, w) = Some (False, ph', w')"
  shows "sc_runs (fq_sched w') = sc_runs (fq_sched w) \<and> sched_Len (fq_sched w') = sched_Len (fq_sched w) \<and>
    fq_stopGraceful w' = fq_stopGraceful w \<and> fq_stopAbrupt w' = fq_stopAbrupt w \<and> fq_gone w' = fq_gone w \<and>
    (fq_gone w \<longrightarrow> fq_err w' = fq_err w) \<and> (loop_sleeps (ph, w) \<longrightarrow> ph' = AtAwait)"
proof -
  have o: "sched_good P Q (fq_sched w)" and wok: "writer_ok delivered W (fq_fw w)" and ph: "phase_ok Q W ph w"
    and gone: "fq_gone w \<longleftrightarrow> ph = Ended"
    using assms(2) by (auto simp: fq_ok_def)
  show ?thesis
  proof (cases op)
    case (QEnqueue f)
    with assms(3) show ?thesis
      by (auto simp: Enqueue_def loop_sleeps_def split: option.splits if_splits)
  next
    case (QPrioritize i p)
    with assms(3) obtain s' where s': "SetPriority i p (fq_sched w) = Some s'" "w' = w\<lparr>fq_sched := s'\<rparr>" "ph' = ph"
      by (auto simp: Prioritize_def)
    moreover have "sc_runs s' = sc_runs (fq_sched w)"
      using s'(1) by (auto simp: SetPriority_def leave_def enter_def on_band_def Let_def split: if_splits option.splits)
    ultimately show ?thesis using sched_n_SetPriority [OF s'(1)] by (simp add: sched_Len_def loop_sleeps_def)
  next
    case QLoop
    show ?thesis
    proof (cases ph)
      case AtAwait
      from o show ?thesis
        by (cases rule: await_cases) (use AtAwait assms(3) gone QLoop in \<open>auto simp: loop_step_def loop_sleeps_def\<close>)
    next
      case (AtQueue f)
      with ph have h: "w_err (fq_fw w) = None" by auto
      from wok h show ?thesis
        by (cases rule: burst_queue_cases [of delivered W w f, consumes 2])
          (use AtQueue assms(3) gone QLoop in \<open>auto simp: loop_step_def loop_sleeps_def\<close>)
    next
      case AtTake
      from o show ?thesis
        by (cases rule: burst_take_cases) (use AtTake assms(3) gone QLoop in \<open>auto simp: loop_step_def loop_sleeps_def\<close>)
    next
      case AtFlush
      with ph have h: "w_err (fq_fw w) = None" by auto
      from assms(1) wok h show ?thesis
        by (cases rule: fq_flush_cases [of tg delivered W w, consumes 3])
          (use AtFlush assms(3) gone QLoop in \<open>auto simp: loop_step_def loop_sleeps_def\<close>)
    qed (use assms(3) QLoop in \<open>auto simp: loop_step_def loop_sleeps_def\<close>)
  qed (use assms(3) in \<open>auto simp: fq_Forget_def sched_Forget_def sched_Len_def fq_SetMaxFrameSize_def loop_sleeps_def\<close>)
qed

lemma silent_step_waits:
  assumes "target_contract tg delivered" "fq_ok delivered P Q W ph w" "fq_apply tg op (ph, w) = Some (False, ph', w')"
  shows "enqueue_waits f w \<longrightarrow> enqueue_waits f w'" "loop_sleeps (ph, w) \<longrightarrow> loop_sleeps (ph', w')"
  using silent_step [OF assms]
  by (auto simp: enqueue_waits_def stopped_def admits_def ContinuesBlock_def loop_sleeps_def split: if_splits)

subsection \<open>The depth of the queue\<close>

text \<open>The waiting frames of field blocks that consist of several frames.\<close>

definition block_frames :: "scheduler \<Rightarrow> int" where
  "block_frames s = int (length (sc_pinned s)) +
     (\<Sum>r\<leftarrow>sc_lane s. if 1 < length (it_frames r) then int (length (it_frames r)) else 0)"

definition depth_ok :: "scheduler \<Rightarrow> bool" where
  "depth_ok s \<longleftrightarrow> sched_Len s \<le> defaultQueueDepth + block_frames s"

lemma depth_Push:
  assumes "sched_ok s" "depth_ok s" "Push f s = Some s'" "ContinuesBlock f s \<or> sched_Len s < defaultQueueDepth"
  shows "depth_ok s'"
proof (cases "Frame_Type f = TypeData \<and> Frame_Stream f \<noteq> nonIncrementalTurn")
  case True
  with assms(3) have "sc_n s' = sc_n s + 1" "sc_pinned s' = sc_pinned s" "sc_lane s' = sc_lane s"
    by (auto simp: Push_def push_data_def enter_def on_band_def Let_def split: if_splits option.splits)
  moreover have "0 \<le> block_frames s" by (auto simp: block_frames_def intro!: add_nonneg_nonneg sum_list_nonneg)
  ultimately show ?thesis using assms(4) True by (auto simp: depth_ok_def block_frames_def sched_Len_def ContinuesBlock_def)
next
  case False
  have b: "0 \<le> (\<Sum>r\<leftarrow>sc_lane s. if 1 < length (it_frames r) then int (length (it_frames r)) else 0)"
    by (intro sum_list_nonneg) auto
  show ?thesis
  proof (cases "store_get (sc_runs s) (Frame_Stream f)")
    case None
    with False assms(2-4) b show ?thesis
      by (auto simp: Push_def push_other_def depth_ok_def block_frames_def sched_Len_def ContinuesBlock_def Let_def
          split: if_splits)
  next
    case (Some r)
    then have "it_frames r \<noteq> []" using assms(1) by (auto simp: sched_ok_def all_entries_def run_ok_def)
    with False assms(2,3) Some show ?thesis
      by (auto simp: Push_def push_other_def depth_ok_def block_frames_def sched_Len_def Let_def split: if_splits)
  qed
qed

lemma depth_Pop:
  assumes "sched_ok s" "depth_ok s" "Pop s = Some (r, s')"
  shows "depth_ok s'"
  using assms(1)
proof (cases rule: Pop_cases)
  case (pinned f fs)
  with assms(2,3) show ?thesis by (auto simp: depth_ok_def block_frames_def sched_Len_def)
next
  case (item it rest f fs)
  with assms(2,3) show ?thesis by (cases fs) (auto simp: depth_ok_def block_frames_def sched_Len_def)
qed (use assms(2,3) in \<open>auto simp: depth_ok_def block_frames_def sched_Len_def took_def\<close>)

lemma depth_apply:
  assumes "target_contract tg delivered" "fq_ok delivered P Q W ph w" "depth_ok (fq_sched w)"
    "fq_apply tg op (ph, w) = Some (b, ph', w')"
  shows "depth_ok (fq_sched w')"
proof -
  have ok: "sched_ok (fq_sched w)" using assms(2) unfolding fq_ok_def by (blast dest: sched_goodD)
  show ?thesis
  proof (cases op)
    case (QEnqueue f)
    with assms(3,4) depth_Push [OF ok assms(3), of f] show ?thesis
      by (auto simp: Enqueue_def admits_def split: option.splits if_splits)
  next
    case (QPrioritize i p)
    with assms(3,4) show ?thesis
      by (auto simp: Prioritize_def SetPriority_def leave_def enter_def on_band_def Let_def depth_ok_def block_frames_def
          sched_Len_def split: option.splits if_splits)
  next
    case (QForget i)
    with assms(3,4) show ?thesis
      by (auto simp: fq_Forget_def sched_Forget_def depth_ok_def block_frames_def sched_Len_def)
  next
    case QLoop
    with assms(3,4) depth_Pop [OF ok assms(3)] show ?thesis
      by (auto simp: loop_step_def await_def burst_queue_def burst_take_def takeIf_def fq_flush_def fq_stop_def
          split: loop_phase.splits option.splits if_splits prod.splits await_result.splits)
  qed (use assms(3,4) in \<open>auto simp: Shutdown_def fq_Close_def fq_SetMaxFrameSize_def\<close>)
qed

lemma fq_run_ok:
  assumes "target_contract tg delivered"
  shows "fq_ok delivered P Q W ph w \<Longrightarrow> depth_ok (fq_sched w) \<Longrightarrow> list_all fq_valid ops \<Longrightarrow>
    \<exists>ph' w' Q' W'. fq_run tg ops (ph, w) = Some (ph', w') \<and>
      fq_ok delivered (P @ accepted tg ops (ph, w)) Q' W' ph' w' \<and> prefix Q Q' \<and> prefix W W' \<and>
      depth_ok (fq_sched w')"
proof (induction ops arbitrary: P Q W ph w)
  case Nil
  then show ?case by auto
next
  case (Cons op ops)
  from fq_apply_ok [OF assms Cons.prems(1), of op] Cons.prems(3) obtain b ph1 w1 Q1 W1 where
    s: "fq_apply tg op (ph, w) = Some (b, ph1, w1)" "fq_ok delivered (P @ accepts op b) Q1 W1 ph1 w1"
    "prefix Q Q1" "prefix W W1" by auto
  from Cons.IH [OF s(2) depth_apply [OF assms Cons.prems(1,2) s(1)]] Cons.prems(3) s(1) obtain ph2 w2 Q2 W2 where
    "fq_run tg ops (ph1, w1) = Some (ph2, w2)"
    "fq_ok delivered ((P @ accepts op b) @ accepted tg ops (ph1, w1)) Q2 W2 ph2 w2" "prefix Q1 Q2" "prefix W1 W2" "depth_ok (fq_sched w2)" by auto
  moreover from this(3,4) s(3,4) have "prefix Q Q2" "prefix W W2" by (blast intro: prefix_order.trans)+
  ultimately show ?case using s(1) by auto
qed

subsection \<open>The properties\<close>

lemma fq_run_start:
  assumes "target_contract tg delivered" "delivered target = []" "list_all fq_valid ops"
  shows "\<exists>ph w Q W. fq_run tg ops (fq_start target) = Some (ph, w) \<and>
    fq_ok delivered (accepted tg ops (fq_start target)) Q W ph w \<and> depth_ok (fq_sched w)"
proof -
  have "depth_ok (fq_sched (startFrameWriter target))"
    by (simp add: startFrameWriter_def newScheduler_def depth_ok_def sched_Len_def block_frames_def)
  with fq_run_ok [OF assms(1) fq_ok_start [where delivered = delivered and target = target, OF assms(2)] this assms(3)] show ?thesis
    by (auto simp: fq_start_def)
qed

text \<open>C25: The composition of the frame queue, the scheduler and \<open>frame.Writer\<close>, over any interleaving of
  the goroutines' steps and any socket. Whatever is handed over, nothing panics, what the peer has received is a first part of the
  octets of whole frames \<open>W\<close>, and a goroutine that has stopped without an error has sent all of \<open>W\<close> and taken nothing else. If moreover the frames
  handed over keep each stream's field blocks whole (\<open>streams_intact\<close>: between a HEADERS frame that does not end its block and the
  CONTINUATION that does, no other frame of that same stream is handed over, which the program does not ensure for its own WINDOW_UPDATE and RST_STREAM frames),
  then of each stream, \<open>W\<close> holds the frames that were handed over, in their order, followed by at most
  one that is with the writer and those that the scheduler holds; no frame of any stream comes between the frames of a field block;
  and a goroutine that has stopped without an error has left no field block open, even if it was told to stop at once.\<close>

theorem frames_reach_the_peer_in_order:
  assumes "target_contract tg delivered" "delivered target = []" "list_all fq_valid ops"
  shows "\<exists>ph w W rest. fq_run tg ops (fq_start target) = Some (ph, w) \<and>
    prefix (delivered (w_sink (fq_fw w))) (concat (map wire_of W)) \<and>
    (ph \<in> {AtStop, Ended} \<and> fq_err w = None \<longrightarrow> rest = [] \<and> delivered (w_sink (fq_fw w)) = concat (map wire_of W)) \<and>
    (streams_intact (accepted tg ops (fq_start target)) \<longrightarrow>
      (\<forall>i. on i (accepted tg ops (fq_start target)) = on i (W @ rest) @ held (fq_sched w) i) \<and>
      blocks_intact (W @ rest) \<and>
      (ph \<in> {AtStop, Ended} \<and> fq_err w = None \<longrightarrow> blocks_from None W = Some None))"
proof -
  obtain ph w Q W where r: "fq_run tg ops (fq_start target) = Some (ph, w)"
    "fq_ok delivered (accepted tg ops (fq_start target)) Q W ph w"
    using fq_run_start [OF assms] by blast
  have o: "sched_good (accepted tg ops (fq_start target)) Q (fq_sched w)" and wok: "writer_ok delivered W (fq_fw w)"
    and p: "phase_ok Q W ph w" using r(2) by (auto simp: fq_ok_def)
  from p have "prefix W Q" by (cases ph) auto
  then obtain rest where rest: "Q = W @ rest" by (auto simp: prefix_def)
  have stop: "delivered (w_sink (fq_fw w)) = wire_all W \<and> rest = [] \<and> \<not> MidBlock (fq_sched w)"
    if "ph \<in> {AtStop, Ended}" "fq_err w = None"
    using that p wok rest by (auto simp: writer_ok_def)
  have "prefix (delivered (w_sink (fq_fw w))) (wire_all W)"
    using wok by (auto simp: writer_ok_def split: if_splits) (metis prefixI)
  moreover have "(\<forall>i. on i (accepted tg ops (fq_start target)) = on i Q @ held (fq_sched w) i) \<and> blocks_intact Q \<and>
      (ph \<in> {AtStop, Ended} \<and> fq_err w = None \<longrightarrow> blocks_from None W = Some None)"
    if intact: "streams_intact (accepted tg ops (fq_start target))"
  proof -
    have "blocks_intact Q" using sched.one_block [OF o intact] by (simp add: blocks_intact_def)
    moreover have "on i (accepted tg ops (fq_start target)) = on i Q @ held (fq_sched w) i" for i
      using sched_goodD(2) [OF o intact] by (simp add: order_ok_def)
    moreover have "blocks_from None W = Some None" if "ph \<in> {AtStop, Ended}" "fq_err w = None"
      using stop [OF that] sched.whole_blocks [OF o intact] rest by simp
    ultimately show ?thesis by blast
  qed
  ultimately show ?thesis
    using r(1) rest stop by (intro exI [of _ ph] exI [of _ w] exI [of _ W] exI [of _ rest]) (simp add: wire_all_def)
qed

text \<open>C26: A shutdown ends: from any state that the goroutines reach, whatever was handed over and whatever the socket does, once the writer has been told to
  stop, its goroutine is done after at most four steps for each waiting frame and five more. If it was not told to stop at once and
  met no error, the queue is then empty and what was taken from it has reached the peer whole; and if the frames handed over kept each
  stream's field blocks whole (\<open>streams_intact\<close>), that is everything that was handed over, each stream's frames in order, but for field blocks whose
  last frame never came.\<close>

theorem shutdown_ends_with_an_empty_queue:
  assumes "target_contract tg delivered" "delivered target = []" "list_all fq_valid ops"
    "fq_run tg ops (fq_start target) = Some (ph, w)"
    "fq_stopGraceful w \<or> fq_stopAbrupt w" "4 * nat (sched_Len (fq_sched w)) + 5 \<le> n"
  shows "\<exists>w'. fq_run tg (replicate n QLoop) (ph, w) = Some (Ended, w') \<and>
    (fq_err w' = None \<and> \<not> fq_stopAbrupt w \<longrightarrow> sched_Len (fq_sched w') = 0 \<and>
      (\<exists>W. delivered (w_sink (fq_fw w')) = concat (map wire_of W) \<and>
        (streams_intact (accepted tg ops (fq_start target)) \<longrightarrow>
          (\<forall>i. on i (accepted tg ops (fq_start target)) = on i W @ run_frames (fq_sched w') i))))"
proof -
  obtain Q W where ok: "fq_ok delivered (accepted tg ops (fq_start target)) Q W ph w"
    using fq_run_start [OF assms(1-3)] assms(4) by auto
  have "loop_left ph w \<le> n" using assms(6) by (cases ph) (auto simp: Let_def)
  from loop_ends [OF assms(1) ok assms(5) this] obtain w' Q' W' where
    r: "fq_run tg (replicate n QLoop) (ph, w) = Some (Ended, w')"
      "fq_ok delivered (accepted tg ops (fq_start target)) Q' W' Ended w'" "fq_stopAbrupt w' = fq_stopAbrupt w" by blast
  have "sched_Len (fq_sched w') = 0 \<and> delivered (w_sink (fq_fw w')) = concat (map wire_of W') \<and>
      (streams_intact (accepted tg ops (fq_start target)) \<longrightarrow>
        (\<forall>i. on i (accepted tg ops (fq_start target)) = on i W' @ run_frames (fq_sched w') i))"
    if "fq_err w' = None" "\<not> fq_stopAbrupt w"
  proof -
    have o: "sched_good (accepted tg ops (fq_start target)) Q' (fq_sched w')" and
      wok: "writer_ok delivered W' (fq_fw w')" and p: "phase_ok Q' W' Ended w'"
      using r(2) unfolding fq_ok_def by blast+
    from p that r(3) have e: "sched_Len (fq_sched w') = 0" "Q' = W'" "w_err (fq_fw w') = None" "w_buf (fq_fw w') = []"
      unfolding phase_ok.simps by blast+
    then have d: "delivered (w_sink (fq_fw w')) = wire_all W'" using wok unfolding writer_ok_def by simp
    have "on i (accepted tg ops (fq_start target)) = on i W' @ run_frames (fq_sched w') i"
      if "streams_intact (accepted tg ops (fq_start target))" for i
      using sched_goodD(2) [OF o that] held_empty [OF o e(1)] e(2) unfolding order_ok_def by metis
    with e(1) d show ?thesis unfolding wire_all_def by blast
  qed
  with r(1) show ?thesis by (intro exI [of _ w'] conjI impI exI [of _ W']) simp_all
qed

text \<open>C27: No wake-up is missed, in any state that the goroutines reach, whatever was handed over: if a step of any goroutine ends what an
  \<open>Enqueue\<close> waits for (room, an open field block to join, or the end of the writer) or what the
  writer goroutine sleeps for (a frame, or a request to stop), that step broadcasts.\<close>

theorem waiting_goroutines_are_woken:
  assumes "target_contract tg delivered" "delivered target = []" "list_all fq_valid ops"
    "fq_run tg ops (fq_start target) = Some (ph, w)"
    "fq_apply tg op (ph, w) = Some (b, ph', w')"
    "enqueue_waits f w \<and> \<not> enqueue_waits f w' \<or> loop_sleeps (ph, w) \<and> \<not> loop_sleeps (ph', w')"
  shows "b"
proof (rule ccontr)
  assume "\<not> b"
  obtain Q W where "fq_ok delivered (accepted tg ops (fq_start target)) Q W ph w"
    using fq_run_start [OF assms(1-3)] assms(4) by auto
  with \<open>\<not> b\<close> assms(5,6) silent_step_waits [OF assms(1)] show False by (metis (full_types))
qed

text \<open>C28: The queue is bounded: at most 32 of the frames that wait are not in a field block of several frames,
  whatever is handed over and however slowly the peer reads.\<close>

theorem queue_depth_is_bounded:
  assumes "target_contract tg delivered" "delivered target = []" "list_all fq_valid ops"
    "fq_run tg ops (fq_start target) = Some (ph, w)"
  shows "sched_Len (fq_sched w) - block_frames (fq_sched w) \<le> 32"
  using fq_run_start [OF assms(1-3)] assms(4) by (auto simp: depth_ok_def)

subsection \<open>A sample run\<close>

definition memory_target :: "byte list write_target" where
  "memory_target = \<lparr>tg_Write = list_sink, tg_SetWriteDeadline = \<lambda>s. (None, s)\<rparr>"

lemma memory_target_contract: "target_contract memory_target (\<lambda>s. s)"
  using list_sink_contract by (simp add: target_contract_def memory_target_def deadline_contract_def)

definition sample_queue_ops :: "fq_op list" where
  "sample_queue_ops = [QEnqueue (sample_headers 1 False), QLoop, QEnqueue (sample_headers 3 True), QLoop,
     QEnqueue (sample_continuation 1), QEnqueue (sample_data 1 7), QShutdown, QEnqueue (sample_data 3 8)]"

definition sample_queue :: "loop_phase \<times> byte list frame_queue" where
  "sample_queue = (case fq_run memory_target sample_queue_ops (fq_start []) of
     None \<Rightarrow> fq_start [] | Some pw \<Rightarrow> pw)"

lemma sample_queue_eq:
  "fq_run memory_target sample_queue_ops (fq_start []) = Some (fst sample_queue, snd sample_queue)"
  "accepted memory_target sample_queue_ops (fq_start []) =
     [sample_headers 1 False, sample_headers 3 True, sample_continuation 1, sample_data 1 7]"
  by code_simp+

lemma sample_queue_ok:
  "list_all fq_valid sample_queue_ops" "streams_intact (accepted memory_target sample_queue_ops (fq_start []))"
  unfolding streams_intact_on sample_queue_eq by code_simp+


lemma sample_queue_state:
  "fst sample_queue = AtQueue (sample_headers 3 True)" "fq_stopGraceful (snd sample_queue)" "\<not> fq_stopAbrupt (snd sample_queue)"
  "sched_Len (fq_sched (snd sample_queue)) = 3"
  by code_simp+

lemma frames_reach_the_peer_in_order_witness:
  "\<exists>W rest. prefix (w_sink (fq_fw (snd sample_queue))) (concat (map wire_of W)) \<and>
     [sample_headers 1 False, sample_continuation 1, sample_data 1 7] = on 1 (W @ rest) @ held (fq_sched (snd sample_queue)) 1"
proof -
  have e: "on 1 (accepted memory_target sample_queue_ops (fq_start [])) =
      [sample_headers 1 False, sample_continuation 1, sample_data 1 7]" by code_simp
  obtain ph w W rest where r: "fq_run memory_target sample_queue_ops (fq_start []) = Some (ph, w)"
    "prefix (w_sink (fq_fw w)) (concat (map wire_of W))"
    "on 1 (accepted memory_target sample_queue_ops (fq_start [])) = on 1 (W @ rest) @ held (fq_sched w) 1"
    using frames_reach_the_peer_in_order [OF memory_target_contract refl sample_queue_ok(1)] sample_queue_ok(2) by blast
  from r(1) have w: "snd sample_queue = w" unfolding sample_queue_eq by (metis option.inject prod.collapse snd_conv)
  show ?thesis unfolding w using r(2,3) e by (intro exI [of _ W] exI [of _ rest]) simp
qed

lemma shutdown_ends_with_an_empty_queue_witness:
  "\<exists>w'. fq_run memory_target (replicate 21 QLoop) (fst sample_queue, snd sample_queue) = Some (Ended, w') \<and>
     (fq_err w' = None \<longrightarrow> sched_Len (fq_sched w') = 0)"
  using shutdown_ends_with_an_empty_queue [OF memory_target_contract refl sample_queue_ok(1) sample_queue_eq(1), of 21]
  by (auto simp: sample_queue_state)

lemma waiting_goroutines_are_woken_witness:
  "fst (the (fq_apply memory_target (QEnqueue (sample_data 3 8)) (fq_start [])))"
proof -
  have r: "fq_run memory_target [] (fq_start []) = Some (AtAwait, startFrameWriter [])"
    by (simp add: fq_start_def)
  obtain b ph' w' where s: "fq_apply memory_target (QEnqueue (sample_data 3 8)) (AtAwait, startFrameWriter []) = Some (b, ph', w')"
    "\<not> loop_sleeps (ph', w')"
  proof -
    have "case fq_apply memory_target (QEnqueue (sample_data 3 8)) (AtAwait, startFrameWriter []) of None \<Rightarrow> False
      | Some (b, pw) \<Rightarrow> \<not> loop_sleeps pw" by code_simp
    then show ?thesis using that by (auto split: option.splits)
  qed
  have "loop_sleeps (AtAwait, startFrameWriter ([] :: byte list))" by code_simp
  with s(2) waiting_goroutines_are_woken [OF memory_target_contract refl _ r s(1)] have "b" by simp
  then show ?thesis unfolding fq_start_def s(1) by simp
qed

lemma queue_depth_is_bounded_witness:
  "sched_Len (fq_sched (snd sample_queue)) - block_frames (fq_sched (snd sample_queue)) \<le> 32"
  by (rule queue_depth_is_bounded [OF memory_target_contract refl sample_queue_ok(1) sample_queue_eq(1)])

end
