(* ===== verification/WriteSide.thy ===== *)
theory WriteSide
  imports ResponseRun FqProps SenderProps
begin

text \<open>
  The write half that the responses of a connection really have: the frame queue and the send half of
  flow control, with the other goroutines (the writer, the reader, and whoever stops the connection)
  going on meanwhile. What they do is a plan: each call of a handler first lets the next entry happen, and one that
  has to wait lets entries happen until it is released. A plan that runs out while a call waits ends with the
  connection being closed, which is what the write timeout does to a queue that stays full.
\<close>

subsection \<open>The model\<close>

type_synonym plan = "(fq_op list \<times> sender_op list) list"

record 'w side =
  sd_pw :: "loop_phase \<times> 'w frame_queue"
  sd_sender :: sender
  sd_plan :: plan
  sd_done :: "fq_op list"
  sd_log :: "frame list"
  sd_broken :: bool

text \<open>\<open>sd_done\<close> records the steps of the frame queue, \<open>sd_log\<close> the frames that the responses handed over, and
  \<open>sd_broken\<close> a panic of the scheduler, which does not happen.\<close>

fun sender_steps :: "sender_op list \<Rightarrow> sender \<Rightarrow> sender" where
  "sender_steps [] s = s"
| "sender_steps (op # ops) s = sender_steps ops (snd (sender_apply op s))"

definition others :: "'w write_target \<Rightarrow> fq_op list \<times> sender_op list \<Rightarrow> 'w side \<Rightarrow> 'w side" where
  "others tg x s =
     (case fq_run tg (fst x) (sd_pw s) of
        None \<Rightarrow> s\<lparr>sd_broken := True\<rparr>
      | Some pw \<Rightarrow> s\<lparr>sd_pw := pw, sd_done := sd_done s @ fst x, sd_sender := sender_steps (snd x) (sd_sender s)\<rparr>)"

fun stop_cause :: "stop_error \<Rightarrow> error" where
  "stop_cause ErrWriterStopped = Sentinel ''frame writer stopped''"
| "stop_cause (LoopError e) = e"

text \<open>One attempt; \<open>None\<close> is a caller that waits.\<close>

definition attempt :: "'w write_target \<Rightarrow> frame \<Rightarrow> 'w side \<Rightarrow> error option option \<times> 'w side" where
  "attempt tg f s =
     (case fq_apply tg (QEnqueue f) (sd_pw s) of
        None \<Rightarrow> (Some (Some Panic), s\<lparr>sd_broken := True\<rparr>)
      | Some (b, pw) \<Rightarrow>
          if b then (Some None, s\<lparr>sd_pw := pw, sd_done := sd_done s @ [QEnqueue f], sd_log := sd_log s @ [f]\<rparr>)
          else (case stopped (snd (sd_pw s)) of
                  Some e \<Rightarrow> (Some (Some (stop_cause e)), s)
                | None \<Rightarrow> (None, s)))"

fun side_enqueue :: "'w write_target \<Rightarrow> frame \<Rightarrow> plan \<Rightarrow> 'w side \<Rightarrow> error option \<times> 'w side" where
  "side_enqueue tg f [] s =
     (if sd_broken s then (Some Panic, s)
      else (case attempt tg f s of
              (Some r, s) \<Rightarrow> (r, s)
            | (None, s) \<Rightarrow> (Some (stop_cause ErrWriterStopped), others tg ([QClose], []) s)))"
| "side_enqueue tg f (x # plan) s =
     (let s = others tg x (s\<lparr>sd_plan := plan\<rparr>) in
      if sd_broken s then (Some Panic, s)
      else (case attempt tg f s of
              (Some r, s) \<Rightarrow> (r, s)
            | (None, s) \<Rightarrow> side_enqueue tg f plan s))"

text \<open>\<open>Reserve\<close>: a first try, and tries after it was woken.\<close>

fun side_reserve :: "'w write_target \<Rightarrow> u32 \<Rightarrow> int \<Rightarrow> (sender \<Rightarrow> reservation \<times> sender) \<Rightarrow> plan \<Rightarrow> 'w side \<Rightarrow>
    (error + int) \<times> 'w side" where
  "side_reserve tg i n tr [] s =
     (case tr (sd_sender s) of
        (Granted k, sn) \<Rightarrow> (Inr k, s\<lparr>sd_sender := sn\<rparr>)
      | (Failed e, sn) \<Rightarrow> (Inl e, s\<lparr>sd_sender := sn\<rparr>)
      | (Parked, sn) \<Rightarrow> (Inl ErrStreamGone, s\<lparr>sd_sender := snd (sender_apply (SRetire i) sn)\<rparr>))"
| "side_reserve tg i n tr (x # plan) s =
     (let s = others tg x (s\<lparr>sd_plan := plan\<rparr>) in
      case tr (sd_sender s) of
        (Granted k, sn) \<Rightarrow> (Inr k, s\<lparr>sd_sender := sn\<rparr>)
      | (Failed e, sn) \<Rightarrow> (Inl e, s\<lparr>sd_sender := sn\<rparr>)
      | (Parked, sn) \<Rightarrow> side_reserve tg i n (Reserve_resume i n) plan (s\<lparr>sd_sender := sn\<rparr>))"

definition side_half :: "'w write_target \<Rightarrow> 'w side write_half" where
  "side_half tg =
     \<lparr>wh_Enqueue = \<lambda>f s. side_enqueue tg f (sd_plan s) s,
      wh_MaxFrameSize = \<lambda>s. fq_MaxFrameSize (snd (sd_pw s)),
      wh_Reserve = \<lambda>i n s. side_reserve tg i n (Reserve i n) (sd_plan s) s\<rparr>"

definition side_dead :: "'w side \<Rightarrow> bool" where
  "side_dead s \<longleftrightarrow> sd_broken s \<or> stopped (snd (sd_pw s)) \<noteq> None"

definition side_start :: "'w \<Rightarrow> plan \<Rightarrow> sender \<Rightarrow> 'w side" where
  "side_start target p sn =
     \<lparr>sd_pw = fq_start target, sd_sender = sn, sd_plan = p, sd_done = [], sd_log = [], sd_broken = False\<rparr>"

subsection \<open>It is a write half\<close>

lemma stopped_mono_apply: "fq_apply tg op pw = Some (b, pw') \<Longrightarrow> stopped (snd pw) \<noteq> None \<Longrightarrow> stopped (snd pw') \<noteq> None"
  by (cases pw; cases op)
    (auto simp: stopped_def Enqueue_def Prioritize_def fq_Forget_def Shutdown_def fq_Close_def fq_SetMaxFrameSize_def
      loop_step_def await_def burst_queue_def burst_take_def takeIf_def fq_flush_def fq_stop_def
      split: option.splits if_splits loop_phase.splits await_result.splits prod.splits)

lemma stopped_mono_run: "fq_run tg ops pw = Some pw' \<Longrightarrow> stopped (snd pw) \<noteq> None \<Longrightarrow> stopped (snd pw') \<noteq> None"
proof (induction ops arbitrary: pw)
  case (Cons op ops)
  then obtain b pw1 where s: "fq_apply tg op pw = Some (b, pw1)" "fq_run tg ops pw1 = Some pw'"
    by (auto split: option.splits)
  from Cons.IH [OF s(2) stopped_mono_apply [OF s(1) Cons.prems(2)]] show ?case .
qed simp

lemma others_facts:
  "sd_log (others tg x s) = sd_log s" "sd_plan (others tg x s) = sd_plan s"
  "side_dead s \<Longrightarrow> side_dead (others tg x s)" "sd_broken s \<Longrightarrow> sd_broken (others tg x s)"
  using stopped_mono_run [of tg "fst x" "sd_pw s"]
  by (auto simp: others_def side_dead_def split: option.splits)

lemma fq_apply_Enqueue: "fq_apply tg (QEnqueue f) pw = Some (b, pw') \<Longrightarrow> b = (stopped (snd pw) = None \<and> admits f (snd pw))"
  by (cases pw) (auto simp: Enqueue_def split: option.splits if_splits)

lemma attempt_cases:
  assumes "attempt tg f s = (r, s')" "\<not> sd_broken s"
  shows "(case r of
      None \<Rightarrow> s' = s \<and> stopped (snd (sd_pw s)) = None
    | Some None \<Rightarrow> \<not> side_dead s \<and> sd_log s' = sd_log s @ [f]
    | Some (Some x) \<Rightarrow> side_dead s' \<and> sd_log s' = sd_log s)"
  using assms fq_apply_Enqueue [of tg f "sd_pw s"]
  by (auto simp: attempt_def side_dead_def split: option.splits prod.splits if_splits)

lemma side_enqueue_facts:
  "side_enqueue tg f p s = (r, s') \<Longrightarrow>
     (if r = None then \<not> side_dead s \<and> sd_log s' = sd_log s @ [f] else side_dead s' \<and> sd_log s' = sd_log s)"
proof (induction p arbitrary: s)
  case Nil
  show ?case
  proof (cases "sd_broken s")
    case True
    with Nil show ?thesis by (auto simp: side_dead_def)
  next
    case False
    obtain q s1 where q: "attempt tg f s = (q, s1)" by (rule prod.exhaust)
    have c: "side_dead (others tg ([QClose], []) s)"
      by (cases "sd_pw s") (auto simp: others_def side_dead_def stopped_def fq_Close_def)
    from attempt_cases [OF q False] Nil False q c others_facts(1) [of tg "([QClose], [])" s] show ?thesis
      by (cases q) (auto split: option.splits)
  qed
next
  case (Cons x p)
  let ?s = "others tg x (s\<lparr>sd_plan := p\<rparr>)"
  have d: "side_dead s \<Longrightarrow> side_dead ?s" "sd_log ?s = sd_log s"
    using others_facts(1) [of tg x "s\<lparr>sd_plan := p\<rparr>"] others_facts(3) [where s = "s\<lparr>sd_plan := p\<rparr>" and tg = tg and x = x] by (auto simp: side_dead_def)
  show ?case
  proof (cases "sd_broken ?s")
    case True
    with Cons.prems d show ?thesis by (auto simp: Let_def side_dead_def)
  next
    case False
    obtain q s1 where q: "attempt tg f ?s = (q, s1)" by (rule prod.exhaust)
    show ?thesis
    proof (cases q)
      case None
      with q Cons.prems False attempt_cases [OF q False] have "side_enqueue tg f p ?s = (r, s')" by (auto simp: Let_def)
      from Cons.IH [OF this] d show ?thesis by auto
    next
      case (Some y)
      with q Cons.prems False attempt_cases [OF q False] d show ?thesis by (auto simp: Let_def split: option.splits)
    qed
  qed
qed

lemma Reserve_granted:
  "Reserve i n s = (Granted k, s') \<Longrightarrow> 0 < k \<and> k \<le> n" "Reserve_resume i n s = (Granted k, s') \<Longrightarrow> 0 < k \<and> k \<le> n"
  by (auto simp: Reserve_def Reserve_resume_def Reserve_loop_def Let_def split: if_splits option.splits prod.splits)

lemma side_reserve_facts:
  assumes "\<And>sn k sn'. tr sn = (Granted k, sn') \<Longrightarrow> 0 < k \<and> k \<le> n"
  shows "side_reserve tg i n tr p s = (r, s') \<Longrightarrow>
    sd_log s' = sd_log s \<and> (side_dead s \<longrightarrow> side_dead s') \<and> (\<forall>k. r = Inr k \<longrightarrow> 0 < k \<and> k \<le> n)"
  using assms
proof (induction p arbitrary: s tr)
  case Nil
  then show ?case by (auto simp: side_dead_def split: prod.splits reservation.splits)
next
  case (Cons x p)
  let ?s = "others tg x (s\<lparr>sd_plan := p\<rparr>)"
  have d: "side_dead s \<Longrightarrow> side_dead ?s" "sd_log ?s = sd_log s"
    using others_facts(1) [of tg x "s\<lparr>sd_plan := p\<rparr>"] others_facts(3) [where s = "s\<lparr>sd_plan := p\<rparr>" and tg = tg and x = x] by (auto simp: side_dead_def)
  obtain q sn where q: "tr (sd_sender ?s) = (q, sn)" by (rule prod.exhaust)
  show ?case
  proof (cases q)
    case Parked
    with q Cons.prems(1) have "side_reserve tg i n (Reserve_resume i n) p (?s\<lparr>sd_sender := sn\<rparr>) = (r, s')"
      by (simp add: Let_def)
    from Cons.IH [OF this Reserve_granted(2)] d show ?thesis by (auto simp: side_dead_def)
  qed (use q Cons.prems d in \<open>auto simp: Let_def side_dead_def\<close>)
qed

interpretation side: sending_half "side_half tg" sd_log side_dead for tg
proof (unfold_locales, goal_cases)
  case (1 f e e')
  then show ?case using side_enqueue_facts [of tg f "sd_plan e" e None e'] by (simp add: side_half_def)
next
  case (2 f e x e')
  then show ?case using side_enqueue_facts [of tg f "sd_plan e" e "Some x" e'] by (simp add: side_half_def)
next
  case (3 i n e r e')
  then show ?case using side_reserve_facts [of "Reserve i n" n tg i "sd_plan e" e r e'] Reserve_granted(1) by (auto simp: side_half_def)
next
  case (4 i n e k e')
  then show ?case using side_reserve_facts [of "Reserve i n" n tg i "sd_plan e" e "Inr k" e'] Reserve_granted(1) by (auto simp: side_half_def)
qed

subsection \<open>The history of the frame queue\<close>

text \<open>The frames of responses; the other goroutines hand over none.\<close>

definition resp_frame :: "frame \<Rightarrow> bool" where
  "resp_frame f \<longleftrightarrow> field_frame f \<or> Frame_Type f = TypeData"

text \<open>\<open>X\<close> says which frames they do hand over.\<close>

fun other_op :: "(frame \<Rightarrow> bool) \<Rightarrow> fq_op \<Rightarrow> bool" where
  "other_op X (QEnqueue f) = (\<not> resp_frame f \<and> X f)"
| "other_op X op = fq_valid op"

definition plan_ok :: "(frame \<Rightarrow> bool) \<Rightarrow> plan \<Rightarrow> bool" where
  "plan_ok X p \<longleftrightarrow> (\<forall>x\<in>set p. list_all (other_op X) (fst x))"

text \<open>No step panics, whatever the streams push.\<close>

lemma fq_apply_total:
  assumes "sched_ok (fq_sched w)" "fq_valid op"
  shows "\<exists>b ph' w'. fq_apply tg op (ph, w) = Some (b, ph', w') \<and> sched_ok (fq_sched w')"
proof -
  have push: "\<exists>s'. Push f (fq_sched w) = Some s' \<and> sched_ok s'" for f
    using priority_ok_apply [OF assms(1), of "SPush f"] by auto
  have pop: "\<exists>r s'. Pop (fq_sched w) = Some (r, s') \<and> sched_ok s'"
    using priority_ok_apply [OF assms(1), of SPop] by auto
  show ?thesis
  proof (cases op)
    case (QEnqueue f)
    with push [of f] assms(1) show ?thesis by (auto simp: Enqueue_def split: option.splits)
  next
    case (QPrioritize i p)
    with assms(2) have "\<exists>s'. SetPriority i p (fq_sched w) = Some s' \<and> sched_ok s'"
      using priority_ok_apply [OF assms(1), of "SSetPriority i p"] by auto
    with QPrioritize show ?thesis by (auto simp: Prioritize_def)
  next
    case (QForget i)
    with sched_Forget_ok [OF assms(1)] show ?thesis by (auto simp: fq_Forget_def intro: exI [of _ False])
  next
    case QLoop
    obtain r s' where p: "Pop (fq_sched w) = Some (r, s')" "sched_ok s'" using pop by blast
    from QLoop p assms(1) show ?thesis
      by (cases ph) (auto simp: loop_step_def await_def burst_queue_def burst_take_def takeIf_def fq_flush_def fq_stop_def
        split: option.split prod.split)
  qed (use assms(1) in \<open>auto simp: Shutdown_def fq_Close_def fq_SetMaxFrameSize_def\<close>)
qed

lemma fq_run_total:
  "sched_ok (fq_sched (snd pw)) \<Longrightarrow> list_all fq_valid ops \<Longrightarrow> \<exists>pw'. fq_run tg ops pw = Some pw' \<and> sched_ok (fq_sched (snd pw'))"
proof (induction ops arbitrary: pw)
  case (Cons op ops)
  obtain b ph w where s: "fq_apply tg op pw = Some (b, ph, w)" "sched_ok (fq_sched w)"
    using fq_apply_total [of "snd pw" op tg "fst pw"] Cons.prems by auto
  from Cons.IH [of "(ph, w)"] s Cons.prems(2) show ?case by auto
qed simp

lemma fq_run_append:
  "fq_run tg (xs @ ys) pw = (case fq_run tg xs pw of None \<Rightarrow> None | Some pw \<Rightarrow> fq_run tg ys pw)"
  by (induction xs arbitrary: pw) (auto split: option.split)

lemma accepted_append:
  "fq_run tg xs pw = Some pw' \<Longrightarrow> accepted tg (xs @ ys) pw = accepted tg xs pw @ accepted tg ys pw'"
  by (induction xs arbitrary: pw) (auto split: option.splits)

lemma other_op_valid: "list_all (other_op X) ops \<Longrightarrow> list_all fq_valid ops"
proof -
  have "other_op X op \<Longrightarrow> fq_valid op" for op by (cases op) auto
  then show "list_all (other_op X) ops \<Longrightarrow> list_all fq_valid ops" by (auto simp: list_all_iff)
qed

lemma accepted_others:
  "list_all (other_op X) ops \<Longrightarrow> List.filter resp_frame (accepted tg ops pw) = [] \<and> (\<forall>f\<in>set (accepted tg ops pw). X f)"
proof (induction ops arbitrary: pw)
  case (Cons op ops)
  have "List.filter resp_frame (accepts op b) = [] \<and> (\<forall>f\<in>set (accepts op b). X f)" for b
    using Cons.prems by (cases op) auto
  with Cons show ?case by (auto split: option.splits prod.splits)
qed simp

definition side_inv :: "(frame \<Rightarrow> bool) \<Rightarrow> 'w write_target \<Rightarrow> 'w \<Rightarrow> 'w side \<Rightarrow> bool" where
  "side_inv X tg target s \<longleftrightarrow> \<not> sd_broken s \<and> plan_ok X (sd_plan s) \<and> list_all fq_valid (sd_done s) \<and>
     fq_run tg (sd_done s) (fq_start target) = Some (sd_pw s) \<and> sched_ok (fq_sched (snd (sd_pw s))) \<and>
     List.filter resp_frame (accepted tg (sd_done s) (fq_start target)) = sd_log s \<and>
     (\<forall>f\<in>set (accepted tg (sd_done s) (fq_start target)). resp_frame f \<or> X f)"

lemma side_inv_start: "plan_ok X p \<Longrightarrow> side_inv X tg target (side_start target p sn)"
  by (simp add: side_inv_def side_start_def fq_start_def startFrameWriter_def newScheduler_ok)

lemma side_inv_others:
  assumes "side_inv X tg target s" "list_all (other_op X) (fst x)"
  shows "side_inv X tg target (others tg x s)"
proof -
  obtain pw' where r: "fq_run tg (fst x) (sd_pw s) = Some pw'" "sched_ok (fq_sched (snd pw'))"
    using fq_run_total [of "sd_pw s" "fst x" tg] other_op_valid [OF assms(2)] assms(1) by (auto simp: side_inv_def)
  with assms accepted_append [of tg "sd_done s" "fq_start target" "sd_pw s" "fst x"] accepted_others [OF assms(2), of tg "sd_pw s"]
    other_op_valid [OF assms(2)]
  show ?thesis by (auto simp: side_inv_def others_def fq_run_append)
qed

lemma side_inv_attempt:
  assumes "side_inv X tg target s" "attempt tg f s = (r, s')" "resp_frame f"
  shows "side_inv X tg target s' \<and> sd_plan s' = sd_plan s"
proof -
  obtain b ph w where a: "fq_apply tg (QEnqueue f) (sd_pw s) = Some (b, ph, w)" "sched_ok (fq_sched w)"
    using fq_apply_total [of "snd (sd_pw s)" "QEnqueue f" tg "fst (sd_pw s)"] assms(1) by (auto simp: side_inv_def)
  with assms accepted_append [of tg "sd_done s" "fq_start target" "sd_pw s" "[QEnqueue f]"]
  show ?thesis by (auto simp: side_inv_def attempt_def fq_run_append split: if_splits option.splits)
qed

lemma side_inv_plan: "side_inv X tg target s \<Longrightarrow> plan_ok X p \<Longrightarrow> side_inv X tg target (s\<lparr>sd_plan := p\<rparr>)"
  by (simp add: side_inv_def)

lemma side_inv_enqueue:
  "side_inv X tg target s \<Longrightarrow> plan_ok X p \<Longrightarrow> resp_frame f \<Longrightarrow> side_enqueue tg f p s = (r, s') \<Longrightarrow> side_inv X tg target s'"
proof (induction p arbitrary: s)
  case Nil
  obtain q s1 where q: "attempt tg f s = (q, s1)" by (rule prod.exhaust)
  have c: "side_inv X tg target (others tg ([QClose], []) s1)"
    using side_inv_attempt [OF Nil(1) q Nil(3)] by (intro side_inv_others) auto
  have "\<not> sd_broken s" using Nil(1) by (simp add: side_inv_def)
  with Nil(4) q c side_inv_attempt [OF Nil(1) q Nil(3)] show ?case by (auto split: option.splits)
next
  case (Cons x p)
  let ?s = "others tg x (s\<lparr>sd_plan := p\<rparr>)"
  have i: "side_inv X tg target ?s"
    using Cons.prems(1,2) by (intro side_inv_others side_inv_plan) (auto simp: plan_ok_def)
  have p: "plan_ok X p" using Cons.prems(2) by (simp add: plan_ok_def)
  obtain q s1 where q: "attempt tg f ?s = (q, s1)" by (rule prod.exhaust)
  have "\<not> sd_broken ?s" using i by (simp add: side_inv_def)
  with Cons.prems(4) q side_inv_attempt [OF i q Cons.prems(3)] Cons.IH [OF _ p Cons.prems(3)] show ?case
    by (auto simp: Let_def split: option.splits)
qed

lemma side_inv_sender [simp]: "side_inv X tg target (s\<lparr>sd_sender := sn\<rparr>) = side_inv X tg target s"
  by (simp add: side_inv_def)

lemma side_inv_reserve:
  "side_inv X tg target s \<Longrightarrow> plan_ok X p \<Longrightarrow> side_reserve tg i n tr p s = (r, s') \<Longrightarrow> side_inv X tg target s'"
proof (induction p arbitrary: s tr)
  case Nil
  then show ?case by (auto split: prod.splits reservation.splits)
next
  case (Cons x p)
  let ?s = "others tg x (s\<lparr>sd_plan := p\<rparr>)"
  have i: "side_inv X tg target ?s"
    using Cons.prems(1,2) by (intro side_inv_others side_inv_plan) (auto simp: plan_ok_def)
  have p: "plan_ok X p" using Cons.prems(2) by (simp add: plan_ok_def)
  obtain q sn where q: "tr (sd_sender ?s) = (q, sn)" by (rule prod.exhaust)
  show ?case
  proof (cases q)
    case Parked
    with q Cons.prems(3) have "side_reserve tg i n (Reserve_resume i n) p (?s\<lparr>sd_sender := sn\<rparr>) = (r, s')"
      by (simp add: Let_def)
    from Cons.IH [OF _ p this] i show ?thesis by simp
  qed (use q Cons.prems(3) i in \<open>auto simp: Let_def\<close>)
qed

subsection \<open>What the calls of the handlers keep\<close>

lemma resp_frame_simps [simp]:
  "resp_frame (headers_of i e b x)" "resp_frame (continuation_of i b x)" "resp_frame (data_of_body i e p)"
  by (simp_all add: resp_frame_def field_frame_def)

lemma resp_run_keeps:
  assumes "\<And>f e. I e \<Longrightarrow> resp_frame f \<Longrightarrow> I (snd (wh_Enqueue wh f e))"
    and "\<And>i n e. I e \<Longrightarrow> I (snd (wh_Reserve wh i n e))"
  shows "resp_run wh ops c = (rs, its, c') \<Longrightarrow> I (rc_env c) \<Longrightarrow> I (rc_env c')"
proof (induction ops arbitrary: c rs its)
  case (Cons op ops)
  have enq: "I e'" if "wh_Enqueue wh f e = (q, e')" "I e" "resp_frame f" for f e q e'
    using assms(1) [OF that(2,3)] that(1) by simp
  have rest: "write_rest wh i cap x e = (r, e') \<Longrightarrow> I e \<Longrightarrow> I e'" for i cap x e r e'
  proof (induction i cap x arbitrary: e r e' rule: cont_frames.induct)
    case (1 i cap x)
    let ?n = "min (length x) (splitAt cap)"
    show ?case
    proof (cases "x = []")
      case False
      obtain q e1 where q: "wh_Enqueue wh (continuation_of i (?n = length x) (take ?n x)) e = (q, e1)" by (rule prod.exhaust)
      with False 1(2) have "(case q of Some y \<Rightarrow> (Some y, e1) | None \<Rightarrow> write_rest wh i cap (drop ?n x) e1) = (r, e')"
        unfolding continuation_of_def by (simp add: write_rest.simps [of wh i cap x] Let_def split: option.splits)
      with 1(1) [OF False refl, of e1] enq [OF q 1(3)] show ?thesis by (auto split: option.splits)
    qed (use 1 in \<open>simp add: write_rest.simps\<close>)
  qed
  have sect: "I e'" if "writeSection wh i fs b (enc, e) = (r, enc', e')" "I e" for i fs b enc e r enc' e'
    using that enq rest by (auto simp: writeSection_def Let_def split: option.splits prod.splits)
  have chunk: "I e'" if "write_chunk wh i p e = (r, e')" "I e" for i p e r e'
    using that enq assms(2) [OF that(2)]
    by (auto simp: write_chunk_def split: sum.splits prod.splits option.splits if_splits) (metis resp_frame_simps(3) snd_conv)+
  obtain r c1 rs2 its2 where s: "resp_step wh op c = (r, c1)" "resp_run wh ops c1 = (rs2, its2, c')"
    using Cons.prems(1) by (auto split: prod.splits)
  have "I (rc_env c1)"
    using s(1) Cons.prems(2) sect chunk enq
    by (cases op) (auto simp: writeHeader_def chunk_step_def resp_Close_def Trailers_def rc_put_def Let_def
        split: prod.splits if_splits option.splits sum.splits)
  from Cons.IH [OF s(2) this] show ?case .
qed simp

lemma side_run_inv:
  assumes "resp_run (side_half tg) ops c = (rs, its, c')" "side_inv X tg target (rc_env c)"
  shows "side_inv X tg target (rc_env c')"
proof (rule resp_run_keeps [where I = "side_inv X tg target", OF _ _ assms])
  fix f e assume "side_inv X tg target e" "resp_frame f"
  then show "side_inv X tg target (snd (wh_Enqueue (side_half tg) f e))"
    using side_inv_enqueue [OF _ _ _ prod.collapse [symmetric], of X tg target e "sd_plan e" f] by (simp add: side_half_def side_inv_def)
next
  fix i n e assume "side_inv X tg target e"
  then show "side_inv X tg target (snd (wh_Reserve (side_half tg) i n e))"
    using side_inv_reserve [OF _ _ prod.collapse [symmetric], of X tg target e "sd_plan e"] by (simp add: side_half_def side_inv_def)
qed

end
