(* ===== verification/ResponseProps.thy ===== *)
theory ResponseProps
  imports WriteSide
begin

text \<open>The properties of responses: what is sent is well-formed, in the order of a message, and reaches the peer's
  decoder in the order in which it was compressed.\<close>

subsection \<open>Which field lists are sent (RFC 9113 sections 8.2 and 8.3)\<close>

definition plain_name :: "string \<Rightarrow> bool" where
  "plain_name s \<longleftrightarrow> list_all (\<lambda>c. CHR 0x20 < c \<and> c < CHR 0x7f \<and> c \<noteq> CHR '':'' \<and> \<not> is_upper c) s"

definition plain_value :: "string \<Rightarrow> bool" where
  "plain_value v \<longleftrightarrow> list_all (\<lambda>c. c \<notin> {CHR 0x00, CHR 0x0a, CHR 0x0d}) v \<and>
     (v \<noteq> [] \<longrightarrow> hd v \<notin> {CHR '' '', CHR 0x09} \<and> last v \<notin> {CHR '' '', CHR 0x09})"

definition hop_by_hop :: "string set" where
  "hop_by_hop = {''connection'', ''proxy-connection'', ''keep-alive'', ''transfer-encoding'', ''upgrade'', ''te''}"

definition response_field :: "field \<Rightarrow> bool" where
  "response_field f \<longleftrightarrow> Name f \<noteq> '''' \<and> plain_name (Name f) \<and> plain_value (Value f) \<and> Name f \<notin> hop_by_hop"

definition status_field :: "field \<Rightarrow> bool" where
  "status_field f \<longleftrightarrow> Name f = '':status'' \<and>
     (\<exists>a b c. Value f = [a, b, c] \<and> CHR ''1'' \<le> a \<and> a \<le> CHR ''5'' \<and> is_digit b \<and> is_digit c)"

lemma checkFieldLine_None:
  "checkFieldLine f = None \<longleftrightarrow> Name f \<noteq> '''' \<and>
     plain_name (if hd (Name f) = CHR '':'' then tl (Name f) else Name f) \<and> plain_value (Value f)"
proof -
  have "\<not> list_ex (\<lambda>c. is_upper c \<or> c \<le> CHR 0x20 \<or> c \<ge> CHR 0x7f \<or> c = CHR '':'') s \<longleftrightarrow> plain_name s" for s
    unfolding plain_name_def list_ex_iff list_all_iff by (simp add: not_le) blast
  moreover have "\<not> list_ex (\<lambda>c. c = CHR 0x00 \<or> c = CHR 0x0a \<or> c = CHR 0x0d) v \<longleftrightarrow>
      list_all (\<lambda>c. c \<notin> {CHR 0x00, CHR 0x0a, CHR 0x0d}) v" for v
    unfolding list_ex_iff list_all_iff by blast
  ultimately show ?thesis
    unfolding checkFieldLine_def plain_value_def Let_def by (simp split: if_split) blast
qed

lemma plain_name_colon: "plain_name s \<Longrightarrow> s \<noteq> '''' \<Longrightarrow> hd s \<noteq> CHR '':''"
  by (cases s) (auto simp: plain_name_def)

lemma take1: "s \<noteq> '''' \<Longrightarrow> take 1 s = '':'' \<longleftrightarrow> hd s = CHR '':''"
  by (cases s) auto

lemma digit_plain: "is_digit c \<Longrightarrow> c \<notin> {CHR 0x00, CHR 0x0a, CHR 0x0d, CHR '' '', CHR 0x09}"
  by (auto simp: is_digit_def less_eq_char_def)

lemma checkStatus_None:
  "checkStatus v = None \<longleftrightarrow> (\<exists>a b c. v = [a, b, c] \<and> CHR ''1'' \<le> a \<and> a \<le> CHR ''5'' \<and> is_digit b \<and> is_digit c)"
proof (cases "length v = 3")
  case True
  then obtain a b c where v: "v = [a, b, c]" by (auto simp: length_Suc_conv numeral_3_eq_3)
  have "CHR ''1'' \<le> a \<Longrightarrow> a \<le> CHR ''5'' \<Longrightarrow> is_digit a"
    unfolding is_digit_def by (rule conjI) (auto intro: order.trans simp: less_eq_char_def)
  with v show ?thesis by (auto simp: checkStatus_def not_less split: if_splits)
next
  case False
  then show ?thesis by (auto simp: checkStatus_def)
qed

lemma status_line: "Name f = '':status'' \<Longrightarrow> checkStatus (Value f) = None \<Longrightarrow> checkFieldLine f = None"
proof -
  assume n: "Name f = '':status''" and s: "checkStatus (Value f) = None"
  then obtain a b c where v: "Value f = [a, b, c]" "CHR ''1'' \<le> a" "a \<le> CHR ''5''" "is_digit b" "is_digit c"
    by (auto simp: checkStatus_None)
  then have "is_digit a" unfolding is_digit_def by (auto intro: order.trans simp: less_eq_char_def)
  moreover have "plain_name ''status''" by code_simp
  ultimately show ?thesis
    using n v(1) digit_plain [of a] digit_plain [of b] digit_plain [of c] v(4,5)
    by (simp add: checkFieldLine_None plain_value_def)
qed

lemma regular_line:
  "response_field f \<longleftrightarrow> checkFieldLine f = None \<and> take 1 (Name f) \<noteq> '':'' \<and> resp_checkRegular f = None"
  using take1 [of "Name f"] plain_name_colon [of "Name f"]
  by (auto simp: response_field_def checkFieldLine_None resp_checkRegular_def hop_by_hop_def split: if_splits)

lemma loop_regular: "checkSection_loop kind fs st True = None \<longleftrightarrow>
    list_all response_field fs \<and> (kind = SectionHeader \<longrightarrow> st)"
  by (induction fs arbitrary: st) (auto simp: regular_line split: option.splits)

lemma loop_trailer: "checkSection_loop SectionTrailer fs st reg = None \<longleftrightarrow> list_all response_field fs"
  by (induction fs arbitrary: st reg) (auto simp: regular_line split: option.splits)

lemma loop_after_status: "checkSection_loop SectionHeader fs True False = None \<longleftrightarrow> list_all response_field fs"
  by (cases fs) (auto simp: regular_line loop_regular split: option.splits)

lemma loop_header: "checkSection_loop SectionHeader fs False False = None \<longleftrightarrow>
    (\<exists>s rest. fs = s # rest \<and> status_field s \<and> list_all response_field rest)"
proof (cases fs)
  case (Cons f gs)
  have "status_field f \<longleftrightarrow> Name f = '':status'' \<and> checkStatus (Value f) = None"
    by (auto simp: status_field_def checkStatus_None)
  with Cons status_line [of f] show ?thesis
    by (auto simp: loop_regular loop_after_status simp del: not_None_eq split: option.splits if_splits)
qed simp

lemma checkSection_error: "checkSection_loop kind fs st reg = Some e \<Longrightarrow> e = ErrMalformedResponse"
  by (induction kind fs st reg rule: checkSection_loop.induct)
    (auto simp: checkFieldLine_def resp_checkRegular_def checkStatus_def Let_def split: option.splits if_splits)

text \<open>C31: Exactly the well-formed field lists pass: a header section is one status of three digits, of class
  1 to 5, followed by regular field lines; a trailer section is regular field lines; and a regular line has
  a lowercase name of visible octets without a colon, a value that cannot be split (no NUL, CR or LF,
  no blank at either end) and is not specific to a connection. Everything else is refused with
  \<open>ErrMalformedResponse\<close>.\<close>

theorem checkSection_exact:
  "(checkSection SectionHeader fs = None \<longleftrightarrow> (\<exists>s rest. fs = s # rest \<and> status_field s \<and> list_all response_field rest)) \<and>
   (checkSection SectionTrailer fs = None \<longleftrightarrow> list_all response_field fs) \<and>
   checkSection kind fs \<in> {None, Some ErrMalformedResponse}"
  using checkSection_error [of kind fs False False]
  by (cases "checkSection_loop kind fs False False") (auto simp: checkSection_def loop_header loop_trailer)

subsection \<open>The blocks of a run and the peer's decoder\<close>

fun section_blocks :: "resp_item list \<Rightarrow> byte list list" where
  "section_blocks [] = []"
| "section_blocks (ItSection i fs e cap block # its) = block # section_blocks its"
| "section_blocks (_ # its) = section_blocks its"

fun section_lists :: "resp_item list \<Rightarrow> field list list" where
  "section_lists [] = []"
| "section_lists (ItSection i fs e cap block # its) = fs # section_lists its"
| "section_lists (_ # its) = section_lists its"

lemma section_append [simp]:
  "section_blocks (xs @ ys) = section_blocks xs @ section_blocks ys"
  "section_lists (xs @ ys) = section_lists xs @ section_lists ys"
  by (induction xs rule: section_blocks.induct) auto

lemma fields_of_section [simp]: "fields_of (section_frames i e cap block) = section_frames i e cap block"
  using section_frames_stream by (auto simp: fields_of_def filter_id_conv)

lemma data_no_field [simp]: "\<not> field_frame (data_of_body i e p)"
  by (simp add: field_frame_def)

lemma assemble_frames:
  "assemble [] (fields_of (frames_of its)) = section_blocks its \<and> left_over [] (fields_of (frames_of its)) = []"
proof (induction its)
  case (Cons it its)
  then show ?case
    using section_frames_assemble by (cases it) (simp_all add: assemble_append left_over_append)
qed simp

text \<open>What the encoder did: blocks and table sizes in the order of the calls.\<close>

fun enc_ops :: "'e write_half \<Rightarrow> resp_op \<Rightarrow> 'e resp_conn \<Rightarrow> encoder_op list" where
  "enc_ops wh (RSetTable n) c = [SetTable n]"
| "enc_ops wh op c = map Block (section_lists (resp_items wh op c))"

fun run_enc_ops :: "'e write_half \<Rightarrow> resp_op list \<Rightarrow> 'e resp_conn \<Rightarrow> encoder_op list" where
  "run_enc_ops wh [] c = []"
| "run_enc_ops wh (op # ops) c = enc_ops wh op c @ run_enc_ops wh ops (snd (resp_step wh op c))"

fun encode_all :: "encoder_op list \<Rightarrow> codec \<Rightarrow> byte list list \<times> codec" where
  "encode_all [] c = ([], c)"
| "encode_all (SetTable n # ops) c = encode_all ops (SetMaxDynamicTableSize n c)"
| "encode_all (Block fs # ops) c =
     (case Codec_Encode c fs of (b, c) \<Rightarrow> (case encode_all ops c of (bs, c) \<Rightarrow> (b # bs, c)))"

fun decode_blocks :: "byte list list \<Rightarrow> codec \<Rightarrow> (hpack_error + field list) list" where
  "decode_blocks [] d = []"
| "decode_blocks (b # bs) d = (case Codec_Decode d b of (r, d) \<Rightarrow> r # decode_blocks bs d)"

lemma encode_all_append:
  "encode_all (xs @ ys) c = (case encode_all xs c of (bs, c) \<Rightarrow> (case encode_all ys c of (cs, c) \<Rightarrow> (bs @ cs, c)))"
  by (induction xs c rule: encode_all.induct) (auto split: prod.splits)

lemma session_decode_blocks: "session ops c d = decode_blocks (fst (encode_all ops c)) d"
  by (induction ops c d rule: session.induct) (auto split: prod.splits)

lemma decode_blocks_prefix: "prefix bs cs \<Longrightarrow> decode_blocks bs d = take (length bs) (decode_blocks cs d)"
proof (induction bs arbitrary: cs d)
  case (Cons b bs)
  then obtain ds where "cs = b # ds" "prefix bs ds" by (cases cs) auto
  with Cons.IH show ?case by (simp split: prod.split)
qed simp

lemma step_encoder:
  assumes "resp_step wh op c = (r, c')"
  shows "encode_all (enc_ops wh op c) (en_codec (rc_enc c)) = (section_blocks (resp_items wh op c), en_codec (rc_enc c'))"
proof -
  have sec: "encode_all (map Block (section_lists (section_item wh i fs b c))) (en_codec (rc_enc c)) =
      (section_blocks (section_item wh i fs b c), en_codec enc')"
    if "writeSection wh j fs b (rc_enc c, rc_env c) = (q, enc', e')" for i j fs b q enc' e'
    using writeSection_enc [OF that] by (auto simp: section_item_def split: prod.splits)
  have enc_put: "rc_enc (rc_put i (w, enc, e) c) = enc" for i w enc e by (simp add: rc_put_def)
  show ?thesis
  proof (cases op)
    case (RHeader i fs b)
    obtain q enc' e' where s: "writeSection wh (rw_id (rc_writer i c)) fs b (rc_enc c, rc_env c) = (q, enc', e')"
      using prod_cases3 by blast
    with RHeader assms sec [OF s, of i] show ?thesis
      by (auto simp: writeHeader_def Let_def enc_put split: if_splits option.splits)
  next
    case (RChunk i p)
    with assms show ?thesis
      by (auto simp: chunk_step_def enc_put chunk_item_def split: if_splits sum.splits prod.splits)
  next
    case (RClose i)
    with assms show ?thesis by (auto simp: resp_Close_def Let_def enc_put split: if_splits prod.splits)
  next
    case (RTrailers i fs)
    obtain q enc' e' where s: "writeSection wh (rw_id (rc_writer i c)) fs True (rc_enc c, rc_env c) = (q, enc', e')"
      using prod_cases3 by blast
    with RTrailers assms sec [OF s, of i] show ?thesis
      by (auto simp: Trailers_def Let_def enc_put split: if_splits option.splits)
  qed (use assms in \<open>auto simp: enc_SetMaxHeaderListSize_def enc_SetMaxDynamicTableSize_def\<close>)
qed

lemma run_encoder:
  "resp_run wh ops c = (rs, its, c') \<Longrightarrow>
     encode_all (run_enc_ops wh ops c) (en_codec (rc_enc c)) = (section_blocks its, en_codec (rc_enc c')) \<and>
     blocks (run_enc_ops wh ops c) = section_lists its"
proof (induction ops arbitrary: c rs its)
  case (Cons op ops)
  obtain r c1 rs2 its2 where s: "resp_step wh op c = (r, c1)" "resp_run wh ops c1 = (rs2, its2, c')"
    "its = resp_items wh op c @ its2"
    using Cons.prems(1) by (auto split: prod.splits)
  have app: "blocks (xs @ ys) = blocks xs @ blocks ys" for xs ys by (induction xs rule: blocks.induct) auto
  have blk: "blocks (map Block fss) = fss" for fss by (induction fss) auto
  have "blocks (enc_ops wh op c) = section_lists (resp_items wh op c)" by (cases op) (simp_all add: blk)
  with step_encoder [OF s(1)] Cons.IH [OF s(2)] s show ?case by (simp add: encode_all_append app)
qed simp

fun resp_op_ok :: "resp_op \<Rightarrow> bool" where
  "resp_op_ok (RHeader i fs b) \<longleftrightarrow> list_all field_fits fs"
| "resp_op_ok (RTrailers i fs) \<longleftrightarrow> list_all field_fits fs"
| "resp_op_ok (RSetTable n) \<longleftrightarrow> 0 \<le> n"
| "resp_op_ok _ \<longleftrightarrow> True"

lemma run_encodable: "list_all resp_op_ok ops \<Longrightarrow> list_all encodable (run_enc_ops wh ops c)"
proof (induction ops arbitrary: c)
  case (Cons op ops)
  have "list_all encodable (enc_ops wh op c)"
    using Cons.prems by (cases op) (auto simp: section_item_def chunk_item_def list_all_iff split: if_splits sum.splits)
  with Cons show ?case by simp
qed simp

text \<open>Decoding any first part of the blocks gives the field lists that were written.\<close>

lemma decode_run:
  assumes "resp_run wh ops (resp_start e) = (rs, its, c')" "list_all resp_op_ok ops" "prefix bs (section_blocks its)"
  shows "decode_blocks bs NewCodec = map Inr (take (length bs) (section_lists its))"
proof -
  have r: "encode_all (run_enc_ops wh ops (resp_start e)) NewCodec = (section_blocks its, en_codec (rc_enc c'))"
    "blocks (run_enc_ops wh ops (resp_start e)) = section_lists its"
    using run_encoder [OF assms(1)] by (simp_all add: resp_start_def NewEncoder_def)
  have "decode_blocks (section_blocks its) NewCodec = map Inr (section_lists its)"
    using session_in_step [OF in_step_New run_encodable [OF assms(2)], of wh "resp_start e"] r
    by (simp add: session_decode_blocks)
  with decode_blocks_prefix [OF assms(3), of NewCodec] show ?thesis by (simp add: take_map)
qed

text \<open>The field frames of a run, and any first part of them, keep the blocks whole.\<close>

lemma blocks_from_fields: "blocks_from None (fields_of (frames_of its)) = Some None"
proof (induction its)
  case (Cons it its)
  then show ?case
    using section_frames_blocks [OF prefix_order.refl section_frames_nonempty]
    by (cases it) (simp_all add: blocks_from_append)
qed simp

lemma items_on_frames: "on i (frames_of its) = frames_of (items_on i its)"
proof (induction its)
  case (Cons it its)
  have "on i (item_frames it) = (if item_stream it = i then item_frames it else [])"
    using section_frames_stream by (cases it) (auto simp: filter_id_conv filter_empty_conv)
  with Cons show ?case by simp
qed simp

lemma fields_of_resp: "fields_of (List.filter resp_frame fs) = fields_of fs"
  by (induction fs) (auto simp: resp_frame_def)

subsection \<open>What a peer reads in the frames that were handed over\<close>

text \<open>The frames are read as a peer reads them, without a look at the calls: sections are put together from HEADERS
  and CONTINUATION frames, decoded with one codec for the connection in the order of the frames, and content is what DATA frames hold.\<close>

datatype raw_part = RawSection u32 bool "byte list" | RawContent u32 bool "byte list"

fun raw_parts :: "(u32 \<times> bool \<times> byte list) option \<Rightarrow> frame list \<Rightarrow> raw_part list" where
  "raw_parts p [] = []"
| "raw_parts p (HeadersFrame f # fs) =
     (if hf_EndHeaders f then RawSection (hf_StreamID f) (hf_EndStream f) (hf_Fragment f) # raw_parts None fs
      else raw_parts (Some (hf_StreamID f, hf_EndStream f, hf_Fragment f)) fs)"
| "raw_parts (Some (i, e, b)) (ContinuationFrame f # fs) =
     (if cf_EndHeaders f then RawSection i e (b @ cf_Fragment f) # raw_parts None fs
      else raw_parts (Some (i, e, b @ cf_Fragment f)) fs)"
| "raw_parts p (DataFrame f # fs) = RawContent (df_StreamID f) (df_EndStream f) (df_Data f) # raw_parts p fs"
| "raw_parts p (_ # fs) = raw_parts p fs"

fun raw_left :: "(u32 \<times> bool \<times> byte list) option \<Rightarrow> frame list \<Rightarrow> (u32 \<times> bool \<times> byte list) option" where
  "raw_left p [] = p"
| "raw_left p (HeadersFrame f # fs) =
     raw_left (if hf_EndHeaders f then None else Some (hf_StreamID f, hf_EndStream f, hf_Fragment f)) fs"
| "raw_left (Some (i, e, b)) (ContinuationFrame f # fs) =
     raw_left (if cf_EndHeaders f then None else Some (i, e, b @ cf_Fragment f)) fs"
| "raw_left p (_ # fs) = raw_left p fs"

datatype part = Section u32 bool "hpack_error + field list" | Content u32 bool "byte list"

fun decode_parts :: "codec \<Rightarrow> raw_part list \<Rightarrow> part list" where
  "decode_parts d [] = []"
| "decode_parts d (RawSection i e b # rs) = (case Codec_Decode d b of (r, d) \<Rightarrow> Section i e r # decode_parts d rs)"
| "decode_parts d (RawContent i e p # rs) = Content i e p # decode_parts d rs"

definition peer_reads :: "frame list \<Rightarrow> part list" where
  "peer_reads fs = decode_parts NewCodec (raw_parts None fs)"

fun part_stream :: "part \<Rightarrow> u32" where
  "part_stream (Section i e r) = i"
| "part_stream (Content i e p) = i"

abbreviation parts_on :: "u32 \<Rightarrow> part list \<Rightarrow> part list" where
  "parts_on i ps \<equiv> List.filter (\<lambda>x. part_stream x = i) ps"

text \<open>An HTTP message (RFC 9113 section 8.1), part by part.\<close>

fun part_step :: "msg_state \<Rightarrow> part \<Rightarrow> msg_state option" where
  "part_step MOpen (Section i e (Inr fs)) =
     (if checkSection SectionHeader fs \<noteq> None then None
      else if informational fs then (if e then None else Some MOpen)
      else Some (if e then MDone else MBody))"
| "part_step MBody (Section i e (Inr fs)) = (if checkSection SectionTrailer fs = None \<and> e then Some MDone else None)"
| "part_step MBody (Content i e p) = (if \<not> e then Some MBody else if p = [] then Some MDone else None)"
| "part_step _ _ = None"

fun part_run :: "msg_state \<Rightarrow> part list \<Rightarrow> msg_state option" where
  "part_run m [] = Some m"
| "part_run m (x # xs) = (case part_step m x of None \<Rightarrow> None | Some m \<Rightarrow> part_run m xs)"

lemma raw_parts_append: "raw_parts p (xs @ ys) = raw_parts p xs @ raw_parts (raw_left p xs) ys"
  by (induction p xs rule: raw_parts.induct) auto

lemma raw_left_append: "raw_left p (xs @ ys) = raw_left (raw_left p xs) ys"
  by (induction p xs rule: raw_left.induct) auto

lemma raw_cont_frames:
  "rest \<noteq> [] \<Longrightarrow> raw_parts (Some (i, e, b)) (cont_frames i cap rest) = [RawSection i e (b @ rest)] \<and>
     raw_left (Some (i, e, b)) (cont_frames i cap rest) = None"
proof (induction i cap rest arbitrary: b rule: cont_frames.induct)
  case (1 i cap rest)
  let ?n = "min (length rest) (splitAt cap)"
  have c: "cont_frames i cap rest = continuation_of i (?n = length rest) (take ?n rest) # cont_frames i cap (drop ?n rest)"
    using 1(2) by (simp add: cont_frames.simps [of i cap rest] Let_def)
  show ?case
  proof (cases "?n = length rest")
    case True
    then show ?thesis unfolding c by (simp add: continuation_of_def)
  next
    case False
    then have "drop ?n rest \<noteq> []" by simp
    from 1(1) [OF 1(2) refl this, of "b @ take ?n rest"] False show ?thesis unfolding c by (simp add: continuation_of_def)
  qed
qed

lemma raw_section: "raw_parts None (section_frames i e cap block) = [RawSection i e block] \<and> raw_left None (section_frames i e cap block) = None"
proof -
  let ?n = "min (length block) (splitAt cap)"
  have c: "section_frames i e cap block = headers_of i e (?n = length block) (take ?n block) # cont_frames i cap (drop ?n block)"
    by (simp add: section_frames_def Let_def)
  show ?thesis
  proof (cases "?n = length block")
    case True
    then show ?thesis unfolding c by (simp add: headers_of_def)
  next
    case False
    then have "drop ?n block \<noteq> []" by simp
    from raw_cont_frames [OF this, of i e "take ?n block" cap] False show ?thesis unfolding c by (simp add: headers_of_def)
  qed
qed

fun item_raw :: "resp_item \<Rightarrow> raw_part" where
  "item_raw (ItSection i fs e cap block) = RawSection i e block"
| "item_raw (ItData i p) = RawContent i False p"
| "item_raw (ItEnd i) = RawContent i True []"

fun item_part :: "resp_item \<Rightarrow> part" where
  "item_part (ItSection i fs e cap block) = Section i e (Inr fs)"
| "item_part (ItData i p) = Content i False p"
| "item_part (ItEnd i) = Content i True []"

lemma raw_frames_of: "raw_parts None (frames_of its) = map item_raw its \<and> raw_left None (frames_of its) = None"
proof (induction its)
  case (Cons it its)
  have "raw_parts None (item_frames it) = [item_raw it] \<and> raw_left None (item_frames it) = None"
    using raw_section by (cases it) (simp_all add: data_of_body_def)
  with Cons show ?case by (simp add: raw_parts_append raw_left_append)
qed simp

lemma decode_parts_items:
  "decode_blocks (section_blocks its) d = map Inr (section_lists its) \<Longrightarrow> decode_parts d (map item_raw its) = map item_part its"
proof (induction its arbitrary: d)
  case (Cons it its)
  then show ?case by (cases it) (auto split: prod.splits)
qed simp

lemma part_run_items: "part_run m (map item_part its) = msg_run m its"
proof (induction its arbitrary: m)
  case (Cons it its)
  have "part_step m (item_part it) = msg_step m it" by (cases m; cases it) simp_all
  with Cons show ?case by (simp split: option.split)
qed simp

lemma parts_on_items: "parts_on i (map item_part its) = map item_part (items_on i its)"
proof (induction its)
  case (Cons it its)
  have "part_stream (item_part it) = item_stream it" by (cases it) simp_all
  with Cons show ?case by simp
qed simp

text \<open>What a peer reads in a first part of the frames of a run is a first part of what was written.\<close>

lemma peer_reads_items:
  assumes "resp_run wh ops (resp_start e) = (rs, its, c)" "list_all resp_op_ok ops" "prefix fs (frames_of its)"
  obtains k where "peer_reads fs = map item_part (take k its)" "fs = frames_of its \<Longrightarrow> length its \<le> k"
proof -
  obtain gs where gs: "frames_of its = fs @ gs" using assms(3) by (auto simp: prefix_def)
  have "map item_raw its = raw_parts None fs @ raw_parts (raw_left None fs) gs"
    using raw_frames_of [of its] by (simp add: gs raw_parts_append)
  then have raw: "raw_parts None fs = map item_raw (take (length (raw_parts None fs)) its)"
    by (metis append_eq_conv_conj take_map)
  let ?k = "length (raw_parts None fs)"
  have "section_blocks its = section_blocks (take ?k its) @ section_blocks (drop ?k its)"
    "section_lists its = section_lists (take ?k its) @ section_lists (drop ?k its)"
    unfolding section_append [symmetric] by simp_all
  moreover have "length (section_blocks js) = length (section_lists js)" for js
    by (induction js rule: section_blocks.induct) auto
  ultimately have "decode_blocks (section_blocks (take ?k its)) NewCodec = map Inr (section_lists (take ?k its))"
    using decode_run [OF assms(1,2), of "section_blocks (take ?k its)"] by (simp add: prefix_def)
  from decode_parts_items [OF this] raw have "peer_reads fs = map item_part (take ?k its)" by (simp add: peer_reads_def)
  moreover have "length its \<le> ?k" if "fs = frames_of its"
    using raw_frames_of [of its] unfolding that by simp
  ultimately show thesis using that by blast
qed

subsection \<open>The properties\<close>

text \<open>C30: Whatever a handler calls in whatever order, and however the handlers, the writer goroutine and the rest of the connection interleave, what a peer reads
  in the frames of each stream's response that the frame queue accepted is an HTTP message (RFC 9113 section 8.1) or a first part of one: any number of
  interim sections that do not end the stream, one final header section, then content, then at most one end, which is a flag on the header section, an
  empty DATA frame or a trailer section, and nothing after it; and unless the connection's write half has failed or was stopped, the
  message is as far as the writer says: not begun, in its content, or ended. The field lists are those that a peer decodes from the frames. The hypotheses: the calls' fields
  are short enough for HPACK's integers, the other goroutines hand over no HEADERS, CONTINUATION or DATA frame, and no call on the stream is answered
  that its list is too long for the peer (a list that is loses its response, \<open>too_long_list_loses_the_response\<close>).\<close>

theorem responses_are_messages:
  assumes "list_all resp_op_ok ops" "plan_ok X p"
    and "resp_run (side_half tg) ops (resp_start (side_start target p sn)) = (rs, its, c)"
    and "\<And>op r. (op, r) \<in> set rs \<Longrightarrow> op_stream op = Some i \<Longrightarrow> r \<noteq> Some ErrHeaderListTooLarge"
  shows "\<exists>m. part_run MOpen (parts_on i (peer_reads (List.filter resp_frame (accepted tg (sd_done (rc_env c)) (fq_start target))))) = Some m \<and>
    (\<not> side_dead (rc_env c) \<longrightarrow> m = writer_msg (rc_writer i c))"
proof -
  let ?log = "List.filter resp_frame (accepted tg (sd_done (rc_env c)) (fq_start target))"
  have "side_inv X tg target (rc_env c)"
    using side_run_inv [OF assms(3), of X target] side_inv_start [OF assms(2), of tg target sn] by (simp add: resp_start_def)
  then have log: "?log = sd_log (rc_env c)" by (simp add: side_inv_def)
  have "side.hands_over (frames_of its) (side_start target p sn) (rc_env c)"
    using side.resp_run_hands_over [OF assms(3)] by (simp add: resp_start_def side.ids_ok_def rc_writer_def)
  then have sent: "prefix ?log (frames_of its)" "\<not> side_dead (rc_env c) \<Longrightarrow> ?log = frames_of its"
    by (auto simp: side.hands_over_def side_start_def log)
  obtain k where k: "peer_reads ?log = map item_part (take k its)" "?log = frames_of its \<Longrightarrow> length its \<le> k"
    using peer_reads_items [OF assms(3,1) sent(1)] by blast
  have all: "msg_run MOpen (items_on i its) = Some (writer_msg (rc_writer i c))"
    using run_msg [OF assms(3,4)] by (simp add: resp_start_def rc_writer_def writer_msg_def)
  have "items_on i its = items_on i (take k its) @ items_on i (drop k its)"
    unfolding filter_append [symmetric] by simp
  with all obtain m where m: "msg_run MOpen (items_on i (take k its)) = Some m"
    by (auto simp: msg_run_append split: option.splits)
  have run: "part_run MOpen (parts_on i (peer_reads ?log)) = Some m"
    using m by (simp add: k(1) parts_on_items part_run_items)
  have "m = writer_msg (rc_writer i c)" if "\<not> side_dead (rc_env c)"
    using m all k(2) [OF sent(2) [OF that]] by simp
  with run show ?thesis by blast
qed

text \<open>C29: From handlers to the peer's header decoder, over any interleaving of the handlers, the writer goroutine and
  the rest of the connection, and any socket: the octets received are a first part of whole frames \<open>W\<close>;
  putting the fragments of \<open>W\<close> together and decoding the blocks in the order of their arrival gives the field lists that
  the handlers wrote, in the order in which they were written; and each stream's frames are those of its
  own response, in order. The hypothesis on the plan says that the other goroutines hand over no frame of a
  response; the one on \<open>streams_intact\<close>, that none of theirs falls between a HEADERS frame and its CONTINUATION on the
  same stream, which the code does not ensure.\<close>

theorem responses_reach_the_peer:
  assumes "target_contract tg delivered" "delivered target = []" "plan_ok X p" "list_all resp_op_ok ops"
    and "resp_run (side_half tg) ops (resp_start (side_start target p sn)) = (rs, its, c)"
    and "streams_intact (accepted tg (sd_done (rc_env c)) (fq_start target))"
  shows "\<exists>W k. prefix (delivered (w_sink (fq_fw (snd (sd_pw (rc_env c)))))) (concat (map wire_of W)) \<and>
    decode_blocks (assemble [] (fields_of W)) NewCodec = map Inr (take k (section_lists its)) \<and>
    (\<forall>i. prefix (List.filter resp_frame (on i W)) (frames_of (items_on i its)))"
proof -
  let ?s = "rc_env c"
  let ?P = "accepted tg (sd_done ?s) (fq_start target)"
  have inv: "side_inv X tg target ?s"
    using side_run_inv [OF assms(5), of X target] side_inv_start [OF assms(3), of tg target sn] by (simp add: resp_start_def)
  then have run: "fq_run tg (sd_done ?s) (fq_start target) = Some (sd_pw ?s)" "list_all fq_valid (sd_done ?s)"
    and log: "List.filter resp_frame ?P = sd_log ?s" by (simp_all add: side_inv_def)
  have "side.hands_over (frames_of its) (side_start target p sn) ?s"
    using side.resp_run_hands_over [OF assms(5)] by (simp add: resp_start_def side.ids_ok_def rc_writer_def)
  then have sent: "prefix (sd_log ?s) (frames_of its)"
    by (auto simp: side.hands_over_def side_start_def)
  have fields: "prefix (fields_of ?P) (fields_of (frames_of its))"
    using fields_of_prefix [OF sent] fields_of_resp [of ?P] by (simp add: log)
  then have intact: "blocks_from None (fields_of ?P) \<noteq> None"
    using blocks_from_fields [of its] blocks_prefix by (metis option.distinct(1) prefix_def)
  obtain Q W where ok: "fq_ok delivered ?P Q W (fst (sd_pw ?s)) (snd (sd_pw ?s))"
    using fq_run_start [OF assms(1,2) run(2)] run(1) by auto
  then have good: "sched_good ?P Q (fq_sched (snd (sd_pw ?s)))" and wok: "writer_ok delivered W (fq_fw (snd (sd_pw ?s)))"
    and ph: "phase_ok Q W (fst (sd_pw ?s)) (snd (sd_pw ?s))" by (simp_all add: fq_ok_def)
  have wq: "prefix W Q" using ph by (cases "fst (sd_pw ?s)") auto
  have "prefix (delivered (w_sink (fq_fw (snd (sd_pw ?s))))) (wire_all W)"
    using wok by (auto simp: writer_ok_def split: if_splits) (metis prefixI)
  moreover have "prefix (fields_of W) (fields_of (frames_of its))"
    using fields_of_prefix [OF wq] field_order_left [OF good assms(6) intact] fields by (meson prefix_order.trans)
  then have "prefix (assemble [] (fields_of W)) (section_blocks its)"
    using assemble_prefix assemble_frames by metis
  from decode_run [OF assms(5,4) this]
  have "decode_blocks (assemble [] (fields_of W)) NewCodec =
      map Inr (take (length (assemble [] (fields_of W))) (section_lists its))" .
  moreover have "prefix (List.filter resp_frame (on i W)) (frames_of (items_on i its))" for i
  proof -
    have "on i ?P = on i Q @ held (fq_sched (snd (sd_pw ?s))) i" using sched_goodD(2) [OF good assms(6)] by (simp add: order_ok_def)
    with wq have "prefix (on i W) (on i ?P)" by (auto simp: prefix_def)
    then have "prefix (List.filter resp_frame (on i W)) (List.filter resp_frame (on i ?P))"
      unfolding prefix_def by (metis filter_append)
    also have "List.filter resp_frame (on i ?P) = on i (sd_log ?s)"
      unfolding log [symmetric] by (simp add: conj_commute)
    also have "prefix (on i (sd_log ?s)) (frames_of (items_on i its))"
      using sent unfolding items_on_frames [symmetric] by (auto simp: prefix_def)
    finally show ?thesis .
  qed
  ultimately show ?thesis unfolding wire_all_def by blast
qed

text \<open>\<open>Write\<close> returns, whatever the peer does with its windows: with the count of octets that it handed over as
  DATA frames, none of them empty, in the order of \<open>p\<close>. The count is short only if there is an error, and then it is short.\<close>

theorem Write_is_total:
  "\<exists>n r s'. Write (side_half tg) p (w, enc, s) = Some ((n, r), w, enc, s') \<and> n \<le> length p \<and>
     (r = None \<longleftrightarrow> n = length p \<and> (rw_wroteHeader w \<and> \<not> rw_closed w)) \<and>
     (\<exists>gs. sd_log s' = sd_log s @ map (data_of_body (rw_id w) False) gs \<and> concat gs = take n p \<and> list_all (\<lambda>g. g \<noteq> []) gs)"
proof (cases "rw_wroteHeader w \<and> \<not> rw_closed w")
  case True
  obtain n r s' gs where "Write_loop (side_half tg) (rw_id w) p 0 s = Some ((n, r), s')" "n \<le> length p"
    "r = None \<longrightarrow> n = length p" "sd_log s' = sd_log s @ map (data_of_body (rw_id w) False) gs" "concat gs = take n p"
    "list_all (\<lambda>g. g \<noteq> []) gs" "r \<noteq> None \<longrightarrow> n < length p"
    using side.Write_loop_returns [of tg "rw_id w" p 0 s] by auto
  with True show ?thesis by (auto simp: Write_def)
next
  case False
  then have "Write (side_half tg) p (w, enc, s) = Some ((0, Some (if rw_closed w then ErrDone else ErrNoHeader)), w, enc, s)"
    by (auto simp: Write_def)
  with False show ?thesis by (auto intro: exI [of _ "[]"])
qed

subsection \<open>A sample connection\<close>

definition status_200 :: field where "status_200 = \<lparr>Name = '':status'', Value = ''200'', Sensitive = False\<rparr>"
definition status_204 :: field where "status_204 = \<lparr>Name = '':status'', Value = ''204'', Sensitive = False\<rparr>"

definition sample_calls :: "resp_op list" where
  "sample_calls = [RHeader 1 [status_200] False, RChunk 1 [1, 2, 3], RHeader 3 [status_204] True, RTrailers 1 []]"

definition sample_plan :: plan where
  "sample_plan = [([QLoop], [SOpen 1, SOpen 3]), ([QEnqueue (PingFrame \<lparr>pg_Ack = True, pg_Data = replicate 8 0\<rparr>)], []),
     ([QLoop, QLoop, QLoop], []), ([QShutdown], [])]"

definition sample_resp :: "(resp_op \<times> error option) list \<times> resp_item list \<times> byte list side resp_conn" where
  "sample_resp = resp_run (side_half memory_target) sample_calls (resp_start (side_start [] sample_plan NewSender))"

text \<open>Frames of the connection itself do not disturb a stream's field blocks.\<close>

lemma connection_frames_intact:
  assumes "prefix (List.filter resp_frame P) (frames_of its)" "\<forall>it\<in>set its. item_stream it \<noteq> 0"
    "\<forall>f\<in>set P. resp_frame f \<or> Frame_Stream f = 0"
  shows "streams_intact P"
  unfolding streams_intact_def blocks_intact_def
proof
  fix i
  have frames: "Frame_Stream f \<noteq> 0" if "f \<in> set P" "resp_frame f" for f
  proof -
    have "f \<in> set (frames_of its)" using assms(1) that set_mono_prefix by fastforce
    then obtain it where it: "it \<in> set its" "f \<in> set (item_frames it)" by auto
    have "f \<in> set (item_frames j) \<Longrightarrow> Frame_Stream f = item_stream j" for j
      using section_frames_stream by (cases j) auto
    then have "Frame_Stream f = item_stream it" using it(2) .
    with it(1) assms(2) show ?thesis by simp
  qed
  show "blocks_from None (on i P) \<noteq> None"
  proof (cases "i = 0")
    case True
    have "\<not> field_frame f" if "f \<in> set (on 0 P)" for f
      using that frames by (auto simp: resp_frame_def)
    then have "blocks_from None fs = Some None" if "set fs \<subseteq> set (on 0 P)" for fs
      using that by (induction fs) (auto simp: block_step_field)
    then show ?thesis using True by simp
  next
    case False
    have b: "blocks_from None (frames_of js) = Some None" for js
    proof (induction js)
      case (Cons j js)
      have "blocks_from None (item_frames j) = Some None"
        using section_frames_blocks [OF prefix_order.refl section_frames_nonempty]
        by (cases j) (simp_all add: block_step_field)
      with Cons show ?case by (simp add: blocks_from_append)
    qed simp
    have "on i P = on i (List.filter resp_frame P)" using assms(3) False by (auto intro: filter_cong)
    moreover have "prefix (on i (List.filter resp_frame P)) (frames_of (items_on i its))"
      using assms(1) unfolding items_on_frames [symmetric] by (auto simp: prefix_def)
    ultimately show ?thesis using b [of "items_on i its"] blocks_prefix by (metis option.distinct(1) prefix_def)
  qed
qed

lemma run_item_streams:
  "resp_run wh ops c = (rs, its, c') \<Longrightarrow> it \<in> set its \<Longrightarrow> \<exists>op\<in>set ops. op_stream op = Some (item_stream it)"
  by (induction ops arbitrary: c rs its) (fastforce dest: items_op_stream split: prod.splits)+

lemma connection_plan_intact:
  assumes "plan_ok (\<lambda>f. Frame_Stream f = 0) p" "\<forall>op\<in>set ops. op_stream op \<noteq> Some 0"
    and "resp_run (side_half tg) ops (resp_start (side_start target p sn)) = (rs, its, c)"
  shows "streams_intact (accepted tg (sd_done (rc_env c)) (fq_start target))"
proof (rule connection_frames_intact)
  have inv: "side_inv (\<lambda>f. Frame_Stream f = 0) tg target (rc_env c)"
    using side_run_inv [OF assms(3), of _ target] side_inv_start [OF assms(1), of tg target sn] by (simp add: resp_start_def)
  have "side.hands_over (frames_of its) (side_start target p sn) (rc_env c)"
    using side.resp_run_hands_over [OF assms(3)] by (simp add: resp_start_def side.ids_ok_def rc_writer_def)
  with inv show "prefix (List.filter resp_frame (accepted tg (sd_done (rc_env c)) (fq_start target))) (frames_of its)"
    by (auto simp: side.hands_over_def side_start_def side_inv_def)
  show "\<forall>f\<in>set (accepted tg (sd_done (rc_env c)) (fq_start target)). resp_frame f \<or> Frame_Stream f = 0"
    using inv by (simp add: side_inv_def)
  show "\<forall>it\<in>set its. item_stream it \<noteq> 0" using run_item_streams [OF assms(3)] assms(2) by fastforce
qed

lemma sample_calls_ok:
  "list_all resp_op_ok sample_calls" "plan_ok (\<lambda>f. Frame_Stream f = 0) sample_plan"
  "\<forall>op\<in>set sample_calls. op_stream op \<noteq> Some 0"
  by (simp_all add: sample_calls_def plan_ok_def sample_plan_def resp_frame_def field_frame_def status_200_def status_204_def
      field_fits_def string_fits_def)

text \<open>A write half that takes everything.\<close>

definition open_half :: "frame list write_half" where
  "open_half = \<lparr>wh_Enqueue = \<lambda>f e. (None, e @ [f]), wh_MaxFrameSize = \<lambda>e. 0x4000, wh_Reserve = \<lambda>i n e. (Inr n, e)\<rparr>"

lemma sample_resp_eq:
  "resp_run (side_half memory_target) sample_calls (resp_start (side_start [] sample_plan NewSender)) =
     (fst sample_resp, fst (snd sample_resp), snd (snd sample_resp))"
  by (simp add: sample_resp_def)

text \<open>A response of three calls, on the frame queue and the send half, with a ping of another goroutine in between.\<close>

abbreviation sample_half :: "byte list side write_half" where
  "sample_half \<equiv> side_half memory_target"

definition sample_talk :: "resp_op list" where
  "sample_talk = [RHeader 1 [status_200] False, RChunk 1 [1, 2, 3], RClose 1]"

definition talk_plan :: plan where
  "talk_plan = [([QLoop], [SOpen 1]), ([QEnqueue (PingFrame \<lparr>pg_Ack = True, pg_Data = replicate 8 0\<rparr>)], []), ([QLoop, QLoop], [])]"

definition talk_env :: "nat \<Rightarrow> byte list side" where
  "talk_env n =
     (let e0 = side_start [] talk_plan NewSender;
          e1 = snd (wh_Enqueue sample_half (headers_of 1 False True [0x88]) e0)
      in if n = 0 then e0 else if n = 1 then e1 else snd (write_chunk sample_half 1 [1, 2, 3] e1))"

lemma talk_block: "fst (Codec_Encode NewCodec [status_200]) = [0x88]"
  by code_simp

lemma talk_envs:
  "snd (wh_Enqueue sample_half (headers_of 1 False True [0x88]) (talk_env 0)) = talk_env 1"
  "snd (write_chunk sample_half 1 [1, 2, 3] (talk_env 1)) = talk_env 2"
  by (simp_all add: talk_env_def Let_def)

lemma talk_header: "fst (wh_Enqueue sample_half (headers_of 1 False True [0x88]) (talk_env 0)) = None"
  by code_simp

lemma talk_chunk: "fst (write_chunk sample_half 1 [1, 2, 3] (talk_env 1)) = Inr 3"
  by code_simp

lemma talk_close: "fst (wh_Enqueue sample_half (data_of_body 1 True []) (talk_env 2)) = None"
  by code_simp

lemma talk_section: "checkSection SectionHeader [status_200] = None" "\<not> informational [status_200]"
  by code_simp+

lemma talk_results:
  "\<exists>its c. resp_run sample_half sample_talk (resp_start (side_start [] talk_plan NewSender)) =
     (map (\<lambda>op. (op, None)) sample_talk, its, c)"
proof -
  let ?c = "resp_start (talk_env 0)"
  have e0: "side_start [] talk_plan NewSender = talk_env 0" by (simp add: talk_env_def)
  obtain codec where enc: "Codec_Encode NewCodec [status_200] = ([0x88], codec)"
    using talk_block by (metis prod.collapse)
  have h: "wh_Enqueue sample_half (headers_of 1 False True [0x88]) (talk_env 0) = (None, talk_env 1)"
    "write_chunk sample_half 1 [1, 2, 3] (talk_env 1) = (Inr 3, talk_env 2)"
    using talk_envs talk_header talk_chunk by (metis prod.collapse)+
  obtain e3 where e3: "wh_Enqueue sample_half (data_of_body 1 True []) (talk_env 2) = (None, e3)"
    using talk_close by (metis prod.collapse)
  have "resp_step sample_half (RHeader 1 [status_200] False) ?c =
      (None, rc_put 1 (\<lparr>rw_id = 1, rw_wroteHeader = True, rw_closed = False\<rparr>, NewEncoder\<lparr>en_codec := codec\<rparr>, talk_env 1) ?c)"
    using h(1) enc talk_section
    by (simp add: writeHeader_def writeSection_def resp_start_def rc_writer_def checkListSize_def NewEncoder_def splitAt_def
        Let_def write_rest.simps min_def)
  then show ?thesis
    using h(2) e3 unfolding e0 sample_talk_def
    by (simp add: resp_Close_def chunk_step_def rc_writer_def rc_put_def resp_start_def)
qed

lemma responses_are_messages_witness:
  "\<exists>its c m. resp_run sample_half sample_talk (resp_start (side_start [] talk_plan NewSender)) =
      (map (\<lambda>op. (op, None)) sample_talk, its, c) \<and>
     part_run MOpen (parts_on 1 (peer_reads (List.filter resp_frame
       (accepted memory_target (sd_done (rc_env c)) (fq_start []))))) = Some m"
proof -
  obtain its c where r: "resp_run sample_half sample_talk (resp_start (side_start [] talk_plan NewSender)) =
     (map (\<lambda>op. (op, None)) sample_talk, its, c)" using talk_results by blast
  have "list_all resp_op_ok sample_talk" "plan_ok (\<lambda>f. True) talk_plan"
    by (simp_all add: sample_talk_def plan_ok_def talk_plan_def resp_frame_def field_frame_def status_200_def field_fits_def string_fits_def)
  from responses_are_messages [OF this r, of 1] r show ?thesis by auto
qed

text \<open>The excluded case: a list that is too long sends nothing, but the writer takes the header section as sent, so the
  handler cannot send a shorter one and \<open>Close\<close> ends a response that never began.\<close>

lemma too_long_list_loses_the_response:
  "(let c = snd (resp_step open_half (RSetList 10) (resp_start []));
        (r1, c) = resp_step open_half (RHeader 1 [status_200] False) c;
        (r2, c) = resp_step open_half (RHeader 1 [status_204] True) c;
        (r3, c) = resp_step open_half (RClose 1) c
    in (r1, r2, r3, rc_env c)) =
   (Some ErrHeaderListTooLarge, Some ErrHeaderWritten, None, [data_of_body 1 True []])"
  by code_simp

lemma responses_reach_the_peer_witness:
  "\<exists>W k. prefix (w_sink (fq_fw (snd (sd_pw (rc_env (snd (snd sample_resp))))))) (concat (map wire_of W)) \<and>
     decode_blocks (assemble [] (fields_of W)) NewCodec = map Inr (take k (section_lists (fst (snd sample_resp))))"
proof -
  show ?thesis
    using responses_reach_the_peer [OF memory_target_contract refl sample_calls_ok(2,1) sample_resp_eq
        connection_plan_intact [OF sample_calls_ok(2,3) sample_resp_eq]] by blast
qed

end
