(* ===== verification/GoStrings.thy ===== *)
theory GoStrings
  imports SfvProps
begin

text \<open>
  The functions of Go's \<^verbatim>\<open>strings\<close> and \<^verbatim>\<open>path\<close> packages that the file server uses, on strings as octet
  lists, with the facts about them that the components above share.
\<close>

subsection \<open>Searching and cutting\<close>

text \<open>\<open>IndexByte\<close> and \<open>LastIndexByte\<close>, with \<open>None\<close> for \<open>-1\<close>.\<close>

fun IndexByte :: "string \<Rightarrow> char \<Rightarrow> nat option" where
  "IndexByte [] c = None"
| "IndexByte (x # xs) c = (if x = c then Some 0 else map_option Suc (IndexByte xs c))"

definition LastIndexByte :: "string \<Rightarrow> char \<Rightarrow> nat option" where
  "LastIndexByte s c = map_option (\<lambda>i. length s - 1 - i) (IndexByte (rev s) c)"

fun Split :: "string \<Rightarrow> char \<Rightarrow> string list" where
  "Split [] c = [[]]"
| "Split (x # xs) c =
     (if x = c then [] # Split xs c
      else (case Split xs c of [] \<Rightarrow> [[x]] | s # ss \<Rightarrow> (x # s) # ss))"

fun Join :: "string list \<Rightarrow> char \<Rightarrow> string" where
  "Join [] c = []"
| "Join [s] c = s"
| "Join (s # ss) c = s @ c # Join ss c"

definition Cut :: "string \<Rightarrow> char \<Rightarrow> string \<times> string \<times> bool" where
  "Cut s c = (case IndexByte s c of None \<Rightarrow> (s, [], False) | Some i \<Rightarrow> (take i s, drop (i + 1) s, True))"

definition CutPrefix :: "string \<Rightarrow> string \<Rightarrow> string \<times> bool" where
  "CutPrefix s p = (if take (length p) s = p then (drop (length p) s, True) else (s, False))"

definition TrimLeft :: "string \<Rightarrow> string \<Rightarrow> string" where
  "TrimLeft s cutset = dropWhile (\<lambda>c. c \<in> set cutset) s"

definition Trim :: "string \<Rightarrow> string \<Rightarrow> string" where
  "Trim s cutset = rev (TrimLeft (rev (TrimLeft s cutset)) cutset)"

subsection \<open>Case mapping\<close>

text \<open>
  \<open>strings.ToUpper\<close> and \<open>strings.ToLower\<close> map code points, so two letters outside ASCII become ASCII ones
  under each: the dotless i (C4 B1) and the long s (C5 BF) on the way up, the dotted capital I (C4 B0) and
  the Kelvin sign (E2 84 AA) on the way down. Every other octet above 0x7f stays above it. The
  results are only ever compared with ASCII strings, so which octets those are does not matter here.
\<close>

definition upper_octet :: "char \<Rightarrow> char" where
  "upper_octet c = (if CHR ''a'' \<le> c \<and> c \<le> CHR ''z'' then char_of (of_char c - 32 :: nat) else c)"

definition lower_octet :: "char \<Rightarrow> char" where
  "lower_octet c = (if CHR ''A'' \<le> c \<and> c \<le> CHR ''Z'' then char_of (of_char c + 32 :: nat) else c)"

fun ToUpper :: "string \<Rightarrow> string" where
  "ToUpper [] = []"
| "ToUpper (c # cs) =
     (if c = CHR 0xC4 \<and> take 1 cs = [CHR 0xB1] then CHR ''I'' # ToUpper (drop 1 cs)
      else if c = CHR 0xC5 \<and> take 1 cs = [CHR 0xBF] then CHR ''S'' # ToUpper (drop 1 cs)
      else upper_octet c # ToUpper cs)"

fun ToLower :: "string \<Rightarrow> string" where
  "ToLower [] = []"
| "ToLower (c # cs) =
     (if c = CHR 0xC4 \<and> take 1 cs = [CHR 0xB0] then CHR ''i'' # ToLower (drop 1 cs)
      else if c = CHR 0xE2 \<and> take 2 cs = [CHR 0x84, CHR 0xAA] then CHR ''k'' # ToLower (drop 2 cs)
      else lower_octet c # ToLower cs)"

text \<open>
  \<open>strings.EqualFold\<close> against an ASCII string: simple folding takes the long s and the Kelvin sign to
  ASCII letters and nothing else outside ASCII.
\<close>

fun fold_case :: "string \<Rightarrow> string" where
  "fold_case [] = []"
| "fold_case (c # cs) =
     (if c = CHR 0xC5 \<and> take 1 cs = [CHR 0xBF] then CHR ''s'' # fold_case (drop 1 cs)
      else if c = CHR 0xE2 \<and> take 2 cs = [CHR 0x84, CHR 0xAA] then CHR ''k'' # fold_case (drop 2 cs)
      else lower_octet c # fold_case cs)"

definition EqualFold :: "string \<Rightarrow> string \<Rightarrow> bool" where
  "EqualFold s t \<longleftrightarrow> fold_case s = fold_case t"

subsection \<open>Numerals\<close>

text \<open>\<open>strconv.FormatInt\<close> in base ten.\<close>

fun decimal_nat :: "nat \<Rightarrow> string" where
  "decimal_nat n = (if n < 10 then [char_of (48 + n)] else decimal_nat (n div 10) @ [char_of (48 + n mod 10)])"

declare decimal_nat.simps [simp del]

definition FormatInt :: "int \<Rightarrow> string" where
  "FormatInt n = (if n < 0 then CHR ''-'' # decimal_nat (nat (- n)) else decimal_nat (nat n))"

subsection \<open>Facts\<close>

lemma Split_not_Nil [simp]: "Split s c \<noteq> []"
  by (induction s) (auto split: list.splits)

lemma Split_no_sep: "seg \<in> set (Split s c) \<Longrightarrow> c \<notin> set seg"
  by (induction s arbitrary: seg) (auto split: list.splits if_splits)

lemma Split_no_sep_self [simp]: "c \<notin> set s \<Longrightarrow> Split s c = [s]"
  by (induction s) auto

lemma Split_append: "c \<notin> set s \<Longrightarrow> Split (s @ c # t) c = s # Split t c"
  by (induction s) auto

lemma Join_Cons: "ss \<noteq> [] \<Longrightarrow> Join (s # ss) c = s @ c # Join ss c"
  by (cases ss) auto

lemma Split_Join: "ss \<noteq> [] \<Longrightarrow> \<forall>s\<in>set ss. c \<notin> set s \<Longrightarrow> Split (Join ss c) c = ss"
  by (induction ss c rule: Join.induct) (auto simp: Split_append)

lemma Join_Split [simp]: "Join (Split s c) c = s"
proof (induction s)
  case (Cons x xs)
  obtain t ts where sp: "Split xs c = t # ts" by (cases "Split xs c") auto
  with Cons show ?case by (cases ts) auto
qed simp

lemma IndexByte_None: "IndexByte s c = None \<longleftrightarrow> c \<notin> set s"
  by (induction s) auto

lemma IndexByte_Some: "IndexByte s c = Some i \<Longrightarrow> i < length s \<and> s ! i = c \<and> c \<notin> set (take i s)"
  by (induction s arbitrary: i) (auto split: if_splits)

lemma IndexByte_append: "c \<notin> set s \<Longrightarrow> IndexByte (s @ c # t) c = Some (length s)"
  by (induction s) auto

lemma Cut_append [simp]: "c \<notin> set s \<Longrightarrow> Cut (s @ c # t) c = (s, t, True)"
  by (simp add: Cut_def IndexByte_append)

lemma Cut_none [simp]: "c \<notin> set s \<Longrightarrow> Cut s c = (s, [], False)"
  using iffD2 [OF IndexByte_None, of c s] by (auto simp: Cut_def split: option.split)

lemma Cut_cases:
  obtains "c \<notin> set s" "Cut s c = (s, [], False)"
  | a b where "c \<notin> set a" "s = a @ c # b" "Cut s c = (a, b, True)"
proof (cases "c \<in> set s")
  case True
  then obtain a b where "s = a @ c # b" "c \<notin> set a" by (metis split_list_first)
  with that(2) show ?thesis by simp
qed (use that(1) in simp)

lemma Cut_shorter: "s \<noteq> [] \<Longrightarrow> Cut s c = (a, b, f) \<Longrightarrow> length b < length s"
  by (rule Cut_cases [of c s]) auto

text \<open>A numeral reads back as the number it prints.\<close>

lemma digit_value_octet [simp]: "n < 10 \<Longrightarrow> digit_value (char_of (48 + n)) = int n"
  using of_nat_of_char [of "char_of (48 + n)", where ?'a = int, symmetric] by (simp add: digit_value_def)

lemma isDigit_octet [simp]: "n < 10 \<Longrightarrow> isDigit (char_of (48 + n :: nat))"
  by (simp add: isDigit_def less_eq_char_def)

lemma decimal_nat_digits: "list_all isDigit (decimal_nat n) \<and> decimal_nat n \<noteq> [] \<and> digits (decimal_nat n) = int n"
proof (induction n rule: decimal_nat.induct)
  case (1 n)
  show ?case
  proof (cases "n < 10")
    case True
    then show ?thesis by (simp add: decimal_nat.simps [of n] digits_def)
  next
    case False
    with 1 show ?thesis by (subst (1 2 3) decimal_nat.simps) (simp add: digits_snoc zdiv_int zmod_int)
  qed
qed

lemma FormatInt_nonneg: "0 \<le> n \<Longrightarrow> list_all isDigit (FormatInt n) \<and> FormatInt n \<noteq> [] \<and> digits (FormatInt n) = n"
  using decimal_nat_digits [of "nat n"] by (simp add: FormatInt_def)

lemma FormatInt_inject: "0 \<le> m \<Longrightarrow> 0 \<le> n \<Longrightarrow> FormatInt m = FormatInt n \<longleftrightarrow> m = n"
  by (metis FormatInt_nonneg)

end
