(* ===== verification/HttpDate.thy ===== *)
theory HttpDate
  imports GoStrings
begin

text \<open>
  HTTP dates as \<^verbatim>\<open>internal/static\<close> reads and writes them (conditional.go), over the part of Go's \<^verbatim>\<open>time\<close> package that
  it uses. A \<open>time.Time\<close> in UTC is the integer of nanoseconds since 1 January of year 1, its zero value. Years are those of
  the proleptic Gregorian calendar.
\<close>

type_synonym instant = int

definition second :: int where "second = 1000000000"

subsection \<open>The calendar (package time)\<close>

definition isLeap :: "int \<Rightarrow> bool" where
  "isLeap y \<longleftrightarrow> y mod 4 = 0 \<and> (y mod 100 \<noteq> 0 \<or> y mod 400 = 0)"

definition month_lengths :: "int \<Rightarrow> int list" where
  "month_lengths y = [31, if isLeap y then 29 else 28, 31, 30, 31, 30, 31, 31, 30, 31, 30, 31]"

definition daysIn :: "nat \<Rightarrow> int \<Rightarrow> int" where
  "daysIn m y = month_lengths y ! (m - 1)"

definition days_before_year :: "int \<Rightarrow> int" where
  "days_before_year y = 365 * (y - 1) + (y - 1) div 4 - (y - 1) div 100 + (y - 1) div 400"

definition days_before_month :: "int \<Rightarrow> nat \<Rightarrow> int" where
  "days_before_month y m = sum_list (take (m - 1) (month_lengths y))"

text \<open>The year of a day and the day in it: cycles of 400, 100, 4 and 1 years, the last century and year of each longer.\<close>

definition year_yday :: "int \<Rightarrow> int \<times> int" where
  "year_yday d =
     (let n400 = d div 146097; d = d mod 146097;
          n100 = min 3 (d div 36524); d = d - 36524 * n100;
          n4 = d div 1461; d = d mod 1461;
          n1 = min 3 (d div 365)
      in (400 * n400 + 100 * n100 + 4 * n4 + n1 + 1, d - 365 * n1))"

fun month_day :: "int list \<Rightarrow> nat \<Rightarrow> int \<Rightarrow> nat \<times> int" where
  "month_day [] m d = (m, d + 1)"
| "month_day [n] m d = (m, d + 1)"
| "month_day (n # ns) m d = (if d < n then (m, d + 1) else month_day ns (m + 1) (d - n))"

record civil =
  cv_year :: int
  cv_month :: nat
  cv_day :: int
  cv_hour :: int
  cv_min :: int
  cv_sec :: int
  cv_nsec :: int

definition Date :: "civil \<Rightarrow> instant" where
  "Date c =
     ((days_before_year (cv_year c) + days_before_month (cv_year c) (cv_month c) + cv_day c - 1) * 86400 +
      cv_hour c * 3600 + cv_min c * 60 + cv_sec c) * second + cv_nsec c"

definition civil_of :: "instant \<Rightarrow> civil" where
  "civil_of t =
     (let s = t div second; d = s div 86400; s = s mod 86400 in
      case year_yday d of (y, yday) \<Rightarrow>
        (case month_day (month_lengths y) 1 yday of (m, day) \<Rightarrow>
          \<lparr>cv_year = y, cv_month = m, cv_day = day, cv_hour = s div 3600, cv_min = s mod 3600 div 60,
           cv_sec = s mod 60, cv_nsec = t mod second\<rparr>))"

text \<open>The index of a weekday, from Sunday. The first day of year 1 was a Monday.\<close>

definition weekday :: "instant \<Rightarrow> nat" where
  "weekday t = nat ((t div second div 86400 + 1) mod 7)"

definition IsZero :: "instant \<Rightarrow> bool" where "IsZero t \<longleftrightarrow> t = 0"

definition Truncate_second :: "instant \<Rightarrow> instant" where "Truncate_second t = t - t mod second"

definition longDayNames :: "string list" where
  "longDayNames = [''Sunday'', ''Monday'', ''Tuesday'', ''Wednesday'', ''Thursday'', ''Friday'', ''Saturday'']"

definition shortDayNames :: "string list" where
  "shortDayNames = [''Sun'', ''Mon'', ''Tue'', ''Wed'', ''Thu'', ''Fri'', ''Sat'']"

definition shortMonthNames :: "string list" where
  "shortMonthNames = [''Jan'', ''Feb'', ''Mar'', ''Apr'', ''May'', ''Jun'', ''Jul'', ''Aug'', ''Sep'', ''Oct'', ''Nov'', ''Dec'']"

subsection \<open>Layouts (package time)\<close>

text \<open>The elements of the three layouts, as \<open>nextStdChunk\<close> finds them.\<close>

datatype chunk = Lit string | WeekDay | LongWeekDay | Month | ZeroDay | UnderDay | LongYear | Year | Hour | ZeroMinute | ZeroSecond

definition imfFixdate :: "chunk list" where
  "imfFixdate = [WeekDay, Lit '', '', ZeroDay, Lit '' '', Month, Lit '' '', LongYear, Lit '' '', Hour, Lit '':'', ZeroMinute,
     Lit '':'', ZeroSecond, Lit '' GMT'']"

definition rfc850Date :: "chunk list" where
  "rfc850Date = [LongWeekDay, Lit '', '', ZeroDay, Lit ''-'', Month, Lit ''-'', Year, Lit '' '', Hour, Lit '':'', ZeroMinute,
     Lit '':'', ZeroSecond, Lit '' GMT'']"

definition asctimeDate :: "chunk list" where
  "asctimeDate = [WeekDay, Lit '' '', Month, Lit '' '', UnderDay, Lit '' '', Hour, Lit '':'', ZeroMinute,
     Lit '':'', ZeroSecond, Lit '' '', LongYear]"

text \<open>\<open>appendInt\<close>: at least \<open>w\<close> digits.\<close>

definition format_int :: "int \<Rightarrow> nat \<Rightarrow> string" where
  "format_int n w =
     (let s = decimal_nat (nat \<bar>n\<bar>) in (if n < 0 then ''-'' else '''') @ replicate (w - length s) (CHR ''0'') @ s)"

fun format_chunk :: "instant \<Rightarrow> civil \<Rightarrow> chunk \<Rightarrow> string" where
  "format_chunk t c (Lit s) = s"
| "format_chunk t c WeekDay = shortDayNames ! weekday t"
| "format_chunk t c LongWeekDay = longDayNames ! weekday t"
| "format_chunk t c Month = shortMonthNames ! (cv_month c - 1)"
| "format_chunk t c ZeroDay = format_int (cv_day c) 2"
| "format_chunk t c UnderDay = (if cv_day c < 10 then '' '' else '''') @ format_int (cv_day c) 0"
| "format_chunk t c LongYear = format_int (cv_year c) 4"
| "format_chunk t c Year = format_int (cv_year c mod 100) 2"
| "format_chunk t c Hour = format_int (cv_hour c) 2"
| "format_chunk t c ZeroMinute = format_int (cv_min c) 2"
| "format_chunk t c ZeroSecond = format_int (cv_sec c) 2"

definition Format :: "chunk list \<Rightarrow> instant \<Rightarrow> string" where
  "Format layout t = concat (map (format_chunk t (civil_of t)) layout)"

text \<open>\<open>skip\<close>: a run of spaces in the layout is any number of spaces in the value, but not none before other text.\<close>

fun cutspace :: "string \<Rightarrow> string" where
  "cutspace [] = []"
| "cutspace (c # cs) = (if c = CHR '' '' then cutspace cs else c # cs)"

lemma cutspace_shorter: "length (cutspace s) \<le> length s"
  by (induction s) auto

function skip :: "string \<Rightarrow> string \<Rightarrow> string option" where
  "skip value [] = Some value"
| "skip value (p # prefix) =
     (if p = CHR '' '' then
        (if value \<noteq> '''' \<and> hd value \<noteq> CHR '' '' then None else skip (cutspace value) (cutspace (p # prefix)))
      else if value = '''' \<or> hd value \<noteq> p then None
      else skip (tl value) prefix)"
  by pat_completeness auto

termination
  by (relation "measure (\<lambda>(value, prefix). length prefix)") (auto simp: cutspace_shorter le_imp_less_Suc)

fun lookup_name :: "string list \<Rightarrow> nat \<Rightarrow> string \<Rightarrow> (nat \<times> string) option" where
  "lookup_name [] i v = None"
| "lookup_name (n # ns) i v =
     (if length v \<ge> length n \<and> map lower_octet (take (length n) v) = map lower_octet n
      then Some (i, drop (length n) v) else lookup_name ns (i + 1) v)"

definition digit_at :: "string \<Rightarrow> nat \<Rightarrow> bool" where
  "digit_at s i \<longleftrightarrow> i < length s \<and> isDigit (s ! i)"

definition getnum :: "string \<Rightarrow> bool \<Rightarrow> (int \<times> string) option" where
  "getnum s fixed =
     (if \<not> digit_at s 0 then None
      else if \<not> digit_at s 1 then (if fixed then None else Some (digits (take 1 s), drop 1 s))
      else Some (digits (take 2 s), drop 2 s))"

definition atoi :: "string \<Rightarrow> int option" where
  "atoi s =
     (let neg = (s \<noteq> '''' \<and> hd s = CHR ''-'');
          s = (if s \<noteq> '''' \<and> (hd s = CHR ''-'' \<or> hd s = CHR ''+'') then tl s else s)
      in if list_all isDigit s then Some (if neg then - digits s else digits s) else None)"

text \<open>One element: the value it leaves and the fields it sets; \<open>None\<close> is any error.\<close>

fun parse_chunk :: "chunk \<Rightarrow> string \<Rightarrow> civil \<Rightarrow> (string \<times> civil) option" where
  "parse_chunk (Lit s) v c = map_option (\<lambda>v. (v, c)) (skip v s)"
| "parse_chunk WeekDay v c = map_option (\<lambda>(i, v). (v, c)) (lookup_name shortDayNames 0 v)"
| "parse_chunk LongWeekDay v c = map_option (\<lambda>(i, v). (v, c)) (lookup_name longDayNames 0 v)"
| "parse_chunk Month v c = map_option (\<lambda>(i, v). (v, c\<lparr>cv_month := i + 1\<rparr>)) (lookup_name shortMonthNames 0 v)"
| "parse_chunk ZeroDay v c = map_option (\<lambda>(n, v). (v, c\<lparr>cv_day := n\<rparr>)) (getnum v True)"
| "parse_chunk UnderDay v c =
     map_option (\<lambda>(n, v). (v, c\<lparr>cv_day := n\<rparr>)) (getnum (if v \<noteq> '''' \<and> hd v = CHR '' '' then tl v else v) False)"
| "parse_chunk LongYear v c =
     (if length v < 4 \<or> \<not> digit_at v 0 then None
      else map_option (\<lambda>n. (drop 4 v, c\<lparr>cv_year := n\<rparr>)) (atoi (take 4 v)))"
| "parse_chunk Year v c =
     (if length v < 2 then None
      else map_option (\<lambda>n. (drop 2 v, c\<lparr>cv_year := (if n \<ge> 69 then n + 1900 else n + 2000)\<rparr>)) (atoi (take 2 v)))"
| "parse_chunk Hour v c =
     (case getnum v False of None \<Rightarrow> None | Some (n, v) \<Rightarrow> if 24 \<le> n then None else Some (v, c\<lparr>cv_hour := n\<rparr>))"
| "parse_chunk ZeroMinute v c =
     (case getnum v True of None \<Rightarrow> None | Some (n, v) \<Rightarrow> if 60 \<le> n then None else Some (v, c\<lparr>cv_min := n\<rparr>))"
| "parse_chunk ZeroSecond v c =
     (case getnum v True of
        None \<Rightarrow> None
      | Some (n, v) \<Rightarrow>
          if 60 \<le> n then None
          else if length v \<ge> 2 \<and> (hd v = CHR ''.'' \<or> hd v = CHR '','') \<and> digit_at v 1 then
            (let frac = takeWhile isDigit (tl v); nine = take 9 frac in
             Some (drop (length frac) (tl v),
               c\<lparr>cv_sec := n, cv_nsec := digits nine * 10 ^ (9 - length nine)\<rparr>))
          else Some (v, c\<lparr>cv_sec := n\<rparr>))"

fun parse_chunks :: "chunk list \<Rightarrow> string \<Rightarrow> civil \<Rightarrow> civil option" where
  "parse_chunks [] v c = (if v = '''' then Some c else None)"
| "parse_chunks (k # ks) v c = (case parse_chunk k v c of None \<Rightarrow> None | Some (v, c) \<Rightarrow> parse_chunks ks v c)"

definition no_fields :: civil where
  "no_fields = \<lparr>cv_year = 0, cv_month = 1, cv_day = 1, cv_hour = 0, cv_min = 0, cv_sec = 0, cv_nsec = 0\<rparr>"

definition Parse_time :: "chunk list \<Rightarrow> string \<Rightarrow> instant option" where
  "Parse_time layout v =
     (case parse_chunks layout v no_fields of
        None \<Rightarrow> None
      | Some c \<Rightarrow> if cv_day c < 1 \<or> cv_day c > daysIn (cv_month c) (cv_year c) then None else Some (Date c))"

subsection \<open>HTTP dates (conditional.go)\<close>

text \<open>Go's remainder, for a positive divisor.\<close>

definition go_rem :: "int \<Rightarrow> int \<Rightarrow> int" where
  "go_rem a b = (if 0 \<le> a then a mod b else - ((- a) mod b))"

definition slideCentury :: "instant \<Rightarrow> instant \<Rightarrow> instant option" where
  "slideCentury t now =
     (let c = civil_of t;
          this = cv_year (civil_of now);
          year = this - go_rem this 100 + go_rem (cv_year c) 100;
          year = (if year - this > 50 then year - 100 else year);
          slid = Date (c\<lparr>cv_year := year, cv_nsec := 0\<rparr>)
      in if cv_month (civil_of slid) \<noteq> cv_month c \<or> cv_day (civil_of slid) \<noteq> cv_day c then None else Some slid)"

definition leapSecond :: "string \<Rightarrow> string option" where
  "leapSecond s =
     (case LastIndexByte s (CHR '':'') of
        None \<Rightarrow> None
      | Some i \<Rightarrow>
          if i + 3 > length s \<or> take 2 (drop (i + 1) s) \<noteq> ''60'' then None
          else Some (take (i + 1) s @ ''59'' @ drop (i + 3) s))"

definition parseExact :: "string \<Rightarrow> instant \<Rightarrow> instant option" where
  "parseExact s now =
     (case Parse_time imfFixdate s of
        Some t \<Rightarrow> Some t
      | None \<Rightarrow>
          (case Parse_time rfc850Date s of
             Some t \<Rightarrow> slideCentury t now
           | None \<Rightarrow> (case Parse_time asctimeDate s of Some t \<Rightarrow> Some t | None \<Rightarrow> None)))"

definition parseHTTPDate :: "string \<Rightarrow> instant \<Rightarrow> instant option" where
  "parseHTTPDate s now =
     (case parseExact s now of
        Some t \<Rightarrow> Some t
      | None \<Rightarrow>
          (case leapSecond s of
             None \<Rightarrow> None
           | Some v \<Rightarrow> (case parseExact v now of Some t \<Rightarrow> Some (t + second) | None \<Rightarrow> None)))"

end
