(* ===== verification/TagCache.thy ===== *)
theory TagCache
  imports HttpDate H2 "HOL-Library.AList"
begin

text \<open>
  \<^verbatim>\<open>internal/static\<close>, the cache of entity tags (etag.go) as the goroutines of all requests use it. Each critical
  section of the code is one step. A \<open>*tagCall\<close> is an index of \<open>tc_heap\<close>, where a call stays after it
  has left the map, since the goroutines that joined it still hold it.
\<close>

definition maxTagCacheEntries :: int where [simp]: "maxTagCacheEntries = 1024"

definition tagSettleWindow :: int where "tagSettleWindow = 2 * second"

record tagVersion =
  tv_size :: int
  tv_sec :: int
  tv_nsec :: int

definition unix_epoch :: instant where "unix_epoch = 62135596800 * second"

definition versionOf :: "int \<Rightarrow> instant \<Rightarrow> tagVersion" where
  "versionOf sz md = \<lparr>tv_size = sz, tv_sec = (md - unix_epoch) div second, tv_nsec = md mod second\<rparr>"

record tagEntry =
  te_version :: tagVersion
  te_tag :: string

type_synonym tagCallKey = "string \<times> tagVersion"

text \<open>\<open>tl_key\<close> is the pair of the name and the version that the call's goroutine has in its variables.\<close>

record tagCall =
  tl_key :: tagCallKey
  tl_done :: bool
  tl_tag :: string
  tl_err :: "error option"

record tagCache =
  tc_entries :: "(string \<times> tagEntry) list"
  tc_calls :: "(tagCallKey \<times> nat) list"
  tc_heap :: "tagCall list"
  tc_limit :: int

definition newTagCache :: "int \<Rightarrow> tagCache" where
  "newTagCache limit = \<lparr>tc_entries = [], tc_calls = [], tc_heap = [], tc_limit = limit\<rparr>"

text \<open>
  \<open>store\<close>: the key that an iteration over the map gives first is unspecified, so \<open>choice\<close> picks it. The
  loop is only entered with a limit of at least one.
\<close>

definition evict_one :: "(nat \<Rightarrow> nat) \<Rightarrow> (string \<times> 'a) list \<Rightarrow> (string \<times> 'a) list" where
  "evict_one choice es = AList.delete (fst (es ! (choice (length es) mod length es))) es"

lemma delete_shorter: "k \<in> fst ` set es \<Longrightarrow> length (AList.delete k es) < length es"
  by (auto simp: AList.delete_eq intro!: length_filter_less)

lemma evict_one_shorter: "es \<noteq> [] \<Longrightarrow> length (evict_one choice es) < length es"
  unfolding evict_one_def by (rule delete_shorter) (auto intro!: imageI nth_mem)

function evict :: "(nat \<Rightarrow> nat) \<Rightarrow> int \<Rightarrow> (string \<times> 'a) list \<Rightarrow> (string \<times> 'a) list" where
  "evict choice limit es = (if int (length es) \<ge> limit \<and> es \<noteq> [] then evict choice limit (evict_one choice es) else es)"
  by pat_completeness auto

termination
  by (relation "measure (\<lambda>(choice, limit, es). length es)") (use evict_one_shorter in auto)

declare evict.simps [simp del]

definition cache_store :: "(nat \<Rightarrow> nat) \<Rightarrow> string \<Rightarrow> tagEntry \<Rightarrow> tagCache \<Rightarrow> tagCache" where
  "cache_store choice name e c =
     (if tc_limit c \<le> 0 then c
      else
        let es = (if map_of (tc_entries c) name = None then evict choice (tc_limit c) (tc_entries c) else tc_entries c) in
        c\<lparr>tc_entries := AList.update name e es\<rparr>)"

text \<open>
  \<open>get\<close>, up to where it leaves the first critical section: the tag is known, or the call of another
  goroutine is joined, or this goroutine is to compute the tag.
\<close>

datatype tag_reply = Known string | Joined nat | Owner nat | Ended

definition get_call :: "string \<Rightarrow> tagVersion \<Rightarrow> tagCache \<Rightarrow> tag_reply \<times> tagCache" where
  "get_call name v c =
     (case map_of (tc_calls c) (name, v) of
        Some p \<Rightarrow> (Joined p, c)
      | None \<Rightarrow>
          (Owner (length (tc_heap c)),
           c\<lparr>tc_calls := AList.update (name, v) (length (tc_heap c)) (tc_calls c),
             tc_heap := tc_heap c @ [\<lparr>tl_key = (name, v), tl_done = False, tl_tag = [], tl_err = None\<rparr>]\<rparr>))"

definition get_begin :: "string \<Rightarrow> tagVersion \<Rightarrow> tagCache \<Rightarrow> tag_reply \<times> tagCache" where
  "get_begin name v c =
     (case map_of (tc_entries c) name of
        Some e \<Rightarrow> if te_version e = v then (Known (te_tag e), c) else get_call name v c
      | None \<Rightarrow> get_call name v c)"

text \<open>How \<open>hash\<close> ended; a panic leaves the call as it was made.\<close>

datatype hash_result = HashResult string "error option" | HashPanic

text \<open>The deferred function of the goroutine that owns call \<open>p\<close>.\<close>

definition get_end :: "nat \<Rightarrow> hash_result \<Rightarrow> (nat \<Rightarrow> nat) \<Rightarrow> tagCache \<Rightarrow> tagCache" where
  "get_end p res choice c =
     (let call = tc_heap c ! p;
          call = (case res of HashResult tag err \<Rightarrow> call\<lparr>tl_tag := tag, tl_err := err\<rparr> | HashPanic \<Rightarrow> call);
          c = c\<lparr>tc_calls := AList.delete (tl_key call) (tc_calls c)\<rparr>;
          c = (if tl_err call = None \<and> tl_tag call \<noteq> '''' then
                 cache_store choice (fst (tl_key call)) \<lparr>te_version = snd (tl_key call), te_tag = tl_tag call\<rparr> c
               else c)
      in c\<lparr>tc_heap := (tc_heap c)[p := call\<lparr>tl_done := True\<rparr>]\<rparr>)"

text \<open>\<open><-call.done\<close>: \<open>None\<close> while it blocks.\<close>

definition get_wait :: "nat \<Rightarrow> tagCache \<Rightarrow> (string \<times> error option) option" where
  "get_wait p c =
     (let call = tc_heap c ! p in if tl_done call then Some (tl_tag call, tl_err call) else None)"

text \<open>
  \<open>etag\<close>: a file younger than the settle window bypasses the cache; an error is the empty tag. \<open>read\<close> is what reading the content
  through the section reader gives, \<open>digest\<close> the encoded SHA-256 hash.
\<close>

definition bypasses :: "instant \<Rightarrow> instant \<Rightarrow> bool" where
  "bypasses md now \<longleftrightarrow> now - md < tagSettleWindow"

definition hashContent :: "(byte list \<Rightarrow> string) \<Rightarrow> byte list \<times> error option \<Rightarrow> string \<times> error option" where
  "hashContent digest content =
     (case content of
        (b, Some e) \<Rightarrow> ('''', Some e)
      | (b, None) \<Rightarrow> ([CHR 0x22] @ digest b @ [CHR 0x22], None))"

definition etag_of :: "string \<times> error option \<Rightarrow> string" where
  "etag_of r = (case r of (tag, Some e) \<Rightarrow> '''' | (tag, None) \<Rightarrow> tag)"

subsection \<open>Histories\<close>

datatype tag_op = Ask string tagVersion | Hashed nat hash_result "nat \<Rightarrow> nat"

fun tag_valid :: "tag_op \<Rightarrow> tagCache \<Rightarrow> bool" where
  "tag_valid (Ask name v) c = True"
| "tag_valid (Hashed p res choice) c = (p < length (tc_heap c) \<and> \<not> tl_done (tc_heap c ! p))"

fun tag_step :: "tag_op \<Rightarrow> tagCache \<Rightarrow> tag_reply \<times> tagCache" where
  "tag_step (Ask name v) c = get_begin name v c"
| "tag_step (Hashed p res choice) c = (Ended, get_end p res choice c)"

inductive tag_history :: "int \<Rightarrow> (tag_op \<times> tag_reply) list \<Rightarrow> tagCache \<Rightarrow> bool" for limit where
  start: "tag_history limit [] (newTagCache limit)"
| step: "tag_history limit h c \<Longrightarrow> tag_valid op c \<Longrightarrow> tag_step op c = (r, c') \<Longrightarrow> tag_history limit (h @ [(op, r)]) c'"

end
