(* ===== verification/TagCacheProps.thy ===== *)
theory TagCacheProps
  imports TagCache
begin

text \<open>
  The cache of entity tags under every interleaving of its users: what it answers was computed for what is asked,
  a tag is computed once at a time, nobody waits for a call that has ended, and the cache keeps its bound.
\<close>

fun result_of :: "hash_result \<Rightarrow> string \<times> error option" where
  "result_of (HashResult tag err) = (tag, err)"
| "result_of HashPanic = ('''', None)"

definition calls_ok :: "tagCache \<Rightarrow> bool" where
  "calls_ok c \<longleftrightarrow> distinct (map fst (tc_calls c)) \<and>
     (\<forall>k p. map_of (tc_calls c) k = Some p \<longleftrightarrow> p < length (tc_heap c) \<and> tl_key (tc_heap c ! p) = k \<and> \<not> tl_done (tc_heap c ! p))"

definition owners_ok :: "(tag_op \<times> tag_reply) list \<Rightarrow> tagCache \<Rightarrow> bool" where
  "owners_ok h c \<longleftrightarrow>
     (\<forall>n v p. (Ask n v, Owner p) \<in> set h \<longleftrightarrow> p < length (tc_heap c) \<and> tl_key (tc_heap c ! p) = (n, v))"

definition done_ok :: "(tag_op \<times> tag_reply) list \<Rightarrow> tagCache \<Rightarrow> bool" where
  "done_ok h c \<longleftrightarrow>
     (\<forall>p<length (tc_heap c). tl_done (tc_heap c ! p) \<longrightarrow>
        (\<exists>res choice. (Hashed p res choice, Ended) \<in> set h \<and> result_of res = (tl_tag (tc_heap c ! p), tl_err (tc_heap c ! p)))) \<and>
     (\<forall>p<length (tc_heap c). \<not> tl_done (tc_heap c ! p) \<longrightarrow> tl_tag (tc_heap c ! p) = '''' \<and> tl_err (tc_heap c ! p) = None) \<and>
     (\<forall>p res choice. (Hashed p res choice, Ended) \<in> set h \<longrightarrow> p < length (tc_heap c) \<and> tl_done (tc_heap c ! p))"

definition entry_ok :: "(tag_op \<times> tag_reply) list \<Rightarrow> string \<Rightarrow> tagEntry \<Rightarrow> bool" where
  "entry_ok h name e \<longleftrightarrow> te_tag e \<noteq> '''' \<and>
     (\<exists>p choice. (Ask name (te_version e), Owner p) \<in> set h \<and> (Hashed p (HashResult (te_tag e) None) choice, Ended) \<in> set h)"

definition entries_ok :: "int \<Rightarrow> (tag_op \<times> tag_reply) list \<Rightarrow> tagCache \<Rightarrow> bool" where
  "entries_ok limit h c \<longleftrightarrow> tc_limit c = limit \<and> distinct (map fst (tc_entries c)) \<and> int (length (tc_entries c)) \<le> max 0 limit \<and>
     (\<forall>(n, e) \<in> set (tc_entries c). entry_ok h n e)"

lemma entry_ok_mono: "entry_ok h n e \<Longrightarrow> entry_ok (h @ h') n e"
  by (auto simp: entry_ok_def)

lemma evict_facts:
  "distinct (map fst es) \<Longrightarrow> 0 < limit \<Longrightarrow> int (length (evict choice limit es)) < limit \<and> distinct (map fst (evict choice limit es)) \<and>
     set (evict choice limit es) \<subseteq> set es"
proof (induction choice limit es rule: evict.induct)
  case (1 choice limit es)
  have sub: "set (evict_one choice es) \<subseteq> set es" by (auto simp: evict_one_def AList.delete_eq)
  have "distinct (map fst (evict_one choice es))" using 1(2) by (simp add: evict_one_def distinct_delete)
  with 1 sub show ?case by (subst (1 2 3) evict.simps) auto
qed

lemma length_AList_update: "length (AList.update k v es) = (if k \<in> fst ` set es then length es else Suc (length es))"
  by (induction es) auto

lemma cache_store_ok:
  assumes "entries_ok limit h c" "entry_ok h name e"
  shows "entries_ok limit h (cache_store choice name e c)"
proof (cases "tc_limit c \<le> 0")
  case False
  define es where "es = (if map_of (tc_entries c) name = None then evict choice (tc_limit c) (tc_entries c) else tc_entries c)"
  have E: "tc_limit c = limit" "distinct (map fst (tc_entries c))" "int (length (tc_entries c)) \<le> limit"
    "\<forall>(n, e) \<in> set (tc_entries c). entry_ok h n e"
    using assms(1) False by (auto simp: entries_ok_def)
  have es: "distinct (map fst es)" "set es \<subseteq> set (tc_entries c)"
    "int (length es) < limit \<or> name \<in> fst ` set es \<and> int (length es) \<le> limit"
    using evict_facts [OF E(2), of limit choice] E False by (auto simp: es_def map_of_eq_None_iff)
  have len: "int (length (AList.update name e es)) \<le> limit"
    using es(3) by (auto simp: length_AList_update)
  have "set (AList.update name e es) \<subseteq> insert (name, e) (set es)"
    by (induction es) auto
  with E es len assms(2) False show ?thesis
    by (auto simp: entries_ok_def cache_store_def Let_def es_def [symmetric] distinct_update)
qed (use assms in \<open>simp add: cache_store_def\<close>)

definition tag_inv :: "int \<Rightarrow> (tag_op \<times> tag_reply) list \<Rightarrow> tagCache \<Rightarrow> bool" where
  "tag_inv limit h c \<longleftrightarrow> calls_ok c \<and> owners_ok h c \<and> done_ok h c \<and> entries_ok limit h c"

lemma tag_inv_reply:
  assumes "tag_inv limit h c" "\<And>n v p. (op, r) \<noteq> (Ask n v, Owner p)" "\<And>p res ch. op \<noteq> Hashed p res ch"
  shows "tag_inv limit (h @ [(op, r)]) c"
  using assms unfolding tag_inv_def calls_ok_def owners_ok_def done_ok_def entries_ok_def
  by (auto intro!: entry_ok_mono; blast)

lemma get_call_inv:
  assumes "tag_inv limit h c" "get_call n v c = (r, c')"
  shows "tag_inv limit (h @ [(Ask n v, r)]) c'"
proof (cases "map_of (tc_calls c) (n, v)")
  case (Some p)
  with assms show ?thesis by (auto simp: get_call_def intro!: tag_inv_reply)
next
  case None
  let ?p = "length (tc_heap c)" and ?call = "\<lparr>tl_key = (n, v), tl_done = False, tl_tag = [], tl_err = None\<rparr>"
  have r: "r = Owner ?p" "c' = c\<lparr>tc_calls := AList.update (n, v) ?p (tc_calls c), tc_heap := tc_heap c @ [?call]\<rparr>"
    using assms(2) None by (auto simp: get_call_def)
  have inv: "calls_ok c" "owners_ok h c" "done_ok h c" "entries_ok limit h c" using assms(1) by (simp_all add: tag_inv_def)
  have "calls_ok c'"
    using inv(1) None unfolding r calls_ok_def
    by (auto simp: distinct_update update_conv' nth_append less_Suc_eq simp del: map_of_eq_Some_iff split: if_splits; metis option.distinct(1))
  moreover have "owners_ok (h @ [(Ask n v, r)]) c'"
    using inv(2) unfolding r owners_ok_def by (auto simp: nth_append less_Suc_eq)
  moreover have "done_ok (h @ [(Ask n v, r)]) c'"
    using inv(3) unfolding r done_ok_def by (auto simp: nth_append less_Suc_eq)
  moreover have "entries_ok limit (h @ [(Ask n v, r)]) c'"
    using inv(4) unfolding r entries_ok_def by (auto intro!: entry_ok_mono)
  ultimately show ?thesis by (simp add: tag_inv_def)
qed

lemma get_end_inv:
  assumes "tag_inv limit h c" "p < length (tc_heap c)" "\<not> tl_done (tc_heap c ! p)"
  shows "tag_inv limit (h @ [(Hashed p res choice, Ended)]) (get_end p res choice c)"
proof -
  have inv: "calls_ok c" "owners_ok h c" "done_ok h c" "entries_ok limit h c" using assms(1) by (simp_all add: tag_inv_def)
  define call where "call = (case res of HashResult tag err \<Rightarrow> (tc_heap c ! p)\<lparr>tl_tag := tag, tl_err := err\<rparr> | HashPanic \<Rightarrow> tc_heap c ! p)"
  let ?h = "h @ [(Hashed p res choice, Ended)]" and ?c = "c\<lparr>tc_calls := AList.delete (tl_key call) (tc_calls c)\<rparr>"
  let ?s = "if tl_err call = None \<and> tl_tag call \<noteq> '''' then
      cache_store choice (fst (tl_key call)) \<lparr>te_version = snd (tl_key call), te_tag = tl_tag call\<rparr> ?c else ?c"
  have ge: "get_end p res choice c = ?s\<lparr>tc_heap := (tc_heap c)[p := call\<lparr>tl_done := True\<rparr>]\<rparr>"
    by (simp add: get_end_def call_def [symmetric] Let_def cache_store_def)
  have parts: "tc_calls ?s = AList.delete (tl_key call) (tc_calls c)" "tc_heap ?s = tc_heap c"
    by (simp_all add: cache_store_def Let_def)
  have key: "tl_key call = tl_key (tc_heap c ! p)" by (simp add: call_def split: hash_result.split)
  have fresh: "tl_tag (tc_heap c ! p) = ''''" "tl_err (tc_heap c ! p) = None" using inv(3) assms(2,3) by (simp_all add: done_ok_def)
  have result: "result_of res = (tl_tag call, tl_err call)" using fresh by (simp add: call_def split: hash_result.split)
  have entry: "entry_ok ?h (fst (tl_key call)) \<lparr>te_version = snd (tl_key call), te_tag = tl_tag call\<rparr>"
    if "tl_err call = None" "tl_tag call \<noteq> ''''"
  proof -
    have "res = HashResult (tl_tag call) None" using result that by (cases res) auto
    moreover have "(Ask (fst (tl_key call)) (snd (tl_key call)), Owner p) \<in> set h"
      using inv(2) assms(2) key by (auto simp: owners_ok_def)
    ultimately show ?thesis using that by (auto simp: entry_ok_def)
  qed
  have "entries_ok limit ?h ?c" using inv(4) by (auto simp: entries_ok_def intro!: entry_ok_mono)
  then have "entries_ok limit ?h ?s" using cache_store_ok entry by auto
  then have "entries_ok limit ?h (get_end p res choice c)" unfolding ge by (simp add: entries_ok_def)
  moreover have "calls_ok (get_end p res choice c)"
    using inv(1) assms(2,3) unfolding ge calls_ok_def
    by (auto simp: parts distinct_delete delete_conv' key nth_list_update simp del: map_of_eq_Some_iff split: if_splits; metis option.inject)
  moreover have "owners_ok ?h (get_end p res choice c)"
    using inv(2) assms(2) unfolding ge owners_ok_def by (auto simp: nth_list_update key)
  moreover have "done_ok ?h (get_end p res choice c)"
    using inv(3) assms(2,3) result unfolding ge done_ok_def by (auto simp: nth_list_update; blast)
  ultimately show ?thesis by (simp add: tag_inv_def)
qed

lemma tag_history_inv: "tag_history limit h c \<Longrightarrow> tag_inv limit h c"
proof (induction rule: tag_history.induct)
  case start
  then show ?case by (simp add: tag_inv_def newTagCache_def calls_ok_def owners_ok_def done_ok_def entries_ok_def)
next
  case (step h c op r c')
  show ?case
  proof (cases op)
    case (Ask n v)
    show ?thesis
    proof (cases "\<exists>e. map_of (tc_entries c) n = Some e \<and> te_version e = v")
      case True
      with step Ask show ?thesis by (auto simp: get_begin_def intro!: tag_inv_reply)
    next
      case False
      with step Ask have "get_call n v c = (r, c')" by (auto simp: get_begin_def split: option.splits if_splits)
      with get_call_inv [OF step.IH] Ask show ?thesis by simp
    qed
  next
    case (Hashed p res choice)
    with step get_end_inv [OF step.IH, of p res choice] show ?thesis by auto
  qed
qed

text \<open>C40: The tag cache answers truthfully whatever requests run at once: a tag that is known was computed, without
  an error, for this very name and version; a request joins a call only for its own name and version and
  while that call is being computed; it computes a tag itself only when every earlier computation
  for the name and version has ended; a goroutine that waits is released exactly when its call has ended, also by an error or a panic, with
  that result; and there are never more entries than the limit.\<close>

theorem tag_cache_is_truthful:
  assumes "tag_history limit h c"
  shows "int (length (tc_entries c)) \<le> max 0 limit \<and>
    (\<forall>n v. case fst (get_begin n v c) of
       Known t \<Rightarrow> \<exists>p choice. (Ask n v, Owner p) \<in> set h \<and> (Hashed p (HashResult t None) choice, Ended) \<in> set h
     | Joined p \<Rightarrow> (Ask n v, Owner p) \<in> set h \<and> get_wait p c = None
     | Owner p \<Rightarrow> \<forall>q. (Ask n v, Owner q) \<in> set h \<longrightarrow> (\<exists>res choice. (Hashed q res choice, Ended) \<in> set h)
     | Ended \<Rightarrow> False) \<and>
    (\<forall>n v p. (Ask n v, Owner p) \<in> set h \<longrightarrow>
       (case get_wait p c of
          Some r \<Rightarrow> \<exists>res choice. (Hashed p res choice, Ended) \<in> set h \<and> r = result_of res
        | None \<Rightarrow> \<forall>res choice. (Hashed p res choice, Ended) \<notin> set h))"
proof -
  have inv: "calls_ok c" "owners_ok h c" "done_ok h c" "entries_ok limit h c"
    using tag_history_inv [OF assms] by (simp_all add: tag_inv_def)
  have call: "case fst (get_call n v c) of
       Known t \<Rightarrow> False
     | Joined p \<Rightarrow> (Ask n v, Owner p) \<in> set h \<and> get_wait p c = None
     | Owner p \<Rightarrow> \<forall>q. (Ask n v, Owner q) \<in> set h \<longrightarrow> (\<exists>res choice. (Hashed q res choice, Ended) \<in> set h)
     | Ended \<Rightarrow> False" for n v
  proof (cases "map_of (tc_calls c) (n, v)")
    case (Some p)
    then have "p < length (tc_heap c)" "tl_key (tc_heap c ! p) = (n, v)" "\<not> tl_done (tc_heap c ! p)"
      using inv(1) unfolding calls_ok_def by blast+
    with Some inv(2) show ?thesis by (auto simp: get_call_def get_wait_def owners_ok_def)
  next
    case None
    have "\<exists>res choice. (Hashed q res choice, Ended) \<in> set h" if "(Ask n v, Owner q) \<in> set h" for q
    proof -
      have q: "q < length (tc_heap c)" "tl_key (tc_heap c ! q) = (n, v)" using inv(2) that unfolding owners_ok_def by blast+
      with None inv(1) have "tl_done (tc_heap c ! q)" unfolding calls_ok_def by (metis option.distinct(1))
      with q(1) inv(3) show ?thesis unfolding done_ok_def by blast
    qed
    with None show ?thesis by (simp add: get_call_def)
  qed
  have first: "case fst (get_begin n v c) of
       Known t \<Rightarrow> \<exists>p choice. (Ask n v, Owner p) \<in> set h \<and> (Hashed p (HashResult t None) choice, Ended) \<in> set h
     | Joined p \<Rightarrow> (Ask n v, Owner p) \<in> set h \<and> get_wait p c = None
     | Owner p \<Rightarrow> \<forall>q. (Ask n v, Owner q) \<in> set h \<longrightarrow> (\<exists>res choice. (Hashed q res choice, Ended) \<in> set h)
     | Ended \<Rightarrow> False" for n v
  proof (cases "\<exists>e. map_of (tc_entries c) n = Some e \<and> te_version e = v")
    case True
    then obtain e where e: "map_of (tc_entries c) n = Some e" "te_version e = v" by blast
    have "entry_ok h n e" using map_of_SomeD [OF e(1)] inv(4) unfolding entries_ok_def by blast
    with e show ?thesis by (auto simp: get_begin_def entry_ok_def)
  next
    case False
    then have "get_begin n v c = get_call n v c" by (auto simp: get_begin_def split: option.splits)
    with call [of n v] show ?thesis by (auto split: tag_reply.splits)
  qed
  have waits: "case get_wait p c of
          Some r \<Rightarrow> \<exists>res choice. (Hashed p res choice, Ended) \<in> set h \<and> r = result_of res
        | None \<Rightarrow> \<forall>res choice. (Hashed p res choice, Ended) \<notin> set h" if "(Ask n v, Owner p) \<in> set h" for n v p
  proof -
    have p: "p < length (tc_heap c)" using inv(2) that unfolding owners_ok_def by blast
    show ?thesis
    proof (cases "tl_done (tc_heap c ! p)")
      case True
      with p inv(3) obtain res choice where "(Hashed p res choice, Ended) \<in> set h"
        "result_of res = (tl_tag (tc_heap c ! p), tl_err (tc_heap c ! p))" unfolding done_ok_def by blast
      with True show ?thesis by (auto simp: get_wait_def Let_def)
    next
      case False
      with p inv(3) show ?thesis unfolding done_ok_def get_wait_def Let_def by (simp, blast)
    qed
  qed
  have "int (length (tc_entries c)) \<le> max 0 limit" using inv(4) by (simp add: entries_ok_def)
  with first waits show ?thesis by blast
qed

lemma tag_cache_is_truthful_witness:
  "fst (get_begin ''a'' (versionOf 3 0) (snd (tag_step (Hashed 0 (HashResult ''x'' None) id)
     (snd (tag_step (Ask ''a'' (versionOf 3 0)) (newTagCache 1)))))) = Known ''x'' \<and>
   (\<exists>p choice. (Ask ''a'' (versionOf 3 0), Owner p) \<in> set [(Ask ''a'' (versionOf 3 0), Owner 0), (Hashed 0 (HashResult ''x'' None) id, Ended)])"
proof -
  let ?v = "versionOf 3 0" and ?op = "Hashed 0 (HashResult ''x'' None) id"
  let ?c = "snd (tag_step (Ask ''a'' ?v) (newTagCache 1))"
  let ?d = "snd (tag_step ?op ?c)"
  have r: "tag_step (Ask ''a'' ?v) (newTagCache 1) = (Owner 0, ?c)"
    by (simp add: get_begin_def get_call_def newTagCache_def)
  have valid: "tag_valid ?op ?c" by (simp add: get_begin_def get_call_def newTagCache_def)
  have h: "tag_history 1 ([(Ask ''a'' ?v, Owner 0)] @ [(?op, Ended)]) ?d"
    by (rule tag_history.step [OF tag_history.step [OF tag_history.start _ r, simplified append_Nil]]) (use valid in simp_all)
  have k: "fst (get_begin ''a'' ?v ?d) = Known ''x''"
    by (simp add: get_begin_def get_call_def newTagCache_def get_end_def cache_store_def evict.simps Let_def)
  have "case fst (get_begin ''a'' ?v ?d) of
       Known t \<Rightarrow> \<exists>p choice. (Ask ''a'' ?v, Owner p) \<in> set ([(Ask ''a'' ?v, Owner 0)] @ [(?op, Ended)]) \<and>
         (Hashed p (HashResult t None) choice, Ended) \<in> set ([(Ask ''a'' ?v, Owner 0)] @ [(?op, Ended)])
     | _ \<Rightarrow> True"
    using conjunct1 [OF conjunct2 [OF tag_cache_is_truthful [OF h]], rule_format, of "''a''" ?v] unfolding k by simp
  with k show ?thesis unfolding append_Cons append_Nil by (auto simp del: tag_step.simps)
qed

end
