(* ===== verification/StaticPath.thy ===== *)
theory StaticPath
  imports GoStrings
begin

text \<open>
  \<^verbatim>\<open>internal/static\<close>, from the request target to a file name: \<open>resolve\<close> and the rules on segments
  (path.go), and the media type of a name (media.go). The result of \<open>resolve\<close> with \<open>ok\<close> false is \<open>None\<close>.
\<close>

subsection \<open>Octets of a name (path.go)\<close>

definition indexFile :: string where [simp]: "indexFile = ''index.html''"

definition MaxTargetLength :: nat where [simp]: "MaxTargetLength = 4096"

definition path_unhex :: "char \<Rightarrow> byte option" where
  "path_unhex c =
     (if CHR ''0'' \<le> c \<and> c \<le> CHR ''9'' then Some (byte_of_char c - byte_of_char CHR ''0'')
      else if CHR ''a'' \<le> c \<and> c \<le> CHR ''f'' then Some (byte_of_char c - byte_of_char CHR ''a'' + 10)
      else if CHR ''A'' \<le> c \<and> c \<le> CHR ''F'' then Some (byte_of_char c - byte_of_char CHR ''A'' + 10)
      else None)"

definition badOctets :: string where
  "badOctets = [CHR ''/'', CHR 0x5C, CHR '':'', CHR ''*'', CHR ''?'', CHR 0x22, CHR ''<'', CHR ''>'', CHR ''|'']"

definition nameOctet :: "char \<Rightarrow> bool" where
  "nameOctet c \<longleftrightarrow> c > CHR 0x20 \<and> c \<noteq> CHR 0x7f \<and> c \<notin> set badOctets"

text \<open>The loop over a segment: an octet, or a percent sign with two hexadecimal digits.\<close>

fun unescape :: "string \<Rightarrow> string option" where
  "unescape [] = Some []"
| "unescape (c # cs) =
     (if c \<noteq> CHR ''%'' then
        (if \<not> nameOctet c then None else map_option (Cons c) (unescape cs))
      else
        (case cs of
           h # l # rest \<Rightarrow>
             (case (path_unhex h, path_unhex l) of
                (Some hi, Some lo) \<Rightarrow>
                  (let d = char_of_byte (push_bit 4 hi OR lo) in
                   if nameOctet d then map_option (Cons d) (unescape rest) else None)
              | _ \<Rightarrow> None)
         | _ \<Rightarrow> None))"

definition reservedNames :: "string list" where
  "reservedNames =
     [''CON'', ''PRN'', ''AUX'', ''NUL'',
      ''COM1'', ''COM2'', ''COM3'', ''COM4'', ''COM5'', ''COM6'', ''COM7'', ''COM8'', ''COM9'',
      ''LPT1'', ''LPT2'', ''LPT3'', ''LPT4'', ''LPT5'', ''LPT6'', ''LPT7'', ''LPT8'', ''LPT9'',
      ''CONIN$'', ''CONOUT$'']"

definition reserved :: "string \<Rightarrow> bool" where
  "reserved s =
     (let s = (case IndexByte s (CHR ''.'') of Some i \<Rightarrow> take i s | None \<Rightarrow> s) in
      ToUpper s \<in> set reservedNames)"

definition safeSegment :: "string \<Rightarrow> bool" where
  "safeSegment s =
     (if hd s = CHR ''.'' then False
      else if last s = CHR ''.'' then False
      else \<not> reserved s)"

subsection \<open>The target as a name (path.go)\<close>

text \<open>The loop over the raw segments; \<open>out\<close> is the slice that segments are appended to and popped from.\<close>

fun resolve_loop :: "string list \<Rightarrow> string list \<Rightarrow> string list option" where
  "resolve_loop [] out = Some out"
| "resolve_loop (seg # raw) out =
     (case unescape seg of
        None \<Rightarrow> None
      | Some s \<Rightarrow>
          if s = '''' \<or> s = ''.'' then resolve_loop raw out
          else if s = ''..'' then
            resolve_loop raw (if length out > 0 then take (length out - 1) out else out)
          else if \<not> safeSegment s then None
          else resolve_loop raw (out @ [s]))"

definition resolve :: "string \<Rightarrow> (string \<times> bool) option" where
  "resolve target =
     (let target = (case IndexByte target (CHR ''?'') of Some i \<Rightarrow> take i target | None \<Rightarrow> target) in
      if target = '''' \<or> target ! 0 \<noteq> CHR ''/'' then None
      else
        let raw = Split (drop 1 target) (CHR ''/'');
            slash = (raw ! (length raw - 1) = '''')
        in (case resolve_loop raw [] of
              None \<Rightarrow> None
            | Some out \<Rightarrow>
                if length out = 0 then Some (''.'', slash) else Some (Join out (CHR ''/''), slash)))"

subsection \<open>Media types (media.go, path.go)\<close>

definition octetStream :: string where "octetStream = ''application/octet-stream''"
definition textPlain :: string where "textPlain = ''text/plain; charset=utf-8''"

definition mediaTypes :: "(string \<times> string) list" where
  "mediaTypes =
     [(''.html'', ''text/html; charset=utf-8''),
      (''.htm'', ''text/html; charset=utf-8''),
      (''.xhtml'', ''application/xhtml+xml''),
      (''.css'', ''text/css; charset=utf-8''),
      (''.js'', ''text/javascript; charset=utf-8''),
      (''.mjs'', ''text/javascript; charset=utf-8''),
      (''.wasm'', ''application/wasm''),
      (''.map'', ''application/json''),
      (''.json'', ''application/json''),
      (''.xml'', ''application/xml''),
      (''.txt'', textPlain),
      (''.md'', ''text/markdown; charset=utf-8''),
      (''.csv'', ''text/csv; charset=utf-8''),
      (''.png'', ''image/png''),
      (''.jpg'', ''image/jpeg''),
      (''.jpeg'', ''image/jpeg''),
      (''.gif'', ''image/gif''),
      (''.webp'', ''image/webp''),
      (''.avif'', ''image/avif''),
      (''.svg'', ''image/svg+xml''),
      (''.ico'', ''image/vnd.microsoft.icon''),
      (''.woff'', ''font/woff''),
      (''.woff2'', ''font/woff2''),
      (''.ttf'', ''font/ttf''),
      (''.otf'', ''font/otf''),
      (''.mp4'', ''video/mp4''),
      (''.webm'', ''video/webm''),
      (''.mp3'', ''audio/mpeg''),
      (''.wav'', ''audio/wav''),
      (''.ogg'', ''audio/ogg''),
      (''.pdf'', ''application/pdf''),
      (''.zip'', ''application/zip''),
      (''.gz'', ''application/gzip''),
      (''.tar'', ''application/x-tar'')]"

text \<open>\<open>path.Ext\<close>: what follows the last point of the last element, with the point.\<close>

definition Ext :: "string \<Rightarrow> string" where
  "Ext p =
     (let tail = takeWhile (\<lambda>c. c \<noteq> CHR ''/'' \<and> c \<noteq> CHR ''.'') (rev p) in
      if take 1 (drop (length tail) (rev p)) = ''.'' then CHR ''.'' # rev tail else '''')"

definition mediaType :: "string \<Rightarrow> string" where
  "mediaType name = (case map_of mediaTypes (ToLower (Ext name)) of Some t \<Rightarrow> t | None \<Rightarrow> octetStream)"

subsection \<open>Where a name can lead\<close>

text \<open>A segment that names something inside the directory it is looked up in, on every platform.\<close>

definition device :: "string \<Rightarrow> bool" where
  "device s \<longleftrightarrow> ToUpper (takeWhile (\<lambda>c. c \<noteq> CHR ''.'') s) \<in> set reservedNames"

definition safe_name :: "string \<Rightarrow> bool" where
  "safe_name s \<longleftrightarrow> s \<noteq> '''' \<and> list_all nameOctet s \<and> hd s \<noteq> CHR ''.'' \<and> last s \<noteq> CHR ''.'' \<and> \<not> device s"

lemma nameOctet_no_sep: "nameOctet c \<Longrightarrow> c \<noteq> CHR ''/'' \<and> c \<noteq> CHR 0x5C \<and> c \<noteq> CHR '':'' \<and> c \<noteq> CHR 0x00"
proof -
  have "\<not> CHR 0x20 < CHR 0x00" by (simp add: less_char_def)
  then show "nameOctet c \<Longrightarrow> ?thesis" by (cases "c = CHR 0x00") (simp_all add: nameOctet_def badOctets_def)
qed

lemma safe_name_no_slash: "safe_name s \<Longrightarrow> CHR ''/'' \<notin> set s"
  by (auto simp: safe_name_def list_all_iff dest!: nameOctet_no_sep)

lemma unescape_plain [simp]: "c \<noteq> CHR ''%'' \<Longrightarrow> unescape (c # cs) = (if nameOctet c then map_option (Cons c) (unescape cs) else None)"
  by simp

lemma unescape_encoded:
  "unescape (CHR ''%'' # cs) = Some t \<Longrightarrow>
     \<exists>h l rest hi lo t'. cs = h # l # rest \<and> path_unhex h = Some hi \<and> path_unhex l = Some lo \<and> unescape rest = Some t' \<and>
       nameOctet (char_of_byte (push_bit 4 hi OR lo)) \<and> t = char_of_byte (push_bit 4 hi OR lo) # t'"
  unfolding unescape.simps Let_def by (simp split: list.splits option.splits if_splits) blast

lemma unescape_octets: "unescape s = Some t \<Longrightarrow> list_all nameOctet t"
proof (induction s arbitrary: t rule: length_induct)
  case (1 s)
  show ?case
  proof (cases s)
    case (Cons c cs)
    show ?thesis
    proof (cases "c = CHR ''%''")
      case True
      with "1.prems" Cons obtain h l rest hi lo t' where cs: "cs = h # l # rest" "unescape rest = Some t'"
        "nameOctet (char_of_byte (push_bit 4 hi OR lo))" "t = char_of_byte (push_bit 4 hi OR lo) # t'"
        using unescape_encoded [of cs t] by blast
      have "list_all nameOctet t'" using "1.IH" [rule_format, of rest t'] Cons cs(1,2) by simp
      with cs show ?thesis by simp
    next
      case False
      with Cons "1.prems" obtain t' where "nameOctet c" "unescape cs = Some t'" "t = c # t'"
        by (auto simp del: unescape.simps split: if_splits)
      with 1 Cons show ?thesis by auto
    qed
  qed (use 1 in simp)
qed

declare unescape.simps(2) [simp del]

lemma cut_before_point: "(case IndexByte s c of Some i \<Rightarrow> take i s | None \<Rightarrow> s) = takeWhile (\<lambda>x. x \<noteq> c) s"
  by (induction s) (auto split: option.splits)

lemma reserved_device: "reserved s = device s"
  by (simp add: reserved_def device_def Let_def cut_before_point)

lemma safeSegment_safe: "s \<noteq> '''' \<Longrightarrow> list_all nameOctet s \<Longrightarrow> safeSegment s \<longleftrightarrow> safe_name s"
  by (simp add: safeSegment_def safe_name_def reserved_device)

text \<open>The loop without the slice: what the segments decode to, and what \<open>..\<close> takes away.\<close>

fun walk :: "string list \<Rightarrow> string list \<Rightarrow> string list" where
  "walk [] out = out"
| "walk (s # ss) out =
     (if s = '''' \<or> s = ''.'' then walk ss out
      else if s = ''..'' then walk ss (butlast out)
      else walk ss (out @ [s]))"

definition dots :: "string \<Rightarrow> bool" where "dots s \<longleftrightarrow> s = '''' \<or> s = ''.'' \<or> s = ''..''"

lemma resolve_loop_walk:
  "resolve_loop raw out =
     (if \<forall>r\<in>set raw. \<exists>s. unescape r = Some s \<and> (dots s \<or> safe_name s)
      then Some (walk (map (the \<circ> unescape) raw) out) else None)"
proof (induction raw arbitrary: out)
  case (Cons r raw)
  show ?case
  proof (cases "unescape r")
    case (Some s)
    let ?good = "\<lambda>rs. \<forall>r\<in>set rs. \<exists>s. unescape r = Some s \<and> (dots s \<or> safe_name s)"
    have good: "?good (r # raw) \<longleftrightarrow> (dots s \<or> safe_name s) \<and> ?good raw" using Some by simp
    have safe: "safeSegment s \<longleftrightarrow> safe_name s" if "\<not> dots s"
      using that safeSegment_safe [OF _ unescape_octets [OF Some]] by (auto simp: dots_def)
    consider "s = '''' \<or> s = ''.''" | "s = ''..''" | "\<not> dots s" by (auto simp: dots_def)
    then show ?thesis
    proof cases
      case 3
      with safe Some Cons.IH [of "out @ [s]"] show ?thesis
        unfolding good by (cases "safe_name s") (simp_all add: dots_def comp_def)
    next
      case 2
      with Some Cons.IH [of "butlast out"] show ?thesis
        unfolding good by (cases out rule: rev_cases) (simp_all add: dots_def comp_def)
    next
      case 1
      with Some Cons.IH [of out] show ?thesis unfolding good by (elim disjE) (simp_all add: dots_def comp_def)
    qed
  qed simp
qed simp

lemma walk_safe: "list_all safe_name out \<Longrightarrow> \<forall>s\<in>set ss. dots s \<or> safe_name s \<Longrightarrow> list_all safe_name (walk ss out)"
  by (induction ss out rule: walk.induct) (auto simp: dots_def list_all_iff dest: in_set_butlastD)

end
