(* ===== verification/StaticTags.thy ===== *)
theory StaticTags
  imports GoStrings Request
begin

text \<open>
  \<^verbatim>\<open>internal/static\<close>, entity tags in fields: the lookup of a field (conditional.go), the parser of one tag and
  the two comparisons of a list of tags with the representation's (etag.go). The cache of computed
  tags is in \<open>TagCache\<close>.
\<close>

subsection \<open>One field (conditional.go)\<close>

fun lookup_loop :: "field list \<Rightarrow> string \<Rightarrow> string \<Rightarrow> int \<Rightarrow> string \<times> int" where
  "lookup_loop [] name v n = (v, n)"
| "lookup_loop (f # fs) name v n =
     (if Name f = name then lookup_loop fs name (Value f) (n + 1) else lookup_loop fs name v n)"

definition lookup :: "field list \<Rightarrow> string \<Rightarrow> string \<times> int" where
  "lookup fs name = lookup_loop fs name '''' 0"

subsection \<open>Entity tags (etag.go)\<close>

definition weakPrefix :: string where [simp]: "weakPrefix = ''W/''"

definition DQUOTE :: char where "DQUOTE = CHR 0x22"

definition OWS :: string where "OWS = [CHR '' '', CHR 0x09]"

text \<open>The opaque tag with its quotes, the weakness indicator, and what follows.\<close>

definition splitEntityTag :: "string \<Rightarrow> (string \<times> bool \<times> string) option" where
  "splitEntityTag s =
     (case CutPrefix s weakPrefix of (after, found) \<Rightarrow>
       let weak = found; s = (if found then after else s) in
       if take 1 s \<noteq> [DQUOTE] then None
       else (case IndexByte (drop 1 s) DQUOTE of
               None \<Rightarrow> None
             | Some end \<Rightarrow> Some (take (end + 2) s, weak, drop (end + 2) s)))"

lemma splitEntityTag_shorter: "splitEntityTag s = Some (opaque, weak, rest) \<Longrightarrow> length rest < length s"
  by (cases s) (auto simp: splitEntityTag_def CutPrefix_def Let_def split: if_splits option.splits)

lemma TrimLeft_shorter: "length (TrimLeft s cutset) \<le> length s"
  by (simp add: TrimLeft_def length_dropWhile_le)

lemma after_tag_shorter:
  "splitEntityTag (TrimLeft s OWS) = Some (opaque, weak, rest) \<Longrightarrow> length (tl (TrimLeft rest OWS)) < length s"
  using splitEntityTag_shorter [of "TrimLeft s OWS" opaque weak rest] TrimLeft_shorter [of s OWS] TrimLeft_shorter [of rest OWS]
  by simp

function matches_loop :: "string \<Rightarrow> string \<Rightarrow> bool \<Rightarrow> bool \<Rightarrow> bool" where
  "matches_loop rest tag weakOK found =
     (let rest = TrimLeft rest OWS in
      if rest = '''' then found
      else if hd rest = CHR '','' then matches_loop (tl rest) tag weakOK found
      else
        (case splitEntityTag rest of
           None \<Rightarrow> False
         | Some (opaque, weak, after) \<Rightarrow>
             let found = (if (weakOK \<or> \<not> weak) \<and> opaque = tag then True else found);
                 rest = TrimLeft after OWS
             in if rest = '''' then found
                else if hd rest \<noteq> CHR '','' then False
                else matches_loop (tl rest) tag weakOK found))"
  by pat_completeness auto

termination
proof (relation "measure (\<lambda>(rest, tag, weakOK, found). length rest)", goal_cases)
  case (2 rest tag weakOK found s)
  then show ?case using TrimLeft_shorter [of rest OWS] by (cases "TrimLeft rest OWS") auto
next
  case (3 rest tag weakOK found s)
  then show ?case using after_tag_shorter by (auto split: if_splits)
qed simp

declare matches_loop.simps [simp del]

definition matches :: "string \<Rightarrow> string \<Rightarrow> bool \<Rightarrow> bool" where
  "matches value tag weakOK = (if tag = '''' then False else matches_loop value tag weakOK False)"

definition matchesStrong :: "string \<Rightarrow> string \<Rightarrow> bool" where
  "matchesStrong value tag = matches value tag False"

definition matchesWeak :: "string \<Rightarrow> string \<Rightarrow> bool" where
  "matchesWeak value tag = matches value tag True"

end
