(* ===== verification/StaticRanges.thy ===== *)
theory StaticRanges
  imports StaticTags
begin

text \<open>
  \<^verbatim>\<open>internal/static\<close>, range requests (ranges.go): the parser of a range set, the decision of \<open>evaluateRange\<close>, and the
  plans of the bodies of 206 responses. An \<open>int64\<close> is an integer and \<open>int64\<close> below reduces the result of
  every addition and subtraction to 64 bits, as Go does; \<open>RangeProps\<close> shows that none of them wraps.
\<close>

definition int64 :: "int \<Rightarrow> int" where
  "int64 n = (n + 2 ^ 63) mod 2 ^ 64 - 2 ^ 63"

definition MaxInt64 :: int where "MaxInt64 = 2 ^ 63 - 1"

definition fieldRange :: string where [simp]: "fieldRange = ''range''"
definition fieldIfRange :: string where [simp]: "fieldIfRange = ''if-range''"
definition bytesUnit :: string where [simp]: "bytesUnit = ''bytes''"
definition multipartByteranges :: string where [simp]: "multipartByteranges = ''multipart/byteranges; boundary=''"
definition CRLF :: string where "CRLF = [CHR 0x0d, CHR 0x0a]"
definition maxRanges :: int where [simp]: "maxRanges = 16"

definition methodGet :: string where [simp]: "methodGet = ''GET''"
definition methodHead :: string where [simp]: "methodHead = ''HEAD''"

subsection \<open>Spans\<close>

record span =
  sp_first :: int
  sp_last :: int

definition span_length :: "span \<Rightarrow> int" where
  "span_length s = int64 (int64 (sp_last s - sp_first s) + 1)"

definition contentRange :: "span \<Rightarrow> int \<Rightarrow> string" where
  "contentRange s sz =
     bytesUnit @ '' '' @ FormatInt (sp_first s) @ ''-'' @ FormatInt (sp_last s) @ ''/'' @ FormatInt sz"

definition unsatisfiedRange :: "int \<Rightarrow> string" where
  "unsatisfiedRange sz = bytesUnit @ '' */'' @ FormatInt sz"

datatype rangeVerdict = rangeIgnore | rangePartial | rangeNotSatisfiable

subsection \<open>Parsing\<close>

text \<open>After the check, \<open>strconv.ParseInt\<close> can only fail because the numeral does not fit.\<close>

definition parsePos :: "string \<Rightarrow> int option" where
  "parsePos s =
     (if s = '''' then None
      else if list_ex (\<lambda>c. c < CHR ''0'' \<or> c > CHR ''9'') s then None
      else if digits s > MaxInt64 then Some MaxInt64
      else Some (digits s))"

text \<open>
  The results of \<open>parseRangeSpec\<close>: \<open>None\<close> is an invalid spec, \<open>Some None\<close> one that is valid and not satisfiable,
  \<open>Some (Some s)\<close> a span.
\<close>

definition parseRangeSpec :: "string \<Rightarrow> int \<Rightarrow> span option option" where
  "parseRangeSpec spec sz =
     (case CutPrefix spec ''-'' of (suffix, found) \<Rightarrow>
       if found then
         (case parsePos suffix of
            None \<Rightarrow> None
          | Some n \<Rightarrow>
              if n = 0 then Some None
              else if n \<ge> sz then Some (Some \<lparr>sp_first = 0, sp_last = int64 (sz - 1)\<rparr>)
              else Some (Some \<lparr>sp_first = int64 (sz - n), sp_last = int64 (sz - 1)\<rparr>))
       else
         (case Cut spec (CHR ''-'') of (from, to, found) \<Rightarrow>
           if \<not> found then None
           else
             (case parsePos from of
                None \<Rightarrow> None
              | Some start \<Rightarrow>
                  (case (if to \<noteq> '''' then
                           (case parsePos to of None \<Rightarrow> None | Some final \<Rightarrow> if final < start then None else Some final)
                         else Some MaxInt64) of
                     None \<Rightarrow> None
                   | Some final \<Rightarrow>
                       if start \<ge> sz then Some None
                       else Some (Some \<lparr>sp_first = start, sp_last = min final (int64 (sz - 1))\<rparr>)))))"

text \<open>
  The loop of \<open>parseRangeSet\<close> with its two accumulators: the spans, how many specs were read, and whether
  all were valid.
\<close>

function parseRangeSet_loop :: "string \<Rightarrow> int \<Rightarrow> span list \<Rightarrow> int \<Rightarrow> span list \<times> int \<times> bool" where
  "parseRangeSet_loop rset sz spans specs =
     (if rset = '''' then (spans, specs, True)
      else
        (case Cut rset (CHR '','') of (spec, others, _) \<Rightarrow>
          let spec = Trim spec OWS in
          if spec = '''' then parseRangeSet_loop others sz spans specs
          else
            let specs = specs + 1 in
            if specs > maxRanges then ([], specs, True)
            else
              (case parseRangeSpec spec sz of
                 None \<Rightarrow> ([], specs, False)
               | Some None \<Rightarrow> parseRangeSet_loop others sz spans specs
               | Some (Some s) \<Rightarrow> parseRangeSet_loop others sz (spans @ [s]) specs)))"
  by pat_completeness auto

termination
  by (relation "measure (\<lambda>(rset, sz, spans, specs). length rset)") (auto dest!: Cut_shorter [OF _ sym])

declare parseRangeSet_loop.simps [simp del]

definition parseRangeSet :: "string \<Rightarrow> int \<Rightarrow> span list \<times> int \<times> bool" where
  "parseRangeSet rset sz = parseRangeSet_loop rset sz [] 0"

subsection \<open>The decision\<close>

definition ifRangeIsFalse :: "request \<Rightarrow> string \<Rightarrow> bool" where
  "ifRangeIsFalse r tag =
     (case lookup (rq_Fields r) fieldIfRange of (value, lines) \<Rightarrow>
       if lines = 0 then False
       else if lines > 1 then True
       else (case splitEntityTag value of
               None \<Rightarrow> True
             | Some (opaque, weak, rest) \<Rightarrow> weak \<or> rest \<noteq> '''' \<or> tag = '''' \<or> opaque \<noteq> tag))"

text \<open>The running total; \<open>True\<close> when it exceeds the sz.\<close>

fun exceeds :: "span list \<Rightarrow> int \<Rightarrow> int \<Rightarrow> bool" where
  "exceeds [] acc sz = False"
| "exceeds (s # ss) acc sz =
     (let acc = int64 (acc + span_length s) in if acc > sz then True else exceeds ss acc sz)"

definition evaluateRange :: "request \<Rightarrow> string \<Rightarrow> int \<Rightarrow> span list \<times> rangeVerdict" where
  "evaluateRange r tag sz =
     (case lookup (rq_Fields r) fieldRange of (value, lines) \<Rightarrow>
       if lines \<noteq> 1 \<or> rq_Method r \<noteq> methodGet \<or> sz = 0 \<or> ifRangeIsFalse r tag then ([], rangeIgnore)
       else
         (case Cut value (CHR ''='') of (unit, rset, found) \<Rightarrow>
           if \<not> found \<or> \<not> EqualFold unit bytesUnit then ([], rangeIgnore)
           else
             (case parseRangeSet rset sz of (spans, specs, ok) \<Rightarrow>
               if \<not> ok \<or> specs = 0 then ([], rangeIgnore)
               else if specs > maxRanges \<or> length spans = 0 then ([], rangeNotSatisfiable)
               else if exceeds spans 0 sz then ([], rangeIgnore)
               else (spans, rangePartial))))"

subsection \<open>Plans\<close>

record range_plan =
  pl_lead :: "string list"
  pl_spans :: "span list"
  pl_length :: int

definition single :: "span \<Rightarrow> range_plan" where
  "single s = \<lparr>pl_lead = ['''', ''''], pl_spans = [s], pl_length = span_length s\<rparr>"

definition part_lead :: "nat \<Rightarrow> span \<Rightarrow> int \<Rightarrow> string \<Rightarrow> string \<Rightarrow> string" where
  "part_lead i s sz kind boundary =
     (let lead = ''--'' @ boundary @ CRLF @ ''Content-Type: '' @ kind @ CRLF @
                 ''Content-Range: '' @ contentRange s sz @ CRLF @ CRLF
      in if i > 0 then CRLF @ lead else lead)"

definition multipart :: "span list \<Rightarrow> int \<Rightarrow> string \<Rightarrow> string \<Rightarrow> range_plan" where
  "multipart spans sz kind boundary =
     (let lead = map (\<lambda>(i, s). part_lead i s sz kind boundary) (enumerate 0 spans) @ [CRLF @ ''--'' @ boundary @ ''--'' @ CRLF];
          n = foldl (\<lambda>n l. int64 (n + int (length l))) 0 lead;
          n = foldl (\<lambda>n s. int64 (n + span_length s)) n spans
      in \<lparr>pl_lead = lead, pl_spans = spans, pl_length = n\<rparr>)"

definition withRanges :: "field list \<Rightarrow> field list" where
  "withRanges fs = fs @ [\<lparr>Name = ''accept-ranges'', Value = bytesUnit, Sensitive = False\<rparr>]"

end
