(* ===== verification/TagProps.thy ===== *)
theory TagProps
  imports StaticTags
begin

text \<open>
  The comparison of a list of entity tags with the representation's: \<open>matches\<close> holds of exactly the values that
  are lists in the sense of RFC 9110 section 5.6.1 with a tag in them that matches.
\<close>

definition blanks :: "string \<Rightarrow> bool" where "blanks s \<longleftrightarrow> set s \<subseteq> set OWS"

text \<open>An opaque tag with its quotes, as it stands in a field value.\<close>

definition opaque_tag :: "string \<Rightarrow> bool" where
  "opaque_tag t \<longleftrightarrow> (\<exists>body. t = DQUOTE # body @ [DQUOTE] \<and> DQUOTE \<notin> set body)"

definition tag_text :: "bool \<times> string \<Rightarrow> string" where
  "tag_text wt = (case wt of (weak, t) \<Rightarrow> (if weak then ''W/'' else '''') @ t)"

text \<open>\<open>tag_list v ts\<close>: the value \<open>v\<close> is a list of the tags \<open>ts\<close>, with blanks around its elements and any number of them empty.\<close>

inductive tag_list :: "string \<Rightarrow> (bool \<times> string) list \<Rightarrow> bool" where
  NoElement: "blanks s \<Longrightarrow> tag_list s []"
| EmptyElement: "blanks s \<Longrightarrow> tag_list v ts \<Longrightarrow> tag_list (s @ CHR '','' # v) ts"
| LastTag: "blanks s \<Longrightarrow> opaque_tag t \<Longrightarrow> blanks s' \<Longrightarrow> tag_list (s @ tag_text (weak, t) @ s') [(weak, t)]"
| Tag: "blanks s \<Longrightarrow> opaque_tag t \<Longrightarrow> blanks s' \<Longrightarrow> tag_list v ts \<Longrightarrow>
    tag_list (s @ tag_text (weak, t) @ s' @ CHR '','' # v) ((weak, t) # ts)"

lemma TrimLeft_blanks [simp]: "blanks s \<Longrightarrow> TrimLeft (s @ t) OWS = TrimLeft t OWS"
  by (simp add: TrimLeft_def blanks_def subset_iff dropWhile_append2)

lemma TrimLeft_nil [simp]: "TrimLeft [] s = []"
  by (simp add: TrimLeft_def)

lemma TrimLeft_only_blanks [simp]: "blanks s \<Longrightarrow> TrimLeft s OWS = []"
  using TrimLeft_blanks [of s "[]"] by simp

lemma TrimLeft_stops: "c \<notin> set OWS \<Longrightarrow> TrimLeft (c # s) OWS = c # s"
  by (simp add: TrimLeft_def)

lemma TrimLeft_split: "\<exists>b. blanks b \<and> s = b @ TrimLeft s OWS \<and> (TrimLeft s OWS = [] \<or> hd (TrimLeft s OWS) \<notin> set OWS)"
proof -
  let ?P = "\<lambda>c. c \<in> set OWS"
  have "blanks (takeWhile ?P s)" by (auto simp: blanks_def dest: set_takeWhileD)
  moreover have "TrimLeft s OWS = [] \<or> hd (TrimLeft s OWS) \<notin> set OWS"
    using hd_dropWhile [of ?P s] by (auto simp: TrimLeft_def)
  moreover have "s = takeWhile ?P s @ TrimLeft s OWS" by (simp add: TrimLeft_def)
  ultimately show ?thesis by blast
qed

lemma separators [simp]: "CHR '','' \<notin> set OWS" "DQUOTE \<notin> set OWS" "CHR ''W'' \<notin> set OWS" "DQUOTE \<noteq> CHR '',''" "DQUOTE \<noteq> CHR ''W''"
  by (simp_all add: OWS_def DQUOTE_def)

lemma splitEntityTag_text: "opaque_tag t \<Longrightarrow> splitEntityTag (tag_text (weak, t) @ s) = Some (t, weak, s)"
proof -
  assume "opaque_tag t"
  then obtain body where b: "t = DQUOTE # body @ [DQUOTE]" "DQUOTE \<notin> set body" by (auto simp: opaque_tag_def)
  have i: "IndexByte (body @ DQUOTE # s) DQUOTE = Some (length body)" by (rule IndexByte_append [OF b(2)])
  show ?thesis
    by (cases weak) (simp_all add: splitEntityTag_def tag_text_def CutPrefix_def b(1) i Let_def)
qed

lemma splitEntityTag_Some:
  assumes "splitEntityTag s = Some (t, weak, rest)"
  shows "opaque_tag t \<and> s = tag_text (weak, t) @ rest"
proof -
  obtain u where u: "s = (if weak then ''W/'' else '''') @ u" "take 1 u = [DQUOTE]"
    "\<exists>i. IndexByte (drop 1 u) DQUOTE = Some i \<and> t = take (i + 2) u \<and> rest = drop (i + 2) u"
  proof -
    show thesis
    proof (cases "take (Suc (Suc 0)) s = ''W/''")
      case True
      then obtain u where "s = CHR ''W'' # CHR ''/'' # u" by (cases s; cases "tl s") auto
      then show thesis
        using assms by (intro that [of u]) (auto simp: splitEntityTag_def CutPrefix_def Let_def split: if_splits option.splits)
    next
      case False
      then show thesis
        using assms by (intro that [of s]) (auto simp: splitEntityTag_def CutPrefix_def Let_def split: if_splits option.splits)
    qed
  qed
  then obtain v i where v: "u = DQUOTE # v" "IndexByte v DQUOTE = Some i" "t = take (i + 2) u" "rest = drop (i + 2) u"
    by (cases u) auto
  note i = IndexByte_Some [OF v(2)]
  have split: "v = take i v @ DQUOTE # drop (i + 1) v"
    using i id_take_nth_drop [of i v] by simp
  have t: "t = DQUOTE # take i v @ [DQUOTE]" using v(1,3) i by (simp add: take_Suc_conv_app_nth)
  then have "opaque_tag t" using i by (auto simp: opaque_tag_def)
  with u(1) v(3,4) show ?thesis by (simp add: tag_text_def)
qed

lemma tag_text_starts: "opaque_tag t \<Longrightarrow> tag_text (weak, t) \<noteq> [] \<and> hd (tag_text (weak, t)) \<notin> set OWS \<and> hd (tag_text (weak, t)) \<noteq> CHR '',''"
  by (auto simp: tag_text_def opaque_tag_def)

lemma TrimLeft_tag [simp]: "opaque_tag t \<Longrightarrow> TrimLeft (tag_text (weak, t) @ s) OWS = tag_text (weak, t) @ s"
  using tag_text_starts [of t weak] by (cases "tag_text (weak, t)") (auto simp: TrimLeft_stops)

definition hit :: "bool \<Rightarrow> string \<Rightarrow> bool \<times> string \<Rightarrow> bool" where
  "hit weakOK tag wt = ((weakOK \<or> \<not> fst wt) \<and> snd wt = tag)"

lemma matches_loop_tag:
  assumes "blanks s" "opaque_tag t" "blanks s'"
  shows "matches_loop (s @ tag_text (weak, t) @ s') tag weakOK found = (found \<or> hit weakOK tag (weak, t))"
    "matches_loop (s @ tag_text (weak, t) @ s' @ CHR '','' # v) tag weakOK found =
       matches_loop v tag weakOK (found \<or> hit weakOK tag (weak, t))"
  using assms tag_text_starts [OF assms(2), of weak]
  by (simp_all add: matches_loop.simps [of "_ @ _"] splitEntityTag_text hit_def TrimLeft_stops)

lemma matches_loop_list: "tag_list v ts \<Longrightarrow> matches_loop v tag weakOK found = (found \<or> list_ex (hit weakOK tag) ts)"
proof (induction arbitrary: found rule: tag_list.induct)
  case (NoElement s)
  then show ?case by (simp add: matches_loop.simps)
next
  case (EmptyElement s v ts)
  then show ?case by (simp add: matches_loop.simps [of "_ @ _"] TrimLeft_stops)
qed (simp_all add: matches_loop_tag)

lemma matches_loop_is_list: "matches_loop v tag weakOK found \<Longrightarrow> \<exists>ts. tag_list v ts"
proof (induction v tag weakOK found rule: matches_loop.induct)
  case (1 rest tag weakOK found)
  obtain b where b: "blanks b" "rest = b @ TrimLeft rest OWS" using TrimLeft_split by metis
  let ?r = "TrimLeft rest OWS"
  consider "?r = []" | "?r \<noteq> []" "hd ?r = CHR '',''" | "?r \<noteq> []" "hd ?r \<noteq> CHR '',''" by blast
  then show ?case
  proof cases
    case 1
    with b tag_list.NoElement show ?thesis by auto
  next
    case 2
    with "1.prems" have "matches_loop (tl ?r) tag weakOK found" by (simp add: matches_loop.simps [of rest])
    with "1.IH"(1) [OF refl] 2 obtain ts where "tag_list (tl ?r) ts" by blast
    from tag_list.EmptyElement [OF b(1) this] 2 b(2) show ?thesis by (metis list.collapse)
  next
    case 3
    then obtain t weak rest' where sp: "splitEntityTag ?r = Some (t, weak, rest')"
      using "1.prems" by (auto simp: matches_loop.simps [of rest] split: option.splits)
    note tag = splitEntityTag_Some [OF sp]
    obtain b' where b': "blanks b'" "rest' = b' @ TrimLeft rest' OWS" using TrimLeft_split by metis
    let ?a = "TrimLeft rest' OWS" and ?f = "if (weakOK \<or> \<not> weak) \<and> t = tag then True else found"
    show ?thesis
    proof (cases "?a = []")
      case True
      with tag_list.LastTag [OF b(1) conjunct1 [OF tag] b'(1), of weak] b(2) b'(2) tag show ?thesis by (metis append_Nil2)
    next
      case False
      with "1.prems" 3 sp have c: "hd ?a = CHR '',''" "matches_loop (tl ?a) tag weakOK ?f"
        by (cases "(weakOK \<or> \<not> weak) \<and> t = tag"; auto simp: matches_loop.simps [of rest] Let_def split: if_splits)+
      with "1.IH"(2) [OF refl 3 sp refl refl refl refl False] obtain ts where ts: "tag_list (tl ?a) ts" by auto
      have "rest = b @ tag_text (weak, t) @ b' @ CHR '','' # tl ?a"
        using b(2) b'(2) tag c(1) False by (metis append_assoc list.collapse)
      with tag_list.Tag [OF b(1) conjunct1 [OF tag] b'(1) ts, of weak] show ?thesis by metis
    qed
  qed
qed

lemma matches_loop_iff: "matches_loop v tag weakOK False \<longleftrightarrow> (\<exists>ts. tag_list v ts \<and> list_ex (hit weakOK tag) ts)"
  using matches_loop_is_list [of v tag weakOK False] matches_loop_list [of v _ tag weakOK False] by auto

lemma matchesStrong_iff: "matchesStrong v tag \<longleftrightarrow> tag \<noteq> [] \<and> (\<exists>ts. tag_list v ts \<and> (False, tag) \<in> set ts)"
proof -
  have "list_ex (hit False tag) ts \<longleftrightarrow> (False, tag) \<in> set ts" for ts by (induction ts) (auto simp: hit_def)
  then show ?thesis by (simp add: matchesStrong_def matches_def matches_loop_iff)
qed

lemma matchesWeak_iff: "matchesWeak v tag \<longleftrightarrow> tag \<noteq> [] \<and> (\<exists>ts weak. tag_list v ts \<and> (weak, tag) \<in> set ts)"
proof -
  have "list_ex (hit True tag) ts \<longleftrightarrow> (\<exists>weak. (weak, tag) \<in> set ts)" for ts by (induction ts) (auto simp: hit_def)
  then show ?thesis by (simp add: matchesWeak_def matches_def matches_loop_iff)
qed

text \<open>A field of entity tags matches exactly when it is a list of tags with blanks and empty elements (RFC
  9110 sections 8.8.3 and 5.6.1), commas inside a tag being part of it, and one of them is the representation's:
  strongly only if it is not marked weak, weakly in either case. A value that is no list matches nothing, whatever it contains,
  and neither does any value when there is no tag.\<close>

theorem matches_exact:
  "(matchesStrong value tag \<longleftrightarrow> tag \<noteq> '''' \<and> (\<exists>ts. tag_list value ts \<and> (False, tag) \<in> set ts)) \<and>
   (matchesWeak value tag \<longleftrightarrow> tag \<noteq> '''' \<and> (\<exists>ts weak. tag_list value ts \<and> (weak, tag) \<in> set ts))"
  by (simp add: matchesStrong_iff matchesWeak_iff)

end
