(* ===== verification/DateProps.thy ===== *)
theory DateProps
  imports HttpDate
begin

text \<open>
  The calendar is right, and an HTTP date that the server has sent is read back as the instant it was made from.
\<close>

subsection \<open>The calendar\<close>

lemma quotient: "0 \<le> r \<Longrightarrow> r < n \<Longrightarrow> (n * k + r) div n = k" for r n k :: int
  by simp

lemma remainder: "y = n * k + r \<Longrightarrow> 0 \<le> r \<Longrightarrow> r < n \<Longrightarrow> y mod n = r" for r n k y :: int
  by simp

lemma year_yday_facts:
  assumes "year_yday d = (y, yd)"
  shows "d = days_before_year y + yd" "0 \<le> yd" "yd < 365 + (if isLeap y then 1 else 0)"
    "0 \<le> d \<Longrightarrow> 1 \<le> y"
proof -
  define a where "a = d div 146097"
  define r where "r = d mod 146097"
  define c where "c = min 3 (r div 36524)"
  define r2 where "r2 = r - 36524 * c"
  define e where "e = r2 div 1461"
  define r3 where "r3 = r2 mod 1461"
  define f where "f = min 3 (r3 div 365)"
  have "year_yday d = (400 * a + 100 * c + 4 * e + f + 1, r3 - 365 * f)"
    by (simp only: year_yday_def Let_def a_def r_def c_def r2_def e_def r3_def f_def)
  with assms have y: "y = 400 * a + 100 * c + 4 * e + f + 1" and yd: "yd = r3 - 365 * f" by simp_all
  have d: "d = 146097 * a + r" "0 \<le> r" "r < 146097" by (simp_all add: a_def r_def)
  have c: "0 \<le> c" "c \<le> 3" "0 \<le> r2" "r2 \<le> 36524" "c < 3 \<longrightarrow> r2 < 36524"
    using d by (auto simp: c_def r2_def min_def)
  have e: "r2 = 1461 * e + r3" "0 \<le> r3" "r3 < 1461" "0 \<le> e" "e \<le> 24"
    using c by (auto simp: e_def r3_def)
  have f: "0 \<le> f" "f \<le> 3" "0 \<le> yd" "yd \<le> 365" "f < 3 \<longrightarrow> yd < 365"
    using e by (auto simp: f_def yd min_def)
  have y4: "y - 1 = 4 * (100 * a + 25 * c + e) + f" "y - 1 = 100 * (4 * a + c) + (4 * e + f)" "y - 1 = 400 * a + (100 * c + 4 * e + f)"
    unfolding y by simp_all
  have "(y - 1) div 4 = 100 * a + 25 * c + e" unfolding y4(1) by (rule quotient) (use f(1,2) in simp_all)
  moreover have "(y - 1) div 100 = 4 * a + c" unfolding y4(2) by (rule quotient) (use e(4,5) f(1,2) in simp_all)
  moreover have "(y - 1) div 400 = a" unfolding y4(3) by (rule quotient) (use c(1,2) e(4,5) f(1,2) in simp_all)
  ultimately have q: "(y - 1) div 4 = 100 * a + 25 * c + e" "(y - 1) div 100 = 4 * a + c" "(y - 1) div 400 = a" .
  show "d = days_before_year y + yd"
    unfolding days_before_year_def q using y d(1) e(1) yd r2_def by simp
  show "0 \<le> yd" by (rule f)
  have "isLeap y" if "yd = 365"
  proof -
    have fr: "f = 3" "r3 = 1460" using that f yd by auto
    moreover have "e = 24 \<longrightarrow> c = 3" using c e fr by auto
    moreover have "e < 24 \<longrightarrow> y mod 100 = 4 * (e + 1)"
      using y4(2) fr e by (intro impI remainder [of _ _ "4 * a + c"]) simp_all
    moreover have "y = 4 * (100 * a + 25 * c + e + 1)" unfolding y using fr by simp
    moreover have "e = 24 \<and> c = 3 \<longrightarrow> y = 400 * (a + 1)" unfolding y using fr by simp
    ultimately show ?thesis using e unfolding isLeap_def by (cases "e = 24") auto
  qed
  with f(4) show "yd < 365 + (if isLeap y then 1 else 0)" by (cases "yd = 365") auto
  show "1 \<le> y" if "0 \<le> d" using that c(1) e(4) f(1) pos_imp_zdiv_nonneg_iff [of 146097 d] by (simp add: y a_def)
qed

lemma month_day_facts:
  assumes "month_day ns m d = (m', day)" "ns \<noteq> []" "0 \<le> d" "d < sum_list ns" "list_all (\<lambda>n. 0 < n) ns"
  shows "m \<le> m' \<and> m' < m + length ns \<and> 1 \<le> day \<and> day \<le> ns ! (m' - m) \<and> d = sum_list (take (m' - m) ns) + day - 1"
  using assms
proof (induction ns m d rule: month_day.induct)
  case (3 n n' ns m d)
  show ?case
  proof (cases "d < n")
    case False
    with 3 have "m + 1 \<le> m' \<and> m' < m + 1 + length (n' # ns) \<and> 1 \<le> day \<and> day \<le> (n' # ns) ! (m' - (m + 1)) \<and>
        d - n = sum_list (take (m' - (m + 1)) (n' # ns)) + day - 1" by simp
    moreover from this have "m' - m = Suc (m' - (m + 1))" by (elim conjE) arith
    ultimately show ?thesis by (auto simp: algebra_simps)
  qed (use 3 in auto)
qed auto

lemma month_lengths_facts [simp]:
  "month_lengths y \<noteq> []" "list_all (\<lambda>n. 0 < n) (month_lengths y)" "length (month_lengths y) = 12"
  "sum_list (month_lengths y) = 365 + (if isLeap y then 1 else 0)"
  by (simp_all add: month_lengths_def)

lemma Date_civil_of: "Date (civil_of t) = t"
proof -
  define s where "s = t div second"
  obtain y yd where yd: "year_yday (s div 86400) = (y, yd)" by (cases "year_yday (s div 86400)")
  obtain m day where md: "month_day (month_lengths y) 1 yd = (m, day)" by (cases "month_day (month_lengths y) 1 yd")
  note Y = year_yday_facts [OF yd]
  from month_day_facts [OF md] Y have M: "yd = days_before_month y m + day - 1"
    by (simp add: days_before_month_def)
  have h: "r div 3600 * 3600 + r mod 3600 div 60 * 60 + r mod 60 = r" for r :: int
  proof -
    have "r mod 3600 mod 60 = r mod 60" by (simp add: mod_mod_cancel)
    with div_mult_mod_eq [of r 3600] div_mult_mod_eq [of "r mod 3600" 60] show ?thesis by linarith
  qed
  have "(days_before_year y + days_before_month y m + day - 1) * 86400 + s mod 86400 = s"
    using Y(1) M by (metis add_diff_eq div_mult_mod_eq group_cancel.add1)
  with h [of "s mod 86400"] have "(days_before_year y + days_before_month y m + day - 1) * 86400 + s mod 86400 div 3600 * 3600 +
      s mod 86400 mod 3600 div 60 * 60 + s mod 86400 mod 60 = s" by linarith
  moreover have "Date (civil_of t) = ((days_before_year y + days_before_month y m + day - 1) * 86400 + s mod 86400 div 3600 * 3600 +
      s mod 86400 mod 3600 div 60 * 60 + s mod 86400 mod 60) * second + t mod second"
    unfolding Date_def civil_of_def Let_def s_def [symmetric] yd prod.case md by simp
  ultimately show ?thesis using div_mult_mod_eq [of t second] by (simp only: s_def)
qed

lemma civil_of_valid:
  assumes "0 \<le> t" "c = civil_of t"
  shows "1 \<le> cv_year c" "1 \<le> cv_month c" "cv_month c \<le> 12" "1 \<le> cv_day c" "cv_day c \<le> daysIn (cv_month c) (cv_year c)"
    "cv_day c \<le> 31" "0 \<le> cv_hour c" "cv_hour c < 24" "0 \<le> cv_min c" "cv_min c < 60" "0 \<le> cv_sec c" "cv_sec c < 60"
proof -
  define s where "s = t div second"
  obtain y yd where yd: "year_yday (s div 86400) = (y, yd)" by (cases "year_yday (s div 86400)")
  obtain m day where md: "month_day (month_lengths y) 1 yd = (m, day)" by (cases "month_day (month_lengths y) 1 yd")
  have c: "c = \<lparr>cv_year = y, cv_month = m, cv_day = day, cv_hour = s mod 86400 div 3600, cv_min = s mod 86400 mod 3600 div 60,
      cv_sec = s mod 86400 mod 60, cv_nsec = t mod second\<rparr>"
    by (simp add: assms(2) civil_of_def Let_def s_def [symmetric] yd md [unfolded One_nat_def])
  have "0 \<le> s div 86400" using assms(1) by (simp add: s_def second_def pos_imp_zdiv_nonneg_iff)
  with year_yday_facts [OF yd] have Y: "1 \<le> y" "0 \<le> yd" "yd < 365 + (if isLeap y then 1 else 0)" by auto
  from month_day_facts [OF md] Y have M: "1 \<le> m" "m \<le> 12" "1 \<le> day" "day \<le> daysIn m y"
    by (auto simp: daysIn_def)
  have "list_all (\<lambda>n. n \<le> 31) (month_lengths y)" by (simp add: month_lengths_def)
  with M(1,2) have "daysIn m y \<le> 31" by (auto simp: daysIn_def list_all_length)
  with M Y show "1 \<le> cv_year c" "1 \<le> cv_month c" "cv_month c \<le> 12" "1 \<le> cv_day c" "cv_day c \<le> daysIn (cv_month c) (cv_year c)"
    "cv_day c \<le> 31" by (simp_all add: c)
  have r: "0 \<le> s mod 86400" "s mod 86400 < 86400" by simp_all
  then show "0 \<le> cv_hour c" "cv_hour c < 24" by (auto simp: c)
  have q: "0 \<le> s mod 86400 mod 3600" "s mod 86400 mod 3600 < 3600" by simp_all
  then show "0 \<le> cv_min c" "cv_min c < 60" by (auto simp: c)
  show "0 \<le> cv_sec c" "cv_sec c < 60" by (simp_all add: c)
qed

subsection \<open>Dates that are sent are read back\<close>

lemma decimal_nat_length: "n < 10 ^ w \<Longrightarrow> 0 < w \<Longrightarrow> length (decimal_nat n) \<le> w"
proof (induction w arbitrary: n)
  case (Suc w)
  show ?case
  proof (cases "n < 10")
    case False
    with Suc.prems have "n div 10 < 10 ^ w" "0 < w" by (auto simp: less_mult_imp_div_less intro: Suc_leI gr0I)
    from Suc.IH [OF this] False show ?thesis by (simp add: decimal_nat.simps [of n])
  qed (simp add: decimal_nat.simps)
qed simp

lemma digits_zeros: "digits (replicate k (CHR ''0'') @ s) = digits s"
  by (induction k) (simp_all add: digits_def digit_value_def)

lemma format_int_digits:
  assumes "0 \<le> n" "n < 10 ^ w" "0 < w"
  shows "length (format_int n w) = w \<and> list_all isDigit (format_int n w) \<and> digits (format_int n w) = n"
proof -
  have zeros: "list_all isDigit (replicate k (CHR ''0''))" for k by (simp add: list_all_iff isDigit_def less_eq_char_def)
  have "nat n < 10 ^ w" using assms(1,2) by (simp add: nat_less_iff)
  note len = decimal_nat_length [OF this assms(3)]
  show ?thesis
    using decimal_nat_digits [of "nat n"] len assms(1) zeros
    by (simp add: format_int_def Let_def digits_zeros)
qed

lemma getnum_two: "0 \<le> n \<Longrightarrow> n < 100 \<Longrightarrow> getnum (format_int n 2 @ v) b = Some (n, v)"
  using format_int_digits [of n 2] by (auto simp: getnum_def digit_at_def nth_append list_all_length)

lemma year_four:
  assumes "0 \<le> n" "n < 10000"
  shows "atoi (format_int n 4) = Some n \<and> length (format_int n 4) = 4 \<and> digit_at (format_int n 4 @ v) 0"
proof -
  have a: "length (format_int n 4) = 4" "list_all isDigit (format_int n 4)" "digits (format_int n 4) = n"
    using format_int_digits [of n 4] assms by simp_all
  then have h: "isDigit (hd (format_int n 4))" by (cases "format_int n 4") auto
  then have "hd (format_int n 4) \<noteq> CHR ''-''" "hd (format_int n 4) \<noteq> CHR ''+''" by (auto simp: isDigit_def less_eq_char_def)
  with a show ?thesis by (auto simp: atoi_def digit_at_def nth_append list_all_length)
qed

lemma two_first: "0 \<le> n \<Longrightarrow> n < 100 \<Longrightarrow> \<exists>c s. format_int n 2 @ v = c # s \<and> isDigit c"
  using format_int_digits [of n 2] by (cases "format_int n 2") auto

lemma day_name: "i < 7 \<Longrightarrow> lookup_name shortDayNames 0 (shortDayNames ! i @ v) = Some (i, v)"
proof -
  assume "i < 7"
  then consider "i = 0" | "i = 1" | "i = 2" | "i = 3" | "i = 4" | "i = 5" | "i = 6" by linarith
  then show ?thesis by cases (simp_all add: shortDayNames_def lower_octet_def less_eq_char_def)
qed

lemma month_name: "i < 12 \<Longrightarrow> lookup_name shortMonthNames 0 (shortMonthNames ! i @ v) = Some (i, v)"
proof -
  assume "i < 12"
  then have "i \<in> set [0..<12]" by simp
  also have "[0..<12] = [0, 1, 2, 3, 4, 5, 6, 7, 8, 9, 10, 11 :: nat]" by code_simp
  finally show ?thesis
    by (simp only: list.set insert_iff empty_iff, elim disjE FalseE)
      (simp_all add: shortMonthNames_def lower_octet_def less_eq_char_def)
qed

lemma weekday_bound: "weekday t < 7"
  by (simp add: weekday_def)

lemma cutspace_stop: "v \<noteq> '''' \<Longrightarrow> hd v \<noteq> CHR '' '' \<Longrightarrow> cutspace (v @ w) = v @ w"
  by (cases v) auto

lemma cutspace_number: "0 \<le> n \<Longrightarrow> n < 10 ^ w \<Longrightarrow> 0 < w \<Longrightarrow> cutspace (format_int n w @ v) = format_int n w @ v"
  using format_int_digits [of n w]
  by (intro cutspace_stop; cases "format_int n w") (auto simp: isDigit_def less_eq_char_def)

lemma cutspace_month: "i < 12 \<Longrightarrow> cutspace (shortMonthNames ! i @ v) = shortMonthNames ! i @ v"
proof (rule cutspace_stop)
  assume "i < 12"
  moreover have "list_all (\<lambda>n. n \<noteq> '''' \<and> hd n \<noteq> CHR '' '') shortMonthNames" by code_simp
  ultimately show "shortMonthNames ! i \<noteq> ''''" "hd (shortMonthNames ! i) \<noteq> CHR '' ''"
    by (auto simp: list_all_length shortMonthNames_def)
qed

text \<open>The round trip, in whole seconds of years up to 9999: each element of the layout reads what it printed.\<close>

lemma Parse_Format:
  assumes "0 \<le> t" "t mod second = 0" "cv_year (civil_of t) < 10000"
  shows "Parse_time imfFixdate (Format imfFixdate t) = Some t"
proof -
  define c where "c = civil_of t"
  note V = civil_of_valid [OF assms(1) c_def]
  have nsec: "cv_nsec c = 0" using assms(2) by (simp add: c_def civil_of_def Let_def split: prod.splits)
  have m: "cv_month c - 1 < 12" "Suc (cv_month c - 1) = cv_month c" using V(2,3) by auto
  have num: "getnum (format_int (cv_day c) 2 @ v) b = Some (cv_day c, v)" "getnum (format_int (cv_hour c) 2 @ v) b = Some (cv_hour c, v)"
    "getnum (format_int (cv_min c) 2 @ v) b = Some (cv_min c, v)" "getnum (format_int (cv_sec c) 2 @ v) b = Some (cv_sec c, v)" for b v
    using V by (intro getnum_two; simp)+
  have cut: "cutspace (format_int (cv_day c) 2 @ v) = format_int (cv_day c) 2 @ v" "cutspace (format_int (cv_hour c) 2 @ v) = format_int (cv_hour c) 2 @ v"
    "cutspace (format_int (cv_year c) 4 @ v) = format_int (cv_year c) 4 @ v" for v
    using V assms(3) by (auto simp: c_def [symmetric] intro!: cutspace_number)
  have y: "0 \<le> cv_year c" "cv_year c < 10000" using V(1) assms(3) by (simp_all add: c_def)
  have whole: "\<lparr>cv_year = cv_year c, cv_month = cv_month c, cv_day = cv_day c, cv_hour = cv_hour c, cv_min = cv_min c,
      cv_sec = cv_sec c, cv_nsec = 0\<rparr> = c"
    using nsec by (cases c) simp
  have "parse_chunks imfFixdate (Format imfFixdate t) no_fields = Some c"
    unfolding Format_def imfFixdate_def c_def [symmetric]
    using V
    by (simp add: day_name [OF weekday_bound] month_name [OF m(1) [unfolded One_nat_def]] num cut
        cutspace_month [OF m(1) [unfolded One_nat_def]] m(2) [unfolded One_nat_def]
        year_four [OF y] no_fields_def whole)
  with V show ?thesis by (simp add: Parse_time_def c_def Date_civil_of)
qed

end
