(* ===== verification/Conditional.thy ===== *)
theory Conditional
  imports TagProps DateProps
begin

text \<open>
  \<^verbatim>\<open>internal/static\<close>, conditional requests (conditional.go): the modification date of a file, the dates in
  fields, and \<open>evaluate\<close>, which decides between sending, a 304 and a 412.
\<close>

definition fieldIfMatch :: string where [simp]: "fieldIfMatch = ''if-match''"
definition fieldIfNoneMatch :: string where [simp]: "fieldIfNoneMatch = ''if-none-match''"
definition fieldIfModifiedSince :: string where [simp]: "fieldIfModifiedSince = ''if-modified-since''"
definition fieldIfUnmodifiedSince :: string where [simp]: "fieldIfUnmodifiedSince = ''if-unmodified-since''"

datatype verdict = verdictSend | verdictNotModified | verdictFailed

definition condDate :: "request \<Rightarrow> string \<Rightarrow> instant \<Rightarrow> instant \<Rightarrow> instant option" where
  "condDate r name md now =
     (if IsZero md then None
      else (case lookup (rq_Fields r) name of (value, lines) \<Rightarrow>
              if lines \<noteq> 1 then None else parseHTTPDate value now))"

definition modTime :: "instant \<Rightarrow> instant \<Rightarrow> instant" where
  "modTime md now =
     (if IsZero md then 0
      else
        let md = Truncate_second md; origin = Truncate_second now in
        if md > origin then origin else md)"

text \<open>Steps 3 to 6, which the first two branches fall through to.\<close>

definition evaluate_cached :: "request \<Rightarrow> string \<Rightarrow> instant \<Rightarrow> instant \<Rightarrow> verdict" where
  "evaluate_cached r tag md now =
     (case lookup (rq_Fields r) fieldIfNoneMatch of (value, lines) \<Rightarrow>
       if lines > 0 then
         (if lines = 1 \<and> (value = ''*'' \<or> matchesWeak value tag) then verdictNotModified else verdictSend)
       else (case condDate r fieldIfModifiedSince md now of
               Some dt \<Rightarrow> if \<not> md > dt then verdictNotModified else verdictSend
             | None \<Rightarrow> verdictSend))"

definition evaluate :: "request \<Rightarrow> string \<Rightarrow> instant \<Rightarrow> instant \<Rightarrow> verdict" where
  "evaluate r tag md now =
     (case lookup (rq_Fields r) fieldIfMatch of (value, lines) \<Rightarrow>
       if lines > 0 then
         (if lines > 1 \<or> (value \<noteq> ''*'' \<and> \<not> matchesStrong value tag) then verdictFailed
          else evaluate_cached r tag md now)
       else (case condDate r fieldIfUnmodifiedSince md now of
               Some dt \<Rightarrow> if md > dt then verdictFailed else evaluate_cached r tag md now
             | None \<Rightarrow> evaluate_cached r tag md now))"

subsection \<open>What a client that repeats a validator is told\<close>

lemma modTime_facts: "modTime m now mod second = 0" "0 \<le> m \<Longrightarrow> 0 \<le> now \<Longrightarrow> 0 \<le> modTime m now" "0 < m \<Longrightarrow> modTime m now \<le> now"
proof -
  have t: "Truncate_second x mod second = 0" "Truncate_second x \<le> x" for x
    by (simp_all add: Truncate_second_def second_def minus_mod_eq_div_mult)
  have t0: "0 \<le> Truncate_second x" if "0 \<le> x" for x
    using that by (simp add: Truncate_second_def second_def zmod_le_nonneg_dividend)
  show "modTime m now mod second = 0" using t by (simp add: modTime_def Let_def)
  show "0 \<le> modTime m now" if "0 \<le> m" "0 \<le> now" using t0 that by (simp add: modTime_def Let_def)
  show "modTime m now \<le> now" if "0 < m" using t(2) [of now] that by (auto simp: modTime_def Let_def IsZero_def)
qed

lemma matches_own: "opaque_tag t \<Longrightarrow> matchesStrong t t \<and> matchesWeak t t"
proof -
  assume t: "opaque_tag t"
  then have "tag_list t [(False, t)]" using tag_list.LastTag [of "[]" t "[]" False] by (simp add: blanks_def tag_text_def)
  then have "\<exists>ts. tag_list t ts \<and> (False, t) \<in> set ts" by (metis list.set_intros(1))
  moreover have "t \<noteq> []" using t by (auto simp: opaque_tag_def)
  ultimately show ?thesis unfolding matchesStrong_iff matchesWeak_iff by blast
qed

lemma condDate_sent:
  assumes "lookup (rq_Fields r) name = (Format imfFixdate (modTime m now), 1)" "0 < m" "0 \<le> now" "modTime m now \<noteq> 0"
    "cv_year (civil_of (modTime m now)) < 10000"
  shows "condDate r name (modTime m now) now' = Some (modTime m now)"
proof -
  have "Parse_time imfFixdate (Format imfFixdate (modTime m now)) = Some (modTime m now)"
    by (rule Parse_Format [OF modTime_facts(2,1) assms(5)]) (use assms(2,3) in simp_all)
  then have "parseHTTPDate (Format imfFixdate (modTime m now)) now' = Some (modTime m now)"
    by (simp only: parseHTTPDate_def parseExact_def option.case)
  with assms(1,4) show ?thesis by (simp add: condDate_def IsZero_def)
qed

definition present :: "request \<Rightarrow> string \<Rightarrow> bool" where
  "present r name \<longleftrightarrow> name \<in> Name ` set (rq_Fields r)"

lemma lookup_loop_count: "snd (lookup_loop fs name v n) = n + int (length (List.filter (\<lambda>f. Name f = name) fs))"
  by (induction fs name v n rule: lookup_loop.induct) auto

lemma lookup_absent: "\<not> present r name \<Longrightarrow> \<exists>v. lookup (rq_Fields r) name = (v, 0)"
proof -
  assume "\<not> present r name"
  then have "List.filter (\<lambda>f. Name f = name) (rq_Fields r) = []" by (auto simp: present_def filter_empty_conv)
  then have "snd (lookup (rq_Fields r) name) = 0" by (simp add: lookup_def lookup_loop_count)
  then show ?thesis by (cases "lookup (rq_Fields r) name") auto
qed


definition asks :: "string \<Rightarrow> string \<Rightarrow> request" where
  "asks name v = new_request\<lparr>rq_Method := ''GET'', rq_Path := ''/a'', rq_Fields := [\<lparr>Name = name, Value = v, Sensitive = False\<rparr>]\<rparr>"


end
