(* ===== verification/Static.thy ===== *)
theory Static
  imports StaticPath StaticRanges Conditional TagCache Response
begin

text \<open>
  \<^verbatim>\<open>internal/static\<close>, the handler (static.go, and partial and send of ranges.go): from a request to the calls on the
  response's writer.

  What the file system, the clocks, the tag cache and the random number generator answer is the environment: \<open>ev_open\<close> is
  \<open>os.Root.Open\<close> with the \<open>Stat\<close> of the handle, \<open>fl_reads f off n\<close> the sequence of results of reading the \<open>n\<close> octets at
  \<open>off\<close> through a limited or a section reader (the octets that each \<open>Read\<close> returned, then nil for \<open>io.EOF\<close> or the error), \<open>ev_tag\<close> what
  \<open>etag\<close> returned (\<open>TagCache\<close>), \<open>ev_now\<close> the clock as \<open>serve\<close> reads it and \<open>ev_now'\<close> as \<open>answer\<close> does. The buffers and the closing of handles are left out.
\<close>

definition status200 :: string where [simp]: "status200 = ''200''"
definition status206 :: string where [simp]: "status206 = ''206''"
definition status301 :: string where [simp]: "status301 = ''301''"
definition status304 :: string where [simp]: "status304 = ''304''"
definition status404 :: string where [simp]: "status404 = ''404''"
definition status405 :: string where [simp]: "status405 = ''405''"
definition status412 :: string where [simp]: "status412 = ''412''"
definition status414 :: string where [simp]: "status414 = ''414''"
definition status416 :: string where [simp]: "status416 = ''416''"

definition LF :: string where "LF = [CHR 0x0a]"

definition body404 :: string where "body404 = ''404 not found'' @ LF"
definition body405 :: string where "body405 = ''405 method not allowed'' @ LF"
definition body412 :: string where "body412 = ''412 precondition failed'' @ LF"
definition body414 :: string where "body414 = ''414 URI too long'' @ LF"
definition body416 :: string where "body416 = ''416 range not satisfiable'' @ LF"

definition allowedMethods :: string where "allowedMethods = ''GET, HEAD''"
definition serverName :: string where "serverName = ''zdh''"

definition errFileChanged :: error where
  "errFileChanged = Sentinel ''static: the file was truncated while it was being sent''"

definition ErrShortWrite :: error where "ErrShortWrite = Sentinel ''short write''"

definition noContentLength :: int where [simp]: "noContentLength = -1"

record served =
  fl_IsDir :: bool
  fl_IsRegular :: bool
  fl_Size :: int
  fl_ModTime :: instant
  fl_reads :: "int \<Rightarrow> int \<Rightarrow> byte list list \<times> error option"

record static_env =
  ev_open :: "string \<Rightarrow> served option"
  ev_now :: instant
  ev_now' :: instant
  ev_tag :: "string \<Rightarrow> served \<Rightarrow> instant \<Rightarrow> string"
  ev_boundary :: string

subsection \<open>Field sections\<close>

abbreviation fld :: "string \<Rightarrow> string \<Rightarrow> field" where
  "fld n v \<equiv> \<lparr>Name = n, Value = v, Sensitive = False\<rparr>"

definition static_fields :: "instant \<Rightarrow> string \<Rightarrow> string \<Rightarrow> int \<Rightarrow> field list" where
  "static_fields now status kind len =
     [fld '':status'' status] @
     (if len \<noteq> noContentLength then [fld ''content-length'' (FormatInt len)] else []) @
     (if kind \<noteq> '''' then [fld ''content-type'' kind] else []) @
     [fld ''date'' (Format imfFixdate now), fld ''server'' serverName]"

definition withValidator :: "field list \<Rightarrow> string \<Rightarrow> instant \<Rightarrow> field list" where
  "withValidator fs tag md =
     (let fs = (if tag \<noteq> '''' then fs @ [fld ''etag'' tag] else fs) in
      if IsZero md then fs else fs @ [fld ''last-modified'' (Format imfFixdate md)])"

definition withSlash :: "string \<Rightarrow> string" where
  "withSlash target =
     (case IndexByte target (CHR ''?'') of
        Some i \<Rightarrow> take i target @ ''/'' @ drop i target
      | None \<Rightarrow> target @ ''/'')"

definition path_join :: "string \<Rightarrow> string \<Rightarrow> string" where
  "path_join name e = (if name = ''.'' then e else name @ ''/'' @ e)"

subsection \<open>Sending\<close>

text \<open>\<open>None\<close> is a call on the writer that does not return (\<open>Response\<close>).\<close>

type_synonym 'e outcome = "(error option \<times> 'e resp_state) option"

text \<open>\<open>io.CopyBuffer\<close> into the writer: the count of octets written, and the first error of either side.\<close>

fun CopyBuffer :: "'e write_half \<Rightarrow> byte list list \<Rightarrow> error option \<Rightarrow> int \<Rightarrow> 'e resp_state \<Rightarrow> ((int \<times> error option) \<times> 'e resp_state) option" where
  "CopyBuffer wh [] er written s = Some ((written, er), s)"
| "CopyBuffer wh (b # bs) er written s =
     (case Write wh b s of
        None \<Rightarrow> None
      | Some ((n, Some e), s) \<Rightarrow> Some ((written + int n, Some e), s)
      | Some ((n, None), s) \<Rightarrow>
          if n \<noteq> length b then Some ((written + int n, Some ErrShortWrite), s)
          else CopyBuffer wh bs er (written + int n) s)"

text \<open>\<open>file\<close>.\<close>

definition static_file :: "static_env \<Rightarrow> 'e write_half \<Rightarrow> request \<Rightarrow> served \<Rightarrow> string \<Rightarrow> string \<Rightarrow> instant \<Rightarrow> instant \<Rightarrow> 'e resp_state \<Rightarrow> 'e outcome" where
  "static_file env wh r f kind tag now md s =
     (let sz = fl_Size f;
          fs = withRanges (withValidator (static_fields now status200 kind sz) tag md) in
      if rq_Method r = methodHead \<or> sz = 0 then Some (WriteBodylessHeader wh fs s)
      else
        (case WriteHeader wh fs s of
           (Some e, s) \<Rightarrow> Some (Some e, s)
         | (None, s) \<Rightarrow>
             (case fl_reads f 0 sz of (bs, er) \<Rightarrow>
               (case CopyBuffer wh bs er 0 s of
                  None \<Rightarrow> None
                | Some ((n, Some e), s) \<Rightarrow> Some (Some e, s)
                | Some ((n, None), s) \<Rightarrow>
                    (case resp_Close wh s of
                       (Some e, s) \<Rightarrow> Some (Some e, s)
                     | (None, s) \<Rightarrow> Some (if n \<noteq> sz then Some errFileChanged else None, s))))))"

definition notModified :: "'e write_half \<Rightarrow> instant \<Rightarrow> string \<Rightarrow> instant \<Rightarrow> 'e resp_state \<Rightarrow> 'e outcome" where
  "notModified wh now tag md s =
     Some (WriteBodylessHeader wh (withValidator (static_fields now status304 '''' noContentLength) tag md) s)"

definition answer :: "static_env \<Rightarrow> 'e write_half \<Rightarrow> request \<Rightarrow> string \<Rightarrow> string \<Rightarrow> string \<Rightarrow> field list \<Rightarrow> 'e resp_state \<Rightarrow> 'e outcome" where
  "answer env wh r status kind body extra s =
     (let fs = static_fields (ev_now' env) status kind (int (length body)) @ extra in
      if rq_Method r = methodHead \<or> body = '''' then Some (WriteBodylessHeader wh fs s)
      else
        (case WriteHeader wh fs s of
           (Some e, s) \<Rightarrow> Some (Some e, s)
         | (None, s) \<Rightarrow>
             (case Write wh (bytes_of body) s of
                None \<Rightarrow> None
              | Some ((n, Some e), s) \<Rightarrow> Some (Some e, s)
              | Some ((n, None), s) \<Rightarrow> Some (resp_Close wh s))))"

text \<open>The loop of \<open>send\<close> over the leads and the spans between them, and the last lead; \<open>sent\<close> counts what was written.\<close>

fun send_parts :: "'e write_half \<Rightarrow> served \<Rightarrow> string list \<Rightarrow> span list \<Rightarrow> int \<Rightarrow> 'e resp_state \<Rightarrow> ((int \<times> error option) \<times> 'e resp_state) option" where
  "send_parts wh f (lead # leads) (sp # sps) sent s =
     (case Write wh (bytes_of lead) s of
        None \<Rightarrow> None
      | Some ((n, Some e), s) \<Rightarrow> Some ((sent + int n, Some e), s)
      | Some ((n, None), s) \<Rightarrow>
          (case fl_reads f (sp_first sp) (span_length sp) of (bs, er) \<Rightarrow>
            (case CopyBuffer wh bs er 0 s of
               None \<Rightarrow> None
             | Some ((m, Some e), s) \<Rightarrow> Some ((sent + int n + m, Some e), s)
             | Some ((m, None), s) \<Rightarrow> send_parts wh f leads sps (sent + int n + m) s)))"
| "send_parts wh f (lead # leads) [] sent s =
     (case Write wh (bytes_of lead) s of
        None \<Rightarrow> None
      | Some ((n, e), s) \<Rightarrow> Some ((sent + int n, e), s))"
| "send_parts wh f [] sps sent s = Some ((sent, Some Panic), s)"

definition send_plan :: "'e write_half \<Rightarrow> served \<Rightarrow> field list \<Rightarrow> range_plan \<Rightarrow> 'e resp_state \<Rightarrow> 'e outcome" where
  "send_plan wh f fs p s =
     (case WriteHeader wh fs s of
        (Some e, s) \<Rightarrow> Some (Some e, s)
      | (None, s) \<Rightarrow>
          (case send_parts wh f (pl_lead p) (pl_spans p) 0 s of
             None \<Rightarrow> None
           | Some ((n, Some e), s) \<Rightarrow> Some (Some e, s)
           | Some ((n, None), s) \<Rightarrow>
               (case resp_Close wh s of
                  (Some e, s) \<Rightarrow> Some (Some e, s)
                | (None, s) \<Rightarrow> Some (if n \<noteq> pl_length p then Some errFileChanged else None, s))))"

definition partial :: "static_env \<Rightarrow> 'e write_half \<Rightarrow> served \<Rightarrow> span list \<Rightarrow> string \<Rightarrow> string \<Rightarrow> instant \<Rightarrow> instant \<Rightarrow> 'e resp_state \<Rightarrow> 'e outcome" where
  "partial env wh f spans kind tag now md s =
     (let sz = fl_Size f in
      if length spans = 1 then
        (let sp = spans ! 0;
             fs = withRanges (withValidator (static_fields now status206 kind (span_length sp)) tag md) @
                  [fld ''content-range'' (contentRange sp sz)]
         in send_plan wh f fs (single sp) s)
      else
        (let edge = ev_boundary env;
             p = multipart spans sz kind edge;
             fs = withRanges (withValidator (static_fields now status206 (multipartByteranges @ edge) (pl_length p)) tag md)
         in send_plan wh f fs p s))"

subsection \<open>The handler\<close>

text \<open>From where a file that is not a directory is open under \<open>name\<close>.\<close>

definition serve_file :: "static_env \<Rightarrow> 'e write_half \<Rightarrow> request \<Rightarrow> string \<Rightarrow> served \<Rightarrow> 'e resp_state \<Rightarrow> 'e outcome" where
  "serve_file env wh r name f s =
     (if \<not> fl_IsRegular f then answer env wh r status404 textPlain body404 [] s
      else
        let now = ev_now env;
            md = modTime (fl_ModTime f) now;
            tag = ev_tag env name f now
        in case evaluate r tag md now of
             verdictNotModified \<Rightarrow> notModified wh now tag md s
           | verdictFailed \<Rightarrow> answer env wh r status412 textPlain body412 [] s
           | verdictSend \<Rightarrow>
               (let kind = mediaType name in
                case evaluateRange r tag (fl_Size f) of
                  (spans, rangeNotSatisfiable) \<Rightarrow>
                    answer env wh r status416 textPlain body416 [fld ''content-range'' (unsatisfiedRange (fl_Size f))] s
                | (spans, rangePartial) \<Rightarrow> partial env wh f spans kind tag now md s
                | (spans, rangeIgnore) \<Rightarrow> static_file env wh r f kind tag now md s))"

definition static_serve :: "static_env \<Rightarrow> 'e write_half \<Rightarrow> request \<Rightarrow> 'e resp_state \<Rightarrow> 'e outcome" where
  "static_serve env wh r s =
     (if rq_Method r \<noteq> methodGet \<and> rq_Method r \<noteq> methodHead then
        answer env wh r status405 textPlain body405 [fld ''allow'' allowedMethods] s
      else if length (rq_Path r) > MaxTargetLength then answer env wh r status414 textPlain body414 [] s
      else
        (case resolve (rq_Path r) of
           None \<Rightarrow> answer env wh r status404 textPlain body404 [] s
         | Some (name, slash) \<Rightarrow>
             (case ev_open env name of
                None \<Rightarrow> answer env wh r status404 textPlain body404 [] s
              | Some f \<Rightarrow>
                  if fl_IsDir f then
                    (if \<not> slash then
                       answer env wh r status301 '''' '''' [fld ''location'' (withSlash (rq_Path r))] s
                     else
                       let name = path_join name indexFile in
                       (case ev_open env name of
                          None \<Rightarrow> answer env wh r status404 textPlain body404 [] s
                        | Some f \<Rightarrow> serve_file env wh r name f s))
                  else serve_file env wh r name f s)))"

end
