(* ===== verification/StaticCalls.thy ===== *)
theory StaticCalls
  imports Static ResponseProps
begin

text \<open>
  The file server as a list of calls on the writer: \<open>static_serve\<close> makes the calls of \<open>response_calls\<close> in order and
  stops at the first that fails. The properties of responses are about that list.
\<close>

subsection \<open>Calls\<close>

datatype call = CHeader "field list" | CBodyless "field list" | CBody "byte list" | CClose

fun run_calls :: "'e write_half \<Rightarrow> call list \<Rightarrow> 'e resp_state \<Rightarrow> 'e outcome" where
  "run_calls wh [] s = Some (None, s)"
| "run_calls wh (CHeader fs # cs) s =
     (case WriteHeader wh fs s of (Some e, s) \<Rightarrow> Some (Some e, s) | (None, s) \<Rightarrow> run_calls wh cs s)"
| "run_calls wh (CBodyless fs # cs) s =
     (case WriteBodylessHeader wh fs s of (Some e, s) \<Rightarrow> Some (Some e, s) | (None, s) \<Rightarrow> run_calls wh cs s)"
| "run_calls wh (CBody b # cs) s =
     (case Write wh b s of
        None \<Rightarrow> None
      | Some ((n, Some e), s) \<Rightarrow> Some (Some e, s)
      | Some ((n, None), s) \<Rightarrow> run_calls wh cs s)"
| "run_calls wh (CClose # cs) s =
     (case resp_Close wh s of (Some e, s) \<Rightarrow> Some (Some e, s) | (None, s) \<Rightarrow> run_calls wh cs s)"

definition go_on :: "'e outcome \<Rightarrow> ('e resp_state \<Rightarrow> 'e outcome) \<Rightarrow> 'e outcome" where
  "go_on r k = (case r of None \<Rightarrow> None | Some (Some e, s) \<Rightarrow> Some (Some e, s) | Some (None, s) \<Rightarrow> k s)"

lemma go_on_simps [simp]: "go_on None k = None" "go_on (Some (Some e, s)) k = Some (Some e, s)" "go_on (Some (None, s)) k = k s"
  by (simp_all add: go_on_def)

lemma run_calls_append: "run_calls wh (cs @ ds) s = go_on (run_calls wh cs s) (run_calls wh ds)"
  by (induction wh cs s rule: run_calls.induct) (auto split: option.splits prod.splits)

lemma Write_loop_full: "Write_loop wh i p k e = Some y \<Longrightarrow> snd (fst y) = None \<longrightarrow> fst (fst y) = k + length p"
proof (rule Write_loop.raw_induct [of "\<lambda>wh i p k e y. snd (fst y) = None \<longrightarrow> fst (fst y) = k + length p"], goal_cases)
  case (1 W wh i p k e y)
  show ?case
  proof (cases "p = []")
    case False
    obtain q e' where q: "write_chunk wh i p e = (q, e')" by (cases "write_chunk wh i p e")
    show ?thesis
    proof (cases q)
      case (Inl x)
      with 1(3) False q show ?thesis by auto
    next
      case (Inr n)
      have n: "n \<le> length p" using q Inr by (auto simp: write_chunk_def split: prod.splits sum.splits if_splits option.splits)
      from 1(3) False q Inr have "W wh i (drop n p) (k + n) e' = Some y" by simp
      from 1(2) [OF this] n show ?thesis by simp
    qed
  qed (use 1(3) in auto)
qed

lemma Write_full: "Write wh b s = Some ((n, None), s') \<Longrightarrow> n = length b"
  using Write_loop_full by (fastforce simp: Write_def split: prod.splits if_splits)

text \<open>Copying is writing the pieces one after the other, and when all succeed their octets are counted.\<close>

lemma CopyBuffer_calls:
  "run_calls wh (map CBody bs) s =
     (case CopyBuffer wh bs None w s of
        None \<Rightarrow> None
      | Some ((n, Some e), s) \<Rightarrow> Some (Some e, s)
      | Some ((n, None), s) \<Rightarrow> Some (None, s)) \<and>
   (\<forall>n s'. CopyBuffer wh bs None w s = Some ((n, None), s') \<longrightarrow> n = w + int (length (concat bs)))"
proof (induction bs arbitrary: w s)
  case (Cons b bs)
  show ?case
  proof (cases "Write wh b s")
    case (Some r)
    obtain n x s' where r: "r = ((n, x), s')" by (metis prod.collapse)
    show ?thesis
    proof (cases x)
      case None
      with Some r Write_full have n: "n = length b" by blast
      from Cons.IH [of s' "w + int n"] Some r None n show ?thesis by (simp add: add.assoc)
    qed (use Some r in simp)
  qed simp
qed simp

lemma CopyBuffer_go_on:
  "(case CopyBuffer wh bs None w s of
      None \<Rightarrow> None
    | Some ((n, Some e), s) \<Rightarrow> Some (Some e, s)
    | Some ((n, None), s) \<Rightarrow> k n s) = go_on (run_calls wh (map CBody bs) s) (k (w + int (length (concat bs))))"
  using CopyBuffer_calls [of wh bs s w] by (auto split: option.splits)

subsection \<open>What the file system gives\<close>

text \<open>\<open>content_of f c\<close>: the file holds \<open>c\<close>, and while the response is sent every read inside it succeeds.\<close>

definition content_of :: "served \<Rightarrow> byte list \<Rightarrow> bool" where
  "content_of f c \<longleftrightarrow> fl_Size f = int (length c) \<and>
     (\<forall>off n. 0 \<le> off \<and> 0 < n \<and> off + n \<le> int (length c) \<longrightarrow>
        (\<exists>bs. fl_reads f off n = (bs, None) \<and> concat bs = take (nat n) (drop (nat off) c)))"

lemma content_reads:
  assumes "content_of f c" "0 \<le> off" "0 < n" "off + n \<le> fl_Size f"
  obtains bs where "fl_reads f off n = (bs, None)" "concat bs = take (nat n) (drop (nat off) c)" "int (length (concat bs)) = n"
proof -
  have "off + n \<le> int (length c)" using assms(1,4) by (simp add: content_of_def)
  with assms obtain bs where bs: "fl_reads f off n = (bs, None)" "concat bs = take (nat n) (drop (nat off) c)"
    unfolding content_of_def by blast
  have "int (length (concat bs)) = n" using assms(2,3) \<open>off + n \<le> int (length c)\<close> by (simp add: bs(2))
  with bs that show thesis by blast
qed

fun octets :: "call list \<Rightarrow> int" where
  "octets [] = 0"
| "octets (CBody b # cs) = int (length b) + octets cs"
| "octets (c # cs) = octets cs"

lemma octets_append [simp]: "octets (cs @ ds) = octets cs + octets ds"
  by (induction cs rule: octets.induct) auto

lemma octets_bodies [simp]: "octets (map CBody bs) = int (length (concat bs))"
  by (induction bs) auto

subsection \<open>The calls of each response\<close>

definition answer_calls :: "static_env \<Rightarrow> request \<Rightarrow> string \<Rightarrow> string \<Rightarrow> string \<Rightarrow> field list \<Rightarrow> call list" where
  "answer_calls env r status kind body extra =
     (let fs = static_fields (ev_now' env) status kind (int (length body)) @ extra in
      if rq_Method r = methodHead \<or> body = '''' then [CBodyless fs] else [CHeader fs, CBody (bytes_of body), CClose])"

lemma run_bodyless [simp]: "run_calls wh [CBodyless fs] s = Some (WriteBodylessHeader wh fs s)"
  by (cases "WriteBodylessHeader wh fs s") (simp split: option.split)

lemma answer_runs: "answer env wh r status kind body extra s = run_calls wh (answer_calls env r status kind body extra) s"
  by (simp add: answer_def answer_calls_def Let_def split: option.split prod.split)

lemma close_runs: "run_calls wh [CClose] s = Some (resp_Close wh s)"
  by (simp split: option.split prod.split)

definition file_calls :: "request \<Rightarrow> served \<Rightarrow> string \<Rightarrow> string \<Rightarrow> instant \<Rightarrow> instant \<Rightarrow> call list" where
  "file_calls r f kind tag now md =
     (let fs = withRanges (withValidator (static_fields now status200 kind (fl_Size f)) tag md) in
      if rq_Method r = methodHead \<or> fl_Size f = 0 then [CBodyless fs]
      else CHeader fs # map CBody (fst (fl_reads f 0 (fl_Size f))) @ [CClose])"

lemma file_runs:
  assumes "content_of f c"
  shows "static_file env wh r f kind tag now md s = run_calls wh (file_calls r f kind tag now md) s"
proof (cases "rq_Method r = methodHead \<or> fl_Size f = 0")
  case False
  then have "0 < fl_Size f" using assms by (auto simp: content_of_def)
  then obtain bs where bs: "fl_reads f 0 (fl_Size f) = (bs, None)" "int (length (concat bs)) = fl_Size f"
    using content_reads [OF assms, of 0 "fl_Size f"] by (metis add_0 order_refl)
  have "go_on (run_calls wh (map CBody bs) s) (run_calls wh [CClose]) =
      (case CopyBuffer wh bs None 0 s of
         None \<Rightarrow> None
       | Some ((n, Some e), s) \<Rightarrow> Some (Some e, s)
       | Some ((n, None), s) \<Rightarrow>
           (case resp_Close wh s of
              (Some e, s) \<Rightarrow> Some (Some e, s)
            | (None, s) \<Rightarrow> Some (if n \<noteq> fl_Size f then Some errFileChanged else None, s)))" for s
    unfolding CopyBuffer_go_on [where k = "\<lambda>n s. case resp_Close wh s of (Some e, s) \<Rightarrow> Some (Some e, s)
        | (None, s) \<Rightarrow> Some (if n \<noteq> fl_Size f then Some errFileChanged else None, s)"]
    using bs(2) by (auto simp: go_on_def split: option.split prod.split)
  with False bs(1) show ?thesis
    by (simp add: static_file_def file_calls_def Let_def run_calls_append split: option.split prod.split)
qed (auto simp: static_file_def file_calls_def Let_def split: option.split prod.split)

text \<open>The bodies of a plan: each lead, what is read of its span, and the last lead.\<close>

fun part_calls :: "served \<Rightarrow> string list \<Rightarrow> span list \<Rightarrow> call list" where
  "part_calls f (lead # leads) (sp # sps) =
     CBody (bytes_of lead) # map CBody (fst (fl_reads f (sp_first sp) (span_length sp))) @ part_calls f leads sps"
| "part_calls f (lead # leads) [] = [CBody (bytes_of lead)]"
| "part_calls f [] sps = []"

definition span_reads :: "served \<Rightarrow> span \<Rightarrow> bool" where
  "span_reads f sp \<longleftrightarrow> (\<exists>bs. fl_reads f (sp_first sp) (span_length sp) = (bs, None) \<and> int (length (concat bs)) = span_length sp)"

lemma send_parts_runs:
  assumes "length leads = Suc (length sps)" "list_all (span_reads f) sps"
  shows "(case send_parts wh f leads sps sent s of
            None \<Rightarrow> None
          | Some ((n, Some e), s) \<Rightarrow> Some (Some e, s)
          | Some ((n, None), s) \<Rightarrow> k n s) =
         go_on (run_calls wh (part_calls f leads sps) s) (k (sent + octets (part_calls f leads sps)))"
  using assms
proof (induction f leads sps arbitrary: sent s rule: part_calls.induct)
  case (1 f lead leads sp sps)
  then obtain bs where bs: "fl_reads f (sp_first sp) (span_length sp) = (bs, None)" by (auto simp: span_reads_def)
  show ?case
  proof (cases "Write wh (bytes_of lead) s")
    case (Some r)
    obtain n x s' where r: "r = ((n, x), s')" by (metis prod.collapse)
    show ?thesis
    proof (cases x)
      case None
      have n: "n = length lead" using Write_full [of wh "bytes_of lead" s n s'] Some r None by simp
      note copy = CopyBuffer_calls [of wh bs s' 0]
      show ?thesis
      proof (cases "CopyBuffer wh bs None 0 s'")
        case c: None
        with copy Some r None bs show ?thesis by (simp add: run_calls_append)
      next
        case c: (Some q)
        obtain m y s'' where q: "q = ((m, y), s'')" by (metis prod.collapse)
        show ?thesis
        proof (cases y)
          case y: None
          have m: "m = int (length (concat bs))" using conjunct2 [OF copy, rule_format, of m s''] c q y by simp
          from "1.IH" [of "sent + int n + m" s''] "1.prems" copy c q y Some r None bs n m show ?thesis
            by (simp add: run_calls_append algebra_simps)
        next
          case (Some e)
          with copy c q \<open>Write wh (bytes_of lead) s = Some r\<close> r None bs show ?thesis by (simp add: run_calls_append)
        qed
      qed
    qed (use Some r in simp)
  qed simp
next
  case (2 f lead leads)
  show ?case
  proof (cases "Write wh (bytes_of lead) s")
    case (Some r)
    obtain n x s' where r: "r = ((n, x), s')" by (metis prod.collapse)
    show ?thesis
      using Write_full [of wh "bytes_of lead" s n s'] Some r by (cases x) (auto simp: 2)
  qed simp
qed simp

definition send_calls :: "served \<Rightarrow> field list \<Rightarrow> range_plan \<Rightarrow> call list" where
  "send_calls f fs p = CHeader fs # part_calls f (pl_lead p) (pl_spans p) @ [CClose]"

lemma send_runs:
  assumes "length (pl_lead p) = Suc (length (pl_spans p))" "list_all (span_reads f) (pl_spans p)"
    and "octets (part_calls f (pl_lead p) (pl_spans p)) = pl_length p"
  shows "send_plan wh f fs p s = run_calls wh (send_calls f fs p) s"
proof -
  let ?k = "\<lambda>n s. case resp_Close wh s of (Some e, s) \<Rightarrow> Some (Some e, s)
      | (None, s) \<Rightarrow> Some (if n \<noteq> pl_length p then Some errFileChanged else None, s)"
  have "(case send_parts wh f (pl_lead p) (pl_spans p) 0 s of
           None \<Rightarrow> None | Some ((n, Some e), s) \<Rightarrow> Some (Some e, s) | Some ((n, None), s) \<Rightarrow> ?k n s) =
        go_on (run_calls wh (part_calls f (pl_lead p) (pl_spans p)) s) (run_calls wh [CClose])" for s
    unfolding send_parts_runs [OF assms(1,2), where k = ?k and sent = 0] using assms(3)
    by (auto simp: go_on_def split: option.split prod.split)
  then show ?thesis
    by (simp add: send_plan_def send_calls_def run_calls_append split: option.split prod.split)
qed

subsection \<open>A response that succeeds\<close>

text \<open>Whatever a file gives when it is read: where the handler returns no error, the calls of the list were made, and what was sent is
  what was declared.\<close>

lemma CopyBuffer_success:
  "CopyBuffer wh bs er w s = Some ((n, None), s') \<Longrightarrow>
     er = None \<and> run_calls wh (map CBody bs) s = Some (None, s') \<and> n = w + int (length (concat bs))"
proof (induction bs arbitrary: w s)
  case (Cons b bs)
  then obtain m s1 where m: "Write wh b s = Some ((m, None), s1)" "CopyBuffer wh bs er (w + int m) s1 = Some ((n, None), s')"
    by (auto split: option.splits if_splits)
  from Cons.IH [OF m(2)] Write_full [OF m(1)] m(1) show ?case by simp
qed simp

lemma file_success:
  assumes "static_file env wh r f kind tag now md s = Some (None, s')"
  shows "run_calls wh (file_calls r f kind tag now md) s = Some (None, s') \<and>
    (rq_Method r = methodHead \<or> fl_Size f = 0 \<or> int (length (concat (fst (fl_reads f 0 (fl_Size f))))) = fl_Size f)"
proof (cases "rq_Method r = methodHead \<or> fl_Size f = 0")
  case False
  let ?fs = "withRanges (withValidator (static_fields now status200 kind (fl_Size f)) tag md)"
  obtain bs er where rd: "fl_reads f 0 (fl_Size f) = (bs, er)" by (cases "fl_reads f 0 (fl_Size f)")
  obtain s1 n s2 where w: "WriteHeader wh ?fs s = (None, s1)" "CopyBuffer wh bs er 0 s1 = Some ((n, None), s2)"
    "resp_Close wh s2 = (None, s')" "n = fl_Size f"
    using assms False rd by (auto simp: static_file_def Let_def split: option.splits prod.splits if_splits)
  have calls: "file_calls r f kind tag now md = CHeader ?fs # map CBody bs @ [CClose]"
    using False rd by (simp add: file_calls_def Let_def)
  from CopyBuffer_success [OF w(2)] w rd show ?thesis unfolding calls by (simp add: run_calls_append)
next
  case True
  with assms show ?thesis by (auto simp: static_file_def file_calls_def Let_def)
qed

lemma send_parts_success:
  "length leads = Suc (length sps) \<Longrightarrow> send_parts wh f leads sps sent s = Some ((n, None), s') \<Longrightarrow>
     run_calls wh (part_calls f leads sps) s = Some (None, s') \<and> n = sent + octets (part_calls f leads sps)"
proof (induction f leads sps arbitrary: sent s rule: part_calls.induct)
  case (1 f lead leads sp sps)
  obtain bs er where rd: "fl_reads f (sp_first sp) (span_length sp) = (bs, er)" by (cases "fl_reads f (sp_first sp) (span_length sp)")
  obtain k s1 m s2 where w: "Write wh (bytes_of lead) s = Some ((k, None), s1)" "CopyBuffer wh bs er 0 s1 = Some ((m, None), s2)"
    "send_parts wh f leads sps (sent + int k + m) s2 = Some ((n, None), s')"
    using 1(3) rd by (auto split: option.splits)
  from "1.IH" [OF _ w(3)] "1.prems"(1) CopyBuffer_success [OF w(2)] Write_full [OF w(1)] w(1) rd show ?case
    by (simp add: run_calls_append)
next
  case (2 f lead leads)
  from 2(2) obtain k where w: "Write wh (bytes_of lead) s = Some ((k, None), s')" "n = sent + int k"
    by (auto split: option.splits)
  with Write_full [OF w(1)] show ?case by simp
qed simp

lemma send_success:
  assumes "length (pl_lead p) = Suc (length (pl_spans p))" "send_plan wh f fs p s = Some (None, s')"
  shows "run_calls wh (send_calls f fs p) s = Some (None, s') \<and> octets (part_calls f (pl_lead p) (pl_spans p)) = pl_length p"
proof -
  obtain s1 n s2 where w: "WriteHeader wh fs s = (None, s1)" "send_parts wh f (pl_lead p) (pl_spans p) 0 s1 = Some ((n, None), s2)"
    "resp_Close wh s2 = (None, s')" "n = pl_length p"
    using assms(2) by (auto simp: send_plan_def split: option.splits prod.splits if_splits)
  from send_parts_success [OF assms(1) w(2)] w show ?thesis by (simp add: send_calls_def run_calls_append)
qed

end
