(* ===== verification/PathProps.thy ===== *)
theory PathProps
  imports StaticPath
begin

text \<open>
  The properties of \<open>resolve\<close>: the names it can return, the spellings of a name, and its agreement with
  the algorithm of RFC 3986 section 5.2.4.
\<close>

subsection \<open>The names that resolve returns\<close>

definition path_part :: "string \<Rightarrow> string" where
  "path_part t = takeWhile (\<lambda>c. c \<noteq> CHR ''?'') t"

definition raw_segments :: "string \<Rightarrow> string list" where
  "raw_segments t = Split (tl (path_part t)) (CHR ''/'')"

lemma path_part_cut: "(case IndexByte t (CHR ''?'') of Some i \<Rightarrow> take i t | None \<Rightarrow> t) = path_part t"
  by (simp add: path_part_def cut_before_point)

lemma resolve_walk:
  "resolve t =
     (if path_part t \<noteq> '''' \<and> hd (path_part t) = CHR ''/'' \<and>
         (\<forall>r\<in>set (raw_segments t). \<exists>s. unescape r = Some s \<and> (dots s \<or> safe_name s))
      then let out = walk (map (the \<circ> unescape) (raw_segments t)) [] in
        Some (if out = [] then ''.'' else Join out (CHR ''/''), last (raw_segments t) = '''')
      else None)"
  by (cases "path_part t = ''''")
    (simp_all add: resolve_def path_part_cut resolve_loop_walk raw_segments_def hd_conv_nth drop_Suc last_conv_nth Let_def)

lemma resolve_Some:
  assumes "resolve t = Some (name, slash)"
  obtains ss where "map unescape (raw_segments t) = map Some ss" "\<forall>s\<in>set ss. dots s \<or> safe_name s" "ss \<noteq> []"
    "name = (if walk ss [] = [] then ''.'' else Join (walk ss []) (CHR ''/''))"
proof -
  let ?ss = "map (the \<circ> unescape) (raw_segments t)"
  have good: "\<forall>r\<in>set (raw_segments t). \<exists>s. unescape r = Some s \<and> (dots s \<or> safe_name s)"
    and name: "name = (if walk ?ss [] = [] then ''.'' else Join (walk ?ss []) (CHR ''/''))"
    using assms unfolding resolve_walk Let_def by (auto split: if_splits)
  have "map unescape (raw_segments t) = map Some ?ss" "\<forall>s\<in>set ?ss. dots s \<or> safe_name s"
    using good by force+
  moreover have "?ss \<noteq> []" by (simp add: raw_segments_def)
  ultimately show thesis using that name by blast
qed

text \<open>No target leads out of the served directory: the name that is looked up is the directory itself, or
  a path of one or more segments every one of which is non-empty, begins and ends with something
  other than a point, contains neither a separator of any platform, nor a colon, nor an octet below the
  exclamation mark, and is not a Win32 device, whatever was percent-encoded in the target.\<close>

theorem resolve_is_confined:
  assumes "resolve target = Some (name, slash)"
  shows "name = ''.'' \<or>
    (Split name (CHR ''/'') \<noteq> [] \<and> list_all safe_name (Split name (CHR ''/'')) \<and>
     set name \<inter> {CHR 0x00, CHR '' '', CHR 0x5C, CHR '':''} = {})"
proof -
  obtain ss where ss: "\<forall>s\<in>set ss. dots s \<or> safe_name s"
    "name = (if walk ss [] = [] then ''.'' else Join (walk ss []) (CHR ''/''))"
    using resolve_Some [OF assms] by metis
  let ?out = "walk ss []"
  have safe: "list_all safe_name ?out" by (rule walk_safe) (use ss in auto)
  have split: "Split (Join ?out (CHR ''/'')) (CHR ''/'') = ?out" if "?out \<noteq> []"
    by (rule Split_Join [OF that]) (use safe safe_name_no_slash in \<open>auto simp: list_all_iff\<close>)
  have bad: "c \<noteq> CHR 0x00 \<and> c \<noteq> CHR '' '' \<and> c \<noteq> CHR 0x5C \<and> c \<noteq> CHR '':''" if "s \<in> set ?out" "c \<in> set s" for s c
  proof -
    have n: "nameOctet c" using that safe by (auto simp: safe_name_def list_all_iff)
    then have "c \<noteq> CHR '' ''" by (auto simp: nameOctet_def)
    with nameOctet_no_sep [OF n] show ?thesis by simp
  qed
  have octets: "set (Join xs (CHR ''/'')) \<subseteq> insert (CHR ''/'') (\<Union>s\<in>set xs. set s)" for xs
    by (induction xs "CHR ''/''" rule: Join.induct) auto
  show ?thesis
  proof (cases "?out = []")
    case False
    with split safe ss(2) have "Split name (CHR ''/'') = ?out" "name = Join ?out (CHR ''/'')" by simp_all
    with safe False octets [of ?out] bad show ?thesis by fastforce
  qed (use ss(2) in simp)
qed

lemma resolve_is_confined_witness:
  "list_all safe_name (Split ''etc/passwd'' (CHR ''/''))"
proof -
  have "resolve ''/%2e%2E/..//a/../etc/./passwd?x=/..'' = Some (''etc/passwd'', False)" by code_simp
  from resolve_is_confined [OF this] show ?thesis by simp
qed

subsection \<open>The spellings of a name\<close>

text \<open>\<open>spelling r s\<close>: the octets of \<open>s\<close> in order, each as itself or percent-encoded in either case.\<close>

inductive spelling :: "string \<Rightarrow> string \<Rightarrow> bool" where
  Empty: "spelling [] []"
| Raw: "c \<noteq> CHR ''%'' \<Longrightarrow> spelling r s \<Longrightarrow> spelling (c # r) (c # s)"
| Encoded: "path_unhex h = Some hi \<Longrightarrow> path_unhex l = Some lo \<Longrightarrow> spelling r s \<Longrightarrow>
    spelling (CHR ''%'' # h # l # r) (char_of_byte (push_bit 4 hi OR lo) # s)"

lemma spelling_unescape: "spelling r s \<Longrightarrow> list_all nameOctet s \<Longrightarrow> unescape r = Some s"
  by (induction rule: spelling.induct) (simp_all add: unescape.simps(2) Let_def)

lemma hex_digit_name: "path_unhex h = Some x \<Longrightarrow> h \<noteq> CHR ''/'' \<and> h \<noteq> CHR ''?''"
  by (auto simp: path_unhex_def less_eq_char_def)

lemma spelling_octets: "spelling r s \<Longrightarrow> list_all nameOctet s \<Longrightarrow> CHR ''/'' \<notin> set r \<and> CHR ''?'' \<notin> set r"
proof (induction rule: spelling.induct)
  case (Raw c r s)
  then show ?case by (auto simp: nameOctet_def badOctets_def)
qed (auto dest: hex_digit_name)

lemma walk_names: "list_all safe_name ss \<Longrightarrow> walk ss out = out @ ss"
  by (induction ss arbitrary: out) (auto simp: safe_name_def)

text \<open>C36: Every name of the directory can be asked for, in all of its spellings: a target that gives the
  segments of a safe name, each octet as itself or percent-encoded in upper or lower case, with any
  query, resolves to that name; so the rules on segments refuse no spelling of a name that they allow.\<close>

theorem resolve_spellings:
  assumes "ss \<noteq> []" "list_all safe_name ss" "list_all2 spelling rs ss" "query = '''' \<or> hd query = CHR ''?''"
  shows "resolve (CHR ''/'' # Join rs (CHR ''/'') @ query) = Some (Join ss (CHR ''/''), False)"
proof -
  have rs: "unescape r = Some s \<and> CHR ''/'' \<notin> set r \<and> CHR ''?'' \<notin> set r" if "r \<in> set rs" "spelling r s" "s \<in> set ss" for r s
    using that spelling_unescape spelling_octets assms(2) unfolding list_all_iff safe_name_def by blast
  have ok: "\<forall>r\<in>set rs. CHR ''/'' \<notin> set r \<and> CHR ''?'' \<notin> set r \<and> (\<exists>s. unescape r = Some s \<and> safe_name s)"
  proof
    fix r assume r: "r \<in> set rs"
    then obtain s where s: "s \<in> set ss" "spelling r s"
      using assms(3) by (metis in_set_conv_nth list_all2_conv_all_nth)
    with rs [OF r s(2,1)] assms(2) show "CHR ''/'' \<notin> set r \<and> CHR ''?'' \<notin> set r \<and> (\<exists>s. unescape r = Some s \<and> safe_name s)"
      by (auto simp: list_all_iff)
  qed
  have un: "map unescape rs = map Some ss"
    using assms(3) rs [OF nth_mem _ nth_mem]
    by (simp add: list_eq_iff_nth_eq list_all2_conv_all_nth)
  have ne: "rs \<noteq> []" using assms(1,3) by auto
  have noq: "CHR ''?'' \<notin> set (Join rs (CHR ''/''))" using ok by (induction rs "CHR ''/''" rule: Join.induct) auto
  have path: "path_part (CHR ''/'' # Join rs (CHR ''/'') @ query) = CHR ''/'' # Join rs (CHR ''/'')"
    using noq assms(4) by (cases query) (auto simp: path_part_def takeWhile_append2 takeWhile_tail)
  have raw: "raw_segments (CHR ''/'' # Join rs (CHR ''/'') @ query) = rs"
    using ok by (simp add: raw_segments_def path Split_Join [OF ne])
  have the: "map (the \<circ> unescape) rs = ss"
    using arg_cong [OF un, of "map the"] by (simp add: comp_def)
  have last: "last rs \<noteq> ''''"
  proof
    assume "last rs = ''''"
    with ok ne last_in_set [OF ne] show False by (auto simp: safe_name_def)
  qed
  have good: "\<forall>r\<in>set rs. \<exists>s. unescape r = Some s \<and> (dots s \<or> safe_name s)" using ok by blast
  show ?thesis
    using good last assms(1,2) by (simp add: resolve_walk path raw the walk_names)
qed

lemma resolve_spellings_witness:
  "resolve ''/%69ndex.html?q/../r'' = Some (''index.html'', False)"
proof -
  have "path_unhex CHR ''6'' = Some 6" "path_unhex CHR ''9'' = Some 9"
    "char_of_byte (push_bit 4 6 OR 9) = CHR ''i''" by code_simp+
  with spelling.Encoded [of "CHR ''6''" 6 "CHR ''9''" 9 "''ndex.html''" "''ndex.html''"]
  have "spelling ''%69ndex.html'' ''index.html''" by (simp add: spelling.intros)
  moreover have "list_all safe_name [''index.html'']" by code_simp
  ultimately show ?thesis
    using resolve_spellings [of "[''index.html'']" "[''%69ndex.html'']" "''?q/../r''"] by simp
qed

subsection \<open>RFC 3986 section 5.2.4\<close>

text \<open>
  The algorithm of the RFC, on its two buffers. Its steps A and D are for relative references; a path that
  begins with a slash never gets to them.
\<close>

definition cut_last_segment :: "string \<Rightarrow> string" where
  "cut_last_segment out = rev (drop 1 (dropWhile (\<lambda>c. c \<noteq> CHR ''/'') (rev out)))"

function remove_dot_segments :: "string \<Rightarrow> string \<Rightarrow> string" where
  "remove_dot_segments inp out =
     (if inp = '''' then out
      else if take 3 inp = ''/./'' then remove_dot_segments (drop 2 inp) out
      else if inp = ''/.'' then remove_dot_segments ''/'' out
      else if take 4 inp = ''/../'' then remove_dot_segments (drop 3 inp) (cut_last_segment out)
      else if inp = ''/..'' then remove_dot_segments ''/'' (cut_last_segment out)
      else
        let n = 1 + length (takeWhile (\<lambda>c. c \<noteq> CHR ''/'') (tl inp)) in
        remove_dot_segments (drop n inp) (out @ take n inp))"
  by pat_completeness auto

termination
  by (relation "measure (\<lambda>(inp, out). length inp)") (auto simp: Let_def)

declare remove_dot_segments.simps [simp del]

text \<open>The file that a path without dot segments names.\<close>

definition named_file :: "string \<Rightarrow> string" where
  "named_file p =
     (let n = (if p \<noteq> '''' \<and> last p = CHR ''/'' then butlast p else p) in
      if n = '''' then ''.'' else drop 1 n)"

definition as_path :: "string list \<Rightarrow> string" where
  "as_path out = concat (map (\<lambda>s. CHR ''/'' # s) out)"

lemma as_path_snoc [simp]: "as_path (out @ [s]) = as_path out @ CHR ''/'' # s"
  by (simp add: as_path_def)

lemma cut_as_path: "list_all (\<lambda>s. CHR ''/'' \<notin> set s) out \<Longrightarrow> cut_last_segment (as_path out) = as_path (butlast out)"
proof (cases out rule: rev_cases)
  case (snoc ys y)
  assume "list_all (\<lambda>s. CHR ''/'' \<notin> set s) out"
  with snoc have "CHR ''/'' \<notin> set (rev y)" by simp
  then have "dropWhile (\<lambda>c. c \<noteq> CHR ''/'') (rev y @ CHR ''/'' # rev (as_path ys)) = CHR ''/'' # rev (as_path ys)"
    by (subst dropWhile_append2) auto
  then show ?thesis by (simp add: snoc cut_last_segment_def)
qed (simp add: cut_last_segment_def as_path_def)

lemma rds_last:
  assumes "CHR ''/'' \<notin> set s"
  shows "remove_dot_segments (CHR ''/'' # s) out =
     (if s = ''.'' then out @ ''/'' else if s = ''..'' then cut_last_segment out @ ''/'' else out @ CHR ''/'' # s)"
proof -
  have slash: "remove_dot_segments ''/'' z = z @ ''/''" for z
    by (simp add: remove_dot_segments.simps [of "''/''"] remove_dot_segments.simps [of "[]"])
  have tw: "takeWhile (\<lambda>c. c \<noteq> CHR ''/'') s = s" using assms by (auto simp: takeWhile_eq_all_conv)
  have no: "take 3 (CHR ''/'' # s) \<noteq> ''/./''" "take 4 (CHR ''/'' # s) \<noteq> ''/../''"
    using assms by (auto simp: take_Cons' dest!: arg_cong [of _ _ set] in_set_takeD)
  show ?thesis
    using no by (subst remove_dot_segments.simps) (auto simp: slash tw remove_dot_segments.simps [of "[]"])
qed

lemma rds_segment:
  assumes "CHR ''/'' \<notin> set s" "s \<noteq> ''''"
  shows "remove_dot_segments (CHR ''/'' # s @ CHR ''/'' # rest) out =
     remove_dot_segments (CHR ''/'' # rest)
       (if s = ''.'' then out else if s = ''..'' then cut_last_segment out else out @ CHR ''/'' # s)"
proof -
  have tw: "takeWhile (\<lambda>c. c \<noteq> CHR ''/'') (s @ CHR ''/'' # rest) = s"
    using assms(1) by (subst takeWhile_append2) auto
  consider "s = ''.''" | "s = ''..''" | "s \<noteq> ''.''" "s \<noteq> ''..''" by blast
  then show ?thesis
  proof cases
    case 3
    have "take 3 (CHR ''/'' # s @ CHR ''/'' # rest) \<noteq> ''/./''" "take 4 (CHR ''/'' # s @ CHR ''/'' # rest) \<noteq> ''/../''"
      "s @ CHR ''/'' # rest \<noteq> ''.''" "s @ CHR ''/'' # rest \<noteq> ''..''"
      using assms 3 by (cases s; cases "tl s"; cases "tl (tl s)"; auto simp: numeral_eq_Suc)+
    with 3 show ?thesis by (subst remove_dot_segments.simps) (simp add: tw)
  qed (subst remove_dot_segments.simps, simp)+
qed

text \<open>Interior segments that are empty are the exception: see below.\<close>

lemma rds_walk:
  assumes "ss \<noteq> []" "\<forall>s\<in>set ss. CHR ''/'' \<notin> set s" "'''' \<notin> set (butlast ss)" "list_all (\<lambda>s. CHR ''/'' \<notin> set s) out"
  shows "remove_dot_segments (CHR ''/'' # Join ss (CHR ''/'')) (as_path out) =
     as_path (walk ss out) @ (if dots (last ss) then ''/'' else '''')"
  using assms
proof (induction ss arbitrary: out)
  case (Cons s ss)
  show ?case
  proof (cases "ss = []")
    case True
    with Cons.prems show ?thesis by (auto simp: rds_last cut_as_path dots_def)
  next
    case False
    have pop: "list_all (\<lambda>s. CHR ''/'' \<notin> set s) (butlast out)" "list_all (\<lambda>s. CHR ''/'' \<notin> set s) (out @ [s])"
      using Cons.prems(2,4) by (auto simp: list_all_iff dest: in_set_butlastD)
    note IH = Cons.IH [OF False]
    have rest: "\<forall>s\<in>set ss. CHR ''/'' \<notin> set s" "'''' \<notin> set (butlast ss)" "s \<noteq> ''''" "CHR ''/'' \<notin> set s"
      using Cons.prems(2,3) False by (auto split: if_splits)
    show ?thesis
      using IH [OF rest(1,2) pop(1)] IH [OF rest(1,2) pop(2)] IH [OF rest(1,2) Cons.prems(4)] rest(3,4) False
      by (auto simp: Join_Cons rds_segment cut_as_path [OF Cons.prems(4)])
  qed
qed simp

lemma as_path_Join: "out \<noteq> [] \<Longrightarrow> as_path out = CHR ''/'' # Join out (CHR ''/'')"
proof (induction out)
  case (Cons s out)
  then show ?case by (cases "out = []") (auto simp: as_path_def Join_Cons)
qed simp

lemma dots_no_slash: "dots s \<Longrightarrow> CHR ''/'' \<notin> set s"
  unfolding dots_def by (elim disjE) simp_all

lemma last_Join: "ss \<noteq> [] \<Longrightarrow> last ss \<noteq> '''' \<Longrightarrow> Join ss c \<noteq> '''' \<and> last (Join ss c) = last (last ss)"
  by (induction ss c rule: Join.induct) (auto split: if_splits)

lemma named_file_as_path:
  assumes "out \<noteq> []" "list_all safe_name out"
  shows "named_file (as_path out @ (if b then ''/'' else '''')) = Join out (CHR ''/'')"
proof -
  have safe: "safe_name (last out)" using assms by (simp add: list_all_iff)
  then have ne: "last out \<noteq> ''''" by (simp add: safe_name_def)
  have "last (last out) \<noteq> CHR ''/''" using safe_name_no_slash [OF safe] last_in_set [OF ne] by metis
  with last_Join [OF assms(1) ne, of "CHR ''/''"] show ?thesis
    by (cases b) (simp_all add: as_path_Join [OF assms(1)] named_file_def butlast_append Let_def)
qed

text \<open>C37: Dot segments are resolved as RFC 3986 says: for a target none of whose interior segments is empty, the
  name is the file of the path that the RFC's \<open>remove_dot_segments\<close> makes of the decoded segments, although
  the code keeps a stack of segments and the RFC works on strings.\<close>

theorem resolve_is_remove_dot_segments:
  assumes "resolve target = Some (name, slash)" "map unescape (raw_segments target) = map Some ss"
    and "'''' \<notin> set (butlast ss)"
  shows "name = named_file (remove_dot_segments (CHR ''/'' # Join ss (CHR ''/'')) '''')"
proof -
  obtain ss' where ss': "map unescape (raw_segments target) = map Some ss'" "\<forall>s\<in>set ss'. dots s \<or> safe_name s" "ss' \<noteq> []"
    "name = (if walk ss' [] = [] then ''.'' else Join (walk ss' []) (CHR ''/''))"
    using resolve_Some [OF assms(1)] .
  have "ss' = ss" using arg_cong [OF trans [OF ss'(1) [symmetric] assms(2)], of "map the"] by (simp add: comp_def)
  note ss = ss'(2-4) [unfolded this]
  have no: "\<forall>s\<in>set ss. CHR ''/'' \<notin> set s"
    using ss(1) safe_name_no_slash dots_no_slash by blast
  have safe: "list_all safe_name (walk ss [])" by (rule walk_safe) (use ss in auto)
  have rds: "remove_dot_segments (CHR ''/'' # Join ss (CHR ''/'')) '''' =
      as_path (walk ss []) @ (if dots (last ss) then ''/'' else '''')"
    using rds_walk [OF ss(2) no assms(3), of "[]"] by (simp add: as_path_def)
  show ?thesis
  proof (cases "walk ss [] = []")
    case True
    then show ?thesis by (simp add: ss(3) rds as_path_def named_file_def)
  next
    case False
    from named_file_as_path [OF this safe] False show ?thesis by (simp only: ss(3) rds if_False)
  qed
qed

lemma resolve_is_remove_dot_segments_witness:
  "named_file (remove_dot_segments ''/a/../b/./c/'' '''') = ''b/c''"
proof -
  have "resolve ''/a/%2e./b/./c/'' = Some (''b/c'', True)"
    "map unescape (raw_segments ''/a/%2e./b/./c/'') = map Some [''a'', ''..'', ''b'', ''.'', ''c'', '''']" by code_simp+
  from resolve_is_remove_dot_segments [OF this] show ?thesis by simp
qed

text \<open>An empty interior segment is a segment to the RFC, which takes it away for a \<open>..\<close>; the code skips it
  and takes the one before.\<close>

lemma empty_segment_differs:
  "resolve ''/a//../b'' = Some (''b'', False) \<and>
   named_file (remove_dot_segments ''/a//../b'' '''') = ''a/b''"
  by code_simp

end
