(* ===== verification/RangeProps.thy ===== *)
theory RangeProps
  imports StaticRanges
begin

text \<open>
  The properties of range requests: every span lies in the file, no 64-bit operation wraps, and the parser
  selects the octets that the specs of RFC 9110 section 14.1.2 describe.
\<close>

subsection \<open>No operation wraps\<close>

lemma int64_id [simp]: "- (2 ^ 63) \<le> n \<Longrightarrow> n < 2 ^ 63 \<Longrightarrow> int64 n = n"
  by (simp add: int64_def)

definition inside :: "int \<Rightarrow> span \<Rightarrow> bool" where
  "inside sz s \<longleftrightarrow> 0 \<le> sp_first s \<and> sp_first s \<le> sp_last s \<and> sp_last s < sz"

definition file_size :: "int \<Rightarrow> bool" where "file_size sz \<longleftrightarrow> 0 \<le> sz \<and> sz \<le> MaxInt64"

definition octets_of :: "span \<Rightarrow> int" where "octets_of s = sp_last s - sp_first s + 1"

lemma span_length_inside: "inside sz s \<Longrightarrow> file_size sz \<Longrightarrow> span_length s = octets_of s \<and> 0 < octets_of s \<and> octets_of s \<le> sz"
  by (simp add: inside_def span_length_def file_size_def MaxInt64_def octets_of_def)

lemma parsePos_Some: "parsePos s = Some n \<longleftrightarrow> s \<noteq> '''' \<and> list_all isDigit s \<and> n = min (digits s) MaxInt64"
  by (auto simp: parsePos_def list_ex_iff list_all_iff isDigit_def not_less not_le)

lemma parsePos_bounds: "parsePos s = Some n \<Longrightarrow> 0 \<le> n \<and> n \<le> MaxInt64"
  using digits_bounds [of s] by (auto simp: parsePos_Some MaxInt64_def)

lemma parseRangeSpec_inside:
  assumes "parseRangeSpec spec sz = Some (Some s)" "file_size sz" "0 < sz"
  shows "inside sz s"
proof -
  obtain suffix dash where cut: "CutPrefix spec ''-'' = (suffix, dash)" by (cases "CutPrefix spec ''-''")
  have sub: "int64 (sz - n) = sz - n" if "0 \<le> n" "n < sz" for n
    by (rule int64_id) (use that assms(2) in \<open>simp_all add: file_size_def MaxInt64_def\<close>)
  have less: "int64 (sz - 1) = sz - 1"
    by (rule int64_id) (use assms(2,3) in \<open>simp_all add: file_size_def MaxInt64_def\<close>)
  show ?thesis
  proof (cases dash)
    case True
    with assms(1) cut obtain n where n: "parsePos suffix = Some n" "n \<noteq> 0"
      "s = (if n \<ge> sz then \<lparr>sp_first = 0, sp_last = sz - 1\<rparr> else \<lparr>sp_first = int64 (sz - n), sp_last = sz - 1\<rparr>)"
      by (auto simp: parseRangeSpec_def less split: option.splits if_splits)
    with parsePos_bounds [OF n(1)] sub [of n] assms(3) show ?thesis by (simp add: inside_def)
  next
    case False
    obtain a to f where c: "Cut spec (CHR ''-'') = (a, to, f)" by (cases "Cut spec (CHR ''-'')")
    with False assms(1) cut obtain n m where n: "parsePos a = Some n" "n < sz" "s = \<lparr>sp_first = n, sp_last = min m (sz - 1)\<rparr>"
      "m = MaxInt64 \<or> (parsePos to = Some m \<and> n \<le> m)"
      by (simp add: parseRangeSpec_def less not_less not_le split: option.splits if_splits) blast+
    with parsePos_bounds [OF n(1)] assms(2,3) show ?thesis by (auto simp: inside_def file_size_def)
  qed
qed

text \<open>What every turn of the loop over the set keeps.\<close>

lemma parseRangeSet_loop_inside:
  assumes "file_size sz" "0 < sz" "list_all (inside sz) spans" "int (length spans) \<le> specs" "specs \<le> maxRanges"
    and "parseRangeSet_loop rset sz spans specs = (spans', specs', ok)"
  shows "list_all (inside sz) spans' \<and> (specs' \<le> maxRanges \<longrightarrow> int (length spans') \<le> specs')"
  using assms
proof (induction rset sz spans specs rule: parseRangeSet_loop.induct)
  case (1 rset sz spans specs)
  obtain spec others f where cut: "Cut rset (CHR '','') = (spec, others, f)" by (cases "Cut rset (CHR '','')")
  show ?case
  proof (cases "rset = ''''")
    case True
    with "1.prems" show ?thesis by (simp add: parseRangeSet_loop.simps)
  next
    case ne: False
    show ?thesis
    proof (cases "Trim spec OWS = ''''")
      case True
      with "1.IH"(1) [OF ne cut [symmetric] refl refl True] "1.prems" ne cut show ?thesis
        by (simp add: parseRangeSet_loop.simps [of rset])
    next
      case spec: False
      show ?thesis
      proof (cases "specs + 1 > maxRanges")
        case True
        with spec ne cut "1.prems" show ?thesis by (simp add: parseRangeSet_loop.simps [of rset])
      next
        case few: False
        note go = ne cut [symmetric] refl refl spec refl few
        show ?thesis
        proof (cases "parseRangeSpec (Trim spec OWS) sz")
          case None
          with spec ne cut few "1.prems" show ?thesis by (simp add: parseRangeSet_loop.simps [of rset])
        next
          case (Some r)
          show ?thesis
          proof (cases r)
            case None
            with Some "1.IH"(2) [OF go Some None] "1.prems" spec ne cut few show ?thesis
              by (simp add: parseRangeSet_loop.simps [of rset])
          next
            case r: (Some s)
            with Some parseRangeSpec_inside "1.prems" have "inside sz s" by blast
            with Some r "1.IH"(3) [OF go Some r] "1.prems" spec ne cut few show ?thesis
              by (simp add: parseRangeSet_loop.simps [of rset])
          qed
        qed
      qed
    qed
  qed
qed

lemma exceeds_iff:
  assumes "list_all (inside sz) spans" "0 \<le> acc" "acc \<le> sz" "0 \<le> sz" "sz < 2 ^ 62"
  shows "exceeds spans acc sz \<longleftrightarrow> acc + (\<Sum>s\<leftarrow>spans. octets_of s) > sz"
  using assms(1-3)
proof (induction spans arbitrary: acc)
  case (Cons s spans)
  have fs: "file_size sz" using assms(4,5) by (simp add: file_size_def MaxInt64_def)
  have len: "span_length s = octets_of s" "0 < octets_of s" "octets_of s \<le> sz"
    using span_length_inside [OF _ fs, of s] Cons.prems(1) by simp_all
  then have sum: "int64 (acc + span_length s) = acc + octets_of s"
    using Cons.prems(2,3) assms(5) by (subst int64_id) simp_all
  have rest: "0 \<le> (\<Sum>s\<leftarrow>spans. octets_of s)"
    using Cons.prems(1) by (intro sum_list_nonneg) (auto simp: list_all_iff inside_def octets_of_def)
  show ?case
  proof (cases "acc + octets_of s > sz")
    case False
    with Cons.IH [of "acc + octets_of s"] Cons.prems len sum show ?thesis by (simp add: Let_def add.assoc)
  qed (use rest sum in \<open>simp add: Let_def\<close>)
qed simp

text \<open>A partial response never reaches outside the file and never costs more than the file: when \<open>evaluateRange\<close> answers
  a request with spans there is at least one and there are at most 16, each is a non-empty
  part of the file, none of the 64-bit operations on them wraps, and for a file below 4 EiB their
  octets together are no more than the file's.\<close>

theorem ranges_are_inside_the_file:
  assumes "evaluateRange r tag sz = (spans, rangePartial)" "file_size sz"
  shows "spans \<noteq> [] \<and> length spans \<le> 16 \<and>
    list_all (\<lambda>s. 0 \<le> sp_first s \<and> sp_first s \<le> sp_last s \<and> sp_last s < sz \<and> span_length s = sp_last s - sp_first s + 1) spans \<and>
    (sz < 2 ^ 62 \<longrightarrow> (\<Sum>s\<leftarrow>spans. span_length s) \<le> sz)"
proof -
  have pos: "0 < sz"
    using assms by (auto simp: evaluateRange_def file_size_def split: prod.splits if_splits)
  obtain rset specs where set: "parseRangeSet_loop rset sz [] 0 = (spans, specs, True)" "specs \<le> maxRanges" "spans \<noteq> []"
    "\<not> exceeds spans 0 sz"
    using assms(1) by (auto simp: evaluateRange_def parseRangeSet_def split: prod.splits if_splits)
  from parseRangeSet_loop_inside [OF assms(2) pos _ _ _ set(1)] set(2)
  have ins: "list_all (inside sz) spans" "length spans \<le> 16" by auto
  have len: "span_length s = octets_of s" if "s \<in> set spans" for s
    using span_length_inside [OF _ assms(2)] ins that by (auto simp: list_all_iff)
  have sum: "(\<Sum>s\<leftarrow>spans. span_length s) \<le> sz" if "sz < 2 ^ 62"
    using exceeds_iff [OF ins(1), of 0] set(4) pos that len by (simp cong: map_cong)
  have each: "list_all (\<lambda>s. 0 \<le> sp_first s \<and> sp_first s \<le> sp_last s \<and> sp_last s < sz \<and> span_length s = sp_last s - sp_first s + 1) spans"
    using ins(1) len by (auto simp: list_all_iff inside_def octets_of_def)
  from set(3) ins(2) each sum show ?thesis by simp
qed

definition ranged :: "string \<Rightarrow> request" where
  "ranged v = new_request\<lparr>rq_Method := ''GET'', rq_Path := ''/a'', rq_Fields := [\<lparr>Name = ''range'', Value = v, Sensitive = False\<rparr>]\<rparr>"

lemma ranges_are_inside_the_file_witness:
  "evaluateRange (ranged ''bytes=0-3, 90-, -2'') [] 100 =
     ([\<lparr>sp_first = 0, sp_last = 3\<rparr>, \<lparr>sp_first = 90, sp_last = 99\<rparr>, \<lparr>sp_first = 98, sp_last = 99\<rparr>], rangePartial) \<and>
   (\<Sum>s\<leftarrow>[\<lparr>sp_first = 0, sp_last = 3\<rparr>, \<lparr>sp_first = 90, sp_last = 99\<rparr>, \<lparr>sp_first = 98, sp_last = 99\<rparr>]. span_length s) \<le> 100"
proof -
  have e: "evaluateRange (ranged ''bytes=0-3, 90-, -2'') [] 100 =
     ([\<lparr>sp_first = 0, sp_last = 3\<rparr>, \<lparr>sp_first = 90, sp_last = 99\<rparr>, \<lparr>sp_first = 98, sp_last = 99\<rparr>], rangePartial)"
    by code_simp
  have "file_size 100" by (simp add: file_size_def MaxInt64_def)
  from ranges_are_inside_the_file [OF e this] e show ?thesis by simp
qed

subsection \<open>What a range set selects\<close>

text \<open>A spec of RFC 9110 section 14.1.2, with its numerals as they are spelled, and the positions it selects.\<close>

datatype rspec = Suffix string | Onwards string | Between string string

definition numeral_text :: "string \<Rightarrow> bool" where
  "numeral_text s \<longleftrightarrow> s \<noteq> '''' \<and> list_all isDigit s"

fun spec_ok :: "rspec \<Rightarrow> bool" where
  "spec_ok (Suffix n) = numeral_text n"
| "spec_ok (Onwards a) = numeral_text a"
| "spec_ok (Between a b) = (numeral_text a \<and> numeral_text b \<and> digits a \<le> digits b)"

fun spec_text :: "rspec \<Rightarrow> string" where
  "spec_text (Suffix n) = ''-'' @ n"
| "spec_text (Onwards a) = a @ ''-''"
| "spec_text (Between a b) = a @ ''-'' @ b"

fun selected :: "int \<Rightarrow> rspec \<Rightarrow> int set" where
  "selected sz (Suffix n) = {p. sz - digits n \<le> p} \<inter> {0..<sz}"
| "selected sz (Onwards a) = {p. digits a \<le> p} \<inter> {0..<sz}"
| "selected sz (Between a b) = {p. digits a \<le> p \<and> p \<le> digits b} \<inter> {0..<sz}"

definition covered :: "span \<Rightarrow> int set" where "covered s = {sp_first s..sp_last s}"

lemma numeral_parses: "numeral_text s \<Longrightarrow> parsePos s = Some (min (digits s) MaxInt64)"
  by (simp add: numeral_text_def parsePos_Some)

lemma numeral_no_dash: "numeral_text s \<Longrightarrow> CHR ''-'' \<notin> set s"
  by (auto simp: numeral_text_def list_all_iff isDigit_def less_eq_char_def)

lemma spec_parsed:
  assumes "spec_ok r" "file_size sz" "0 < sz"
  shows "\<exists>v. parseRangeSpec (spec_text r) sz = Some v \<and>
    (case v of None \<Rightarrow> selected sz r = {} | Some s \<Rightarrow> covered s = selected sz r \<and> selected sz r \<noteq> {} \<and> inside sz s)"
proof -
  have less: "int64 (sz - 1) = sz - 1"
    by (rule int64_id) (use assms(2,3) in \<open>simp_all add: file_size_def MaxInt64_def\<close>)
  show ?thesis
  proof (cases r)
    case (Suffix n)
    then have n: "parsePos n = Some (min (digits n) MaxInt64)" "0 \<le> digits n"
      using assms(1) numeral_parses digits_bounds by (auto simp: numeral_text_def)
    have sub: "int64 (sz - digits n) = sz - digits n" if "digits n < sz"
      by (rule int64_id) (use that n(2) assms(2) in \<open>simp_all add: file_size_def MaxInt64_def\<close>)
    have cut: "CutPrefix (spec_text r) ''-'' = (n, True)" by (simp add: Suffix CutPrefix_def)
    consider "digits n = 0" | "0 < digits n" "digits n < sz" | "0 < digits n" "sz \<le> digits n" using n(2) by linarith
    then show ?thesis
    proof cases
      case 1
      then have "parseRangeSpec (spec_text r) sz = Some None" by (simp add: parseRangeSpec_def cut n(1) MaxInt64_def)
      with 1 show ?thesis by (simp add: Suffix) (auto)
    next
      case 2
      then have "min (digits n) MaxInt64 = digits n" using assms(2) by (simp add: file_size_def)
      with 2 have "parseRangeSpec (spec_text r) sz = Some (Some \<lparr>sp_first = sz - digits n, sp_last = sz - 1\<rparr>)"
        by (simp add: parseRangeSpec_def cut n(1) less sub)
      with 2 show ?thesis by (simp add: Suffix covered_def inside_def) (auto)
    next
      case 3
      then have "min (digits n) MaxInt64 \<noteq> 0" "sz \<le> min (digits n) MaxInt64"
        using assms(2) by (auto simp: file_size_def MaxInt64_def)
      then have p: "parseRangeSpec (spec_text r) sz = Some (Some \<lparr>sp_first = 0, sp_last = sz - 1\<rparr>)"
        by (simp add: parseRangeSpec_def cut n(1) less)
      have sel: "selected sz r = {0..<sz}" using 3 by (auto simp: Suffix)
      have cov: "covered \<lparr>sp_first = 0, sp_last = sz - 1\<rparr> = {0..<sz}" by (auto simp: covered_def)
      show ?thesis using assms(3) by (simp add: p sel cov inside_def)
    qed
  next
    case (Onwards a)
    then have a: "parsePos a = Some (min (digits a) MaxInt64)" "0 \<le> digits a" "CHR ''-'' \<notin> set a"
      using assms(1) numeral_parses digits_bounds numeral_no_dash by (auto simp: numeral_text_def)
    have dash: "take (Suc 0) (spec_text r) \<noteq> ''-''"
      using Onwards a(3) assms(1) by (cases a) (auto simp: numeral_text_def)
    have cut: "CutPrefix (spec_text r) ''-'' = (spec_text r, False)" "Cut (spec_text r) (CHR ''-'') = (a, '''', True)"
      using dash Onwards Cut_append [OF a(3), of "''''"] by (simp_all add: CutPrefix_def)
    have big: "min (digits a) MaxInt64 \<ge> sz \<longleftrightarrow> digits a \<ge> sz" "min MaxInt64 (sz - 1) = sz - 1"
      using assms(2) by (auto simp: file_size_def)
    have p: "parseRangeSpec (spec_text r) sz =
        Some (if digits a \<ge> sz then None else Some \<lparr>sp_first = min (digits a) MaxInt64, sp_last = sz - 1\<rparr>)"
      using assms(2) by (simp add: parseRangeSpec_def cut a(1) big less file_size_def)
    show ?thesis
      unfolding p using assms(2,3) a(2) by (simp add: Onwards covered_def inside_def file_size_def) (auto)
  next
    case (Between a b)
    then have a: "parsePos a = Some (min (digits a) MaxInt64)" "0 \<le> digits a" "CHR ''-'' \<notin> set a"
      and b: "parsePos b = Some (min (digits b) MaxInt64)" "digits a \<le> digits b" "b \<noteq> ''''"
      using assms(1) numeral_parses digits_bounds numeral_no_dash by (auto simp: numeral_text_def)
    have dash: "take (Suc 0) (spec_text r) \<noteq> ''-''"
      using Between a(3) assms(1) by (cases a) (auto simp: numeral_text_def)
    have cut: "CutPrefix (spec_text r) ''-'' = (spec_text r, False)" "Cut (spec_text r) (CHR ''-'') = (a, b, True)"
      using dash Between Cut_append [OF a(3), of b] by (simp_all add: CutPrefix_def)
    have big: "min (digits a) MaxInt64 \<ge> sz \<longleftrightarrow> digits a \<ge> sz" "min (min (digits b) MaxInt64) (sz - 1) = min (digits b) (sz - 1)"
      "\<not> min (digits b) MaxInt64 < min (digits a) MaxInt64"
      using assms(2) b(2) by (auto simp: file_size_def)
    have p: "parseRangeSpec (spec_text r) sz =
        Some (if digits a \<ge> sz then None else Some \<lparr>sp_first = min (digits a) MaxInt64, sp_last = min (digits b) (sz - 1)\<rparr>)"
      using big(3) assms(2) by (simp add: parseRangeSpec_def cut a(1) b(1,3) big(1,2) less file_size_def)
    show ?thesis
      unfolding p using assms(2,3) a(2) b(2) by (simp add: Between covered_def inside_def file_size_def) (auto)
  qed
qed

text \<open>A range set as it is written: specs and empty elements, with blanks around them, between commas.\<close>

type_synonym range_elem = "string \<times> rspec option \<times> string"

definition blank :: "string \<Rightarrow> bool" where "blank s \<longleftrightarrow> list_all (\<lambda>c. c \<in> set OWS) s"

fun elem_ok :: "range_elem \<Rightarrow> bool" where
  "elem_ok (pre, r, post) = (blank pre \<and> blank post \<and> (case r of None \<Rightarrow> True | Some r \<Rightarrow> spec_ok r))"

fun elem_text :: "range_elem \<Rightarrow> string" where
  "elem_text (pre, r, post) = pre @ (case r of None \<Rightarrow> '''' | Some r \<Rightarrow> spec_text r) @ post"

definition specs_of :: "range_elem list \<Rightarrow> rspec list" where
  "specs_of es = List.map_filter (\<lambda>(pre, r, post). r) es"

definition set_text :: "range_elem list \<Rightarrow> string" where
  "set_text es = Join (map elem_text es) (CHR '','')"

lemma specs_of_Cons [simp]:
  "specs_of ((pre, None, post) # es) = specs_of es" "specs_of ((pre, Some r, post) # es) = r # specs_of es"
  "specs_of [] = []"
  by (simp_all add: specs_of_def List.map_filter_def)

lemma TrimLeft_blank: "blank pre \<Longrightarrow> TrimLeft (pre @ s) OWS = TrimLeft s OWS"
  by (simp add: TrimLeft_def blank_def list_all_iff dropWhile_append2)

lemma TrimLeft_stop: "s = '''' \<or> hd s \<notin> set OWS \<Longrightarrow> TrimLeft s OWS = s"
  by (cases s) (auto simp: TrimLeft_def)

lemma blank_rev [simp]: "blank (rev s) = blank s"
  by (simp add: blank_def list_all_iff)

lemma Trim_blanks:
  assumes "blank pre" "blank post" "s = '''' \<or> (hd s \<notin> set OWS \<and> last s \<notin> set OWS)"
  shows "Trim (pre @ s @ post) OWS = s"
proof (cases "s = ''''")
  case True
  have e: "TrimLeft [] OWS = []" by (simp add: TrimLeft_def)
  have "TrimLeft b OWS = []" if "blank b" for b using TrimLeft_blank [OF that, of "[]"] e by simp
  with True e assms show ?thesis by (simp add: Trim_def TrimLeft_blank)
next
  case False
  have "TrimLeft (s @ post) OWS = s @ post" by (rule TrimLeft_stop) (use False assms(3) in auto)
  moreover have "TrimLeft (rev s) OWS = rev s" by (rule TrimLeft_stop) (use False assms(3) in \<open>auto simp: hd_rev\<close>)
  ultimately show ?thesis using assms(1,2) by (simp add: Trim_def TrimLeft_blank)
qed

lemma spec_octets: "spec_ok r \<Longrightarrow> c \<in> set (spec_text r) \<Longrightarrow> isDigit c \<or> c = CHR ''-''"
  by (cases r) (auto simp: numeral_text_def list_all_iff)

lemma spec_no_blank: "spec_ok r \<Longrightarrow> c \<in> set (spec_text r) \<Longrightarrow> c \<notin> set OWS \<and> c \<noteq> CHR '',''"
  using spec_octets [of r c] by (auto simp: OWS_def isDigit_def less_eq_char_def)

lemma spec_text_not_Nil: "spec_ok r \<Longrightarrow> spec_text r \<noteq> ''''"
  by (cases r) (auto simp: numeral_text_def)

lemma elem_trim: "elem_ok (pre, r, post) \<Longrightarrow> Trim (elem_text (pre, r, post)) OWS = (case r of None \<Rightarrow> '''' | Some r \<Rightarrow> spec_text r)"
  using spec_no_blank spec_text_not_Nil hd_in_set last_in_set
  by (cases r) (auto intro!: Trim_blanks simp: Trim_blanks [where s = "''''", simplified])

lemma elem_no_comma: "elem_ok e \<Longrightarrow> CHR '','' \<notin> set (elem_text e)"
  using spec_no_blank by (cases e) (auto simp: blank_def list_all_iff OWS_def split: option.splits)

lemma cut_set_text:
  assumes "elem_ok e"
  shows "Cut (set_text (e # es)) (CHR '','') = (elem_text e, set_text es, es \<noteq> [])"
  using elem_no_comma [OF assms] by (cases es) (simp_all add: set_text_def)

text \<open>The loop on such a set; an empty text ends it as well as an empty list.\<close>

lemma range_set_parsed:
  assumes "list_all elem_ok es" "file_size sz" "0 < sz" "specs + int (length (specs_of es)) \<le> maxRanges"
  shows "\<exists>new. parseRangeSet_loop (set_text es) sz spans specs = (spans @ new, specs + int (length (specs_of es)), True) \<and>
    list_all (inside sz) new \<and> map covered new = List.filter (\<lambda>A. A \<noteq> {}) (map (selected sz) (specs_of es))"
  using assms(1,4)
proof (induction es arbitrary: spans specs)
  case Nil
  then show ?case by (simp add: set_text_def parseRangeSet_loop.simps)
next
  case (Cons e es)
  obtain pre r post where e: "e = (pre, r, post)" by (cases e)
  have ok: "elem_ok (pre, r, post)" "list_all elem_ok es" using Cons.prems e by simp_all
  note cut = cut_set_text [OF ok(1), of es] and trim = elem_trim [OF ok(1)]
  show ?case
  proof (cases r)
    case None
    show ?thesis
    proof (cases "set_text (e # es) = ''''")
      case True
      have "es = []"
        using True by (cases es) (simp_all add: set_text_def)
      with True None e show ?thesis by (simp add: parseRangeSet_loop.simps)
    next
      case False
      with Cons.IH [OF ok(2), of specs spans] Cons.prems(2) None e cut trim show ?thesis
        by (simp add: parseRangeSet_loop.simps [of "set_text ((pre, None, post) # es)"])
    qed
  next
    case (Some x)
    have x: "spec_ok x" using ok(1) Some by simp
    have ne: "set_text (e # es) \<noteq> ''''"
      using spec_text_not_Nil [OF x] e Some by (cases es) (simp_all add: set_text_def)
    from spec_parsed [OF x assms(2,3)] obtain v where v: "parseRangeSpec (spec_text x) sz = Some v"
      "case v of None \<Rightarrow> selected sz x = {} | Some s \<Rightarrow> covered s = selected sz x \<and> selected sz x \<noteq> {} \<and> inside sz s" by blast
    have room: "\<not> specs + 1 > maxRanges" "specs + 1 + int (length (specs_of es)) \<le> maxRanges"
      using Cons.prems(2) e Some by simp_all
    have step: "parseRangeSet_loop (set_text (e # es)) sz spans specs =
        parseRangeSet_loop (set_text es) sz (case v of None \<Rightarrow> spans | Some s \<Rightarrow> spans @ [s]) (specs + 1)"
      using ne cut trim v(1) room(1) spec_text_not_Nil [OF x] Some e
      by (simp add: parseRangeSet_loop.simps [of "set_text ((pre, Some x, post) # es)"] split: option.splits)
    from Cons.IH [OF ok(2) room(2), of "case v of None \<Rightarrow> spans | Some s \<Rightarrow> spans @ [s]"] obtain new where
      new: "parseRangeSet_loop (set_text (e # es)) sz spans specs =
          ((case v of None \<Rightarrow> spans | Some s \<Rightarrow> spans @ [s]) @ new, specs + 1 + int (length (specs_of es)), True)"
        "list_all (inside sz) new" "map covered new = List.filter (\<lambda>A. A \<noteq> {}) (map (selected sz) (specs_of es))"
      unfolding step by blast
    show ?thesis
      by (rule exI [of _ "(case v of None \<Rightarrow> [] | Some s \<Rightarrow> [s]) @ new"]) (use new v(2) e Some in \<open>simp split: option.splits\<close>)
  qed
qed

lemma octets_card: "inside sz s \<Longrightarrow> octets_of s = int (card (covered s))"
  by (simp add: inside_def octets_of_def covered_def)

text \<open>C38: A range request selects the octets RFC 9110 section 14.1.2 says: for a GET, of a file that is not empty and below \<open>2 ^ 62\<close> octets, with one range field that spells up to 16
  valid specs in any way (numerals of any size, blanks, empty elements) and no if-range condition that fails, the spans are exactly the
  sets of positions that the specs select in the file, in the order of the specs, without the
  unsatisfiable ones; if none is left the answer is a 416, and if they add up to more than the file it is the whole file.\<close>

theorem ranges_select_what_they_say:
  assumes "lookup (rq_Fields r) ''range'' = (unit @ ''='' @ set_text es, 1)" "rq_Method r = ''GET''" "\<not> ifRangeIsFalse r tag"
    and "CHR ''='' \<notin> set unit" "EqualFold unit ''bytes''"
    and "list_all elem_ok es" "specs_of es \<noteq> []" "length (specs_of es) \<le> 16" "0 < sz" "sz < 2 ^ 62"
  shows "let sel = List.filter (\<lambda>A. A \<noteq> {}) (map (selected sz) (specs_of es)) in
    if sel = [] then evaluateRange r tag sz = ([], rangeNotSatisfiable)
    else if (\<Sum>A\<leftarrow>sel. int (card A)) > sz then evaluateRange r tag sz = ([], rangeIgnore)
    else \<exists>spans. evaluateRange r tag sz = (spans, rangePartial) \<and> map covered spans = sel"
proof -
  let ?sel = "List.filter (\<lambda>A. A \<noteq> {}) (map (selected sz) (specs_of es))"
  have fs: "file_size sz" using assms(9,10) by (simp add: file_size_def MaxInt64_def)
  from range_set_parsed [OF assms(6) fs assms(9), of 0 "[]"] assms(8) obtain spans where
    spans: "parseRangeSet (set_text es) sz = (spans, int (length (specs_of es)), True)" "list_all (inside sz) spans"
    "map covered spans = ?sel"
    unfolding parseRangeSet_def by auto
  have cut: "Cut (unit @ ''='' @ set_text es) (CHR ''='') = (unit, set_text es, True)"
    using assms(4) by simp
  have sum: "(\<Sum>s\<leftarrow>spans. octets_of s) = (\<Sum>A\<leftarrow>?sel. int (card A))"
    unfolding spans(3) [symmetric] using spans(2) octets_card
    by (auto simp: list_all_iff comp_def intro!: arg_cong [of _ _ sum_list] map_cong)
  have ev: "evaluateRange r tag sz =
      (if spans = [] then ([], rangeNotSatisfiable) else if (\<Sum>s\<leftarrow>spans. octets_of s) > sz then ([], rangeIgnore)
       else (spans, rangePartial))"
    using assms(1-3,5,7-9) cut spans(1) exceeds_iff [OF spans(2), of 0] assms(10)
    by (simp add: evaluateRange_def)
  have "spans = [] \<longleftrightarrow> ?sel = []" unfolding spans(3) [symmetric] by simp
  with ev sum spans(3) show ?thesis by (simp add: Let_def)
qed

lemma ranges_select_what_they_say_witness:
  "\<exists>spans. evaluateRange (ranged ''Bytes=,00-003 , 7-99999999999999999999999, 50-'') [] 10 = (spans, rangePartial) \<and>
     map covered spans = [{0..3}, {7..9}]"
proof -
  let ?es = "[('''', None, ''''), ('''', Some (Between ''00'' ''003''), '' ''),
    ('' '', Some (Between ''7'' ''99999999999999999999999''), ''''), ('' '', Some (Onwards ''50''), '''')]"
  have written: "set_text ?es = '',00-003 , 7-99999999999999999999999, 50-''" by code_simp
  have look: "lookup (rq_Fields (ranged ''Bytes=,00-003 , 7-99999999999999999999999, 50-'')) ''range'' =
      (''Bytes'' @ ''='' @ set_text ?es, 1)" unfolding written by code_simp
  have m: "rq_Method (ranged ''Bytes=,00-003 , 7-99999999999999999999999, 50-'') = ''GET''" by code_simp
  have f: "\<not> ifRangeIsFalse (ranged ''Bytes=,00-003 , 7-99999999999999999999999, 50-'') []" by code_simp
  have u: "CHR ''='' \<notin> set ''Bytes''" "EqualFold ''Bytes'' ''bytes''" by code_simp+
  have ok: "list_all elem_ok ?es" by code_simp
  have specs: "specs_of ?es = [Between ''00'' ''003'', Between ''7'' ''99999999999999999999999'', Onwards ''50'']" by simp
  have d: "digits ''00'' = 0" "digits ''003'' = 3" "digits ''7'' = 7" "digits ''99999999999999999999999'' = 99999999999999999999999"
    "digits ''50'' = 50" by code_simp+
  have sel: "List.filter (\<lambda>A. A \<noteq> {}) (map (selected 10) (specs_of ?es)) = [{0..3}, {7..9}]"
    unfolding specs by (auto simp: d)
  from ranges_select_what_they_say [OF look m f u ok, of 10] show ?thesis
    unfolding sel by (simp add: specs)
qed

end
