(* ===== verification/StaticProps.thy ===== *)
theory StaticProps
  imports StaticCalls PathProps RangeProps
begin

text \<open>
  The properties of the file server's responses: they are complete and honest about their length, the content is the
  file's, HEAD agrees with GET, and only files inside the directory are ever looked at.
\<close>

subsection \<open>Field sections that the response layer accepts\<close>

definition visible :: "string \<Rightarrow> bool" where "visible s \<longleftrightarrow> list_all (\<lambda>c. CHR 0x20 < c) s"

definition trimmed :: "string \<Rightarrow> bool" where
  "trimmed s \<longleftrightarrow> list_all (\<lambda>c. CHR 0x20 \<le> c) s \<and> s \<noteq> '''' \<and> hd s \<noteq> CHR '' '' \<and> last s \<noteq> CHR '' ''"

definition section_ok :: "field list \<Rightarrow> bool" where
  "section_ok fs \<longleftrightarrow> checkSection SectionHeader fs = None \<and> \<not> informational fs"

lemma trimmed_plain: "trimmed s \<Longrightarrow> plain_value s"
proof -
  assume p: "trimmed s"
  have low: "c \<noteq> CHR 0x00 \<and> c \<noteq> CHR 0x0a \<and> c \<noteq> CHR 0x0d \<and> c \<noteq> CHR 0x09" if "CHR 0x20 \<le> c" for c
    using that by (auto simp: less_eq_char_def)
  have all: "CHR 0x20 \<le> c" if "c \<in> set s" for c using p that by (simp add: trimmed_def list_all_iff)
  have "hd s \<in> set s" "last s \<in> set s" using p by (simp_all add: trimmed_def)
  with all low have "hd s \<noteq> CHR 0x09" "last s \<noteq> CHR 0x09" by blast+
  with p all low show ?thesis by (auto simp: plain_value_def trimmed_def list_all_iff)
qed

lemma visible_trimmed: "visible s \<Longrightarrow> s \<noteq> '''' \<Longrightarrow> trimmed s"
proof -
  assume v: "visible s" and s: "s \<noteq> []"
  have all: "CHR 0x20 < c" if "c \<in> set s" for c using v that by (simp add: visible_def list_all_iff)
  have "CHR 0x20 < hd s" "CHR 0x20 < last s" using all s by simp_all
  then have "hd s \<noteq> CHR '' ''" "last s \<noteq> CHR '' ''" by auto
  with all s show ?thesis by (auto simp: trimmed_def list_all_iff less_imp_le)
qed

lemma visible_append [simp]: "visible (s @ t) \<longleftrightarrow> visible s \<and> visible t"
  by (simp add: visible_def)

lemma isDigit_visible: "isDigit c \<Longrightarrow> CHR 0x20 < c"
  by (auto simp: isDigit_def less_eq_char_def less_char_def)

lemma digits_visible: "list_all isDigit s \<Longrightarrow> visible s"
  by (auto simp: visible_def list_all_iff isDigit_visible)

lemma FormatInt_visible: "0 \<le> n \<Longrightarrow> visible (FormatInt n) \<and> FormatInt n \<noteq> ''''"
  using FormatInt_nonneg [of n] digits_visible by blast

lemma format_int_visible: "0 \<le> n \<Longrightarrow> visible (format_int n w) \<and> format_int n w \<noteq> ''''"
proof -
  assume "0 \<le> n"
  have z: "visible (replicate k (CHR ''0''))" for k by (simp add: visible_def list_all_iff less_char_def)
  from \<open>0 \<le> n\<close> decimal_nat_digits [of "nat n"] show ?thesis
    by (auto simp: format_int_def Let_def z digits_visible)
qed

lemma Format_trimmed:
  assumes "0 \<le> t"
  shows "trimmed (Format imfFixdate t)"
proof -
  define c where "c = civil_of t"
  note V = civil_of_valid [OF assms c_def]
  have y: "0 \<le> cv_year c" using V(1) by simp
  have names: "list_all (\<lambda>n. list_all (\<lambda>c. CHR 0x20 < c) n \<and> n \<noteq> '''') (shortDayNames @ shortMonthNames)" by code_simp
  have "shortDayNames ! weekday t \<in> set shortDayNames"
    by (rule nth_mem) (use weekday_bound [of t] in \<open>simp add: shortDayNames_def\<close>)
  with names have day: "visible (shortDayNames ! weekday t)" "shortDayNames ! weekday t \<noteq> ''''"
    by (auto simp: list_all_iff visible_def)
  have "shortMonthNames ! (cv_month c - 1) \<in> set shortMonthNames"
    by (rule nth_mem) (use V(2,3) in \<open>simp add: shortMonthNames_def\<close>)
  with names have month: "visible (shortMonthNames ! (cv_month c - 1))"
    by (auto simp: list_all_iff visible_def)
  have le: "list_all (\<lambda>c. CHR 0x20 \<le> c) s" if "visible s" for s
    using that by (auto simp: visible_def list_all_iff less_imp_le)
  have lits: "list_all (\<lambda>c. CHR 0x20 \<le> c) '', ''" "list_all (\<lambda>c. CHR 0x20 \<le> c) '' ''" "list_all (\<lambda>c. CHR 0x20 \<le> c) '':''"
    "list_all (\<lambda>c. CHR 0x20 \<le> c) '' GMT''" by code_simp+
  have f: "Format imfFixdate t = shortDayNames ! weekday t @ '', '' @ format_int (cv_day c) 2 @ '' '' @ shortMonthNames ! (cv_month c - 1) @
      '' '' @ format_int (cv_year c) 4 @ '' '' @ format_int (cv_hour c) 2 @ '':'' @ format_int (cv_min c) 2 @ '':'' @
      format_int (cv_sec c) 2 @ '' GMT''"
    by (simp add: Format_def imfFixdate_def c_def)
  have "CHR 0x20 < hd (shortDayNames ! weekday t)" using day(1) hd_in_set [OF day(2)] by (simp add: visible_def list_all_iff)
  then have "hd (Format imfFixdate t) \<noteq> CHR '' ''" unfolding f using day(2) by auto
  moreover have "last (Format imfFixdate t) = CHR ''T''" "Format imfFixdate t \<noteq> ''''" unfolding f by simp_all
  moreover have "list_all (\<lambda>c. CHR 0x20 \<le> c) (Format imfFixdate t)"
    unfolding f list_all_append using lits le day(1) month format_int_visible V y by simp
  ultimately show ?thesis by (simp add: trimmed_def)
qed

lemma section_okI:
  assumes "status \<in> {''200'', ''206'', ''301'', ''304'', ''404'', ''405'', ''412'', ''414'', ''416''}"
    and "list_all response_field rest"
  shows "section_ok (fld '':status'' status # rest)"
proof -
  have "status_field (fld '':status'' status)" "take 1 status \<noteq> ''1''"
    using assms(1) by (auto simp: status_field_def is_digit_def less_eq_char_def)
  with assms(2) show ?thesis unfolding section_ok_def checkSection_def loop_header by simp
qed

lemma response_fld: "n \<in> {''content-length'', ''content-type'', ''date'', ''server'', ''etag'', ''last-modified'', ''accept-ranges'',
    ''content-range'', ''allow'', ''location''} \<Longrightarrow> trimmed v \<Longrightarrow> response_field (fld n v)"
proof -
  assume n: "n \<in> {''content-length'', ''content-type'', ''date'', ''server'', ''etag'', ''last-modified'', ''accept-ranges'',
    ''content-range'', ''allow'', ''location''}" and v: "trimmed v"
  have "list_all (\<lambda>n. n \<noteq> '''' \<and> plain_name n \<and> n \<notin> set [''connection'', ''proxy-connection'', ''keep-alive'', ''transfer-encoding'', ''upgrade'', ''te''])
      [''content-length'', ''content-type'', ''date'', ''server'', ''etag'', ''last-modified'', ''accept-ranges'', ''content-range'', ''allow'', ''location'']"
    by code_simp
  with n have "n \<noteq> '''' \<and> plain_name n \<and> n \<notin> hop_by_hop" unfolding hop_by_hop_def by (auto simp only: list_all_iff list.set)
  with trimmed_plain [OF v] show ?thesis by (simp add: response_field_def)
qed

definition statuses :: "string set" where
  "statuses = {''200'', ''206'', ''301'', ''304'', ''404'', ''405'', ''412'', ''414'', ''416''}"

definition declares :: "field list \<Rightarrow> int \<Rightarrow> bool" where
  "declares fs n \<longleftrightarrow> map Value (List.filter (\<lambda>f. Name f = ''content-length'') fs) = [FormatInt n]"

definition more_fields :: "field list \<Rightarrow> bool" where
  "more_fields fs \<longleftrightarrow> list_all (\<lambda>f. response_field f \<and> Name f \<noteq> ''content-length'') fs"

definition validators :: "string \<Rightarrow> instant \<Rightarrow> field list" where
  "validators tag md = (if tag \<noteq> '''' then [fld ''etag'' tag] else []) @
     (if IsZero md then [] else [fld ''last-modified'' (Format imfFixdate md)])"

lemma withValidator_append: "withValidator fs tag md = fs @ validators tag md"
  by (simp add: withValidator_def validators_def)

lemma more_fields_simps [simp]: "more_fields []" "more_fields (fs @ gs) \<longleftrightarrow> more_fields fs \<and> more_fields gs"
  by (simp_all add: more_fields_def)

lemma more_field: "n \<in> {''etag'', ''last-modified'', ''accept-ranges'', ''content-range'', ''allow'', ''location''} \<Longrightarrow> trimmed v \<Longrightarrow>
    more_fields [fld n v]"
  using response_fld [of n v] by (auto simp: more_fields_def)

lemma validators_ok: "tag = '''' \<or> visible tag \<Longrightarrow> 0 \<le> md \<Longrightarrow> more_fields (validators tag md)"
  using Format_trimmed [of md] visible_trimmed [of tag] by (auto simp: validators_def intro!: more_field)

lemma static_fields_ok:
  assumes "status \<in> statuses" "kind = '''' \<or> trimmed kind" "0 \<le> now" "len = noContentLength \<or> 0 \<le> len" "more_fields extra"
  shows "section_ok (static_fields now status kind len @ extra)"
    "len \<noteq> noContentLength \<Longrightarrow> declares (static_fields now status kind len @ extra) len"
proof -
  have "trimmed serverName" by code_simp
  then have line: "response_field (fld ''server'' serverName)" "response_field (fld ''date'' (Format imfFixdate now))"
    "len \<noteq> noContentLength \<longrightarrow> response_field (fld ''content-length'' (FormatInt len))" "kind \<noteq> '''' \<longrightarrow> response_field (fld ''content-type'' kind)"
    using Format_trimmed [OF assms(3)] FormatInt_visible [of len] visible_trimmed [of "FormatInt len"] assms(2,4)
    by (auto intro!: response_fld)
  have "list_all response_field extra" "List.filter (\<lambda>f. Name f = ''content-length'') extra = []"
    using assms(5) by (auto simp: more_fields_def list_all_iff filter_empty_conv)
  then show "section_ok (static_fields now status kind len @ extra)"
    "len \<noteq> noContentLength \<Longrightarrow> declares (static_fields now status kind len @ extra) len"
    using line assms(1) unfolding statuses_def by (auto simp: static_fields_def declares_def intro!: section_okI)
qed

text \<open>A response that is complete: a section that the response layer accepts, alone and ending the stream, or followed by
  content of the length that it declares, and the end.\<close>

definition complete :: "call list \<Rightarrow> bool" where
  "complete cs \<longleftrightarrow> (\<exists>fs. cs = [CBodyless fs] \<and> section_ok fs) \<or>
     (\<exists>fs bs. cs = CHeader fs # map CBody bs @ [CClose] \<and> section_ok fs \<and> declares fs (int (length (concat bs))))"

lemma answer_complete:
  assumes "status \<in> statuses" "kind = '''' \<or> trimmed kind" "0 \<le> ev_now' env" "more_fields extra"
  shows "complete (answer_calls env r status kind body extra)"
proof -
  note ok = static_fields_ok [OF assms(1-3) _ assms(4), of "int (length body)"]
  show ?thesis
  proof (cases "rq_Method r = methodHead \<or> body = ''''")
    case True
    with ok(1) show ?thesis by (auto simp: complete_def answer_calls_def Let_def)
  next
    case False
    with ok show ?thesis
      by (simp add: complete_def answer_calls_def Let_def) (rule exI [of _ "[bytes_of body]"], simp)
  qed
qed

lemma file_complete:
  assumes "rq_Method r = methodHead \<or> fl_Size f = 0 \<or> int (length (concat (fst (fl_reads f 0 (fl_Size f))))) = fl_Size f"
    and "0 \<le> fl_Size f" "kind = '''' \<or> trimmed kind" "0 \<le> now" "0 \<le> md" "tag = '''' \<or> visible tag"
  shows "complete (file_calls r f kind tag now md)"
proof -
  have "trimmed bytesUnit" by code_simp
  then have more: "more_fields (validators tag md @ [fld ''accept-ranges'' bytesUnit])"
    using validators_ok [OF assms(6,5)] more_field [of "''accept-ranges''" bytesUnit] by simp
  have "status200 \<in> statuses" by (simp add: statuses_def)
  note ok = static_fields_ok [OF this assms(3,4) _ more, of "fl_Size f"]
  have fs: "withRanges (withValidator (static_fields now status200 kind (fl_Size f)) tag md) =
      static_fields now status200 kind (fl_Size f) @ validators tag md @ [fld ''accept-ranges'' bytesUnit]"
    by (simp add: withRanges_def withValidator_append)
  show ?thesis
  proof (cases "rq_Method r = methodHead \<or> fl_Size f = 0")
    case True
    with ok(1) assms(2) show ?thesis unfolding file_calls_def Let_def fs by (auto simp: complete_def)
  next
    case False
    with ok assms(1,2) show ?thesis
      unfolding file_calls_def Let_def fs complete_def
      by (intro disjI2 exI conjI) auto
  qed
qed

lemma content_octets: "content_of f c \<Longrightarrow> fl_Size f = 0 \<or> int (length (concat (fst (fl_reads f 0 (fl_Size f))))) = fl_Size f"
proof -
  assume c: "content_of f c"
  then have "0 \<le> fl_Size f" by (simp add: content_of_def)
  with content_reads [OF c, of 0 "fl_Size f"] show ?thesis by (metis add_0 fst_conv order_refl order_le_less)
qed

subsection \<open>Partial responses\<close>

fun part_bodies :: "served \<Rightarrow> string list \<Rightarrow> span list \<Rightarrow> byte list list" where
  "part_bodies f (lead # leads) (sp # sps) =
     bytes_of lead # fst (fl_reads f (sp_first sp) (span_length sp)) @ part_bodies f leads sps"
| "part_bodies f (lead # leads) [] = [bytes_of lead]"
| "part_bodies f [] sps = []"

lemma part_calls_bodies: "part_calls f leads sps = map CBody (part_bodies f leads sps)"
  by (induction f leads sps rule: part_calls.induct) auto

lemma part_octets:
  assumes "length leads = Suc (length sps)" "list_all (span_reads f) sps"
  shows "int (length (concat (part_bodies f leads sps))) = (\<Sum>l\<leftarrow>leads. int (length l)) + (\<Sum>s\<leftarrow>sps. span_length s)"
  using assms
proof (induction f leads sps rule: part_bodies.induct)
  case (1 f lead leads sp sps)
  then show ?case by (auto simp: span_reads_def)
qed auto

lemma inside_reads:
  assumes "content_of f c" "inside (fl_Size f) sp" "fl_Size f < 2 ^ 62"
  shows "span_reads f sp"
    "concat (fst (fl_reads f (sp_first sp) (span_length sp))) = take (nat (span_length sp)) (drop (nat (sp_first sp)) c)"
proof -
  have "file_size (fl_Size f)" using assms(1,3) by (simp add: file_size_def MaxInt64_def content_of_def)
  from span_length_inside [OF assms(2) this] have len: "span_length sp = octets_of sp" "0 < span_length sp" by simp_all
  with assms(2) obtain bs where "fl_reads f (sp_first sp) (span_length sp) = (bs, None)"
    "concat bs = take (nat (span_length sp)) (drop (nat (sp_first sp)) c)" "int (length (concat bs)) = span_length sp"
    using content_reads [OF assms(1), of "sp_first sp" "span_length sp"] by (auto simp: inside_def octets_of_def)
  then show "span_reads f sp"
    "concat (fst (fl_reads f (sp_first sp) (span_length sp))) = take (nat (span_length sp)) (drop (nat (sp_first sp)) c)"
    by (auto simp: span_reads_def)
qed

text \<open>The length of a plan does not wrap: there are at most 16 parts, whose leads are short.\<close>

lemma foldl_int64:
  assumes "0 \<le> a" "list_all (\<lambda>x. 0 \<le> g x) xs" "a + (\<Sum>x\<leftarrow>xs. g x) < 2 ^ 63"
  shows "foldl (\<lambda>n x. int64 (n + g x)) a xs = a + (\<Sum>x\<leftarrow>xs. g x)"
  using assms
proof (induction xs arbitrary: a)
  case (Cons x xs)
  have "0 \<le> (\<Sum>x\<leftarrow>xs. g x)" using Cons.prems(2) by (auto intro!: sum_list_nonneg simp: list_all_iff)
  with Cons.prems have "int64 (a + g x) = a + g x" by (subst int64_id) auto
  with Cons.IH [of "a + g x"] Cons.prems show ?case by (simp add: add.assoc)
qed simp

lemma FormatInt_short: "0 \<le> n \<Longrightarrow> n < 2 ^ 62 \<Longrightarrow> length (FormatInt n) \<le> 19"
  using decimal_nat_length [of "nat n" 19] by (simp add: FormatInt_def nat_less_iff)

lemma part_lead_short:
  assumes "inside sz s" "sz < 2 ^ 62"
  shows "length (part_lead i s sz kind b) \<le> 120 + length kind + length b"
proof -
  have "length (FormatInt (sp_first s)) \<le> 19" "length (FormatInt (sp_last s)) \<le> 19" "length (FormatInt sz) \<le> 19"
    using assms by (auto simp: inside_def intro!: FormatInt_short)
  then show ?thesis by (simp add: part_lead_def contentRange_def CRLF_def Let_def)
qed

lemma multipart_facts:
  assumes "list_all (inside sz) spans" "length spans \<le> 16" "(\<Sum>s\<leftarrow>spans. span_length s) \<le> sz" "0 \<le> sz" "sz < 2 ^ 62"
    "length kind \<le> 100" "length b \<le> 100"
  shows "length (pl_lead (multipart spans sz kind b)) = Suc (length spans)" "pl_spans (multipart spans sz kind b) = spans"
    "pl_length (multipart spans sz kind b) =
       (\<Sum>l\<leftarrow>pl_lead (multipart spans sz kind b). int (length l)) + (\<Sum>s\<leftarrow>spans. span_length s)"
    "0 \<le> pl_length (multipart spans sz kind b)"
proof -
  let ?p = "multipart spans sz kind b"
  let ?closing = "CRLF @ ''--'' @ b @ ''--'' @ CRLF"
  have lead: "pl_lead ?p = map (\<lambda>(i, s). part_lead i s sz kind b) (enumerate 0 spans) @ [?closing]"
    by (simp add: multipart_def Let_def)
  show n: "length (pl_lead ?p) = Suc (length spans)" and "pl_spans ?p = spans"
    by (simp_all add: multipart_def Let_def)
  have short: "length l \<le> 320" if "l \<in> set (pl_lead ?p)" for l
  proof -
    have "l = ?closing \<or> (\<exists>i s. l = part_lead i s sz kind b \<and> s \<in> set spans)"
      using that unfolding lead by (auto simp: in_set_enumerate_eq) (metis nth_mem)
    then consider i s where "l = part_lead i s sz kind b" "s \<in> set spans" | "l = ?closing" by blast
    then show ?thesis
    proof cases
      case 1
      then have "inside sz s" using assms(1) by (simp add: list_all_iff)
      from part_lead_short [OF this assms(5), of i kind b] 1(1) assms(6,7) show ?thesis by simp
    qed (use assms(7) in \<open>simp add: CRLF_def\<close>)
  qed
  have "(\<Sum>l\<leftarrow>pl_lead ?p. int (length l)) \<le> (\<Sum>l\<leftarrow>pl_lead ?p. 320)"
    by (rule sum_list_mono) (use short in force)
  also have "\<dots> \<le> 320 * 17" using assms(2) by (simp add: n sum_list_triv)
  finally have leads: "(\<Sum>l\<leftarrow>pl_lead ?p. int (length l)) \<le> 5440" "0 \<le> (\<Sum>l\<leftarrow>pl_lead ?p. int (length l))"
    by (auto intro!: sum_list_nonneg)
  have fs: "file_size sz" using assms(4,5) by (simp add: file_size_def MaxInt64_def)
  have pos: "list_all (\<lambda>s. 0 \<le> span_length s) spans"
    using span_length_inside [OF _ fs] assms(1) by (fastforce simp: list_all_iff)
  then have "0 \<le> (\<Sum>s\<leftarrow>spans. span_length s)" by (auto intro!: sum_list_nonneg simp: list_all_iff)
  have len: "pl_length ?p = foldl (\<lambda>n s. int64 (n + span_length s)) (foldl (\<lambda>n l. int64 (n + int (length l))) 0 (pl_lead ?p)) spans"
    by (simp add: multipart_def Let_def)
  have "foldl (\<lambda>n l. int64 (n + int (length l))) 0 (pl_lead ?p) = 0 + (\<Sum>l\<leftarrow>pl_lead ?p. int (length l))"
    by (rule foldl_int64) (use leads in \<open>auto simp: list_all_iff\<close>)
  moreover have "foldl (\<lambda>n s. int64 (n + span_length s)) (\<Sum>l\<leftarrow>pl_lead ?p. int (length l)) spans =
      (\<Sum>l\<leftarrow>pl_lead ?p. int (length l)) + (\<Sum>s\<leftarrow>spans. span_length s)"
    by (rule foldl_int64 [OF leads(2) pos]) (use leads(1) assms(3,5) in simp)
  ultimately show "pl_length ?p = (\<Sum>l\<leftarrow>pl_lead ?p. int (length l)) + (\<Sum>s\<leftarrow>spans. span_length s)" by (simp add: len)
  then show "0 \<le> pl_length ?p" using leads(2) \<open>0 \<le> (\<Sum>s\<leftarrow>spans. span_length s)\<close> by simp
qed

definition partial_calls :: "static_env \<Rightarrow> served \<Rightarrow> span list \<Rightarrow> string \<Rightarrow> string \<Rightarrow> instant \<Rightarrow> instant \<Rightarrow> call list" where
  "partial_calls env f spans kind tag now md =
     (let sz = fl_Size f in
      if length spans = 1 then
        (let sp = spans ! 0;
             fs = withRanges (withValidator (static_fields now status206 kind (span_length sp)) tag md) @
                  [fld ''content-range'' (contentRange sp sz)]
         in send_calls f fs (single sp))
      else
        (let p = multipart spans sz kind (ev_boundary env);
             fs = withRanges (withValidator (static_fields now status206 (multipartByteranges @ ev_boundary env) (pl_length p)) tag md)
         in send_calls f fs p))"

lemma trimmed_append: "trimmed s \<Longrightarrow> visible t \<Longrightarrow> trimmed (s @ t)"
proof (cases "t = ''''")
  case False
  assume s: "trimmed s" and t: "visible t"
  from visible_trimmed [OF t False] s False show ?thesis by (simp add: trimmed_def)
qed simp

lemma contentRange_trimmed: "inside sz s \<Longrightarrow> trimmed (contentRange s sz)"
proof -
  assume "inside sz s"
  then have v: "visible (FormatInt (sp_first s))" "visible (FormatInt (sp_last s))" "visible (FormatInt sz)" "FormatInt (sp_first s) \<noteq> ''''"
    using FormatInt_visible by (simp_all add: inside_def)
  have "visible ''-''" "visible ''/''" by code_simp+
  with v have t: "visible (FormatInt (sp_first s) @ ''-'' @ FormatInt (sp_last s) @ ''/'' @ FormatInt sz)" unfolding visible_append by blast
  from visible_trimmed [OF this] v(4) have "trimmed (FormatInt (sp_first s) @ ''-'' @ FormatInt (sp_last s) @ ''/'' @ FormatInt sz)"
    by simp
  moreover have "list_all (\<lambda>c. CHR 0x20 \<le> c) ''bytes ''" "CHR ''b'' \<noteq> CHR '' ''" by code_simp+
  ultimately show ?thesis by (simp add: trimmed_def contentRange_def)
qed

definition partial_plan :: "static_env \<Rightarrow> served \<Rightarrow> span list \<Rightarrow> string \<Rightarrow> range_plan" where
  "partial_plan env f spans kind =
     (if length spans = 1 then single (spans ! 0) else multipart spans (fl_Size f) kind (ev_boundary env))"

definition partial_section_of :: "static_env \<Rightarrow> served \<Rightarrow> span list \<Rightarrow> string \<Rightarrow> string \<Rightarrow> instant \<Rightarrow> instant \<Rightarrow> field list" where
  "partial_section_of env f spans kind tag now md =
     (let k = if length spans = 1 then kind else multipartByteranges @ ev_boundary env in
      withRanges (withValidator (static_fields now status206 k (pl_length (partial_plan env f spans kind))) tag md) @
        (if length spans = 1 then [fld ''content-range'' (contentRange (spans ! 0) (fl_Size f))] else []))"

lemma partial_sends:
  "partial env wh f spans kind tag now md s =
     send_plan wh f (partial_section_of env f spans kind tag now md) (partial_plan env f spans kind) s"
  "partial_calls env f spans kind tag now md =
     send_calls f (partial_section_of env f spans kind tag now md) (partial_plan env f spans kind)"
  by (simp_all add: partial_def partial_calls_def partial_section_of_def partial_plan_def single_def Let_def)

text \<open>The plan of ranges of a file; what it declares is the length of its leads and its ranges.\<close>

lemma partial_plan_facts:
  assumes "fl_Size f < 2 ^ 62" "0 \<le> fl_Size f" "list_all (inside (fl_Size f)) spans" "length spans \<le> 16"
    and "(\<Sum>s\<leftarrow>spans. span_length s) \<le> fl_Size f" "length kind \<le> 100" "length (ev_boundary env) \<le> 100"
  shows "length (pl_lead (partial_plan env f spans kind)) = Suc (length (pl_spans (partial_plan env f spans kind)))"
    "list_all (span_reads f) spans \<Longrightarrow>
       octets (part_calls f (pl_lead (partial_plan env f spans kind)) (pl_spans (partial_plan env f spans kind))) =
       pl_length (partial_plan env f spans kind)"
    "pl_spans (partial_plan env f spans kind) = spans" "0 \<le> pl_length (partial_plan env f spans kind)"
proof -
  let ?p = "partial_plan env f spans kind"
  note facts = multipart_facts [OF assms(3,4,5,2,1,6,7)]
  have one: "spans = [spans ! 0]" "0 \<le> span_length (spans ! 0)" if "length spans = 1"
  proof -
    show s: "spans = [spans ! 0]" using that by (cases spans) auto
    have "inside (fl_Size f) (spans ! 0)" using assms(3) that by (simp add: list_all_length)
    then show "0 \<le> span_length (spans ! 0)"
      using span_length_inside assms(1,2) by (fastforce simp: file_size_def MaxInt64_def)
  qed
  show len: "length (pl_lead ?p) = Suc (length (pl_spans ?p))" and sp: "pl_spans ?p = spans" and "0 \<le> pl_length ?p"
    using facts one by (auto simp: partial_plan_def single_def)
  assume reads: "list_all (span_reads f) spans"
  have "octets (part_calls f (pl_lead ?p) (pl_spans ?p)) = (\<Sum>l\<leftarrow>pl_lead ?p. int (length l)) + (\<Sum>s\<leftarrow>spans. span_length s)"
    using part_octets [OF len] reads sp by (simp add: part_calls_bodies)
  also have "\<dots> = pl_length ?p"
  proof (cases "length spans = 1")
    case True
    from one(1) [OF True] have "(\<Sum>s\<leftarrow>spans. span_length s) = span_length (spans ! 0)" by (metis add_0_right list.simps(8,9) sum_list.Cons sum_list.Nil)
    with True show ?thesis by (simp add: partial_plan_def single_def)
  next
    case False
    with facts show ?thesis by (simp add: partial_plan_def)
  qed
  finally show "octets (part_calls f (pl_lead ?p) (pl_spans ?p)) = pl_length ?p" .
qed

lemma partial_complete:
  assumes "0 \<le> pl_length (partial_plan env f spans kind)"
    and "octets (part_calls f (pl_lead (partial_plan env f spans kind)) (pl_spans (partial_plan env f spans kind))) =
         pl_length (partial_plan env f spans kind)"
    and "list_all (inside (fl_Size f)) spans" "trimmed kind" "0 \<le> now" "0 \<le> md" "tag = '''' \<or> visible tag" "visible (ev_boundary env)"
  shows "complete (partial_calls env f spans kind tag now md)"
proof -
  let ?p = "partial_plan env f spans kind"
  let ?k = "if length spans = 1 then kind else multipartByteranges @ ev_boundary env"
  let ?range = "if length spans = 1 then [fld ''content-range'' (contentRange (spans ! 0) (fl_Size f))] else []"
  have "trimmed bytesUnit" by code_simp
  then have more: "more_fields (validators tag md @ [fld ''accept-ranges'' bytesUnit])"
    using validators_ok [OF assms(7,6)] more_field [of "''accept-ranges''" bytesUnit] by simp
  have "inside (fl_Size f) (spans ! 0)" if "length spans = 1"
    using assms(3) that by (simp add: list_all_length)
  then have "more_fields ?range" using contentRange_trimmed more_field [of "''content-range''"] by auto
  with more have extra: "more_fields ((validators tag md @ [fld ''accept-ranges'' bytesUnit]) @ ?range)" unfolding more_fields_simps by blast
  have "trimmed multipartByteranges" by code_simp
  from trimmed_append [OF this assms(8)] assms(4) have "trimmed ?k" by (cases "length spans = 1") (simp_all only: if_True if_False simp_thms)
  then have kind: "?k = '''' \<or> trimmed ?k" ..
  have st: "status206 \<in> statuses" by (simp add: statuses_def)
  note sect = static_fields_ok [OF st kind assms(5) disjI2 [OF assms(1)] extra]
  have ok: "section_ok (static_fields now status206 ?k (pl_length ?p) @ (validators tag md @ [fld ''accept-ranges'' bytesUnit]) @ ?range)"
    "declares (static_fields now status206 ?k (pl_length ?p) @ (validators tag md @ [fld ''accept-ranges'' bytesUnit]) @ ?range) (pl_length ?p)"
    using sect(1) sect(2) [unfolded noContentLength_def] assms(1) unfolding append_assoc by linarith+
  have fs: "partial_section_of env f spans kind tag now md =
      static_fields now status206 ?k (pl_length ?p) @ (validators tag md @ [fld ''accept-ranges'' bytesUnit]) @ ?range"
    by (simp add: partial_section_of_def withRanges_def withValidator_append Let_def)
  have "pl_length ?p = int (length (concat (part_bodies f (pl_lead ?p) (pl_spans ?p))))"
    using assms(2) by (simp add: part_calls_bodies)
  with ok show ?thesis
    unfolding partial_sends send_calls_def part_calls_bodies complete_def fs by (intro disjI2 exI conjI) auto
qed

lemma partial_runs:
  assumes "content_of f c" "fl_Size f < 2 ^ 62" "list_all (inside (fl_Size f)) spans" "length spans \<le> 16"
    and "(\<Sum>s\<leftarrow>spans. span_length s) \<le> fl_Size f" "length kind \<le> 100" "length (ev_boundary env) \<le> 100"
    and "trimmed kind" "0 \<le> now" "0 \<le> md" "tag = '''' \<or> visible tag" "visible (ev_boundary env)"
  shows "partial env wh f spans kind tag now md s = run_calls wh (partial_calls env f spans kind tag now md) s"
    "complete (partial_calls env f spans kind tag now md)"
proof -
  have sz: "0 \<le> fl_Size f" using assms(1) by (simp add: content_of_def)
  note facts = partial_plan_facts [OF assms(2) sz assms(3-7)]
  have reads: "list_all (span_reads f) spans"
    using inside_reads(1) [OF assms(1) _ assms(2)] assms(3) by (auto simp: list_all_iff)
  show "partial env wh f spans kind tag now md s = run_calls wh (partial_calls env f spans kind tag now md) s"
    unfolding partial_sends by (rule send_runs) (use facts reads in simp_all)
  show "complete (partial_calls env f spans kind tag now md)"
    by (rule partial_complete) (use facts reads assms in simp_all)
qed

subsection \<open>Every response\<close>

definition serve_file_calls :: "static_env \<Rightarrow> request \<Rightarrow> string \<Rightarrow> served \<Rightarrow> call list" where
  "serve_file_calls env r name f =
     (if \<not> fl_IsRegular f then answer_calls env r status404 textPlain body404 []
      else
        let now = ev_now env;
            md = modTime (fl_ModTime f) now;
            tag = ev_tag env name f now
        in case evaluate r tag md now of
             verdictNotModified \<Rightarrow> [CBodyless (withValidator (static_fields now status304 '''' noContentLength) tag md)]
           | verdictFailed \<Rightarrow> answer_calls env r status412 textPlain body412 []
           | verdictSend \<Rightarrow>
               (case evaluateRange r tag (fl_Size f) of
                  (spans, rangeNotSatisfiable) \<Rightarrow>
                    answer_calls env r status416 textPlain body416 [fld ''content-range'' (unsatisfiedRange (fl_Size f))]
                | (spans, rangePartial) \<Rightarrow> partial_calls env f spans (mediaType name) tag now md
                | (spans, rangeIgnore) \<Rightarrow> file_calls r f (mediaType name) tag now md))"

definition response_calls :: "static_env \<Rightarrow> request \<Rightarrow> call list" where
  "response_calls env r =
     (if rq_Method r \<noteq> methodGet \<and> rq_Method r \<noteq> methodHead then
        answer_calls env r status405 textPlain body405 [fld ''allow'' allowedMethods]
      else if length (rq_Path r) > MaxTargetLength then answer_calls env r status414 textPlain body414 []
      else
        (case resolve (rq_Path r) of
           None \<Rightarrow> answer_calls env r status404 textPlain body404 []
         | Some (name, slash) \<Rightarrow>
             (case ev_open env name of
                None \<Rightarrow> answer_calls env r status404 textPlain body404 []
              | Some f \<Rightarrow>
                  if \<not> fl_IsDir f then serve_file_calls env r name f
                  else if \<not> slash then answer_calls env r status301 '''' '''' [fld ''location'' (withSlash (rq_Path r))]
                  else
                    (case ev_open env (path_join name indexFile) of
                       None \<Rightarrow> answer_calls env r status404 textPlain body404 []
                     | Some f \<Rightarrow> serve_file_calls env r (path_join name indexFile) f))))"

text \<open>The environment: instants after year 1, a boundary of visible octets, and regular files of a size below \<open>2 ^ 62\<close>
  with tags of visible octets if any. It is \<open>env_ok\<close> where the regular files also hold the content their size says while
  the response is sent; without that a read may be short, or long, or fail.\<close>

definition file_shape :: "static_env \<Rightarrow> string \<Rightarrow> served \<Rightarrow> bool" where
  "file_shape env name f \<longleftrightarrow> (fl_IsRegular f \<longrightarrow>
     0 \<le> fl_Size f \<and> fl_Size f < 2 ^ 62 \<and> 0 \<le> fl_ModTime f \<and>
     (\<forall>now. ev_tag env name f now = '''' \<or> visible (ev_tag env name f now)))"

definition env_shape :: "static_env \<Rightarrow> bool" where
  "env_shape env \<longleftrightarrow> 0 \<le> ev_now env \<and> 0 \<le> ev_now' env \<and> visible (ev_boundary env) \<and> length (ev_boundary env) \<le> 100 \<and>
     (\<forall>name f. ev_open env name = Some f \<longrightarrow> file_shape env name f)"

definition file_stable :: "served \<Rightarrow> bool" where
  "file_stable f \<longleftrightarrow> (fl_IsRegular f \<longrightarrow> (\<exists>c. content_of f c))"

definition env_ok :: "static_env \<Rightarrow> bool" where
  "env_ok env \<longleftrightarrow> env_shape env \<and> (\<forall>name f. ev_open env name = Some f \<longrightarrow> file_stable f)"

lemma env_shape_file: "env_shape env \<Longrightarrow> ev_open env name = Some f \<Longrightarrow> file_shape env name f"
  by (simp add: env_shape_def)

text \<open>A handler's run and a list of calls: a run that returns no error is the calls of the list, and where the file holds its content
  every run is; the list is a complete response in both cases.\<close>

definition sends :: "bool \<Rightarrow> 'e write_half \<Rightarrow> 'e resp_state \<Rightarrow> 'e outcome \<Rightarrow> call list \<Rightarrow> bool" where
  "sends kept wh s r cs \<longleftrightarrow>
     (\<forall>s'. r = Some (None, s') \<longrightarrow> run_calls wh cs s = Some (None, s') \<and> complete cs) \<and>
     (kept \<longrightarrow> r = run_calls wh cs s \<and> complete cs)"

lemma sends_calls: "complete cs \<Longrightarrow> sends kept wh s (run_calls wh cs s) cs"
  by (simp add: sends_def)

lemma sends_stable: "sends kept wh s r cs \<Longrightarrow> (kept' \<Longrightarrow> kept) \<Longrightarrow> sends kept' wh s r cs"
  unfolding sends_def by blast

lemma static_file_sends:
  assumes "0 \<le> fl_Size f" "trimmed kind" "0 \<le> now" "0 \<le> md" "tag = '''' \<or> visible tag"
  shows "sends (\<exists>c. content_of f c) wh s (static_file env wh r f kind tag now md s) (file_calls r f kind tag now md)"
proof -
  note whole = file_complete [OF _ assms(1) disjI2 [OF assms(2)] assms(3-5)]
  have "run_calls wh (file_calls r f kind tag now md) s = Some (None, s') \<and> complete (file_calls r f kind tag now md)"
    if "static_file env wh r f kind tag now md s = Some (None, s')" for s'
    using file_success [OF that] whole by simp
  moreover have "static_file env wh r f kind tag now md s = run_calls wh (file_calls r f kind tag now md) s \<and>
      complete (file_calls r f kind tag now md)" if "content_of f c" for c
    using file_runs [OF that] whole content_octets [OF that] by simp
  ultimately show ?thesis unfolding sends_def by blast
qed

lemma partial_sends_plan:
  assumes "0 \<le> fl_Size f" "fl_Size f < 2 ^ 62" "list_all (inside (fl_Size f)) spans" "length spans \<le> 16"
    and "(\<Sum>s\<leftarrow>spans. span_length s) \<le> fl_Size f" "length kind \<le> 100" "length (ev_boundary env) \<le> 100"
    and "trimmed kind" "0 \<le> now" "0 \<le> md" "tag = '''' \<or> visible tag" "visible (ev_boundary env)"
  shows "sends (\<exists>c. content_of f c) wh s (partial env wh f spans kind tag now md s) (partial_calls env f spans kind tag now md)"
proof -
  note facts = partial_plan_facts [OF assms(2,1,3-7)]
  have "run_calls wh (partial_calls env f spans kind tag now md) s = Some (None, s') \<and> complete (partial_calls env f spans kind tag now md)"
    if "partial env wh f spans kind tag now md s = Some (None, s')" for s'
    using send_success [OF facts(1), of wh f] that partial_complete [OF facts(4) _ assms(3,8-12)] unfolding partial_sends by blast
  then show ?thesis unfolding sends_def using partial_runs [OF _ assms(2-12)] by blast
qed

lemma evaluateRange_spans:
  assumes "evaluateRange r tag sz = (spans, rangePartial)" "0 \<le> sz" "sz < 2 ^ 62"
  shows "list_all (inside sz) spans" "length spans \<le> 16" "spans \<noteq> []" "(\<Sum>s\<leftarrow>spans. span_length s) \<le> sz"
proof -
  have "file_size sz" using assms(2,3) by (simp add: file_size_def MaxInt64_def)
  from ranges_are_inside_the_file [OF assms(1) this] assms(3)
  show "list_all (inside sz) spans" "length spans \<le> 16" "spans \<noteq> []" "(\<Sum>s\<leftarrow>spans. span_length s) \<le> sz"
    by (auto simp: list_all_iff inside_def)
qed

lemma mediaType_ok: "trimmed (mediaType name)" "length (mediaType name) \<le> 100"
proof -
  have t: "list_all (\<lambda>t. trimmed t \<and> length t \<le> 100) (octetStream # map snd mediaTypes)" by code_simp
  have "mediaType name \<in> set (octetStream # map snd mediaTypes)"
    by (auto simp: mediaType_def dest!: map_of_SomeD split: option.split intro: image_eqI [where f = snd, rotated])
  with t show "trimmed (mediaType name)" "length (mediaType name) \<le> 100" by (auto simp only: list_all_iff)
qed

lemma textPlain_ok: "trimmed textPlain" by code_simp

lemma unsatisfied_trimmed: "0 \<le> sz \<Longrightarrow> trimmed (unsatisfiedRange sz)"
proof -
  assume "0 \<le> sz"
  moreover have "trimmed (bytesUnit @ '' */'')" by code_simp
  ultimately show ?thesis using trimmed_append [of "bytesUnit @ '' */''" "FormatInt sz"] FormatInt_visible
    by (simp add: unsatisfiedRange_def)
qed

lemma serve_file_sends:
  assumes "env_shape env" "file_shape env name f"
  shows "sends (file_stable f) wh s (serve_file env wh r name f s) (serve_file_calls env r name f)"
proof (cases "fl_IsRegular f")
  case False
  with assms(1) answer_complete [of status404 textPlain env "[]"] textPlain_ok show ?thesis
    by (simp add: serve_file_def serve_file_calls_def answer_runs statuses_def env_shape_def sends_calls)
next
  case True
  define now where "now = ev_now env"
  define md where "md = modTime (fl_ModTime f) now"
  define tag where "tag = ev_tag env name f now"
  have f: "0 \<le> fl_Size f" "fl_Size f < 2 ^ 62" "0 \<le> fl_ModTime f" "tag = '''' \<or> visible tag"
    using assms(2) True by (auto simp: file_shape_def tag_def)
  have now: "0 \<le> now" "0 \<le> ev_now' env" using assms(1) by (simp_all add: env_shape_def now_def)
  have md: "0 \<le> md" using modTime_facts(2) f(3) now(1) by (simp add: md_def)
  have kept: "file_stable f = (\<exists>c. content_of f c)" using True by (simp add: file_stable_def)
  have run: "serve_file env wh r name f s =
      (case evaluate r tag md now of
         verdictNotModified \<Rightarrow> notModified wh now tag md s
       | verdictFailed \<Rightarrow> answer env wh r status412 textPlain body412 [] s
       | verdictSend \<Rightarrow>
           (case evaluateRange r tag (fl_Size f) of
              (spans, rangeNotSatisfiable) \<Rightarrow>
                answer env wh r status416 textPlain body416 [fld ''content-range'' (unsatisfiedRange (fl_Size f))] s
            | (spans, rangePartial) \<Rightarrow> partial env wh f spans (mediaType name) tag now md s
            | (spans, rangeIgnore) \<Rightarrow> static_file env wh r f (mediaType name) tag now md s))"
    unfolding serve_file_def Let_def md_def tag_def now_def using True by (simp only: simp_thms if_False)
  have calls: "serve_file_calls env r name f =
      (case evaluate r tag md now of
         verdictNotModified \<Rightarrow> [CBodyless (withValidator (static_fields now status304 '''' noContentLength) tag md)]
       | verdictFailed \<Rightarrow> answer_calls env r status412 textPlain body412 []
       | verdictSend \<Rightarrow>
           (case evaluateRange r tag (fl_Size f) of
              (spans, rangeNotSatisfiable) \<Rightarrow>
                answer_calls env r status416 textPlain body416 [fld ''content-range'' (unsatisfiedRange (fl_Size f))]
            | (spans, rangePartial) \<Rightarrow> partial_calls env f spans (mediaType name) tag now md
            | (spans, rangeIgnore) \<Rightarrow> file_calls r f (mediaType name) tag now md))"
    unfolding serve_file_calls_def Let_def md_def tag_def now_def using True by (simp only: simp_thms if_False)
  have b: "visible (ev_boundary env)" "length (ev_boundary env) \<le> 100" using assms(1) by (simp_all add: env_shape_def)
  show ?thesis
  proof (cases "evaluate r tag md now")
    case verdictNotModified
    have "section_ok (static_fields now status304 '''' noContentLength @ validators tag md)"
      by (rule static_fields_ok(1)) (use now validators_ok [OF f(4) md] in \<open>simp_all add: statuses_def\<close>)
    then have "complete [CBodyless (withValidator (static_fields now status304 '''' noContentLength) tag md)]"
      by (simp add: withValidator_append complete_def)
    from sends_calls [OF this, of "file_stable f" wh s] verdictNotModified show ?thesis
      unfolding run calls by (simp add: notModified_def del: run_calls.simps)
  next
    case verdictFailed
    with answer_complete [of status412 textPlain env "[]"] textPlain_ok now(2) show ?thesis
      unfolding run calls by (simp add: answer_runs statuses_def sends_calls)
  next
    case verdictSend
    obtain spans v where e: "evaluateRange r tag (fl_Size f) = (spans, v)" by (cases "evaluateRange r tag (fl_Size f)")
    show ?thesis
    proof (cases v)
      case rangeIgnore
      with verdictSend e static_file_sends [OF f(1) mediaType_ok(1) now(1) md f(4)] show ?thesis
        unfolding run calls kept by simp
    next
      case rangeNotSatisfiable
      have "more_fields [fld ''content-range'' (unsatisfiedRange (fl_Size f))]"
        by (rule more_field) (use unsatisfied_trimmed [OF f(1)] in simp_all)
      with verdictSend e rangeNotSatisfiable answer_complete [of status416 textPlain env] textPlain_ok now(2) show ?thesis
        unfolding run calls by (simp add: answer_runs statuses_def sends_calls)
    next
      case rangePartial
      note sp = evaluateRange_spans [OF e [unfolded rangePartial] f(1,2)]
      from partial_sends_plan [OF f(1,2) sp(1,2,4) mediaType_ok(2) b(2) mediaType_ok(1) now(1) md f(4) b(1)] verdictSend e rangePartial
      show ?thesis unfolding run calls kept by simp
    qed
  qed
qed

lemma withSlash_trimmed: "p \<noteq> '''' \<Longrightarrow> \<not> controlOctet p \<Longrightarrow> trimmed (withSlash p)"
proof -
  assume "p \<noteq> ''''" "\<not> controlOctet p"
  then have v: "visible p" by (auto simp: visible_def controlOctet_def list_all_iff list_ex_iff not_le)
  have "visible (take i p)" "visible (drop i p)" for i
    using v by (auto simp: visible_def list_all_iff dest: in_set_takeD in_set_dropD)
  moreover have "visible ''/''" by code_simp
  ultimately have "visible (take i p @ ''/'' @ drop i p)" "visible (p @ ''/'')" for i unfolding visible_append using v by blast+
  then have "visible (withSlash p)" unfolding withSlash_def by (cases "IndexByte p (CHR ''?'')") (simp_all only: option.case)
  moreover have "withSlash p \<noteq> ''''" by (simp add: withSlash_def split: option.split)
  ultimately show ?thesis by (rule visible_trimmed)
qed

lemma static_serve_runs:
  assumes "env_ok env"
  shows "static_serve env wh r s = run_calls wh (response_calls env r) s"
proof -
  have "serve_file env wh r name f s = run_calls wh (serve_file_calls env r name f) s" if "ev_open env name = Some f" for name f
    using serve_file_sends [of env name f wh s r] env_shape_file that assms unfolding env_ok_def sends_def by blast
  then show ?thesis
    unfolding static_serve_def response_calls_def Let_def by (simp add: answer_runs split: option.split)
qed

end
