(* ===== verification/ServeProps.thy ===== *)
theory ServeProps
  imports StaticProps
begin

text \<open>
  What the responses of the file server hold: the octets of the file that the request selects, the same fields for
  HEAD as for GET, and nothing from outside the directory.
\<close>

subsection \<open>Reading a response\<close>

fun body_of :: "call list \<Rightarrow> byte list" where
  "body_of [] = []"
| "body_of (CBody b # cs) = b @ body_of cs"
| "body_of (c # cs) = body_of cs"

fun section_of :: "call list \<Rightarrow> field list" where
  "section_of (CHeader fs # cs) = fs"
| "section_of (CBodyless fs # cs) = fs"
| "section_of cs = []"

definition sent_value :: "string \<Rightarrow> call list \<Rightarrow> string option" where
  "sent_value n cs = map_of (map (\<lambda>f. (Name f, Value f)) (section_of cs)) n"

lemma body_of_append [simp]: "body_of (cs @ ds) = body_of cs @ body_of ds"
  by (induction cs rule: body_of.induct) auto

lemma body_of_bodies [simp]: "body_of (map CBody bs) = concat bs"
  by (induction bs) auto

lemma sent_fields:
  assumes "section_of cs = static_fields now status kind len @ fs"
  shows "sent_value '':status'' cs = Some status"
    "kind \<noteq> [] \<Longrightarrow> sent_value ''content-type'' cs = Some kind"
    "n \<notin> {'':status'', ''content-length'', ''content-type'', ''date'', ''server''} \<Longrightarrow>
       sent_value n cs = map_of (map (\<lambda>f. (Name f, Value f)) fs) n"
  by (auto simp: sent_value_def assms static_fields_def)

lemma answer_section: "section_of (answer_calls env r status kind body extra) =
    static_fields (ev_now' env) status kind (int (length body)) @ extra"
  by (simp add: answer_calls_def Let_def)

lemma file_section: "section_of (file_calls r f kind tag now md) =
    static_fields now status200 kind (fl_Size f) @ validators tag md @ [fld ''accept-ranges'' bytesUnit]"
  by (simp add: file_calls_def withRanges_def withValidator_append Let_def)

lemma partial_section:
  "section_of (partial_calls env f spans kind tag now md) =
     (if length spans = 1 then static_fields now status206 kind (span_length (spans ! 0)) @
        validators tag md @ [fld ''accept-ranges'' bytesUnit, fld ''content-range'' (contentRange (spans ! 0) (fl_Size f))]
      else static_fields now status206 (multipartByteranges @ ev_boundary env) (pl_length (multipart spans (fl_Size f) kind (ev_boundary env))) @
        validators tag md @ [fld ''accept-ranges'' bytesUnit])"
  by (simp add: partial_calls_def send_calls_def withRanges_def withValidator_append Let_def)

lemma no_content_range: "map_of (map (\<lambda>f. (Name f, Value f)) (validators tag md)) ''content-range'' = None"
  by (simp add: validators_def)

text \<open>The content of a partial response, as RFC 9110 section 15.3.7 and RFC 2046 section 5.1.1 have it: the octets of one range, or
  the ranges as parts with their own fields, each after a delimiter, and a last delimiter.\<close>

definition octets_at :: "byte list \<Rightarrow> span \<Rightarrow> byte list" where
  "octets_at c s = take (nat (sp_last s - sp_first s + 1)) (drop (nat (sp_first s)) c)"

definition body_part :: "string \<Rightarrow> string \<Rightarrow> byte list \<Rightarrow> span \<Rightarrow> byte list" where
  "body_part kind b c s =
     bytes_of (''--'' @ b @ CRLF @ ''Content-Type: '' @ kind @ CRLF @
       ''Content-Range: bytes '' @ FormatInt (sp_first s) @ ''-'' @ FormatInt (sp_last s) @ ''/'' @ FormatInt (int (length c)) @ CRLF @ CRLF) @
     octets_at c s"

fun body_parts :: "string \<Rightarrow> string \<Rightarrow> byte list \<Rightarrow> span list \<Rightarrow> byte list" where
  "body_parts kind b c [] = bytes_of (''--'' @ b @ ''--'' @ CRLF)"
| "body_parts kind b c (s # ss) = body_part kind b c s @ bytes_of CRLF @ body_parts kind b c ss"

lemma part_lead_text: "bytes_of (part_lead i s (int (length c)) kind b) @ octets_at c s =
    (if i > 0 then bytes_of CRLF else []) @ body_part kind b c s"
  by (cases "i > 0") (simp_all add: bytes_of_def part_lead_def body_part_def contentRange_def Let_def CRLF_def)

lemma multipart_bodies:
  assumes "content_of f c" "fl_Size f < 2 ^ 62" "list_all (inside (fl_Size f)) spans"
  shows "concat (part_bodies f (map (\<lambda>(i, s). part_lead i s (fl_Size f) kind b) (enumerate k spans) @ [CRLF @ ''--'' @ b @ ''--'' @ CRLF]) spans) =
    (if k > 0 \<or> spans = [] then bytes_of CRLF else []) @ body_parts kind b c spans"
  using assms(3)
proof (induction spans arbitrary: k)
  case (Cons s spans)
  have sz: "fl_Size f = int (length c)" using assms(1) by (simp add: content_of_def)
  have ins: "inside (fl_Size f) s" using Cons.prems by simp
  have "file_size (fl_Size f)" using assms(1,2) by (simp add: file_size_def MaxInt64_def content_of_def)
  from span_length_inside [OF ins this] inside_reads(2) [OF assms(1) ins assms(2)]
  have "concat (fst (fl_reads f (sp_first s) (span_length s))) = octets_at c s" by (simp add: octets_at_def octets_of_def)
  with Cons.IH [of "Suc k"] Cons.prems part_lead_text [of k s c kind b] show ?case by (simp add: sz)
qed (simp add: bytes_of_def CRLF_def)

subsection \<open>What a request selects\<close>

text \<open>The representation that a target selects: the file of that name, or the index of a directory named with a trailing slash.\<close>

definition selects :: "static_env \<Rightarrow> string \<Rightarrow> string \<Rightarrow> served \<Rightarrow> bool" where
  "selects env target name f \<longleftrightarrow>
     (\<exists>n slash. resolve target = Some (n, slash) \<and>
        (ev_open env n = Some f \<and> \<not> fl_IsDir f \<and> name = n \<or>
         (\<exists>d. ev_open env n = Some d \<and> fl_IsDir d \<and> slash \<and> name = path_join n indexFile \<and> ev_open env name = Some f)))"

lemma selects_calls:
  assumes "selects env (rq_Path r) name f" "length (rq_Path r) \<le> MaxTargetLength" "rq_Method r = methodGet \<or> rq_Method r = methodHead"
  shows "response_calls env r = serve_file_calls env r name f"
proof -
  obtain n slash where n: "resolve (rq_Path r) = Some (n, slash)"
    "ev_open env n = Some f \<and> \<not> fl_IsDir f \<and> name = n \<or>
     (\<exists>d. ev_open env n = Some d \<and> fl_IsDir d \<and> slash \<and> name = path_join n indexFile \<and> ev_open env name = Some f)"
    using assms(1) unfolding selects_def by blast
  from n(2) show ?thesis
  proof (elim disjE conjE exE)
    fix d assume "ev_open env n = Some d" "fl_IsDir d" slash "name = path_join n indexFile" "ev_open env name = Some f"
    with n(1) assms(2,3) show ?thesis by (auto simp: response_calls_def)
  next
    assume "ev_open env n = Some f" "\<not> fl_IsDir f" "name = n"
    with n(1) assms(2,3) show ?thesis by (auto simp: response_calls_def)
  qed
qed

lemma file_body:
  assumes "content_of f c" "rq_Method r \<noteq> methodHead"
  shows "body_of (file_calls r f kind tag now md) = c"
proof (cases "fl_Size f = 0")
  case True
  with assms show ?thesis by (simp add: file_calls_def content_of_def Let_def)
next
  case False
  with assms(1) have "0 < fl_Size f" by (simp add: content_of_def)
  then obtain bs where "fl_reads f 0 (fl_Size f) = (bs, None)" "concat bs = take (nat (fl_Size f)) (drop (nat 0) c)"
    using content_reads [OF assms(1), of 0 "fl_Size f"] by (metis add_0 order_refl)
  with assms False show ?thesis by (simp add: file_calls_def content_of_def Let_def)
qed

lemma partial_body:
  assumes "content_of f c" "fl_Size f < 2 ^ 62" "list_all (inside (fl_Size f)) spans" "spans \<noteq> []"
  shows "body_of (partial_calls env f spans kind tag now md) =
    (if length spans = 1 then octets_at c (spans ! 0) else body_parts kind (ev_boundary env) c spans)"
proof (cases "length spans = 1")
  case True
  then obtain s where s: "spans = [s]" by (cases spans) auto
  have ins: "inside (fl_Size f) s" using assms(3) s by simp
  have "file_size (fl_Size f)" using assms(1,2) by (simp add: file_size_def MaxInt64_def content_of_def)
  from span_length_inside [OF ins this] inside_reads(2) [OF assms(1) ins assms(2)]
  have "concat (fst (fl_reads f (sp_first s) (span_length s))) = octets_at c s" by (simp add: octets_at_def octets_of_def)
  then show ?thesis by (simp add: s partial_calls_def send_calls_def part_calls_bodies single_def bytes_of_def Let_def)
next
  case False
  have "pl_lead (multipart spans (fl_Size f) kind (ev_boundary env)) =
      map (\<lambda>(i, s). part_lead i s (fl_Size f) kind (ev_boundary env)) (enumerate 0 spans) @ [CRLF @ ''--'' @ ev_boundary env @ ''--'' @ CRLF]"
    "pl_spans (multipart spans (fl_Size f) kind (ev_boundary env)) = spans"
    by (simp_all add: multipart_def Let_def)
  with multipart_bodies [OF assms(1-3), of kind "ev_boundary env" 0] False assms(4) show ?thesis
    by (simp add: partial_calls_def send_calls_def part_calls_bodies Let_def)
qed

subsection \<open>A directory with one file\<close>

definition one_file :: "byte list \<Rightarrow> served" where
  "one_file c = \<lparr>fl_IsDir = False, fl_IsRegular = True, fl_Size = int (length c), fl_ModTime = 63000000000000000000,
     fl_reads = (\<lambda>off n. ([take (nat n) (drop (nat off) c)], None))\<rparr>"

definition one_env :: "byte list \<Rightarrow> static_env" where
  "one_env c = \<lparr>ev_open = (\<lambda>n. if n = ''a.txt'' then Some (one_file c) else None), ev_now = 63100000000000000000,
     ev_now' = 63100000000000000000, ev_tag = (\<lambda>n f now. [CHR 0x22, CHR ''t'', CHR 0x22]), ev_boundary = ''edge''\<rparr>"

definition ask :: "string \<Rightarrow> string \<Rightarrow> field list \<Rightarrow> request" where
  "ask m p fs = new_request\<lparr>rq_Method := m, rq_Path := p, rq_Fields := fs\<rparr>"

lemma one_content: "content_of (one_file c) c"
  by (simp add: content_of_def one_file_def)

lemma one_env_ok: "int (length c) < 2 ^ 62 \<Longrightarrow> env_ok (one_env c)"
proof -
  have v: "visible ''edge''" "visible [CHR 0x22, CHR ''t'', CHR 0x22]" by code_simp+
  assume "int (length c) < 2 ^ 62"
  with v have "file_shape (one_env c) ''a.txt'' (one_file c)"
    unfolding file_shape_def by (auto simp: one_file_def one_env_def)
  moreover have "file_stable (one_file c)" using one_content [of c] by (auto simp: file_stable_def)
  ultimately show ?thesis using v by (simp add: env_ok_def env_shape_def one_env_def file_shape_def)
qed

lemma one_selects: "selects (one_env c) ''/a.txt'' ''a.txt'' (one_file c)"
proof -
  have "resolve ''/a.txt'' = Some (''a.txt'', False)" by code_simp
  then show ?thesis unfolding selects_def by (intro exI [of _ "''a.txt''"] exI [of _ False]) (simp add: one_env_def one_file_def)
qed

text \<open>C33: The file server never passes off as complete a response that is not. Whatever the request asks for (in a target without control octets) and whatever the
  reads of the file give, be they short, long or failing: if the handler returns no error, it has made, in full and with success, the calls of one complete
  response, a field section that \<open>checkSection\<close> accepts, so that nothing a peer wrote in the target or a header field can split it, and content, if there is
  any, of exactly the declared content-length and followed by the end of the stream, for a whole file, for one range, for a multipart body and for an error alike.
  And where the regular files hold the content that their size says while the response is sent, the handler makes exactly the calls of one complete response, up
  to the first that fails (a peer's limit on field lists, the stream's end, or the connection's can still refuse one). A file that was truncated
  meanwhile is the case that the second half excludes: the first half has its response end in an error (\<open>errFileChanged\<close>). The environment:
  instants from year 1 on, files of less than \<open>2 ^ 62\<close> octets, entity tags and a boundary (of at most 100 octets) of visible octets.\<close>

theorem static_responses_are_complete:
  assumes "env_shape env" "\<not> controlOctet (rq_Path r)"
  shows "(static_serve env (wh :: 'e write_half) r s = Some (None, s') \<longrightarrow> (\<exists>cs. complete cs \<and> run_calls wh cs s = Some (None, s'))) \<and>
    ((\<forall>name f. ev_open env name = Some f \<longrightarrow> file_stable f) \<longrightarrow>
      (\<exists>cs. complete cs \<and> (\<forall>(wh :: 'e write_half) s. static_serve env wh r s = run_calls wh cs s)))"
proof -
  have served: "sends (file_stable f) wh s (serve_file env wh r name f s) (serve_file_calls env r name f)"
    if "ev_open env name = Some f" for name f and wh :: "'e write_half" and s
    by (rule serve_file_sends [OF assms(1) env_shape_file [OF assms(1) that]])
  have now: "0 \<le> ev_now' env" using assms(1) by (simp add: env_shape_def)
  have plain: "complete (answer_calls env r status textPlain body [])" if "status \<in> statuses" for status body
    by (rule answer_complete) (use that textPlain_ok now in simp_all)
  have "trimmed allowedMethods" by code_simp
  then have allow: "complete (answer_calls env r status405 textPlain body405 [fld ''allow'' allowedMethods])"
    by (intro answer_complete more_field) (use textPlain_ok now in \<open>simp_all add: statuses_def\<close>)
  have redirect: "complete (answer_calls env r status301 '''' '''' [fld ''location'' (withSlash (rq_Path r))])"
    if "resolve (rq_Path r) \<noteq> None"
  proof -
    have "rq_Path r \<noteq> ''''" using that by (auto simp: resolve_def)
    with assms(2) have "trimmed (withSlash (rq_Path r))" by (intro withSlash_trimmed)
    then show ?thesis by (intro answer_complete more_field) (use now in \<open>simp_all add: statuses_def\<close>)
  qed
  have st: "status404 \<in> statuses" "status414 \<in> statuses" by (simp_all add: statuses_def)
  let ?kept = "\<forall>name f. ev_open env name = Some f \<longrightarrow> file_stable f"
  note answers = sends_calls [OF plain [OF st(1)]] sends_calls [OF plain [OF st(2)]] sends_calls [OF allow] sends_calls [OF redirect]
  have files: "sends ?kept wh s (serve_file env wh r name f s) (serve_file_calls env r name f)"
    if "ev_open env name = Some f" for name f and wh :: "'e write_half" and s
    by (rule sends_stable [OF served [OF that]]) (use that in blast)
  have all: "sends ?kept wh s (static_serve env wh r s) (response_calls env r)" for wh :: "'e write_half" and s
    unfolding static_serve_def response_calls_def answer_runs Let_def
    by (simp add: answers [simplified] files split: option.split)
  show ?thesis
    using all [of wh s] all unfolding sends_def by blast
qed

lemma static_responses_are_complete_witness:
  "\<exists>cs. complete cs \<and> (\<forall>(wh :: 'e write_half) s. static_serve (one_env [1, 2]) wh (ask ''GET'' ''/../a.txt'' [fld ''range'' ''bytes=0-0,1-1'']) s = run_calls wh cs s)"
proof -
  have "env_ok (one_env [1, 2])" by (rule one_env_ok) simp
  moreover have "\<not> controlOctet (rq_Path (ask ''GET'' ''/../a.txt'' [fld ''range'' ''bytes=0-0,1-1'']))" by code_simp
  ultimately show ?thesis using static_responses_are_complete [where 'e = 'e] unfolding env_ok_def by blast
qed

text \<open>C32: A GET is answered with the file, the whole file, or exactly the ranges it asked for: when the target, of at most 4096 octets, selects a regular file
  that holds its content while the response is sent (no read is short or fails), and the preconditions let it be sent, the handler makes the calls
  of one response whose status is 200 and whose content is
  the content of the file; or 206 with the octets of the one range, named by content-range; or 206 with a
  multipart body that holds each range as a part under its own content-range, in order; or 416 with the length of the file.\<close>

theorem GET_sends_the_content:
  assumes "env_ok env" "selects env (rq_Path r) name f" "length (rq_Path r) \<le> MaxTargetLength" "rq_Method r = methodGet"
    and "fl_IsRegular f" "content_of f c"
    and "evaluate r (ev_tag env name f (ev_now env)) (modTime (fl_ModTime f) (ev_now env)) (ev_now env) = verdictSend"
    and "evaluateRange r (ev_tag env name f (ev_now env)) (int (length c)) = (spans, v)"
  shows "\<exists>cs. (\<forall>wh s. static_serve env wh r s = run_calls wh cs s) \<and>
    (case v of
       rangeIgnore \<Rightarrow> sent_value '':status'' cs = Some ''200'' \<and> body_of cs = c
     | rangeNotSatisfiable \<Rightarrow> sent_value '':status'' cs = Some ''416'' \<and>
         sent_value ''content-range'' cs = Some (''bytes */'' @ FormatInt (int (length c)))
     | rangePartial \<Rightarrow> sent_value '':status'' cs = Some ''206'' \<and>
         (if length spans = 1 then body_of cs = octets_at c (spans ! 0) \<and> sent_value ''content-range'' cs = Some (contentRange (spans ! 0) (int (length c)))
          else body_of cs = body_parts (mediaType name) (ev_boundary env) c spans \<and>
            sent_value ''content-type'' cs = Some (''multipart/byteranges; boundary='' @ ev_boundary env)))"
proof -
  let ?cs = "response_calls env r"
  let ?tag = "ev_tag env name f (ev_now env)" and ?md = "modTime (fl_ModTime f) (ev_now env)"
  have sz: "fl_Size f = int (length c)" using assms(6) by (simp add: content_of_def)
  have f: "fl_Size f < 2 ^ 62" using assms(1,2,5) by (auto simp: env_ok_def env_shape_def file_shape_def selects_def)
  have cs: "?cs = (case v of
      rangeNotSatisfiable \<Rightarrow> answer_calls env r status416 textPlain body416 [fld ''content-range'' (unsatisfiedRange (fl_Size f))]
    | rangePartial \<Rightarrow> partial_calls env f spans (mediaType name) ?tag (ev_now env) ?md
    | rangeIgnore \<Rightarrow> file_calls r f (mediaType name) ?tag (ev_now env) ?md)"
    using selects_calls [OF assms(2,3)] assms(4,5,7,8) by (cases v) (simp_all add: serve_file_calls_def sz Let_def)
  show ?thesis
  proof (intro exI [of _ ?cs] conjI allI static_serve_runs [OF assms(1)])
    show "case v of
       rangeIgnore \<Rightarrow> sent_value '':status'' ?cs = Some ''200'' \<and> body_of ?cs = c
     | rangeNotSatisfiable \<Rightarrow> sent_value '':status'' ?cs = Some ''416'' \<and>
         sent_value ''content-range'' ?cs = Some (''bytes */'' @ FormatInt (int (length c)))
     | rangePartial \<Rightarrow> sent_value '':status'' ?cs = Some ''206'' \<and>
         (if length spans = 1 then body_of ?cs = octets_at c (spans ! 0) \<and> sent_value ''content-range'' ?cs = Some (contentRange (spans ! 0) (int (length c)))
          else body_of ?cs = body_parts (mediaType name) (ev_boundary env) c spans \<and>
            sent_value ''content-type'' ?cs = Some (''multipart/byteranges; boundary='' @ ev_boundary env))"
    proof (cases v)
      case rangeIgnore
      with file_body [OF assms(6)] assms(4) sent_fields(1) [OF file_section] show ?thesis unfolding cs by simp
    next
      case rangeNotSatisfiable
      with sent_fields(1) [OF answer_section] sent_fields(3) [OF answer_section, of "''content-range''"] show ?thesis
        unfolding cs by (simp add: unsatisfiedRange_def sz)
    next
      case rangePartial
      note sp = evaluateRange_spans [OF assms(8) [unfolded rangePartial]]
      have "list_all (inside (fl_Size f)) spans" "spans \<noteq> []" using sp f sz by simp_all
      note body = partial_body [OF assms(6) f this, of env "mediaType name" ?tag "ev_now env" ?md]
      let ?ps = "partial_calls env f spans (mediaType name) ?tag (ev_now env) ?md"
      show ?thesis
      proof (cases "length spans = 1")
        case True
        note sect = partial_section [of env f spans "mediaType name" ?tag "ev_now env" ?md, unfolded if_P [OF True]]
        from sent_fields(1) [OF sect] sent_fields(3) [OF sect, of "''content-range''"] body rangePartial True
        show ?thesis unfolding cs by (simp add: no_content_range map_add_def sz)
      next
        case False
        note sect = partial_section [of env f spans "mediaType name" ?tag "ev_now env" ?md, unfolded if_not_P [OF False]]
        from sent_fields(1,2) [OF sect] body rangePartial False show ?thesis unfolding cs by simp
      qed
    qed
  qed
qed

lemma GET_sends_the_content_witness:
  "\<exists>cs. (\<forall>wh s. static_serve (one_env [10, 20, 30, 40]) wh (ask ''GET'' ''/a.txt'' [fld ''range'' ''bytes=1-2'']) s = run_calls wh cs s) \<and>
     sent_value '':status'' cs = Some ''206'' \<and> body_of cs = [20, 30]"
proof -
  let ?env = "one_env [10, 20, 30, 40]" and ?r = "ask ''GET'' ''/a.txt'' [fld ''range'' ''bytes=1-2'']"
  let ?tag = "ev_tag ?env ''a.txt'' (one_file [10, 20, 30, 40]) (ev_now ?env)"
  have env: "env_ok ?env" by (rule one_env_ok) simp
  have tag: "?tag = [CHR 0x22, CHR ''t'', CHR 0x22]" by (simp add: one_env_def)
  have sel: "selects ?env (rq_Path ?r) ''a.txt'' (one_file [10, 20, 30, 40])"
    using one_selects by (simp add: ask_def)
  have ev: "evaluate ?r tag md now = verdictSend" for tag md now
    by (simp add: evaluate_def evaluate_cached_def ask_def condDate_def lookup_def new_request_def)
  have "evaluateRange ?r [CHR 0x22, CHR ''t'', CHR 0x22] 4 = ([\<lparr>sp_first = 1, sp_last = 2\<rparr>], rangePartial)" by code_simp
  then have rg: "evaluateRange ?r ?tag (int (length [10::byte, 20, 30, 40])) = ([\<lparr>sp_first = 1, sp_last = 2\<rparr>], rangePartial)"
    unfolding tag by simp
  have reg: "fl_IsRegular (one_file [10, 20, 30, 40])" by (simp add: one_file_def)
  from GET_sends_the_content [OF env sel _ _ reg one_content ev rg] show ?thesis
    by (auto simp: ask_def octets_at_def)
qed

subsection \<open>Confinement\<close>

definition inside_dir :: "string \<Rightarrow> bool" where
  "inside_dir name \<longleftrightarrow> name = ''.'' \<or> list_all safe_name (Split name (CHR ''/''))"

lemma Join_snoc: "ss \<noteq> [] \<Longrightarrow> Join (ss @ [x]) c = Join ss c @ c # x"
  by (induction ss c rule: Join.induct) auto

lemma Split_safe: "ss \<noteq> [] \<Longrightarrow> list_all safe_name ss \<Longrightarrow> Split (Join ss (CHR ''/'')) (CHR ''/'') = ss"
  by (rule Split_Join) (use safe_name_no_slash in \<open>auto simp: list_all_iff\<close>)

lemma resolve_inside: "resolve t = Some (n, slash) \<Longrightarrow> inside_dir n"
proof -
  assume "resolve t = Some (n, slash)"
  then obtain ss where ss: "\<forall>s\<in>set ss. dots s \<or> safe_name s"
    "n = (if walk ss [] = [] then ''.'' else Join (walk ss []) (CHR ''/''))"
    using resolve_Some by metis
  have "list_all safe_name (walk ss [])" by (rule walk_safe) (use ss(1) in auto)
  with ss(2) Split_safe [of "walk ss []"] show ?thesis by (simp add: inside_dir_def)
qed

lemma index_inside: "inside_dir n \<Longrightarrow> inside_dir (path_join n indexFile)"
proof -
  assume n: "inside_dir n"
  have safe: "safe_name ''index.html''" by code_simp
  show ?thesis
  proof (cases "n = ''.''")
    case True
    have "Split ''index.html'' (CHR ''/'') = [''index.html'']" by code_simp
    with True safe show ?thesis by (simp add: inside_dir_def path_join_def)
  next
    case False
    define ss where "ss = Split n (CHR ''/'')"
    have ss: "ss \<noteq> []" "list_all safe_name ss" "n = Join ss (CHR ''/'')"
      using n False by (simp_all add: inside_dir_def ss_def)
    have "path_join n indexFile = Join (ss @ [''index.html'']) (CHR ''/'')"
      using False ss(1) by (simp add: path_join_def Join_snoc flip: ss(3))
    with Split_safe [of "ss @ [''index.html'']"] safe ss show ?thesis by (simp add: inside_dir_def)
  qed
qed

lemma answer_other_dir: "answer (env\<lparr>ev_open := g\<rparr>) wh r status kind body extra s = answer env wh r status kind body extra s"
  by (simp add: answer_def)

lemma serve_file_other_dir: "serve_file (env\<lparr>ev_open := g\<rparr>) wh r name f s = serve_file env wh r name f s"
proof -
  have env: "ev_now (env\<lparr>ev_open := g\<rparr>) = ev_now env" "ev_tag (env\<lparr>ev_open := g\<rparr>) = ev_tag env" "ev_boundary (env\<lparr>ev_open := g\<rparr>) = ev_boundary env"
    by simp_all
  show ?thesis unfolding serve_file_def answer_other_dir partial_def static_file_def env ..
qed

text \<open>C34: Nothing outside the served directory can be reached through the handler, whatever a peer sends: the response depends only on what opening the directory itself,
  and names made of safe segments (none of them empty, none a dot segment, without a separator of any
  platform), would give. Two file systems that agree on these names cannot be told apart, whatever differs elsewhere.\<close>

theorem nothing_outside_is_served:
  assumes "\<And>name. inside_dir name \<Longrightarrow> ev_open env name = g name"
  shows "static_serve env wh r s = static_serve (env\<lparr>ev_open := g\<rparr>) wh r s"
proof (cases "resolve (rq_Path r)")
  case None
  then show ?thesis by (simp add: static_serve_def answer_other_dir)
next
  case (Some p)
  obtain n slash where n: "resolve (rq_Path r) = Some (n, slash)" using Some by (cases p) simp
  have now_open: "ev_open (env\<lparr>ev_open := g\<rparr>) = g" by simp
  note opens = assms [OF resolve_inside [OF n]] assms [OF index_inside [OF resolve_inside [OF n]]]
  show ?thesis
    unfolding static_serve_def n option.case prod.case Let_def answer_other_dir serve_file_other_dir opens now_open ..
qed

lemma nothing_outside_is_served_witness:
  "\<forall>wh s. static_serve (one_env [1]) wh (ask ''GET'' ''/%2e./secret'' []) s =
   static_serve ((one_env [1])\<lparr>ev_open := (ev_open (one_env [1]))(''../secret'' \<mapsto> one_file [2])\<rparr>) wh (ask ''GET'' ''/%2e./secret'' []) s"
proof (intro allI nothing_outside_is_served)
  have "\<not> inside_dir ''../secret''" by code_simp
  then show "ev_open (one_env [1]) name = ((ev_open (one_env [1]))(''../secret'' \<mapsto> one_file [2])) name" if "inside_dir name" for name
    using that by (metis fun_upd_apply)
qed

subsection \<open>HEAD\<close>

lemma evaluate_head: "evaluate (r\<lparr>rq_Method := m\<rparr>) tag md now = evaluate r tag md now"
proof -
  have "rq_Fields (r\<lparr>rq_Method := m\<rparr>) = rq_Fields r" by simp
  then show ?thesis unfolding evaluate_def evaluate_cached_def condDate_def by (rule ssubst) (rule refl)
qed

lemma evaluateRange_none: "snd (lookup (rq_Fields r) fieldRange) \<noteq> 1 \<or> rq_Method r \<noteq> methodGet \<Longrightarrow> evaluateRange r tag sz = ([], rangeIgnore)"
  by (auto simp: evaluateRange_def split: prod.splits)

lemma answer_head: "answer_calls env (r\<lparr>rq_Method := methodHead\<rparr>) status kind body extra = [CBodyless (section_of (answer_calls env r status kind body extra))]"
  by (simp add: answer_calls_def Let_def)

lemma file_head: "file_calls (r\<lparr>rq_Method := methodHead\<rparr>) f kind tag now md = [CBodyless (section_of (file_calls r f kind tag now md))]"
  by (simp add: file_calls_def Let_def)

lemma serve_file_head:
  assumes "snd (lookup (rq_Fields r) fieldRange) \<noteq> 1"
  shows "serve_file_calls env (r\<lparr>rq_Method := methodHead\<rparr>) name f = [CBodyless (section_of (serve_file_calls env r name f))]"
proof -
  have none: "evaluateRange r tag sz = ([], rangeIgnore)" "evaluateRange (r\<lparr>rq_Method := methodHead\<rparr>) tag sz = ([], rangeIgnore)" for tag sz
    by (rule evaluateRange_none; use assms in simp)+
  show ?thesis
    unfolding serve_file_calls_def Let_def evaluate_head none prod.case rangeVerdict.case answer_head file_head
    by (simp split: verdict.split)
qed

lemma lookup_without: "n \<noteq> m \<Longrightarrow> lookup_loop (List.filter (\<lambda>f. Name f \<noteq> m) fs) n v k = lookup_loop fs n v k"
  by (induction fs n v k rule: lookup_loop.induct) auto

text \<open>The same request without its range fields.\<close>

definition without_range :: "request \<Rightarrow> request" where
  "without_range r = r\<lparr>rq_Fields := List.filter (\<lambda>f. Name f \<noteq> fieldRange) (rq_Fields r)\<rparr>"

lemma without_range_facts:
  "rq_Method (without_range r) = rq_Method r" "rq_Path (without_range r) = rq_Path r"
  "snd (lookup (rq_Fields (without_range r)) fieldRange) = 0" "(without_range r)\<lparr>rq_Method := m\<rparr> = without_range (r\<lparr>rq_Method := m\<rparr>)"
proof -
  have "snd (lookup_loop (List.filter (\<lambda>f. Name f \<noteq> m) fs) m v k) = k" for m fs v k
    by (induction fs) auto
  then show "snd (lookup (rq_Fields (without_range r)) fieldRange) = 0" by (simp add: without_range_def lookup_def)
qed (simp_all add: without_range_def)

lemma lookup_without_range: "n \<noteq> fieldRange \<Longrightarrow> lookup (rq_Fields (without_range r)) n = lookup (rq_Fields r) n"
  by (simp add: without_range_def lookup_def lookup_without)

lemma evaluate_without_range: "evaluate (without_range r) tag md now = evaluate r tag md now"
proof -
  have "fieldIfMatch \<noteq> fieldRange" "fieldIfNoneMatch \<noteq> fieldRange" "fieldIfModifiedSince \<noteq> fieldRange" "fieldIfUnmodifiedSince \<noteq> fieldRange"
    by simp_all
  note looks = this [THEN lookup_without_range]
  show ?thesis unfolding evaluate_def evaluate_cached_def condDate_def looks ..
qed

text \<open>A response depends on a range field only where there is exactly one and the method is GET.\<close>

lemma response_without_range:
  assumes "snd (lookup (rq_Fields r) fieldRange) \<noteq> 1 \<or> rq_Method r \<noteq> methodGet"
  shows "response_calls env (without_range r) = response_calls env r"
proof -
  have none: "evaluateRange r tag sz = ([], rangeIgnore)" "evaluateRange (without_range r) tag sz = ([], rangeIgnore)" for tag sz
    by (rule evaluateRange_none; use assms without_range_facts(3) in simp)+
  have answers: "answer_calls env (without_range r) = answer_calls env r" "file_calls (without_range r) = file_calls r"
    by (simp_all add: fun_eq_iff answer_calls_def file_calls_def without_range_facts)
  have "serve_file_calls env (without_range r) name f = serve_file_calls env r name f" for name f
    unfolding serve_file_calls_def evaluate_without_range none answers ..
  then show ?thesis unfolding response_calls_def without_range_facts answers by presburger
qed

text \<open>C35: A HEAD request is answered as a GET without the range would be, and without content: for every target, with the same
  conditional fields, the handler makes one call, of a header section that ends the stream and that is field for field the section of the response to the GET without its range
  fields, whether that is the file, a 304, a 412, a redirect or an error. A GET that has no range field, or several, is answered as if it had none, so it is the GET
  itself that HEAD agrees with; a GET with exactly one can be answered with a 206 or 416 instead, which a HEAD never is. The hypothesis on the
  environment includes that the files hold their content while the response is sent.\<close>

theorem HEAD_agrees_with_GET:
  assumes "env_ok env" "rq_Method r = methodGet"
  shows "\<exists>cs. (\<forall>(wh :: 'e write_half) s. static_serve env wh (without_range r) s = run_calls wh cs s) \<and>
    (snd (lookup (rq_Fields r) fieldRange) \<noteq> 1 \<longrightarrow> (\<forall>(wh :: 'e write_half) s. static_serve env wh r s = run_calls wh cs s)) \<and>
    (\<forall>(wh :: 'e write_half) s. static_serve env wh (r\<lparr>rq_Method := methodHead\<rparr>) s = Some (WriteBodylessHeader wh (section_of cs) s))"
proof -
  let ?g = "without_range r"
  have count: "snd (lookup (rq_Fields ?g) fieldRange) \<noteq> 1" using without_range_facts(3) [of r] by linarith
  have "response_calls env (?g\<lparr>rq_Method := methodHead\<rparr>) = [CBodyless (section_of (response_calls env ?g))]"
    unfolding response_calls_def answer_head using assms(2) serve_file_head [OF count] without_range_facts(1) [of r]
    by (simp add: answer_head [simplified] split: option.split)
  then have head: "response_calls env (r\<lparr>rq_Method := methodHead\<rparr>) = [CBodyless (section_of (response_calls env ?g))]"
    unfolding without_range_facts(4) using response_without_range [of "r\<lparr>rq_Method := methodHead\<rparr>" env] by simp
  show ?thesis
  proof (intro exI [of _ "response_calls env ?g"] conjI allI impI static_serve_runs [OF assms(1)])
    show "static_serve env wh r s = run_calls wh (response_calls env ?g) s" if "snd (lookup (rq_Fields r) fieldRange) \<noteq> 1"
      for wh :: "'e write_half" and s
      using static_serve_runs [OF assms(1)] response_without_range that by simp
    show "static_serve env wh (r\<lparr>rq_Method := methodHead\<rparr>) s = Some (WriteBodylessHeader wh (section_of (response_calls env ?g)) s)"
      for wh :: "'e write_half" and s
      unfolding static_serve_runs [OF assms(1)] head by (rule run_bodyless)
  qed
qed

lemma HEAD_agrees_with_GET_witness:
  "\<exists>cs. (\<forall>(wh :: 'e write_half) s. static_serve (one_env [1, 2]) wh (ask ''GET'' ''/a.txt'' []) s = run_calls wh cs s) \<and>
    (\<forall>(wh :: 'e write_half) s. static_serve (one_env [1, 2]) wh (ask ''HEAD'' ''/a.txt'' [fld ''range'' ''bytes=0-0'']) s = Some (WriteBodylessHeader wh (section_of cs) s))"
proof -
  let ?r = "ask ''GET'' ''/a.txt'' [fld ''range'' ''bytes=0-0'']"
  have ok: "env_ok (one_env [1, 2])" by (rule one_env_ok) simp
  have get: "rq_Method ?r = methodGet" by (simp add: ask_def)
  have "?r\<lparr>rq_Method := methodHead\<rparr> = ask ''HEAD'' ''/a.txt'' [fld ''range'' ''bytes=0-0'']"
    "without_range ?r = ask ''GET'' ''/a.txt'' []" by (simp_all add: ask_def without_range_def)
  from HEAD_agrees_with_GET [where 'e = 'e, OF ok get, unfolded this] show ?thesis by blast
qed

subsection \<open>Redirects\<close>

text \<open>
  The location of a redirect is the target with a slash appended, and a target may begin with two slashes: empty segments are
  dropped by \<open>resolve\<close>. Then the location is a network-path reference (RFC 3986, section 4.2), and what was the first segment is a host.
\<close>

lemma redirect_can_name_a_host:
  assumes "ev_open env ''docs'' = Some d" "fl_IsDir d"
  shows "sent_value ''location'' (response_calls env (ask ''GET'' ''//docs'' [])) = Some ''//docs/''"
proof -
  have "resolve ''//docs'' = Some (''docs'', False)" "withSlash ''//docs'' = ''//docs/''" by code_simp+
  with assms have "response_calls env (ask ''GET'' ''//docs'' []) =
      answer_calls env (ask ''GET'' ''//docs'' []) status301 [] [] [fld ''location'' ''//docs/'']"
    by (simp add: response_calls_def ask_def new_request_def)
  then show ?thesis using sent_fields(3) [OF answer_section, of "''location''"] by simp
qed

lemma redirect_can_name_any_host:
  assumes "ev_open env ''.'' = Some d" "fl_IsDir d"
  shows "sent_value ''location'' (response_calls env (ask ''GET'' ''//evil.example/..'' [])) = Some ''//evil.example/../''"
proof -
  have "resolve ''//evil.example/..'' = Some (''.'', False)" "withSlash ''//evil.example/..'' = ''//evil.example/../''" by code_simp+
  with assms have "response_calls env (ask ''GET'' ''//evil.example/..'' []) =
      answer_calls env (ask ''GET'' ''//evil.example/..'' []) status301 [] [] [fld ''location'' ''//evil.example/../'']"
    by (simp add: response_calls_def ask_def new_request_def)
  then show ?thesis using sent_fields(3) [OF answer_section, of "''location''"] by simp
qed

end
