(* ===== verification/Spec2Isabelle.thy ===== *)
theory Spec2Isabelle
  imports FrameProps HpackProps Limits SenderProps StreamProps RequestProps ResponseProps
    TagCacheProps ServeProps
begin

text \<open>
  The verification of \<^verbatim>\<open>zdh\<close>, an HTTP/2 server in Go (\<^verbatim>\<open>src/internal\<close>) that serves a directory.

  \<^bold>\<open>The program.\<close> A connection has a reader goroutine and a writer goroutine. The reader takes frames off the
  wire (\<^verbatim>\<open>internal/frame\<close>), the connection (\<^verbatim>\<open>internal/server/conn.go\<close>) hands those of streams to the stream table
  (\<^verbatim>\<open>internal/stream\<close>), which decodes header blocks (\<^verbatim>\<open>internal/hpack\<close> over \<^verbatim>\<open>internal/huffman\<close>), keeps the receive half of
  flow control and passes requests to \<^verbatim>\<open>internal/exchange\<close>, which validates them (\<^verbatim>\<open>internal/request\<close>, with priorities in
  \<^verbatim>\<open>internal/priority\<close> over \<^verbatim>\<open>internal/sfv\<close>) and starts one goroutine per request. That runs the file handler
  (\<^verbatim>\<open>internal/static\<close>) on a response writer (\<^verbatim>\<open>internal/response\<close>), which encodes header sections, reserves flow-control credit
  (\<^verbatim>\<open>internal/flow\<close>) and enqueues frames; the scheduler (\<^verbatim>\<open>internal/server/scheduler.go\<close>) orders them and the writer goroutine
  (\<^verbatim>\<open>internal/server/writer.go\<close>) flushes them. \<^verbatim>\<open>internal/limits\<close> holds the bounds and the token bucket, \<^verbatim>\<open>internal/h2\<close> the vocabulary.

  \<^bold>\<open>Conventions.\<close> A Go struct is a record, an error a value of \<open>error\<close> or a sum; a uint is a word of its width
  and an int or int64 an integer with the reduction to 64 bits written out where it can matter; a string is a
  list of octets. A panic is \<open>None\<close> or the error \<open>Panic\<close>, and theorems exclude it. Messages in errors are
  diagnostics and are not kept. A mutex makes each critical section one step; a history is a sequence of steps in any order that
  the program allows, and the properties are about all histories. What is not under \<^verbatim>\<open>src/\<close> (the
  operating system's reads and writes, the clock, SHA-256) is an argument of the definitions that use it.

  \<^bold>\<open>Theories and code.\<close>
  \<^item> \<open>Prelude\<close>, \<open>Store\<close>, \<open>GoStrings\<close>: results, big-endian integers, slices, maps, Go's string functions.
  \<^item> \<open>H2\<close>: \<^verbatim>\<open>h2/types.go\<close>. \<open>FrameTypes\<close>, \<open>FrameCodec\<close>, \<open>FrameWire\<close>: the frame types with their serialisers and
    parsers. \<open>FrameReader\<close>: \<^verbatim>\<open>frame/reader.go\<close>; \<open>FrameWriter\<close>: \<^verbatim>\<open>frame/writer.go\<close>. \<open>ReaderSpec\<close> states what a reader promises
    and \<open>FrameProps\<close> proves it: frames that are written are read, only legal frames are delivered, every refusal has its error.
  \<^item> \<open>Huffman\<close>, \<open>Hpack\<close>: the two coders. \<open>HuffmanCode\<close>, \<open>HuffmanSpec\<close> and \<open>HuffmanProps\<close> show the coder exact against the
    code as bit strings, \<open>HpackWire\<close> the primitives, \<open>HpackTable\<close> the table as a queue of the newest entries that fit, and \<open>HpackSync\<close> and
    \<open>HpackProps\<close> that encoder and decoder stay in step for a whole connection.
  \<^item> \<open>Limits\<close>: bounds, bucket, timeouts. \<open>Window\<close>, \<open>Sender\<close>: \<^verbatim>\<open>flow/window.go\<close>, \<^verbatim>\<open>flow/sender.go\<close>; \<open>SenderProps\<close>: credit is conserved and
    no waiting writer is forgotten.
  \<^item> \<open>StreamTable\<close>: \<^verbatim>\<open>stream/stream.go\<close>, \<^verbatim>\<open>stream/table.go\<close>. \<open>TableOk\<close> is the invariant, \<open>TableSteps\<close> the histories and the
    stream states of RFC 9113, \<open>TableCredit\<close> the receive windows, \<open>TableResets\<close> the bound on resets, \<open>TableProps\<close> and \<open>StreamProps\<close> the properties.
  \<^item> \<open>Sfv\<close>, \<open>Priority\<close>, \<open>Request\<close>: structured fields, priorities, request validation; \<open>SfvProps\<close> and \<open>RequestProps\<close>.
  \<^item> \<open>Scheduler\<close>, \<open>FrameQueue\<close>: \<^verbatim>\<open>server/scheduler.go\<close>, \<^verbatim>\<open>server/writer.go\<close>. \<open>SchedOk\<close> is the invariant, \<open>SchedOrder\<close>, \<open>SchedProps\<close> and \<open>FieldOrder\<close>
    the orders in which frames leave; \<open>FqOk\<close> and \<open>FqProps\<close> the queue's promises (order, depth, wake-ups, shutdown). Depth, wake-ups, delivery and shutdown
    hold whatever is handed over; what is said of the order of frames holds where the frames handed over keep each stream's
    field blocks whole (\<open>streams_intact\<close>), which the handlers' responses do and the reader's RST_STREAM and WINDOW_UPDATE need not.
  \<^item> \<open>Response\<close>: \<^verbatim>\<open>internal/response\<close>. \<open>ResponseOk\<close> and \<open>ResponseRun\<close> are the responses of all streams of a connection, \<open>WriteSide\<close> the
    frame queue and the sender as the write half under them, \<open>ResponseProps\<close> what reaches the peer.
  \<^item> \<open>StaticPath\<close>: \<^verbatim>\<open>static/path.go\<close>, \<^verbatim>\<open>static/media.go\<close>; \<open>PathProps\<close>: names are confined to the directory. \<open>StaticTags\<close>, \<open>TagCache\<close>: \<^verbatim>\<open>static/etag.go\<close>;
    \<open>StaticRanges\<close>: \<^verbatim>\<open>static/ranges.go\<close>; \<open>HttpDate\<close>, \<open>Conditional\<close>: \<^verbatim>\<open>static/conditional.go\<close> over the part of package time that it uses;
    \<open>Static\<close>: \<^verbatim>\<open>static/static.go\<close>. \<open>TagProps\<close>, \<open>TagCacheProps\<close>, \<open>RangeProps\<close> and \<open>DateProps\<close> hold their properties.
    \<open>StaticCalls\<close> reads the handler as a list of calls on the writer, \<open>StaticProps\<close> shows that the calls are those of one well-formed response, whole or
    else ended by an error, and
    \<open>ServeProps\<close> what it holds: the selected content, the same fields for HEAD, nothing from outside the directory.
  \<^item> This theory joins the stream table to the header codec: refusing requests does not break header compression.

  \<^bold>\<open>Interfaces.\<close> \<open>wire_source\<close> (a sender and a receiver on an octet stream) is interpreted on HPACK's integers, strings and blocks, and its
  extension \<open>sound_source\<close> on the frame writer and reader. \<open>frame_source\<close> is what the frame queue needs of a scheduler, interpreted on
  \<open>Scheduler\<close>. \<open>sending_half\<close> is what a response needs of the connection's write half, interpreted on the frame queue with the sender.

  \<^bold>\<open>Bounds and fuel.\<close> Loops are structural or terminate by a measure. \<open>Write_loop\<close> of \<open>Response\<close> is the one that need not end, and is a partial
  function; \<open>Write_is_total\<close> shows that it ends on the server's write half. The queue of frames takes at most 32 frames that are not exempt; a
  shut-down writer is done after 4 n + 5 of its steps with n frames waiting.

  \<^bold>\<open>Not modelled.\<close> \<^verbatim>\<open>server/conn.go\<close> (the dispatch of the reader goroutine) and \<^verbatim>\<open>internal/exchange\<close> (request bodies), whose parts
  that the models need are arguments or steps of the histories; \<^verbatim>\<open>server/server.go\<close> and \<^verbatim>\<open>server/tls.go\<close> (listeners, TLS and the
  supervision of goroutines: calls into net, crypto/tls and sync), \<^verbatim>\<open>internal/certgen\<close> (calls into crypto/x509), \<^verbatim>\<open>internal/attack\<close> (a test
  client) and \<^verbatim>\<open>cmd/zdh\<close> (flags and wiring).
\<close>

subsection \<open>The stream table over the header codec\<close>

text \<open>The codec as the stream table's \<open>HeaderCodec\<close>: the table does not look at a decoding error.\<close>

definition hpack_decode :: "byte list \<Rightarrow> codec \<Rightarrow> (error + field list) \<times> codec" where
  "hpack_decode b c =
     (case Codec_Decode c b of
        (Inl _, c) \<Rightarrow> (Inl (ConnError CompressionError), c)
      | (Inr flds, c) \<Rightarrow> (Inr flds, c))"

text \<open>The blocks that a peer's encoder makes of the field lists it is given.\<close>

fun encode_blocks :: "codec \<Rightarrow> field list list \<Rightarrow> byte list list \<times> codec" where
  "encode_blocks c [] = ([], c)"
| "encode_blocks c (fs # fss) =
     (case Codec_Encode c fs of
        (b, c) \<Rightarrow> (case encode_blocks c fss of (bs, c) \<Rightarrow> (b # bs, c)))"

lemma decode_all_Cons [simp]: "decode_all d (b # bs) c = decode_all d bs (snd (dep_Decode d b c))"
  by (simp add: decode_all_def)

lemma decode_encoded_blocks:
  "in_step c e \<Longrightarrow> list_all (list_all field_fits) fss \<Longrightarrow> encode_blocks c fss = (bs, c') \<Longrightarrow>
     dep_Decode d = hpack_decode \<Longrightarrow>
     in_step c' (decode_all d bs e) \<and> length bs = length fss \<and>
     (\<forall>k<length fss. fst (dep_Decode d (bs ! k) (decode_all d (take k bs) e)) = Inr (fss ! k))"
proof (induction fss arbitrary: c e bs)
  case (Cons fs fss)
  obtain b c1 bs1 where enc: "Codec_Encode c fs = (b, c1)" "encode_blocks c1 fss = (bs1, c')" "bs = b # bs1"
    using Cons.prems(3) by (auto split: prod.splits)
  obtain e1 where dec: "Codec_Decode e b = (Inr fs, e1)" "in_step c1 e1"
    using Codec_Decode_Encode [OF Cons.prems(1) _ enc(1)] Cons.prems(2) by (auto simp: list_all_iff)
  then have d: "dep_Decode d b e = (Inr fs, e1)" by (simp add: Cons.prems(4) hpack_decode_def)
  note IH = Cons.IH [OF dec(2) _ enc(2) Cons.prems(4)]
  show ?case
  proof (intro conjI allI impI)
    show "fst (dep_Decode d (bs ! k) (decode_all d (take k bs) e)) = Inr ((fs # fss) ! k)" if "k < length (fs # fss)" for k
      using that IH Cons.prems(2) enc(3) d by (cases k) auto
  qed (use IH Cons.prems(2) enc(3) d in auto)
qed simp

text \<open>C7: Header compression survives refusals: over any history of a connection whose handlers report only octets they were
  given (\<open>reports_ok\<close>) and whose header blocks are what a peer's HPACK encoder made of some field lists short enough for HPACK's integers, with streams opened, refused, reset and
  closed in between, every block decoded to exactly the fields that were encoded, and the next
  block will, because the table's decoder is in step with the peer's encoder.\<close>

theorem compression_survives_refusals:
  assumes "Table_New (Some NewCodec) reqs n None now0 = Inr t0" "table_history d t0 h t" "reports_ok h"
    and "dep_Decode d = hpack_decode" "list_all (list_all field_fits) fss"
    and "header_blocks h = (bs, None)" "encode_blocks NewCodec fss = (bs, peer)"
    and "list_all field_fits fs" "Codec_Encode peer fs = (b, peer')"
  shows "(\<forall>k<length fss. fst (hpack_decode (bs ! k) (decode_all d (take k bs) NewCodec)) = Inr (fss ! k)) \<and>
         fst (hpack_decode b (tb_codec t)) = Inr fs"
proof -
  note ok = New_start [OF assms(1,2)]
  have t0: "tb_assembling t0 = None" "tb_codec t0 = NewCodec"
    using assms(1) by (auto simp: Table_New_def split: option.splits)
  from table_history_blocks [OF assms(2) ok(1,2) assms(3) t0(1)] assms(6) t0(2)
  have codec: "tb_codec t = decode_all d bs NewCodec" by simp
  note dec = decode_encoded_blocks [OF in_step_New assms(5,7,4)]
  from Codec_Decode_Encode [OF conjunct1 [OF dec] _ assms(9)] assms(8)
  obtain e where "Codec_Decode (tb_codec t) b = (Inr fs, e)" by (auto simp: codec list_all_iff)
  with dec assms(4) show ?thesis by (simp add: hpack_decode_def)
qed

text \<open>The history of the witness: a request that is refused because it depends on itself, and one that
  is not; the peer's encoder has put the field of the first in its table and refers to it.\<close>

definition hpack_deps :: "(codec, unit) deps" where
  "hpack_deps = \<lparr>dep_Decode = hpack_decode, dep_Headers = \<lambda>s flds es r. (None, r),
     dep_Data = \<lambda>s b es r. (None, r), dep_Trailers = \<lambda>s flds r. (None, r), dep_Canceled = \<lambda>s c r. r\<rparr>"

definition hpack_table :: "(codec, unit) table" where
  "hpack_table = (case Table_New (Some NewCodec) (Some ()) 0 None 0 of Inr t \<Rightarrow> t)"

definition first_block :: "byte list" where
  "first_block = fst (Codec_Encode NewCodec [trace_id])"

definition refused_request :: "unit table_op list" where
  "refused_request =
     [TFrame 0 (HeadersFrame \<lparr>hf_StreamID = 1, hf_EndStream = True, hf_EndHeaders = True, hf_Fragment = first_block,
        hf_Priority = True, hf_Exclusive = False, hf_StreamDependency = 1, hf_Weight = 0,
        hf_Padded = False, hf_PadLen = 0\<rparr>)]"

lemma compression_survives_refusals_witness:
  "fst (hpack_decode (fst (Codec_Encode (snd (Codec_Encode NewCodec [trace_id])) [trace_id, secret]))
     (tb_codec (snd (table_run hpack_deps refused_request [] hpack_table)))) = Inr [trace_id, secret]"
proof -
  let ?h = "fst (table_run hpack_deps refused_request [] hpack_table)"
  let ?t = "snd (table_run hpack_deps refused_request [] hpack_table)"
  have new: "Table_New (Some NewCodec) (Some ()) 0 None 0 = Inr hpack_table"
    by (simp add: hpack_table_def Table_New_def)
  obtain e where "Codec_Decode NewCodec first_block = (Inr [trace_id], e)"
    using Codec_Decode_Encode [OF in_step_New _ prod.collapse [symmetric], of "[trace_id]"] sample_fits
    by (auto simp: first_block_def)
  then have d1: "hpack_decode first_block NewCodec = (Inr [trace_id], e)" by (simp add: hpack_decode_def)
  have h: "?h = map (\<lambda>op. (op, Some (StreamError 1 ProtocolError))) refused_request"
    by (simp add: refused_request_def hpack_table_def Table_New_def HandleFrame_def drainSent_def drainCredit_def
        no_credit_def table_headers_def Table_Stream_def openStream_def admit_def StreamTable.extend_def completeBlock_def
        hpack_deps_def d1)
  have g: "list_all goes_on (map snd ?h)" unfolding h by (simp add: refused_request_def)
  have run: "table_history hpack_deps hpack_table ?h ?t"
    by (rule table_run_history [OF table_history.start, of _ refused_request])
      (simp, simp add: refused_request_def, rule g)
  have rep: "reports_ok ?h"
    unfolding h by (rule reports_okI) (auto simp: refused_request_def consumed_def TableCredit.taken_def take_Cons' split: if_splits)
  have blocks: "header_blocks ?h = ([first_block], None)"
    unfolding h by (simp add: refused_request_def header_blocks_def)
  have enc: "encode_blocks NewCodec [[trace_id]] = ([first_block], snd (Codec_Encode NewCodec [trace_id]))"
    by (simp add: first_block_def split: prod.split)
  have dec: "dep_Decode hpack_deps = hpack_decode" by (simp add: hpack_deps_def)
  from compression_survives_refusals [OF new run rep dec _ blocks enc _ prod.collapse [symmetric], of "[trace_id, secret]"]
  show ?thesis by (simp add: sample_fits)
qed

end
